(* ===== verification/Pg_Prelude.thy ===== *)
theory Pg_Prelude
  imports Main "HOL-Library.Word" "HOL-Library.Monad_Syntax"
begin

text \<open>
  Shared vocabulary of the development: machine integers of Go as words, byte strings, Go slices
  with their spare capacity, the big- and little-endian codecs of \<open>encoding/binary\<close>, and
  generic facts on lists, options and words that the component theories use.

  Conventions. A Go run-time panic (index or slice out of range, send on a closed channel, division
  by zero) is the value \<^const>\<open>None\<close> of an option; a Go error result is \<^const>\<open>Inl\<close> of a sum.
  A function that can both panic and fail has type \<open>(error + 'a) option\<close>.
\<close>

unbundle bit_operations_syntax

section \<open>Machine integers and byte strings\<close>

type_synonym u8 = "8 word"
type_synonym u16 = "16 word"
type_synonym u32 = "32 word"
type_synonym u64 = "64 word"
type_synonym bytes = "8 word list"

named_theorems codec_simps \<open>encode/decode equations of the byte codecs\<close>
named_theorems slice_simps \<open>evaluation of Go slice expressions\<close>

section \<open>Go slices\<close>

text \<open>
  A Go slice is a window on a backing array: \<open>sl_data\<close> are the elements up to \<open>len\<close>,
  \<open>sl_spare\<close> the elements of the backing array between \<open>len\<close> and \<open>cap\<close>. Indexing is
  bounded by \<open>len\<close>, but a slice expression \<open>s[i:j]\<close> is bounded by \<open>cap\<close>: it can read
  bytes beyond \<open>len\<close>.
\<close>

datatype gslice = GSlice (sl_data: bytes) (sl_spare: bytes)

definition sl_len :: "gslice \<Rightarrow> nat" where
  "sl_len s = length (sl_data s)"

definition sl_cap :: "gslice \<Rightarrow> nat" where
  "sl_cap s = length (sl_data s) + length (sl_spare s)"

text \<open>\<open>s[i]\<close>\<close>
definition sl_index :: "gslice \<Rightarrow> nat \<Rightarrow> u8 option" where
  "sl_index s i = (if i < sl_len s then Some (sl_data s ! i) else None)"

text \<open>\<open>s[i:j]\<close>\<close>
definition sl_range :: "gslice \<Rightarrow> nat \<Rightarrow> nat \<Rightarrow> gslice option" where
  "sl_range s i j =
     (if i \<le> j \<and> j \<le> sl_cap s
      then Some (GSlice (take (j - i) (drop i (sl_data s @ sl_spare s)))
                        (drop j (sl_data s @ sl_spare s)))
      else None)"

text \<open>\<open>s[i:]\<close>\<close>
definition sl_from :: "gslice \<Rightarrow> nat \<Rightarrow> gslice option" where
  "sl_from s i = sl_range s i (sl_len s)"

text \<open>Slices whose capacity is their length, or whose bounds the code has checked against
  \<open>len\<close>, are plain lists.\<close>

definition lrange :: "'a list \<Rightarrow> nat \<Rightarrow> nat \<Rightarrow> 'a list option" where
  "lrange xs i j = (if i \<le> j \<and> j \<le> length xs then Some (take (j - i) (drop i xs)) else None)"

definition lindex :: "'a list \<Rightarrow> nat \<Rightarrow> 'a option" where
  "lindex xs i = (if i < length xs then Some (xs ! i) else None)"

lemma lrange_append_exact [slice_simps]:
  "i = length xs \<Longrightarrow> j = length xs + length ys \<Longrightarrow> lrange (xs @ ys @ zs) i j = Some ys"
  by (simp add: lrange_def)

lemma sl_index_Some [slice_simps]: "i < length d \<Longrightarrow> sl_index (GSlice d sp) i = Some (d ! i)"
  by (simp add: sl_index_def sl_len_def)

lemma sl_from_Some [slice_simps]:
  "i \<le> length d \<Longrightarrow> sl_from (GSlice d sp) i = Some (GSlice (drop i d) sp)"
  by (simp add: sl_from_def sl_range_def sl_len_def sl_cap_def)

lemma sl_from_None [slice_simps]: "length d < i \<Longrightarrow> sl_from (GSlice d sp) i = None"
  by (simp add: sl_from_def sl_range_def sl_len_def)

lemma sl_range_within [slice_simps]:
  "i \<le> j \<Longrightarrow> j \<le> length d \<Longrightarrow>
   sl_range (GSlice d sp) i j = Some (GSlice (take (j - i) (drop i d)) (drop j d @ sp))"
  by (simp add: sl_range_def sl_cap_def)

section \<open>Integer codecs\<close>

definition put_u16be :: "u16 \<Rightarrow> bytes" where
  "put_u16be v = [ucast (drop_bit 8 v), ucast v]"

definition put_u32be :: "u32 \<Rightarrow> bytes" where
  "put_u32be v = [ucast (drop_bit 24 v), ucast (drop_bit 16 v), ucast (drop_bit 8 v), ucast v]"

fun get_u16be :: "bytes \<Rightarrow> u16 option" where
  "get_u16be (b0 # b1 # _) = Some (ucast b1 OR push_bit 8 (ucast b0))"
| "get_u16be _ = None"

fun get_u32be :: "bytes \<Rightarrow> u32 option" where
  "get_u32be (b0 # b1 # b2 # b3 # _) =
     Some (ucast b3 OR push_bit 8 (ucast b2) OR push_bit 16 (ucast b1) OR push_bit 24 (ucast b0))"
| "get_u32be _ = None"

lemma length_put_u16be [simp]: "length (put_u16be v) = 2"
  by (simp add: put_u16be_def)

lemma length_put_u32be [simp]: "length (put_u32be v) = 4"
  by (simp add: put_u32be_def)

lemma u16_split: "(ucast (ucast v :: u8) OR push_bit 8 (ucast (ucast (drop_bit 8 v) :: u8)) :: u16) = v"
  by (rule bit_word_eqI) (auto simp add: bit_simps)

lemma u32_split:
  "(ucast (ucast v :: u8) OR push_bit 8 (ucast (ucast (drop_bit 8 v) :: u8))
    OR push_bit 16 (ucast (ucast (drop_bit 16 v) :: u8))
    OR push_bit 24 (ucast (ucast (drop_bit 24 v) :: u8)) :: u32) = v"
proof (rule bit_word_eqI)
  fix n assume "n < LENGTH(32)"
  then consider "n < 8" | "8 \<le> n" "n < 16" | "16 \<le> n" "n < 24" | "24 \<le> n" "n < 32"
    by fastforce
  then show "bit (ucast (ucast v :: u8) OR push_bit 8 (ucast (ucast (drop_bit 8 v) :: u8))
      OR push_bit 16 (ucast (ucast (drop_bit 16 v) :: u8))
      OR push_bit 24 (ucast (ucast (drop_bit 24 v) :: u8)) :: u32) n = bit v n"
    by cases (auto simp add: bit_simps)
qed

lemma get_put_u16be [codec_simps, simp]: "get_u16be (put_u16be v @ r) = Some v"
  by (simp add: put_u16be_def u16_split)

lemma get_put_u32be [codec_simps, simp]: "get_u32be (put_u32be v @ r) = Some v"
  by (simp add: put_u32be_def u32_split)

lemma get_put_u16be_exact [codec_simps, simp]: "get_u16be (put_u16be v) = Some v"
  using get_put_u16be [of v "[]"] by simp

lemma get_put_u32be_exact [codec_simps, simp]: "get_u32be (put_u32be v) = Some v"
  using get_put_u32be [of v "[]"] by simp

end
