(* ===== verification/Stun.thy ===== *)
theory Stun
  imports Pg_Prelude
begin

text \<open>
  STUN binding requests and responses (\<open>stun/stun.go\<close>): generation, the attribute walk, both
  parsers, and the fingerprint. Results of \<open>ParseResponse\<close> keep the three values the code returns.
\<close>

section \<open>Addresses\<close>

text \<open>\<open>netip.Addr\<close>: the zero address, an IPv4 address of four bytes, an IPv6 address of sixteen.\<close>
datatype ip_addr = NoAddr | Addr4 bytes | Addr6 bytes

fun ip_ok :: "ip_addr \<Rightarrow> bool" where
  "ip_ok NoAddr = True"
| "ip_ok (Addr4 b) = (length b = 4)"
| "ip_ok (Addr6 b) = (length b = 16)"

definition v4_in_6 :: bytes where "v4_in_6 = replicate 10 0 @ [0xff, 0xff]"

fun Unmap :: "ip_addr \<Rightarrow> ip_addr" where
  "Unmap (Addr6 b) = (if take 12 b = v4_in_6 then Addr4 (drop 12 b) else Addr6 b)"
| "Unmap a = a"

fun As16 :: "ip_addr \<Rightarrow> bytes" where
  "As16 NoAddr = replicate 16 0"
| "As16 (Addr4 b) = v4_in_6 @ b"
| "As16 (Addr6 b) = b"

fun addr_len :: "ip_addr \<Rightarrow> nat" where
  "addr_len NoAddr = 0"
| "addr_len (Addr4 b) = 4"
| "addr_len (Addr6 b) = 16"

definition AddrFromSlice :: "bytes \<Rightarrow> ip_addr option" where
  "AddrFromSlice b = (if length b = 4 then Some (Addr4 b) else if length b = 16 then Some (Addr6 b) else None)"

section \<open>Constants\<close>

definition attrNumSoftware :: u16 where "attrNumSoftware = 0x8022"
definition attrNumFingerprint :: u16 where "attrNumFingerprint = 0x8028"
definition attrMappedAddress :: u16 where "attrMappedAddress = 0x0001"
definition attrXorMappedAddress :: u16 where "attrXorMappedAddress = 0x0020"
definition attrXorMappedAddressAlt :: u16 where "attrXorMappedAddressAlt = 0x8020"
definition software :: bytes where "software = [0x74, 0x61, 0x69, 0x6c, 0x6e, 0x6f, 0x64, 0x65]"
definition bindingRequest :: bytes where "bindingRequest = [0, 1]"
definition magicCookie :: bytes where "magicCookie = [0x21, 0x12, 0xa4, 0x42]"
definition lenFingerprint :: nat where "lenFingerprint = 8"
definition headerLen :: nat where "headerLen = 20"

lemmas stun_consts = attrNumSoftware_def attrNumFingerprint_def attrMappedAddress_def
  attrXorMappedAddress_def attrXorMappedAddressAlt_def software_def bindingRequest_def
  magicCookie_def lenFingerprint_def headerLen_def

datatype stun_error =
  ErrNotSTUN | ErrNotSuccessResponse | ErrMalformedAttrs | ErrNotBindingRequest | ErrWrongSoftware
| ErrNoFingerprint | ErrWrongFingerprint

section \<open>Fingerprint\<close>

text \<open>\<open>crc32.ChecksumIEEE\<close>, bit by bit.\<close>
definition crc_bit :: "u32 \<Rightarrow> u32" where
  "crc_bit c = (if bit c 0 then drop_bit 1 c XOR 0xEDB88320 else drop_bit 1 c)"

definition crc_byte :: "u32 \<Rightarrow> u8 \<Rightarrow> u32" where
  "crc_byte c b = (crc_bit ^^ 8) (c XOR ucast b)"

definition crc32 :: "bytes \<Rightarrow> u32" where
  "crc32 b = NOT (foldl crc_byte (NOT 0) b)"

definition fingerPrint :: "bytes \<Rightarrow> u32" where
  "fingerPrint b = crc32 b XOR 0x5354554e"

section \<open>Generation\<close>

definition Request :: "bytes \<Rightarrow> bytes" where
  "Request tID =
     (let b = bindingRequest @ put_u16be (of_nat (4 + length software + lenFingerprint)) @ magicCookie @ tID
            @ put_u16be attrNumSoftware @ put_u16be (of_nat (length software)) @ software;
          fp = fingerPrint b
      in b @ put_u16be attrNumFingerprint @ put_u16be 4 @ put_u32be fp)"

text \<open>The loop that xors an address with the cookie and then the transaction id.\<close>
definition xor_addr :: "bytes \<Rightarrow> bytes \<Rightarrow> bytes" where
  "xor_addr tID xs =
     map (\<lambda>i. xs ! i XOR (if i < length magicCookie then magicCookie ! i else tID ! (i - length magicCookie)))
       [0..<length xs]"

definition Response :: "bytes \<Rightarrow> ip_addr \<times> u16 \<Rightarrow> bytes" where
  "Response txID ap =
     (let (addr, port) = ap; n = addr_len addr in
      case addr of
        NoAddr \<Rightarrow> []
      | _ \<Rightarrow>
          [1, 1] @ put_u16be (of_nat (8 + n)) @ magicCookie @ txID
          @ put_u16be attrXorMappedAddress @ put_u16be (of_nat (4 + n))
          @ [0, if n = 4 then 1 else 2] @ put_u16be (port XOR 0x2112)
          @ xor_addr txID (drop (16 - n) (As16 addr)))"

section \<open>Parsing\<close>

definition Is :: "bytes \<Rightarrow> bool" where
  "Is b \<longleftrightarrow> headerLen \<le> length b \<and> (b ! 0) AND 0xc0 = 0 \<and> take 4 (drop 4 b) = magicCookie"

text \<open>The walk over the attributes, with the state that the closure captures.\<close>
function foreachAttr :: "(u16 \<Rightarrow> bytes \<Rightarrow> 's \<Rightarrow> stun_error + 's) \<Rightarrow> bytes \<Rightarrow> 's \<Rightarrow> stun_error + 's" where
  "foreachAttr fn b s =
     (if b = [] then Inr s
      else case (get_u16be b, get_u16be (drop 2 b)) of
        (Some attrType, Some l) \<Rightarrow>
          (let attrLen = unat l; attrLenWithPad = (attrLen + 3) div 4 * 4; b' = drop 4 b in
           if length b' < attrLenWithPad then Inl ErrMalformedAttrs
           else case fn attrType (take attrLen b') s of
                  Inl e \<Rightarrow> Inl e
                | Inr s' \<Rightarrow> foreachAttr fn (drop attrLenWithPad b') s')
      | _ \<Rightarrow> Inl ErrMalformedAttrs)"
  by pat_completeness auto
termination by (relation "measure (\<lambda>(fn, b, s). length b)") auto

declare foreachAttr.simps [simp del]

definition req_attr :: "u16 \<Rightarrow> bytes \<Rightarrow> bool \<times> u16 \<times> u32 \<Rightarrow> stun_error + bool \<times> u16 \<times> u32" where
  "req_attr attrType a st =
     (let (softwareOK, lastAttr, gotFP) = st in
      Inr (softwareOK \<or> (attrType = attrNumSoftware \<and> a = software), attrType,
           if attrType = attrNumFingerprint \<and> length a = 4
           then (case get_u32be a of Some v \<Rightarrow> v | None \<Rightarrow> gotFP) else gotFP))"

definition ParseBindingRequest :: "bytes \<Rightarrow> stun_error + bytes" where
  "ParseBindingRequest b =
     (if \<not> Is b then Inl ErrNotSTUN
      else if take (length bindingRequest) b \<noteq> bindingRequest then Inl ErrNotBindingRequest
      else case foreachAttr req_attr (drop headerLen b) (False, 0, 0) of
             Inl e \<Rightarrow> Inl e
           | Inr (softwareOK, lastAttr, gotFP) \<Rightarrow>
               if \<not> softwareOK then Inl ErrWrongSoftware
               else if lastAttr \<noteq> attrNumFingerprint then Inl ErrNoFingerprint
               else if gotFP \<noteq> fingerPrint (take (length b - lenFingerprint) b) then Inl ErrWrongFingerprint
               else Inr (take 12 (drop 8 b)))"

definition familyAddrLen :: "u8 \<Rightarrow> nat" where
  "familyAddrLen fam = (if fam = 1 then 4 else if fam = 2 then 16 else 0)"

definition xorMappedAddress :: "bytes \<Rightarrow> bytes \<Rightarrow> stun_error + bytes \<times> u16" where
  "xorMappedAddress tID b =
     (if length b < 4 then Inl ErrMalformedAttrs
      else let xorPort = (case get_u16be (drop 2 b) of Some v \<Rightarrow> v | None \<Rightarrow> 0);
               addrField = drop 4 b; addrLen = familyAddrLen (b ! 1)
      in if addrLen = 0 then Inl ErrMalformedAttrs
         else if length addrField < addrLen then Inl ErrMalformedAttrs
         else Inr (xor_addr tID (take addrLen addrField), xorPort XOR 0x2112))"

definition mappedAddress :: "bytes \<Rightarrow> stun_error + bytes \<times> u16" where
  "mappedAddress b =
     (if length b < 4 then Inl ErrMalformedAttrs
      else let port = push_bit 8 (ucast (b ! 2)) OR ucast (b ! 3);
               addrField = drop 4 b; addrLen = familyAddrLen (b ! 1)
      in if addrLen = 0 then Inl ErrMalformedAttrs
         else if length addrField < addrLen then Inl ErrMalformedAttrs
         else Inr (take addrLen addrField, port))"

text \<open>The state of the closure in \<open>ParseResponse\<close>: the address and the fallback address.\<close>
type_synonym addr_state = "(ip_addr \<times> u16) \<times> (ip_addr \<times> u16)"

definition resp_attr :: "bytes \<Rightarrow> u16 \<Rightarrow> bytes \<Rightarrow> addr_state \<Rightarrow> stun_error + addr_state" where
  "resp_attr tID attrType attr st =
     (if attrType = attrXorMappedAddress \<or> attrType = attrXorMappedAddressAlt then
        (case xorMappedAddress tID attr of
           Inl e \<Rightarrow> Inl e
         | Inr (ipSlice, port) \<Rightarrow>
             (case AddrFromSlice ipSlice of
                Some ip \<Rightarrow> Inr ((Unmap ip, port), snd st)
              | None \<Rightarrow> Inr st))
      else if attrType = attrMappedAddress then
        (case mappedAddress attr of
           Inl e \<Rightarrow> Inl ErrMalformedAttrs
         | Inr (ipSlice, port) \<Rightarrow>
             (case AddrFromSlice ipSlice of
                Some ip \<Rightarrow> Inr (fst st, (Unmap ip, port))
              | None \<Rightarrow> Inr st))
      else Inr st)"

definition ParseResponse :: "bytes \<Rightarrow> bytes \<times> (ip_addr \<times> u16) \<times> stun_error option" where
  "ParseResponse b =
     (if \<not> Is b then (replicate 12 0, (NoAddr, 0), Some ErrNotSTUN)
      else let tID = take 12 (drop 8 b) in
        if b ! 0 \<noteq> 1 \<or> b ! 1 \<noteq> 1 then (tID, (NoAddr, 0), Some ErrNotSuccessResponse)
        else let attrsLen = (case get_u16be (drop 2 b) of Some v \<Rightarrow> unat v | None \<Rightarrow> 0); b' = drop headerLen b in
          if length b' < attrsLen then (tID, (NoAddr, 0), Some ErrMalformedAttrs)
          else case foreachAttr (resp_attr tID) (take attrsLen b') ((NoAddr, 0), (NoAddr, 0)) of
                 Inl e \<Rightarrow> (replicate 12 0, (NoAddr, 0), Some e)
               | Inr (addr, fallbackAddr) \<Rightarrow>
                   if fst addr \<noteq> NoAddr then (tID, addr, None)
                   else if fst fallbackAddr \<noteq> NoAddr then (tID, fallbackAddr, None)
                   else (tID, (NoAddr, 0), Some ErrMalformedAttrs))"

section \<open>Lemmas\<close>

lemma foreachAttr_Nil [simp]: "foreachAttr fn [] s = Inr s"
  by (simp add: foreachAttr.simps)

text \<open>One attribute whose value needs no padding.\<close>
lemma foreachAttr_attr:
  assumes "length v mod 4 = 0" and "length v < 65536"
  shows "foreachAttr fn (put_u16be t @ put_u16be (of_nat (length v)) @ v @ rest) s =
    (case fn t v s of Inl e \<Rightarrow> Inl e | Inr s' \<Rightarrow> foreachAttr fn rest s')"
proof -
  have u: "unat (of_nat (length v) :: u16) = length v" using assms(2) by (simp add: unat_of_nat)
  have p: "(length v + 3) div 4 * 4 = length v" using assms(1) by presburger
  have d: "drop 2 (put_u16be t @ put_u16be (of_nat (length v)) @ v @ rest) = put_u16be (of_nat (length v)) @ v @ rest"
    "drop 4 (put_u16be t @ put_u16be (of_nat (length v)) @ v @ rest) = v @ rest"
    by simp_all
  have n: "put_u16be t @ put_u16be (of_nat (length v)) @ v @ rest \<noteq> []" by (simp add: put_u16be_def)
  show ?thesis
    by (subst foreachAttr.simps)
      (simp add: n d Let_def u p del: drop_append append_is_Nil_conv cong: sum.case_cong, simp cong: sum.case_cong)
qed

lemma xor_addr_involution:
  "length xs \<le> 4 + length t \<Longrightarrow> xor_addr t (xor_addr t xs) = xs"
  by (rule nth_equalityI) (simp_all add: xor_addr_def xor.assoc)

lemma length_xor_addr [simp]: "length (xor_addr t xs) = length xs"
  by (simp add: xor_addr_def)

lemma Is_header:
  "length t = 12 \<Longrightarrow> b0 AND 0xc0 = 0 \<Longrightarrow> Is ([b0, b1] @ put_u16be l @ magicCookie @ t @ r)"
  by (simp add: Is_def stun_consts)

lemma header_fields:
  assumes "length t = 12"
  shows "take 12 (drop 8 ([b0, b1] @ put_u16be l @ magicCookie @ t @ r)) = t"
    "drop headerLen ([b0, b1] @ put_u16be l @ magicCookie @ t @ r) = r"
    "get_u16be (drop 2 ([b0, b1] @ put_u16be l @ magicCookie @ t @ r)) = Some l"
  using assms by (simp_all add: stun_consts numeral_2_eq_2)

section \<open>Properties\<close>

text \<open>Round trip of requests: parsing a generated binding request gives its transaction id.\<close>
theorem stun_request_roundtrip:
  assumes "length t = 12"
  shows "ParseBindingRequest (Request t) = Inr t"
proof -
  let ?l = "of_nat (4 + length software + lenFingerprint) :: u16"
  let ?sw = "put_u16be attrNumSoftware @ put_u16be (of_nat (length software)) @ software"
  let ?h = "bindingRequest @ put_u16be ?l @ magicCookie @ t @ ?sw"
  let ?fp = "put_u16be attrNumFingerprint @ put_u16be (of_nat (length (put_u32be (fingerPrint ?h)))) @ put_u32be (fingerPrint ?h) @ []"
  have req: "Request t = [0, 1] @ put_u16be ?l @ magicCookie @ t @ (?sw @ ?fp)"
    by (simp add: Request_def Let_def bindingRequest_def)
  have sw: "length software mod 4 = 0" "length software < 65536" by (simp_all add: software_def)
  have fpl: "length (put_u32be (fingerPrint ?h)) mod 4 = 0" "length (put_u32be (fingerPrint ?h)) < 65536" by simp_all
  have a1: "req_attr attrNumSoftware software (False, 0, 0) = Inr (True, attrNumSoftware, 0)"
    by (simp add: req_attr_def stun_consts)
  have a2: "req_attr attrNumFingerprint (put_u32be x) (True, attrNumSoftware, 0) = Inr (True, attrNumFingerprint, x)" for x
    by (simp add: req_attr_def)
  have "foreachAttr req_attr (?sw @ ?fp) (False, 0, 0) = foreachAttr req_attr ?fp (True, attrNumSoftware, 0)"
    using foreachAttr_attr [OF sw, of req_attr attrNumSoftware ?fp "(False, 0, 0)"] unfolding a1 append_assoc by simp
  also have "\<dots> = Inr (True, attrNumFingerprint, fingerPrint ?h)"
    using foreachAttr_attr [OF fpl, of req_attr attrNumFingerprint "[]" "(True, attrNumSoftware, 0)"] unfolding a2 by simp
  finally have walk: "foreachAttr req_attr (?sw @ ?fp) (False, 0, 0) = Inr (True, attrNumFingerprint, fingerPrint ?h)" .
  have "take (length (Request t) - lenFingerprint) (Request t) = ?h"
    by (simp add: Request_def Let_def lenFingerprint_def)
  then show ?thesis
    unfolding ParseBindingRequest_def req
    using Is_header [OF assms, of 0 1 ?l "?sw @ ?fp"] header_fields [OF assms, of 0 1 ?l "?sw @ ?fp"] walk req
    by (simp add: bindingRequest_def)
qed

theorem stun_request_roundtrip_witness:
  "ParseBindingRequest (Request [1, 2, 3, 4, 5, 6, 7, 8, 9, 10, 11, 12]) = Inr [1, 2, 3, 4, 5, 6, 7, 8, 9, 10, 11, 12]"
  by (rule stun_request_roundtrip) simp

text \<open>Round trip of responses: parsing a generated response gives its transaction id, its address
  (an IPv4-mapped IPv6 address as the IPv4 address) and its port.\<close>
theorem stun_response_roundtrip:
  assumes "length t = 12" and "ip_ok a" and "a \<noteq> NoAddr"
  shows "ParseResponse (Response t (a, p)) = (t, (Unmap a, p), None)"
proof -
  obtain n fam raw where n: "addr_len a = n" "fam = (if n = 4 then 1 else 2 :: u8)" "raw = drop (16 - n) (As16 a)"
    and nn: "n = 4 \<or> n = 16" and raw: "length raw = n" "AddrFromSlice raw = Some a" "familyAddrLen fam = n"
    using assms(2,3) by (cases a) (auto simp: v4_in_6_def AddrFromSlice_def familyAddrLen_def)
  let ?v = "[0, fam] @ put_u16be (p XOR 0x2112) @ xor_addr t raw"
  let ?at = "put_u16be attrXorMappedAddress @ put_u16be (of_nat (length ?v)) @ ?v @ []"
  have v: "length ?v = 4 + n" using raw by simp
  have resp: "Response t (a, p) = [1, 1] @ put_u16be (of_nat (8 + n)) @ magicCookie @ t @ ?at"
    using assms(3) n raw by (cases a) (simp_all add: Response_def Let_def)
  have un: "Unmap a \<noteq> NoAddr" using assms(3) by (cases a) simp_all
  have "xorMappedAddress t ?v = Inr (xor_addr t (xor_addr t raw), p)"
    using raw n nn by (auto simp: xorMappedAddress_def Let_def numeral_2_eq_2 xor.assoc)
  then have "xorMappedAddress t ?v = Inr (raw, p)"
    using assms(1) raw nn xor_addr_involution [of raw t] by auto
  then have "resp_attr t attrXorMappedAddress ?v ((NoAddr, 0), (NoAddr, 0)) = Inr ((Unmap a, p), (NoAddr, 0))"
    using raw by (simp add: resp_attr_def del: append.simps)
  moreover have "length ?v mod 4 = 0" "length ?v < 65536" using v nn by auto
  ultimately have walk: "foreachAttr (resp_attr t) ?at ((NoAddr, 0), (NoAddr, 0)) = Inr ((Unmap a, p), (NoAddr, 0))"
    using foreachAttr_attr [of ?v "resp_attr t" attrXorMappedAddress "[]"] by (simp del: append.simps)
  have len: "unat (of_nat (8 + n) :: u16) = 8 + n" "length ?at = 8 + n" using nn v by auto
  show ?thesis
    unfolding ParseResponse_def resp
    using Is_header [OF assms(1), of 1 1 "of_nat (8 + n)" ?at] header_fields [OF assms(1), of 1 1 "of_nat (8 + n)" ?at] walk len un
    by (simp add: Let_def del: of_nat_add)
qed

theorem stun_response_roundtrip_witness:
  "ParseResponse (Response (replicate 12 5) (Addr4 [192, 168, 1, 2], 8080)) = (replicate 12 5, (Addr4 [192, 168, 1, 2], 8080), None)"
  using stun_response_roundtrip [of "replicate 12 5" "Addr4 [192, 168, 1, 2]" 8080] by simp

end
