(* ===== verification/Net_IP.thy ===== *)
theory Net_IP
  imports Stun
begin

text \<open>
  Addresses of Go's \<open>net\<close> package as the program uses them: \<open>net.IP\<close> is a byte string of four or
  sixteen bytes (or none), and its predicates; \<open>net.IPNet\<close>; \<open>net.UDPAddr\<close> without zone.
\<close>

section \<open>\<open>net.IP\<close>\<close>

type_synonym IP = bytes

definition To4 :: "IP \<Rightarrow> bytes option" where
  "To4 ip = (if length ip = 4 then Some ip
     else if length ip = 16 \<and> take 12 ip = v4_in_6 then Some (drop 12 ip) else None)"

definition To16 :: "IP \<Rightarrow> bytes option" where
  "To16 ip = (if length ip = 4 then Some (v4_in_6 @ ip) else if length ip = 16 then Some ip else None)"

text \<open>\<open>IP.Equal\<close>: an IPv4 address equals its IPv6-mapped form.\<close>
definition ip_equal :: "IP \<Rightarrow> IP \<Rightarrow> bool" where
  "ip_equal a b =
     (if length a = length b then a = b
      else if length a = 4 \<and> length b = 16 then b = v4_in_6 @ a
      else if length a = 16 \<and> length b = 4 then a = v4_in_6 @ b
      else False)"

definition IsUnspecified :: "IP \<Rightarrow> bool" where
  "IsUnspecified ip \<longleftrightarrow> ip_equal ip (v4_in_6 @ [0, 0, 0, 0]) \<or> ip_equal ip (replicate 16 0)"

definition IsLoopback :: "IP \<Rightarrow> bool" where
  "IsLoopback ip = (case To4 ip of Some b \<Rightarrow> b ! 0 = 127 | None \<Rightarrow> ip_equal ip (replicate 15 0 @ [1]))"

definition IsMulticast :: "IP \<Rightarrow> bool" where
  "IsMulticast ip = (case To4 ip of Some b \<Rightarrow> b ! 0 AND 0xf0 = 0xe0 | None \<Rightarrow> length ip = 16 \<and> ip ! 0 = 0xff)"

definition IsLinkLocalUnicast :: "IP \<Rightarrow> bool" where
  "IsLinkLocalUnicast ip = (case To4 ip of Some b \<Rightarrow> b ! 0 = 169 \<and> b ! 1 = 254
     | None \<Rightarrow> length ip = 16 \<and> ip ! 0 = 0xfe \<and> ip ! 1 AND 0xc0 = 0x80)"

definition IsPrivate :: "IP \<Rightarrow> bool" where
  "IsPrivate ip = (case To4 ip of
       Some b \<Rightarrow> b ! 0 = 10 \<or> (b ! 0 = 172 \<and> b ! 1 AND 0xf0 = 16) \<or> (b ! 0 = 192 \<and> b ! 1 = 168)
     | None \<Rightarrow> length ip = 16 \<and> ip ! 0 AND 0xfe = 0xfc)"

definition IsGlobalUnicast :: "IP \<Rightarrow> bool" where
  "IsGlobalUnicast ip \<longleftrightarrow> (length ip = 4 \<or> length ip = 16) \<and> \<not> ip_equal ip (v4_in_6 @ [255, 255, 255, 255]) \<and>
     \<not> IsUnspecified ip \<and> \<not> IsLoopback ip \<and> \<not> IsMulticast ip \<and> \<not> IsLinkLocalUnicast ip"

lemma To4_length: "To4 ip = Some b \<Longrightarrow> length b = 4"
  by (auto simp: To4_def split: if_splits)

lemma ip_equal_refl [simp]: "ip_equal a a"
  by (simp add: ip_equal_def)

lemma ip_equal_sym: "ip_equal a b \<Longrightarrow> ip_equal b a"
  by (auto simp: ip_equal_def split: if_splits)

lemma length_v4_in_6 [simp]: "length v4_in_6 = 12"
  by (simp add: v4_in_6_def)

text \<open>Equality is sameness of the 16-byte form.\<close>
lemma ip_equal_canonical:
  "ip_equal a b \<longleftrightarrow> a = b \<or> (To16 a \<noteq> None \<and> To16 a = To16 b)"
  by (auto simp: ip_equal_def To16_def)

lemma ip_equal_trans: "ip_equal a b \<Longrightarrow> ip_equal b c \<Longrightarrow> ip_equal a c"
  unfolding ip_equal_canonical by auto

section \<open>\<open>net.IPNet\<close>\<close>

record IPNet =
  n_ip :: IP
  n_mask :: bytes

definition networkNumberAndMask :: "IPNet \<Rightarrow> bytes \<times> bytes" where
  "networkNumberAndMask n =
     (let ip = (case To4 (n_ip n) of Some b \<Rightarrow> b | None \<Rightarrow> n_ip n); m = n_mask n in
      if length ip \<noteq> 4 \<and> length ip \<noteq> 16 then ([], [])
      else if length m = 4 then (if length ip \<noteq> 4 then ([], []) else (ip, m))
      else if length m = 16 then (ip, if length ip = 4 then drop 12 m else m)
      else ([], []))"

definition net_contains :: "IPNet \<Rightarrow> IP \<Rightarrow> bool" where
  "net_contains n ip =
     (let (nn, m) = networkNumberAndMask n; x = (case To4 ip of Some b \<Rightarrow> b | None \<Rightarrow> ip) in
      length x = length nn \<and> list_all (\<lambda>i. nn ! i AND m ! i = x ! i AND m ! i) [0..<length x])"

section \<open>\<open>net.UDPAddr\<close>\<close>

record UDPAddr =
  ua_ip :: IP
  ua_port :: int

text \<open>The comparison the program makes of two addresses.\<close>
definition same_addr :: "UDPAddr \<Rightarrow> UDPAddr \<Rightarrow> bool" where
  "same_addr a b \<longleftrightarrow> ip_equal (ua_ip a) (ua_ip b) \<and> ua_port a = ua_port b"

lemma same_addr_refl [simp]: "same_addr a a"
  by (simp add: same_addr_def)

lemma same_addr_sym: "same_addr a b \<Longrightarrow> same_addr b a"
  by (simp add: same_addr_def ip_equal_sym)

lemma same_addr_trans: "same_addr a b \<Longrightarrow> same_addr b c \<Longrightarrow> same_addr a c"
  by (auto simp: same_addr_def intro: ip_equal_trans)

end
