(* ===== verification/Disco.thy ===== *)
theory Disco
  imports Net_IP
begin

text \<open>
  Peer discovery vocabulary (\<open>disco/disco.go\<close>, \<open>disco/peer.go\<close>, \<open>disco/local_addr.go\<close>, the part of
  \<open>disco/server.go\<close> without I/O): peer identifiers, control codes, NAT types and addresses, the ping
  packet, labels, and the filter of local addresses.
\<close>

section \<open>Peers\<close>

type_synonym PeerID = bytes

text \<open>\<open>PeerID.Len\<close> is a byte.\<close>
definition Len :: "PeerID \<Rightarrow> u8" where
  "Len i = of_nat (length i)"

text \<open>\<open>strings.Split\<close> at one character.\<close>
fun split_on :: "char \<Rightarrow> string \<Rightarrow> string list" where
  "split_on c [] = [[]]"
| "split_on c (x # xs) =
     (if x = c then [] # split_on c xs
      else case split_on c xs of [] \<Rightarrow> [[x]] | w # ws \<Rightarrow> (x # w) # ws)"

text \<open>\<open>Labels.Get\<close>\<close>
fun labels_Get :: "string list \<Rightarrow> string \<Rightarrow> string \<times> bool" where
  "labels_Get [] key = ('''', False)"
| "labels_Get (l # ls) key =
     (let kv = split_on (CHR ''='') l in
      if length kv = 2 then (if kv ! 0 = key then (kv ! 1, True) else labels_Get ls key)
      else if kv ! 0 = key then ('''', True)
      else labels_Get ls key)"

text \<open>\<open>url.Values\<close>; a peer has none before the first key is added.\<close>
type_synonym url_values = "string \<rightharpoonup> string list"

record Peer =
  pr_ID :: PeerID
  pr_Metadata :: "url_values option"

definition NewPeer :: "PeerID \<Rightarrow> Peer" where
  "NewPeer i = \<lparr>pr_ID = i, pr_Metadata = None\<rparr>"

definition WithMeta :: "string \<Rightarrow> string \<Rightarrow> Peer \<Rightarrow> Peer" where
  "WithMeta key value p =
     (let m = (case pr_Metadata p of None \<Rightarrow> Map.empty | Some m \<Rightarrow> m) in
      p\<lparr>pr_Metadata := Some (m(key \<mapsto> (case m key of None \<Rightarrow> [] | Some vs \<Rightarrow> vs) @ [value]))\<rparr>)"

definition WithSilenceMode :: "Peer \<Rightarrow> Peer" where
  "WithSilenceMode p = WithMeta ''silenceMode'' '''' p"

section \<open>Control codes\<close>

definition CONTROL_RELAY :: u8 where "CONTROL_RELAY = 0"
definition CONTROL_NEW_PEER :: u8 where "CONTROL_NEW_PEER = 1"
definition CONTROL_NEW_PEER_UDP_ADDR :: u8 where "CONTROL_NEW_PEER_UDP_ADDR = 2"
definition CONTROL_LEAD_DISCO :: u8 where "CONTROL_LEAD_DISCO = 3"
definition CONTROL_UPDATE_NETWORK_SECRET :: u8 where "CONTROL_UPDATE_NETWORK_SECRET = 20"
definition CONTROL_UPDATE_NAT_INFO :: u8 where "CONTROL_UPDATE_NAT_INFO = 21"
definition CONTROL_UPDATE_META :: u8 where "CONTROL_UPDATE_META = 22"
definition CONTROL_PEER_LEAVE :: u8 where "CONTROL_PEER_LEAVE = 25"
definition CONTROL_CONN :: u8 where "CONTROL_CONN = 30"
definition CONTROL_SERVER_CONNECTED :: u8 where "CONTROL_SERVER_CONNECTED = 50"

lemmas control_codes = CONTROL_RELAY_def CONTROL_NEW_PEER_def CONTROL_NEW_PEER_UDP_ADDR_def CONTROL_LEAD_DISCO_def
  CONTROL_UPDATE_NETWORK_SECRET_def CONTROL_UPDATE_NAT_INFO_def CONTROL_UPDATE_META_def CONTROL_PEER_LEAVE_def
  CONTROL_CONN_def CONTROL_SERVER_CONNECTED_def

definition code_String :: "u8 \<Rightarrow> string" where
  "code_String code =
     (if code = CONTROL_RELAY then ''RELAY''
      else if code = CONTROL_NEW_PEER then ''NEW_PEER''
      else if code = CONTROL_NEW_PEER_UDP_ADDR then ''NEW_PEER_UDP_ADDR''
      else if code = CONTROL_LEAD_DISCO then ''LEAD_DISCO''
      else if code = CONTROL_UPDATE_NETWORK_SECRET then ''UPDATE_NETWORK_SECRET''
      else if code = CONTROL_UPDATE_NAT_INFO then ''UPDATE_NAT_INFO''
      else if code = CONTROL_UPDATE_META then ''UPDATE_PEER''
      else if code = CONTROL_PEER_LEAVE then ''PEER_LEAVE''
      else if code = CONTROL_CONN then ''CONTROL_CONN''
      else if code = CONTROL_SERVER_CONNECTED then ''SERVER_CONNECTED''
      else ''UNDEFINED'')"

section \<open>NAT\<close>

type_synonym NATType = string

definition Unknown :: NATType where "Unknown = ''''"
definition Hard :: NATType where "Hard = ''hard''"
definition Easy :: NATType where "Easy = ''easy''"
definition UPnP :: NATType where "UPnP = ''upnp''"
definition IP4 :: NATType where "IP4 = ''ip4''"
definition IP6 :: NATType where "IP6 = ''ip6''"
definition IP46 :: NATType where "IP46 = ''ip4+ip6''"
definition EasyIP6 :: NATType where "EasyIP6 = ''easy+ip6''"
definition Internal :: NATType where "Internal = ''internal''"

lemmas nat_types = Unknown_def Hard_def Easy_def UPnP_def IP4_def IP6_def IP46_def EasyIP6_def Internal_def

definition AccurateThan :: "NATType \<Rightarrow> NATType \<Rightarrow> bool" where
  "AccurateThan t t1 =
     (if t = Unknown then False
      else if t = t1 then False
      else if t = Easy \<and> t1 \<noteq> Unknown then False
      else if t = Hard \<and> t1 \<notin> set [Unknown, Easy] then False
      else True)"

definition is_Easy :: "NATType \<Rightarrow> bool" where
  "is_Easy t \<longleftrightarrow> t = Easy \<or> t = EasyIP6"

definition is_IP4 :: "NATType \<Rightarrow> bool" where
  "is_IP4 t \<longleftrightarrow> t = IP4 \<or> t = IP46"

definition nat_String :: "NATType \<Rightarrow> string" where
  "nat_String t = (if t = '''' then ''unknown'' else t)"

fun UDPAddrContains :: "UDPAddr list \<Rightarrow> UDPAddr \<Rightarrow> bool" where
  "UDPAddrContains [] tgt = False"
| "UDPAddrContains (a # as) tgt =
     (if ip_equal (ua_ip a) (ua_ip tgt) \<and> ua_port a = ua_port tgt then True else UDPAddrContains as tgt)"

record NATInfo =
  ni_Type :: NATType
  ni_Addrs :: "UDPAddr list"

fun to_merge :: "UDPAddr list \<Rightarrow> UDPAddr list \<Rightarrow> UDPAddr list" where
  "to_merge known [] = []"
| "to_merge known (a # as) = (if UDPAddrContains known a then to_merge known as else a # to_merge known as)"

definition MergeAddrs :: "NATInfo \<Rightarrow> UDPAddr list \<Rightarrow> NATInfo" where
  "MergeAddrs i addrs = i\<lparr>ni_Addrs := ni_Addrs i @ to_merge (ni_Addrs i) addrs\<rparr>"

record Endpoint =
  ep_ID :: PeerID
  ep_Addr :: UDPAddr
  ep_Type :: NATType

section \<open>Ping\<close>

text \<open>The configured magic; absent when the function is nil.\<close>
definition default_ping :: bytes where "default_ping = [0x5f, 0x70, 0x69, 0x6e, 0x67]"

definition magic :: "bytes option \<Rightarrow> bytes" where
  "magic cfg = (let m = (case cfg of None \<Rightarrow> [] | Some m \<Rightarrow> m) in if m = [] then default_ping else m)"

definition NewPing :: "bytes option \<Rightarrow> PeerID \<Rightarrow> bytes" where
  "NewPing cfg peerID = magic cfg @ peerID"

definition ParsePing :: "bytes option \<Rightarrow> bytes \<Rightarrow> PeerID" where
  "ParsePing cfg b =
     (let m = magic cfg in
      if length b \<le> length m \<or> 255 + length m < length b then []
      else if m = take (length m) b then drop (length m) b
      else [])"

section \<open>Datagrams\<close>

text \<open>Messages on the web socket are masked with the nonce of the connection.\<close>
definition mask :: "u8 \<Rightarrow> bytes \<Rightarrow> bytes" where
  "mask nonce b = map (\<lambda>v. v XOR nonce) b"

record Datagram =
  dg_PeerID :: PeerID
  dg_Data :: bytes

text \<open>A cipher of \<open>secure\<close>: fallible encryption and decryption with a public key.\<close>
record 'e SymmAlgo =
  alg_Encrypt :: "bytes \<Rightarrow> PeerID \<Rightarrow> 'e + bytes"
  alg_Decrypt :: "bytes \<Rightarrow> PeerID \<Rightarrow> 'e + bytes"

definition TryDecrypt :: "'e SymmAlgo option \<Rightarrow> Datagram \<Rightarrow> bytes" where
  "TryDecrypt symmAlgo d =
     (case symmAlgo of None \<Rightarrow> dg_Data d
      | Some a \<Rightarrow> (case alg_Decrypt a (dg_Data d) (dg_PeerID d) of Inl _ \<Rightarrow> dg_Data d | Inr b \<Rightarrow> b))"

definition TryEncrypt :: "'e SymmAlgo option \<Rightarrow> Datagram \<Rightarrow> bytes" where
  "TryEncrypt symmAlgo d =
     (case symmAlgo of None \<Rightarrow> dg_Data d
      | Some a \<Rightarrow> (case alg_Encrypt a (dg_Data d) (dg_PeerID d) of Inl _ \<Rightarrow> dg_Data d | Inr b \<Rightarrow> b))"

section \<open>Local addresses\<close>

fun cidrs_Contains :: "IPNet list \<Rightarrow> IP \<Rightarrow> bool" where
  "cidrs_Contains [] ip = False"
| "cidrs_Contains (c # cs) ip = (if net_contains c ip then True else cidrs_Contains cs ip)"

fun HasPrefix :: "string list \<Rightarrow> string \<Rightarrow> bool" where
  "HasPrefix [] n = False"
| "HasPrefix (p # ps) n = (if take (length p) n = p then True else HasPrefix ps n)"

text \<open>The package's variables.\<close>
record local_cfg =
  ignoredLocalCIDRs :: "IPNet list"
  ignoredLocalInterfaceNamePrefixs :: "string list"
  localIPs :: "IP list"

definition SetIgnoredLocalInterfaceNamePrefixs :: "string list \<Rightarrow> local_cfg \<Rightarrow> local_cfg" where
  "SetIgnoredLocalInterfaceNamePrefixs prefixs g = g\<lparr>ignoredLocalInterfaceNamePrefixs := prefixs\<rparr>"

definition SetLocalIPs :: "IP list \<Rightarrow> local_cfg \<Rightarrow> local_cfg" where
  "SetLocalIPs ips g = g\<lparr>localIPs := ips\<rparr>"

text \<open>\<open>parse\<close> and \<open>show\<close> are \<open>net.ParseCIDR\<close> and \<open>IPNet.String\<close>.\<close>
fun AddIgnoredLocalCIDRs :: "(string \<Rightarrow> IPNet option) \<Rightarrow> string list \<Rightarrow> local_cfg \<Rightarrow> local_cfg" where
  "AddIgnoredLocalCIDRs parse [] g = g"
| "AddIgnoredLocalCIDRs parse (c # cs) g =
     (case parse c of
        None \<Rightarrow> AddIgnoredLocalCIDRs parse cs g
      | Some n \<Rightarrow>
          if IsUnspecified (n_ip n) then AddIgnoredLocalCIDRs parse cs g
          else AddIgnoredLocalCIDRs parse cs (g\<lparr>ignoredLocalCIDRs := ignoredLocalCIDRs g @ [n]\<rparr>))"

definition SetIgnoredLocalCIDRs :: "(string \<Rightarrow> IPNet option) \<Rightarrow> string list \<Rightarrow> local_cfg \<Rightarrow> local_cfg" where
  "SetIgnoredLocalCIDRs parse cs g = AddIgnoredLocalCIDRs parse cs (g\<lparr>ignoredLocalCIDRs := []\<rparr>)"

definition RemoveIgnoredLocalCIDRs :: "(IPNet \<Rightarrow> string) \<Rightarrow> string list \<Rightarrow> local_cfg \<Rightarrow> local_cfg" where
  "RemoveIgnoredLocalCIDRs show_net cs g =
     g\<lparr>ignoredLocalCIDRs := filter (\<lambda>n. show_net n \<notin> set cs) (ignoredLocalCIDRs g)\<rparr>"

definition IsIgnoredLocalIP :: "local_cfg \<Rightarrow> IP \<Rightarrow> bool" where
  "IsIgnoredLocalIP g ip = cidrs_Contains (ignoredLocalCIDRs g) ip"

text \<open>An interface of the host: its name, whether it is running, and its addresses, absent when they
  cannot be read.\<close>
record iface =
  if_Name :: string
  if_Running :: bool
  if_Addrs :: "IP list option"

definition usable_ip :: "local_cfg \<Rightarrow> IP \<Rightarrow> bool" where
  "usable_ip g ip \<longleftrightarrow> \<not> IsLoopback ip \<and> \<not> IsLinkLocalUnicast ip \<and> \<not> cidrs_Contains (ignoredLocalCIDRs g) ip"

fun iface_ips :: "local_cfg \<Rightarrow> iface list \<Rightarrow> IP list" where
  "iface_ips g [] = []"
| "iface_ips g (i # is) =
     (if \<not> if_Running i then iface_ips g is
      else if HasPrefix (ignoredLocalInterfaceNamePrefixs g) (if_Name i) then iface_ips g is
      else case if_Addrs i of None \<Rightarrow> iface_ips g is
           | Some as \<Rightarrow> filter (usable_ip g) as @ iface_ips g is)"

text \<open>\<^const>\<open>None\<close>: the interfaces cannot be listed.\<close>
definition ListLocalIPs :: "local_cfg \<Rightarrow> iface list option \<Rightarrow> IP list option" where
  "ListLocalIPs g ifaces =
     (if localIPs g \<noteq> [] then Some (localIPs g)
      else case ifaces of None \<Rightarrow> None | Some is \<Rightarrow> Some (iface_ips g is))"

text \<open>\<open>100.64.0.0/10\<close>\<close>
definition IsCGN :: "IP \<Rightarrow> bool" where
  "IsCGN ip = (case To4 ip of None \<Rightarrow> False | Some b \<Rightarrow> b ! 0 = 100 \<and> b ! 1 AND 0xc0 = 64)"

section \<open>Network secrets\<close>

record NetworkSecret =
  ns_Secret :: string
  ns_Network :: string
  ns_Expire :: int

definition Expired :: "NetworkSecret \<Rightarrow> int \<Rightarrow> bool" where
  "Expired s now \<longleftrightarrow> ns_Expire s - now \<le> 0"

definition UpdateNetworkSecret :: "NetworkSecret \<Rightarrow> NetworkSecret \<Rightarrow> NetworkSecret" where
  "UpdateNetworkSecret s secret =
     s\<lparr>ns_Secret := ns_Secret secret, ns_Network := ns_Network secret, ns_Expire := ns_Expire secret\<rparr>"

section \<open>Lemmas\<close>

lemma mask_mask [simp]: "mask n (mask n b) = b"
  by (simp add: mask_def comp_def xor.assoc)

lemma length_mask [simp]: "length (mask n b) = length b"
  by (simp add: mask_def)

lemma UDPAddrContains_iff: "UDPAddrContains as t \<longleftrightarrow> (\<exists>a \<in> set as. same_addr a t)"
  by (induction as) (auto simp: same_addr_def)

lemma to_merge_filter: "to_merge known as = filter (\<lambda>a. \<not> UDPAddrContains known a) as"
  by (induction as) auto

lemma cidrs_Contains_iff: "cidrs_Contains cs ip \<longleftrightarrow> (\<exists>c \<in> set cs. net_contains c ip)"
  by (induction cs) auto

lemma magic_nonempty [simp]: "magic cfg \<noteq> []"
  by (simp add: magic_def Let_def default_ping_def)

lemma split_on_nonempty [simp]: "split_on c xs \<noteq> []"
  by (cases xs) (auto split: list.splits)

lemma Len_ParsePing: "Len (ParsePing cfg b) = 0 \<longleftrightarrow> ParsePing cfg b = []"
proof -
  have "length (ParsePing cfg b) < 256" by (auto simp: ParsePing_def Let_def)
  then have "unat (Len (ParsePing cfg b)) = length (ParsePing cfg b)" by (simp add: Len_def unat_of_nat)
  then show ?thesis by (metis length_0_conv unat_eq_zero)
qed

section \<open>Properties\<close>

text \<open>Ping round trip: the ping of a peer id of 1 to 255 bytes parses back to it whatever the
  configured magic, an id of any other length is not recognised, and every packet that parses to a
  peer id is the ping of that id.\<close>
theorem ping_roundtrip:
  "ParsePing cfg (NewPing cfg i) = (if length i \<le> 255 then i else []) \<and>
   (ParsePing cfg b \<noteq> [] \<longrightarrow> b = NewPing cfg (ParsePing cfg b) \<and> Len (ParsePing cfg b) \<noteq> 0)"
proof -
  have "ParsePing cfg (NewPing cfg i) = (if length i \<le> 255 then i else [])"
    by (auto simp: ParsePing_def NewPing_def Let_def)
  moreover have "b = NewPing cfg (ParsePing cfg b)" if "ParsePing cfg b \<noteq> []"
  proof -
    from that have t: "magic cfg = take (length (magic cfg)) b" "ParsePing cfg b = drop (length (magic cfg)) b"
      by (auto simp: ParsePing_def Let_def split: if_splits)
    show ?thesis unfolding NewPing_def t(2) using t(1) append_take_drop_id [of "length (magic cfg)" b] by metis
  qed
  ultimately show ?thesis by (simp add: Len_ParsePing)
qed

theorem ping_roundtrip_witness:
  "ParsePing None (NewPing None [1, 2]) = [1, 2]"
  using ping_roundtrip [of None "[1, 2]" "[]"] by simp

text \<open>Merging addresses into a NAT info keeps the known addresses in place and adds every new
  address, equal addresses being identified across their IPv4 and IPv6 forms; merging the same list
  again changes nothing.\<close>
theorem MergeAddrs_covers:
  "(\<exists>new. ni_Addrs (MergeAddrs i as) = ni_Addrs i @ new \<and> set new \<subseteq> set as \<and>
      (\<forall>a\<in>set new. \<forall>k\<in>set (ni_Addrs i). \<not> same_addr k a)) \<and>
   (\<forall>a\<in>set as. UDPAddrContains (ni_Addrs (MergeAddrs i as)) a) \<and>
   MergeAddrs (MergeAddrs i as) as = MergeAddrs i as"
proof -
  have cov: "UDPAddrContains (ni_Addrs (MergeAddrs i as)) a" if "a \<in> set as" for a
    using that by (cases "UDPAddrContains (ni_Addrs i) a")
      (auto simp: UDPAddrContains_iff MergeAddrs_def to_merge_filter intro: bexI [of _ a])
  then have "to_merge (ni_Addrs (MergeAddrs i as)) as = []" by (simp add: to_merge_filter filter_empty_conv)
  then have "MergeAddrs (MergeAddrs i as) as = MergeAddrs i as" by (simp add: MergeAddrs_def)
  with cov show ?thesis by (auto simp: MergeAddrs_def to_merge_filter UDPAddrContains_iff)
qed

theorem MergeAddrs_covers_witness:
  "ni_Addrs (MergeAddrs \<lparr>ni_Type = Easy, ni_Addrs = [\<lparr>ua_ip = [1, 2, 3, 4], ua_port = 9\<rparr>]\<rparr>
     [\<lparr>ua_ip = v4_in_6 @ [1, 2, 3, 4], ua_port = 9\<rparr>, \<lparr>ua_ip = [1, 2, 3, 5], ua_port = 9\<rparr>]) =
   [\<lparr>ua_ip = [1, 2, 3, 4], ua_port = 9\<rparr>, \<lparr>ua_ip = [1, 2, 3, 5], ua_port = 9\<rparr>] \<and>
   UDPAddrContains [\<lparr>ua_ip = [1, 2, 3, 5], ua_port = (9::int)\<rparr>] \<lparr>ua_ip = [1, 2, 3, 5], ua_port = 9\<rparr>"
proof -
  have "UDPAddrContains (ni_Addrs (MergeAddrs \<lparr>ni_Type = Easy, ni_Addrs = []\<rparr> [\<lparr>ua_ip = [1, 2, 3, 5], ua_port = 9\<rparr>])) \<lparr>ua_ip = [1, 2, 3, 5], ua_port = 9\<rparr>"
    using MergeAddrs_covers [of "\<lparr>ni_Type = Easy, ni_Addrs = []\<rparr>" "[\<lparr>ua_ip = [1, 2, 3, 5], ua_port = 9\<rparr>]"] by simp
  then show ?thesis by (simp add: MergeAddrs_def ip_equal_def v4_in_6_def)
qed

end
