(* ===== verification/Lru.thy ===== *)
theory Lru
  imports Pg_Prelude
begin

text \<open>
  The least-recently-used cache (\<open>cache/lru/lru.go\<close>) as the code has it, a map of keys to list
  elements beside a doubly linked list, and the time-to-live cache on top of it
  (\<open>cache/cache.go\<close>). The locale \<open>recency_cache\<close> is the contract its clients rely on; the
  interpretation shows that the code's structure provides it.
\<close>

section \<open>The cache\<close>

text \<open>List elements are numbered; \<open>clist\<close> is the list from front to back, \<open>celem\<close> the entry of an
  element.\<close>
record ('k, 'v) Cache =
  capacity :: int
  cache :: "'k \<rightharpoonup> nat"
  clist :: "nat list"
  celem :: "nat \<rightharpoonup> 'k \<times> 'v"
  cnext :: nat

definition New :: "int \<Rightarrow> ('k, 'v) Cache option" where
  "New n = (if n \<le> 0 then None
     else Some \<lparr>capacity = n, cache = Map.empty, clist = [], celem = Map.empty, cnext = 0\<rparr>)"

definition MoveToFront :: "nat \<Rightarrow> nat list \<Rightarrow> nat list" where
  "MoveToFront e es = e # remove1 e es"

definition Get :: "('k, 'v) Cache \<Rightarrow> 'k \<Rightarrow> ('k, 'v) Cache \<times> 'v option" where
  "Get c key =
     (case cache c key of
        Some e \<Rightarrow> (c\<lparr>clist := MoveToFront e (clist c)\<rparr>, map_option snd (celem c e))
      | None \<Rightarrow> (c, None))"

text \<open>\<open>ks\<close> are the keys in the order of the map iteration.\<close>
fun Find :: "'k list \<Rightarrow> ('k \<Rightarrow> 'v \<Rightarrow> bool) \<Rightarrow> ('k, 'v) Cache \<Rightarrow> ('k, 'v) Cache \<times> ('k \<times> 'v) option" where
  "Find [] p c = (c, None)"
| "Find (k # ks) p c =
     (case Option.bind (cache c k) (\<lambda>e. map_option (\<lambda>kv. (e, snd kv)) (celem c e)) of
        None \<Rightarrow> Find ks p c
      | Some (e, v) \<Rightarrow>
          if p k v then (c\<lparr>clist := MoveToFront e (clist c)\<rparr>, Some (k, v)) else Find ks p c)"

definition evict :: "('k, 'v) Cache \<Rightarrow> ('k, 'v) Cache" where
  "evict c =
     (if int (length (clist c)) = capacity c \<and> clist c \<noteq> [] then
        (let oldest = last (clist c) in
         c\<lparr>clist := butlast (clist c),
           cache := (case celem c oldest of None \<Rightarrow> cache c | Some (k, v) \<Rightarrow> (cache c)(k := None))\<rparr>)
      else c)"

definition Put :: "('k, 'v) Cache \<Rightarrow> 'k \<Rightarrow> 'v \<Rightarrow> ('k, 'v) Cache" where
  "Put c key v =
     (case cache c key of
        Some e \<Rightarrow>
          c\<lparr>clist := MoveToFront e (clist c), celem := (celem c)(e \<mapsto> (key, v))\<rparr>
      | None \<Rightarrow>
          (let c1 = evict c; e = cnext c1 in
           c1\<lparr>clist := e # clist c1, celem := (celem c1)(e \<mapsto> (key, v)),
              cache := (cache c1)(key \<mapsto> e), cnext := Suc e\<rparr>))"

definition Del :: "('k, 'v) Cache \<Rightarrow> 'k \<Rightarrow> ('k, 'v) Cache" where
  "Del c key =
     (case cache c key of
        Some e \<Rightarrow> c\<lparr>clist := remove1 e (clist c), cache := (cache c)(key := None)\<rparr>
      | None \<Rightarrow> c)"

definition Clear :: "('k, 'v) Cache \<Rightarrow> ('k, 'v) Cache" where
  "Clear c = c\<lparr>cache := Map.empty, clist := []\<rparr>"

definition Dump :: "('k, 'v) Cache \<Rightarrow> 'k \<rightharpoonup> 'v" where
  "Dump c = (\<lambda>k. Option.bind (cache c k) (\<lambda>e. map_option snd (celem c e)))"

section \<open>Contract\<close>

text \<open>A cache as a list of key-value pairs, the most recently used one first.\<close>

definition recent :: "'k \<Rightarrow> ('k \<times> 'v) list \<Rightarrow> ('k \<times> 'v) list" where
  "recent k xs = (case map_of xs k of None \<Rightarrow> xs | Some v \<Rightarrow> (k, v) # filter (\<lambda>p. fst p \<noteq> k) xs)"

definition insert_recent :: "nat \<Rightarrow> 'k \<Rightarrow> 'v \<Rightarrow> ('k \<times> 'v) list \<Rightarrow> ('k \<times> 'v) list" where
  "insert_recent n k v xs =
     (if map_of xs k = None then (k, v) # (if length xs = n then butlast xs else xs)
      else (k, v) # filter (\<lambda>p. fst p \<noteq> k) xs)"

locale recency_cache =
  fixes get :: "'s \<Rightarrow> 'k \<Rightarrow> 's \<times> 'v option"
    and put :: "'s \<Rightarrow> 'k \<Rightarrow> 'v \<Rightarrow> 's"
    and items :: "'s \<Rightarrow> ('k \<times> 'v) list"
    and room :: "'s \<Rightarrow> nat"
    and ok :: "'s \<Rightarrow> bool"
  assumes get_items: "ok s \<Longrightarrow> items (fst (get s k)) = recent k (items s)"
    and get_value: "ok s \<Longrightarrow> snd (get s k) = map_of (items s) k"
    and put_items: "ok s \<Longrightarrow> items (put s k v) = insert_recent (room s) k v (items s)"
    and get_ok: "ok s \<Longrightarrow> ok (fst (get s k)) \<and> room (fst (get s k)) = room s"
    and put_ok: "ok s \<Longrightarrow> ok (put s k v) \<and> room (put s k v) = room s"
    and keys: "ok s \<Longrightarrow> distinct (map fst (items s)) \<and> length (items s) \<le> room s \<and> 0 < room s"
begin

lemma get_put_same: "ok s \<Longrightarrow> snd (get (put s k v) k) = Some v"
  using put_ok [of s k v] by (simp add: get_value put_items insert_recent_def)

lemma map_of_butlast: "distinct (map fst xs) \<Longrightarrow> map_of (butlast xs) j = Some u \<Longrightarrow> map_of xs j = Some u"
  by (metis in_set_butlastD map_of_SomeD map_of_is_SomeI)

lemma map_of_filter_key: "map_of (filter (\<lambda>p. fst p \<noteq> k) xs) j = (if j = k then None else map_of xs j)"
  by (induction xs) auto

lemma put_other:
  assumes "ok s" and "j \<noteq> k" and "snd (get (put s k v) j) = Some u"
  shows "snd (get s j) = Some u"
  using assms put_ok [of s k v] keys [of s] map_of_butlast [of "items s" j u]
  by (auto simp: get_value put_items insert_recent_def map_of_filter_key split: if_splits)

text \<open>An entry that was just used survives the insertion of another key.\<close>
lemma used_survives_put:
  assumes "ok s" and "snd (get s j) = Some u" and "2 \<le> room s"
  shows "j \<noteq> k \<Longrightarrow> snd (get (put (fst (get s j)) k v) j) = Some u"
proof -
  assume jk: "j \<noteq> k"
  let ?s = "fst (get s j)"
  have s: "ok ?s" "room ?s = room s" using get_ok assms(1) by blast+
  have it: "items ?s = (j, u) # filter (\<lambda>p. fst p \<noteq> j) (items s)"
    using assms(1,2) by (simp add: get_items get_value recent_def)
  have "map_of (items (put ?s k v)) j = Some u"
  proof (cases "map_of (items ?s) k = None \<and> length (items ?s) = room s")
    case True
    with assms(3) it have "filter (\<lambda>p. fst p \<noteq> j) (items s) \<noteq> []" by auto
    with True it s jk show ?thesis by (simp add: put_items insert_recent_def)
  next
    case False
    with it s jk show ?thesis by (auto simp: put_items insert_recent_def)
  qed
  then show ?thesis using put_ok [OF s(1)] by (simp add: get_value)
qed

text \<open>A cache that memoises a function holds only its values, whatever is evicted.\<close>
lemma memo_put:
  assumes "ok s" and "\<forall>(j, u)\<in>set (items s). f j = Some u" and "f k = Some v"
  shows "\<forall>(j, u)\<in>set (items (put s k v)). f j = Some u"
  using assms by (auto simp: put_items insert_recent_def dest: in_set_butlastD)

lemma memo_get:
  assumes "ok s" and "\<forall>(j, u)\<in>set (items s). f j = Some u"
  shows "\<forall>(j, u)\<in>set (items (fst (get s k))). f j = Some u"
    and "snd (get s k) = Some v \<Longrightarrow> f k = Some v"
  using assms by (auto simp: get_items get_value recent_def dest: map_of_SomeD split: option.splits)

end

section \<open>The code provides the contract\<close>

definition contents :: "('k, 'v) Cache \<Rightarrow> ('k \<times> 'v) list" where
  "contents c = map (\<lambda>e. the (celem c e)) (clist c)"

definition cache_ok :: "('k, 'v) Cache \<Rightarrow> bool" where
  "cache_ok c \<longleftrightarrow>
     distinct (clist c) \<and> (\<forall>e\<in>set (clist c). celem c e \<noteq> None \<and> e < cnext c) \<and>
     (\<forall>k e. cache c k = Some e \<longleftrightarrow> e \<in> set (clist c) \<and> (\<exists>v. celem c e = Some (k, v))) \<and>
     0 < capacity c \<and> int (length (clist c)) \<le> capacity c"

definition cap_of :: "('k, 'v) Cache \<Rightarrow> nat" where
  "cap_of c = nat (capacity c)"

lemma cache_elem:
  assumes "cache_ok c" and "e \<in> set (clist c)"
  shows "\<exists>k v. celem c e = Some (k, v) \<and> cache c k = Some e"
  using assms unfolding cache_ok_def by (metis option.exhaust surj_pair)

lemma same_key:
  assumes "cache_ok c" and "e \<in> set (clist c)" and "e' \<in> set (clist c)"
    and "fst (the (celem c e)) = fst (the (celem c e'))"
  shows "e = e'"
  using cache_elem [OF assms(1,2)] cache_elem [OF assms(1,3)] assms(4) by auto

lemma contents_distinct:
  assumes "cache_ok c"
  shows "distinct (map fst (contents c))"
proof -
  have "inj_on (\<lambda>e. fst (the (celem c e))) (set (clist c))"
    using same_key [OF assms] by (auto simp: inj_on_def)
  moreover have "distinct (clist c)" using assms by (simp add: cache_ok_def)
  ultimately show ?thesis by (simp add: contents_def distinct_map comp_def)
qed

lemma contents_map_of:
  assumes "cache_ok c"
  shows "map_of (contents c) k = Option.bind (cache c k) (\<lambda>e. map_option snd (celem c e))"
proof (cases "cache c k")
  case None
  have "k \<notin> fst ` set (contents c)"
  proof
    assume "k \<in> fst ` set (contents c)"
    then obtain e where "e \<in> set (clist c)" "k = fst (the (celem c e))" by (auto simp: contents_def)
    with cache_elem [OF assms] None show False by fastforce
  qed
  with None show ?thesis by (simp add: map_of_eq_None_iff)
next
  case (Some e)
  then obtain v where e: "e \<in> set (clist c)" "celem c e = Some (k, v)"
    using assms by (auto simp: cache_ok_def)
  then have "(k, v) \<in> set (contents c)" unfolding contents_def by force
  with contents_distinct [OF assms] have "map_of (contents c) k = Some v" by simp
  with Some e show ?thesis by simp
qed

lemma contents_remove:
  assumes "cache_ok c" and "cache c k = Some e" and "set es \<subseteq> set (clist c)" and "distinct es"
  shows "map (\<lambda>e. the (celem c e)) (remove1 e es) =
    filter (\<lambda>p. fst p \<noteq> k) (map (\<lambda>e. the (celem c e)) es)"
proof -
  obtain v where e: "e \<in> set (clist c)" "celem c e = Some (k, v)"
    using assms(1,2) by (auto simp: cache_ok_def)
  have "fst (the (celem c x)) \<noteq> k \<longleftrightarrow> x \<noteq> e" if "x \<in> set es" for x
    using that e assms(3) same_key [OF assms(1), of x e] by auto
  then have "filter (\<lambda>p. fst p \<noteq> k) (map (\<lambda>e. the (celem c e)) es)
      = map (\<lambda>e. the (celem c e)) (filter (\<lambda>x. x \<noteq> e) es)"
    by (auto simp: filter_map comp_def intro!: arg_cong [where f = "map _"] filter_cong)
  moreover have "filter ((\<noteq>) e) es = filter (\<lambda>x. x \<noteq> e) es" by (rule filter_cong) auto
  ultimately show ?thesis using assms(4) by (simp add: distinct_remove1_removeAll removeAll_filter_not_eq)
qed

lemma move_front_ok:
  assumes "cache_ok c" and "e \<in> set (clist c)"
  shows "cache_ok (c\<lparr>clist := MoveToFront e (clist c)\<rparr>)"
proof -
  have "set (MoveToFront e (clist c)) = set (clist c)" "distinct (MoveToFront e (clist c))"
    "length (MoveToFront e (clist c)) = length (clist c)"
    using assms by (auto simp: MoveToFront_def cache_ok_def set_remove1_eq length_remove1
        intro: Suc_pred length_pos_if_in_set)
  with assms(1) show ?thesis unfolding cache_ok_def by simp
qed

lemma Get_ok: "cache_ok c \<Longrightarrow> cache_ok (fst (Get c k)) \<and> capacity (fst (Get c k)) = capacity c"
  using move_front_ok [of c] by (auto simp: Get_def cache_ok_def split: option.splits)

lemma Get_contents:
  assumes "cache_ok c"
  shows "contents (fst (Get c k)) = recent k (contents c)"
proof (cases "cache c k")
  case None
  with contents_map_of [OF assms, of k] show ?thesis by (simp add: Get_def recent_def)
next
  case (Some e)
  then obtain v where e: "celem c e = Some (k, v)" using assms by (auto simp: cache_ok_def)
  have "distinct (clist c)" using assms by (simp add: cache_ok_def)
  with contents_remove [OF assms Some, of "clist c"] contents_map_of [OF assms, of k] Some e
  show ?thesis by (simp add: Get_def recent_def contents_def MoveToFront_def)
qed

lemma Get_value: "cache_ok c \<Longrightarrow> snd (Get c k) = map_of (contents c) k"
  by (simp add: contents_map_of Get_def split: option.splits)

lemma evict_ok:
  assumes "cache_ok c"
  shows "cache_ok (evict c) \<and> contents (evict c) = (if length (contents c) = cap_of c then butlast (contents c) else contents c)
    \<and> int (length (clist (evict c))) < capacity c \<and> capacity (evict c) = capacity c"
proof (cases "int (length (clist c)) = capacity c")
  case False
  with assms show ?thesis by (auto simp: evict_def cap_of_def contents_def cache_ok_def)
next
  case True
  then have ne: "clist c \<noteq> []" using assms by (auto simp: cache_ok_def)
  then obtain es o1 where cl: "clist c = es @ [o1]" by (metis append_butlast_last_id)
  then obtain k v where k: "celem c o1 = Some (k, v)" "cache c k = Some o1"
    using cache_elem [OF assms, of o1] by auto
  have ev: "evict c = c\<lparr>clist := es, cache := (cache c)(k := None)\<rparr>"
    using True cl k by (simp add: evict_def Let_def)
  have "distinct (es @ [o1])" using assms cl by (simp add: cache_ok_def)
  have "((cache c)(k := None)) j = Some e \<longleftrightarrow> e \<in> set es \<and> (\<exists>u. celem c e = Some (j, u))" for j e
  proof -
    have "cache c j = Some e \<longleftrightarrow> e \<in> set (clist c) \<and> (\<exists>v. celem c e = Some (j, v))"
      using assms by (auto simp: cache_ok_def)
    with k cl \<open>distinct (es @ [o1])\<close> show ?thesis by auto
  qed
  then have "cache_ok (evict c)" using assms cl unfolding cache_ok_def ev by simp
  then show ?thesis using True cl by (simp add: ev contents_def cap_of_def)
qed

lemma evict_cache_None: "cache c k = None \<Longrightarrow> cache (evict c) k = None"
  by (simp add: evict_def Let_def split: option.splits)

lemma Put_new:
  assumes "cache_ok c" and "cache c k = None"
  shows "cache_ok (Put c k v) \<and> contents (Put c k v) = (k, v) # contents (evict c) \<and> capacity (Put c k v) = capacity c"
proof -
  let ?d = "evict c"
  have d: "cache_ok ?d" "int (length (clist ?d)) < capacity c" "capacity ?d = capacity c"
    using evict_ok [OF assms(1)] by blast+
  have kn: "cache ?d k = None" by (rule evict_cache_None [OF assms(2)])
  let ?p = "?d\<lparr>clist := cnext ?d # clist ?d, celem := (celem ?d)(cnext ?d \<mapsto> (k, v)),
      cache := (cache ?d)(k \<mapsto> cnext ?d), cnext := Suc (cnext ?d)\<rparr>"
  have put: "Put c k v = ?p" using assms(2) by (simp add: Put_def Let_def)
  have fresh: "cnext ?d \<notin> set (clist ?d)" using d(1) by (auto simp: cache_ok_def)
  have "((cache ?d)(k \<mapsto> cnext ?d)) j = Some e \<longleftrightarrow>
      e \<in> set (cnext ?d # clist ?d) \<and> (\<exists>u. ((celem ?d)(cnext ?d \<mapsto> (k, v))) e = Some (j, u))" for j e
  proof -
    have "cache ?d j = Some e \<longleftrightarrow> e \<in> set (clist ?d) \<and> (\<exists>v. celem ?d e = Some (j, v))"
      using d(1) by (auto simp: cache_ok_def)
    with kn fresh show ?thesis by auto
  qed
  then have "cache_ok ?p" using d fresh unfolding cache_ok_def by (auto simp: less_Suc_eq)
  moreover have "contents ?p = (k, v) # contents ?d" using fresh by (auto simp: contents_def)
  ultimately show ?thesis using d(3) put by simp
qed

lemma Put_old:
  assumes "cache_ok c" and "cache c k = Some e"
  shows "cache_ok (Put c k v) \<and> contents (Put c k v) = (k, v) # filter (\<lambda>p. fst p \<noteq> k) (contents c) \<and>
    capacity (Put c k v) = capacity c"
proof -
  let ?m = "c\<lparr>clist := MoveToFront e (clist c)\<rparr>"
  obtain u where e: "e \<in> set (clist c)" "celem c e = Some (k, u)"
    using assms by (auto simp: cache_ok_def)
  have m: "cache_ok ?m" by (rule move_front_ok [OF assms(1) e(1)])
  have put: "Put c k v = ?m\<lparr>celem := (celem c)(e \<mapsto> (k, v))\<rparr>" using assms(2) by (simp add: Put_def)
  have dist: "distinct (clist c)" using assms(1) by (simp add: cache_ok_def)
  have ok: "cache_ok (Put c k v)"
    using m e unfolding cache_ok_def put by auto
  have "contents (Put c k v) = (k, v) # map (\<lambda>e. the (celem c e)) (remove1 e (clist c))"
    using dist unfolding put by (auto simp: contents_def MoveToFront_def)
  with contents_remove [OF assms, of "clist c"] dist ok put show ?thesis by (simp add: contents_def)
qed

lemma Put_contents:
  assumes "cache_ok c"
  shows "contents (Put c k v) = insert_recent (cap_of c) k v (contents c)"
proof (cases "cache c k")
  case None
  with Put_new [OF assms None] evict_ok [OF assms] contents_map_of [OF assms, of k]
  show ?thesis by (simp add: insert_recent_def)
next
  case (Some e)
  then have "map_of (contents c) k \<noteq> None"
    using assms contents_map_of [OF assms, of k] by (auto simp: cache_ok_def)
  with Put_old [OF assms Some] show ?thesis by (auto simp: insert_recent_def)
qed

lemma Put_ok: "cache_ok c \<Longrightarrow> cache_ok (Put c k v) \<and> capacity (Put c k v) = capacity c"
  using Put_new [of c k v] Put_old [of c k _ v] by (cases "cache c k") blast+

interpretation lru: recency_cache Get Put contents cap_of cache_ok
proof
  fix c :: "('a, 'b) Cache" and k v
  assume ok: "cache_ok c"
  show "contents (fst (Get c k)) = recent k (contents c)" by (rule Get_contents [OF ok])
  show "snd (Get c k) = map_of (contents c) k" by (rule Get_value [OF ok])
  show "contents (Put c k v) = insert_recent (cap_of c) k v (contents c)" by (rule Put_contents [OF ok])
  show "cache_ok (fst (Get c k)) \<and> cap_of (fst (Get c k)) = cap_of c"
    using Get_ok [OF ok] by (simp add: cap_of_def)
  show "cache_ok (Put c k v) \<and> cap_of (Put c k v) = cap_of c"
    using Put_ok [OF ok] by (simp add: cap_of_def)
  show "distinct (map fst (contents c)) \<and> length (contents c) \<le> cap_of c \<and> 0 < cap_of c"
    using ok contents_distinct [OF ok] by (auto simp: cache_ok_def cap_of_def contents_def)
qed

lemma New_ok: "New n = Some c \<Longrightarrow> cache_ok c \<and> contents c = [] \<and> capacity c = n"
  by (auto simp: New_def cache_ok_def contents_def split: if_splits)

lemma Del_ok:
  assumes "cache_ok c"
  shows "cache_ok (Del c k) \<and> contents (Del c k) = filter (\<lambda>p. fst p \<noteq> k) (contents c)"
proof (cases "cache c k")
  case None
  then have "k \<notin> fst ` set (contents c)"
    using contents_map_of [OF assms, of k] by (simp add: map_of_eq_None_iff)
  with None assms show ?thesis by (auto simp: Del_def intro!: filter_True [symmetric])
next
  case (Some e)
  obtain v where e: "e \<in> set (clist c)" "celem c e = Some (k, v)"
    using assms Some by (auto simp: cache_ok_def)
  have dist: "distinct (clist c)" using assms by (simp add: cache_ok_def)
  have "((cache c)(k := None)) j = Some x \<longleftrightarrow> x \<in> set (remove1 e (clist c)) \<and> (\<exists>u. celem c x = Some (j, u))" for j x
  proof -
    have "cache c j = Some x \<longleftrightarrow> x \<in> set (clist c) \<and> (\<exists>v. celem c x = Some (j, v))"
      using assms by (auto simp: cache_ok_def)
    with e dist Some show ?thesis by auto
  qed
  moreover have "Del c k = c\<lparr>clist := remove1 e (clist c), cache := (cache c)(k := None)\<rparr>"
    using Some by (simp add: Del_def)
  ultimately have "cache_ok (Del c k)"
    using assms e dist unfolding cache_ok_def by (auto simp: length_remove1)
  with contents_remove [OF assms Some, of "clist c"] dist Some show ?thesis by (simp add: Del_def contents_def)
qed

lemma Clear_ok: "cache_ok c \<Longrightarrow> cache_ok (Clear c) \<and> contents (Clear c) = []"
  by (auto simp: Clear_def cache_ok_def contents_def)

text \<open>What \<open>Find\<close> returns is an entry of the cache that satisfies the predicate, and it keeps the
  entries.\<close>
lemma Find_ok:
  assumes "cache_ok c"
  shows "cache_ok (fst (Find ks p c)) \<and> set (contents (fst (Find ks p c))) = set (contents c) \<and>
    (\<forall>k v. snd (Find ks p c) = Some (k, v) \<longrightarrow> p k v \<and> map_of (contents c) k = Some v)"
proof (induction ks)
  case Nil
  with assms show ?case by simp
next
  case (Cons k ks)
  show ?case
  proof (cases "cache c k")
    case None
    with Cons show ?thesis by simp
  next
    case (Some e)
    then obtain v where e: "e \<in> set (clist c)" "celem c e = Some (k, v)"
      using assms by (auto simp: cache_ok_def)
    have "set (MoveToFront e (clist c)) = set (clist c)"
      using assms e(1) by (auto simp: MoveToFront_def cache_ok_def)
    then have "set (contents (c\<lparr>clist := MoveToFront e (clist c)\<rparr>)) = set (contents c)"
      by (simp add: contents_def)
    with Some e Cons move_front_ok [OF assms e(1)] contents_map_of [OF assms, of k] show ?thesis by auto
  qed
qed

section \<open>Values with a time to live\<close>

text \<open>Times are nanoseconds. \<open>time.Since\<close> of the zero time saturates at the largest duration.\<close>
record 'a CacheValue =
  updateTime :: "int option"
  cvalue :: "'a option"

definition max_duration :: int where "max_duration = 2 ^ 63 - 1"

text \<open>\<open>cmp.Or(ttl, time.Second)\<close>\<close>
definition or_second :: "int \<Rightarrow> int" where
  "or_second ttl = (if ttl \<noteq> 0 then ttl else 1000000000)"

definition expired :: "'a CacheValue \<Rightarrow> int \<Rightarrow> int \<Rightarrow> bool" where
  "expired v now ttl \<longleftrightarrow>
     or_second ttl < (case updateTime v of None \<Rightarrow> max_duration | Some t \<Rightarrow> now - t)"

text \<open>The result is the value loaded; \<^const>\<open>None\<close> is the panic of the type assertion on an empty
  \<open>atomic.Value\<close>.\<close>
definition value_LoadTTL :: "'a CacheValue \<Rightarrow> int \<Rightarrow> int \<Rightarrow> 'a \<Rightarrow> 'a CacheValue \<times> 'a option" where
  "value_LoadTTL v now ttl new =
     (let v' = (if expired v now ttl then \<lparr>updateTime = Some now, cvalue = Some new\<rparr> else v)
      in (v', cvalue v'))"

definition value_Load :: "'a CacheValue \<Rightarrow> int \<Rightarrow> 'a \<Rightarrow> 'a CacheValue \<times> 'a option" where
  "value_Load v now new = value_LoadTTL v now 0 new"

text \<open>The default cache holds pointers to values.\<close>
record 'a pool =
  defaultCache :: "(string, nat) Cache"
  pvals :: "nat \<Rightarrow> 'a CacheValue"
  pnext :: nat

definition pool_init :: "'a pool" where
  "pool_init =
     \<lparr>defaultCache = \<lparr>capacity = 2048, cache = Map.empty, clist = [], celem = Map.empty, cnext = 0\<rparr>,
      pvals = (\<lambda>_. \<lparr>updateTime = None, cvalue = None\<rparr>), pnext = 0\<rparr>"

definition pool_ptr :: "'a pool \<Rightarrow> string \<Rightarrow> 'a pool \<times> nat" where
  "pool_ptr s key =
     (let (c1, r) = Get (defaultCache s) key in
      case r of
        Some p \<Rightarrow> (s\<lparr>defaultCache := c1\<rparr>, p)
      | None \<Rightarrow>
          (let (c2, r2) = Get c1 key in
           case r2 of
             Some p \<Rightarrow> (s\<lparr>defaultCache := c2\<rparr>, p)
           | None \<Rightarrow> (s\<lparr>defaultCache := Put c2 key (pnext s),
                          pvals := (pvals s)(pnext s := \<lparr>updateTime = None, cvalue = None\<rparr>),
                          pnext := Suc (pnext s)\<rparr>, pnext s)))"

definition LoadTTL :: "'a pool \<Rightarrow> string \<Rightarrow> int \<Rightarrow> int \<Rightarrow> (string \<Rightarrow> 'a) \<Rightarrow> 'a pool \<times> 'a option" where
  "LoadTTL s key now ttl newValue =
     (let (s1, p) = pool_ptr s key;
          (v, r) = value_LoadTTL (pvals s1 p) now ttl (newValue key)
      in (s1\<lparr>pvals := (pvals s1)(p := v)\<rparr>, r))"

definition Load :: "'a pool \<Rightarrow> string \<Rightarrow> int \<Rightarrow> (string \<Rightarrow> 'a) \<Rightarrow> 'a pool \<times> 'a option" where
  "Load s key now newValue = LoadTTL s key now 0 newValue"

text \<open>The pointer of a key, and the invariant: pointers of the cache are allocated and not shared.\<close>
definition ptr_of :: "'a pool \<Rightarrow> string \<Rightarrow> nat option" where
  "ptr_of s k = map_of (contents (defaultCache s)) k"

definition pool_ok :: "'a pool \<Rightarrow> bool" where
  "pool_ok s \<longleftrightarrow> cache_ok (defaultCache s) \<and>
     (\<forall>k p. ptr_of s k = Some p \<longrightarrow> p < pnext s) \<and>
     (\<forall>j k p. ptr_of s j = Some p \<longrightarrow> ptr_of s k = Some p \<longrightarrow> j = k) \<and>
     (\<forall>p. updateTime (pvals s p) \<noteq> None \<longrightarrow> cvalue (pvals s p) \<noteq> None)"

lemma map_of_recent: "distinct (map fst xs) \<Longrightarrow> map_of (recent k xs) j = map_of xs j"
  by (auto simp: recent_def lru.map_of_filter_key split: option.splits)

lemma pool_ptr_ok:
  assumes "pool_ok s"
  shows "pool_ok (fst (pool_ptr s k)) \<and> ptr_of (fst (pool_ptr s k)) k = Some (snd (pool_ptr s k)) \<and>
    (\<forall>j p. j \<noteq> k \<longrightarrow> ptr_of (fst (pool_ptr s k)) j = Some p \<longrightarrow> ptr_of s j = Some p \<and> pvals (fst (pool_ptr s k)) p = pvals s p) \<and>
    (\<forall>p. ptr_of s k = Some p \<longrightarrow> snd (pool_ptr s k) = p \<and> pvals (fst (pool_ptr s k)) = pvals s) \<and>
    (ptr_of s k = None \<longrightarrow> pvals (fst (pool_ptr s k)) (snd (pool_ptr s k)) = \<lparr>updateTime = None, cvalue = None\<rparr>)"
proof -
  let ?c = "defaultCache s"
  obtain c1 r where g: "Get ?c k = (c1, r)" by fastforce
  have c: "cache_ok ?c" using assms by (simp add: pool_ok_def)
  have r: "r = ptr_of s k" and c1: "cache_ok c1"
    and m1: "map_of (contents c1) j = map_of (contents ?c) j" for j
    using lru.get_value [OF c, of k] lru.get_ok [OF c, of k] lru.get_items [OF c, of k]
      map_of_recent lru.keys [OF c] g by (auto simp: ptr_of_def)
  show ?thesis
  proof (cases "ptr_of s k")
    case (Some p)
    with g r have p: "pool_ptr s k = (s\<lparr>defaultCache := c1\<rparr>, p)" by (simp add: pool_ptr_def)
    with Some assms c1 m1 show ?thesis by (auto simp: pool_ok_def ptr_of_def)
  next
    case None
    obtain c2 r2 where g2: "Get c1 k = (c2, r2)" by fastforce
    have r2: "r2 = None" and c2: "cache_ok c2"
      using lru.get_value [OF c1, of k] lru.get_ok [OF c1, of k] g2 m1 None by (auto simp: ptr_of_def)
    have m2: "map_of (contents c2) j = map_of (contents ?c) j" for j
      using lru.get_items [OF c1, of k] map_of_recent [of "contents c1" k j] lru.keys [OF c1] g2 m1 by simp
    let ?v = "\<lparr>updateTime = None, cvalue = None\<rparr>"
    let ?s = "s\<lparr>defaultCache := Put c2 k (pnext s), pvals := (pvals s)(pnext s := ?v), pnext := Suc (pnext s)\<rparr>"
    have p: "pool_ptr s k = (?s, pnext s)" using g r g2 r2 None by (simp add: pool_ptr_def)
    have same: "ptr_of ?s k = Some (pnext s)"
      using lru.get_put_same [OF c2, of k "pnext s"] lru.get_value [of "Put c2 k (pnext s)" k] lru.put_ok [OF c2]
      by (simp add: ptr_of_def)
    have other: "ptr_of s j = Some q" if "j \<noteq> k" "ptr_of ?s j = Some q" for j q
      using lru.put_other [OF c2 that(1), of "pnext s" q] that(2) lru.put_ok [OF c2, of k "pnext s"]
        lru.get_value [OF c2, of j] lru.get_value [of "Put c2 k (pnext s)" j] m2
      by (simp add: ptr_of_def)
    have bound: "q < pnext s" if "ptr_of s j = Some q" for j q
      using assms that by (auto simp: pool_ok_def)
    have inj: "i = j" if "ptr_of ?s i = Some q" "ptr_of ?s j = Some q" for i j q
    proof (cases "i = k \<or> j = k")
      case True
      with that same other bound show ?thesis by (metis less_irrefl option.inject)
    next
      case False
      with that other assms show ?thesis unfolding pool_ok_def by metis
    qed
    have "q < Suc (pnext s)" if "ptr_of ?s j = Some q" for j q
      using that same other [of j q] bound [of j q] by (cases "j = k") auto
    then have "pool_ok ?s"
      using lru.put_ok [OF c2, of k "pnext s"] inj assms by (auto simp: pool_ok_def)
    with same other bound None show ?thesis unfolding p by fastforce
  qed
qed

section \<open>Properties\<close>

inductive cache_reach :: "('k, 'v) Cache \<Rightarrow> bool" where
  cr_new: "New n = Some c \<Longrightarrow> cache_reach c"
| cr_get: "cache_reach c \<Longrightarrow> cache_reach (fst (Get c k))"
| cr_put: "cache_reach c \<Longrightarrow> cache_reach (Put c k v)"
| cr_find: "cache_reach c \<Longrightarrow> cache_reach (fst (Find ks p c))"
| cr_del: "cache_reach c \<Longrightarrow> cache_reach (Del c k)"
| cr_clear: "cache_reach c \<Longrightarrow> cache_reach (Clear c)"

lemma cache_reach_ok: "cache_reach c \<Longrightarrow> cache_ok c"
proof (induction rule: cache_reach.induct)
  case (cr_new n c)
  from New_ok [OF cr_new] show ?case by simp
next
  case (cr_get c k)
  from Get_ok [OF cr_get(2)] show ?case by simp
next
  case (cr_put c k v)
  from Put_ok [OF cr_put(2)] show ?case by simp
next
  case (cr_find c ks p)
  from Find_ok [OF cr_find(2)] show ?case by simp
next
  case (cr_del c k)
  from Del_ok [OF cr_del(2)] show ?case by simp
next
  case (cr_clear c)
  from Clear_ok [OF cr_clear(2)] show ?case by simp
qed

definition demo_cache :: "(nat, nat) Cache" where
  "demo_cache = Put (fst (Get (Put (Put (the (New 2)) 1 10) 2 20) 1)) 3 30"

lemma demo_cache_reach: "cache_reach demo_cache"
  unfolding demo_cache_def by (intro cr_put cr_get, rule cr_new [of 2]) (simp add: New_def)

text \<open>C11. Refinement: on every cache the operations can reach, the map and the linked list implement
  one recency list without duplicate keys and within the capacity; a lookup moves its entry to the
  front, an insertion into a full cache drops the last entry.\<close>
theorem cache_refines_recency_list:
  assumes "cache_reach c"
  shows "snd (Get c k) = map_of (contents c) k \<and> contents (fst (Get c k)) = recent k (contents c) \<and>
    contents (Put c k v) = insert_recent (cap_of c) k v (contents c) \<and>
    contents (Del c k) = filter (\<lambda>p. fst p \<noteq> k) (contents c) \<and> contents (Clear c) = [] \<and>
    Dump c = map_of (contents c) \<and>
    distinct (map fst (contents c)) \<and> length (contents c) \<le> cap_of c"
proof -
  have ok: "cache_ok c" by (rule cache_reach_ok [OF assms])
  have "Dump c = map_of (contents c)" by (rule ext) (simp add: Dump_def contents_map_of [OF ok])
  with ok lru.get_value [OF ok] lru.get_items [OF ok] lru.put_items [OF ok] lru.keys [OF ok] Del_ok [OF ok] Clear_ok [OF ok]
  show ?thesis by blast
qed

theorem cache_refines_recency_list_witness:
  "contents demo_cache = [(3, 30), (1, 10)] \<and> snd (Get demo_cache 2) = map_of (contents demo_cache) 2"
  using cache_refines_recency_list [OF demo_cache_reach, of 2]
  by (simp add: demo_cache_def New_def Put_def Get_def evict_def contents_def MoveToFront_def)

text \<open>An entry that was just looked up survives the insertion of any other key when the cache has
  room for two.\<close>
theorem cache_keeps_recently_used:
  assumes "cache_reach c" and "2 \<le> capacity c" and "snd (Get c j) = Some u" and "j \<noteq> k"
  shows "snd (Get (Put (fst (Get c j)) k v) j) = Some u"
proof -
  have "2 \<le> cap_of c" using assms(2) by (simp add: cap_of_def)
  from lru.used_survives_put [OF cache_reach_ok [OF assms(1)] assms(3) this assms(4)] show ?thesis .
qed

theorem cache_keeps_recently_used_witness:
  "snd (Get (Put (fst (Get demo_cache 1)) 4 40) 1) = Some (10 :: nat)"
  using cache_keeps_recently_used [OF demo_cache_reach, of 1 10 4 40]
  by (simp add: demo_cache_def New_def Put_def Get_def evict_def MoveToFront_def)

text \<open>The default pool: within the time to live a load returns the stored value without replacing
  it, after it the new one; loading a key never changes the value of another key.\<close>
theorem LoadTTL_fresh_and_separate:
  assumes "pool_ok s" and "0 \<le> ttl" and "ttl < max_duration" and "j \<noteq> k" and "ptr_of (fst (LoadTTL s k now ttl f)) j = Some q"
  shows "pool_ok (fst (LoadTTL s k now ttl f)) \<and>
    snd (LoadTTL s k now ttl f) =
      (case ptr_of s k of
         None \<Rightarrow> Some (f k)
       | Some p \<Rightarrow> if expired (pvals s p) now ttl then Some (f k) else cvalue (pvals s p)) \<and>
    snd (LoadTTL s k now ttl f) \<noteq> None \<and>
    ptr_of s j = Some q \<and> pvals (fst (LoadTTL s k now ttl f)) q = pvals s q"
proof -
  obtain s1 p where s1: "pool_ptr s k = (s1, p)" by fastforce
  note ptr = pool_ptr_ok [OF assms(1), of k, unfolded s1 fst_conv snd_conv]
  have le: "or_second ttl < max_duration"
    using assms(3) by (simp add: or_second_def max_duration_def)
  have val: "updateTime v = None \<or> cvalue v \<noteq> None \<Longrightarrow> snd (value_LoadTTL v now ttl x) \<noteq> None \<and>
      (updateTime (fst (value_LoadTTL v now ttl x)) \<noteq> None \<longrightarrow> cvalue (fst (value_LoadTTL v now ttl x)) \<noteq> None)"
    for v :: "'a CacheValue" and x
    using le by (auto simp: value_LoadTTL_def expired_def Let_def)
  have load: "LoadTTL s k now ttl f = (s1\<lparr>pvals := (pvals s1)(p := fst (value_LoadTTL (pvals s1 p) now ttl (f k)))\<rparr>,
      snd (value_LoadTTL (pvals s1 p) now ttl (f k)))"
    by (simp add: LoadTTL_def s1 case_prod_unfold Let_def)
  have up: "updateTime (pvals s1 p) = None \<or> cvalue (pvals s1 p) \<noteq> None"
    using ptr by (auto simp: pool_ok_def)
  have ok: "pool_ok (fst (LoadTTL s k now ttl f))"
    using ptr val [OF up, of "f k"] unfolding load by (auto simp: pool_ok_def ptr_of_def)
  have "ptr_of s1 j = Some q" using assms(5) by (simp add: load ptr_of_def)
  moreover from this ptr assms(4) have "q \<noteq> p" unfolding pool_ok_def by blast
  ultimately have sep: "ptr_of s j = Some q \<and> pvals (fst (LoadTTL s k now ttl f)) q = pvals s q"
    using ptr assms(4) by (simp add: load)
  have "snd (LoadTTL s k now ttl f) = (case ptr_of s k of None \<Rightarrow> Some (f k)
      | Some p \<Rightarrow> if expired (pvals s p) now ttl then Some (f k) else cvalue (pvals s p))"
  proof (cases "ptr_of s k")
    case (Some p')
    with ptr show ?thesis by (simp add: load value_LoadTTL_def Let_def)
  next
    case None
    with ptr have "pvals s1 p = \<lparr>updateTime = None, cvalue = None\<rparr>" by simp
    with None le show ?thesis by (simp add: load value_LoadTTL_def expired_def Let_def)
  qed
  with ok sep val [OF up, of "f k"] show ?thesis by (simp add: load)
qed


theorem LoadTTL_fresh_and_separate_witness:
  "snd (LoadTTL (fst (LoadTTL pool_init ''a'' 0 0 (\<lambda>_. 1 :: nat))) ''b'' 5 0 (\<lambda>_. 2)) = Some 2"
proof -
  have ok0: "pool_ok (pool_init :: nat pool)"
    by (simp add: pool_ok_def pool_init_def cache_ok_def ptr_of_def contents_def)
  let ?s = "fst (LoadTTL pool_init ''a'' 0 0 (\<lambda>_. 1 :: nat))"
  have c: "contents (defaultCache ?s) = [(''a'', 0)]" "pnext ?s = 1" "cache_ok (defaultCache ?s)"
    "\<forall>p. updateTime (pvals ?s p) \<noteq> None \<longrightarrow> cvalue (pvals ?s p) \<noteq> None"
    by (auto simp: LoadTTL_def pool_ptr_def pool_init_def Get_def Put_def evict_def contents_def cache_ok_def
        value_LoadTTL_def expired_def or_second_def max_duration_def Let_def)
  then have ok: "pool_ok ?s" by (auto simp: pool_ok_def ptr_of_def split: if_splits)
  have p: "ptr_of ?s ''b'' = None" using c by (simp add: ptr_of_def)
  have j: "ptr_of (fst (LoadTTL ?s ''b'' 5 0 (\<lambda>_. 2))) ''a'' = Some 0"
    by (simp add: LoadTTL_def pool_ptr_def pool_init_def Get_def Put_def evict_def contents_def ptr_of_def
        value_LoadTTL_def expired_def or_second_def max_duration_def Let_def)
  show ?thesis
    using LoadTTL_fresh_and_separate [OF ok _ _ _ j] p by (simp add: max_duration_def)
qed

end
