(* ===== verification/Udp_Peer.thy ===== *)
theory Udp_Peer
  imports Complex_Main Disco Lru "HOL-Library.AList"
begin

text \<open>
  The parts of a UDP connection (\<open>disco/udp\<close>): the relay protocol (\<open>relay.go\<close>), the keeper of one
  peer's addresses (\<open>peerkeeper.go\<close>), the addresses of the local network (\<open>lan.go\<close>) and the
  configuration (\<open>config.go\<close>). Received packets are slices of the read buffer: the spare capacity
  holds the bytes of earlier packets. Times are nanoseconds; \<open>str\<close> is \<open>UDPAddr.String\<close>.
\<close>

definition second :: int where "second = 1000000000"

section \<open>Relay protocol\<close>

definition MAGIC_TO_RELAY :: bytes where "MAGIC_TO_RELAY = [0x5f, 0x70, 0x67, 1]"
definition MAGIC_FROM_RELAY :: bytes where "MAGIC_FROM_RELAY = [0x5f, 0x70, 0x67, 3]"

definition toRelay :: "bytes \<Rightarrow> PeerID \<Rightarrow> bytes" where
  "toRelay p dst = MAGIC_TO_RELAY @ [Len dst] @ dst @ p"

definition toDst :: "bytes \<Rightarrow> PeerID \<Rightarrow> bytes" where
  "toDst p src = MAGIC_FROM_RELAY @ [Len src] @ src @ p"

text \<open>\<^const>\<open>None\<close> is a panic, \<open>Some None\<close> the nil packet. The sum \<open>5+p[4]\<close> is a byte.\<close>
definition tryToDst :: "gslice \<Rightarrow> PeerID \<Rightarrow> (bytes \<times> PeerID) option option" where
  "tryToDst p src = do {
     h \<leftarrow> sl_range p 0 4;
     (if MAGIC_TO_RELAY \<noteq> sl_data h then Some None
      else do {
        l \<leftarrow> sl_index p 4;
        body \<leftarrow> sl_from p (unat (5 + l));
        i \<leftarrow> sl_range p 5 (unat (5 + l));
        Some (Some (toDst (sl_data body) src, sl_data i)) }) }"

text \<open>\<open>append([]byte(nil), ...)\<close> of nothing is nil.\<close>
definition tryRecv :: "gslice \<Rightarrow> (bytes \<times> PeerID) option option" where
  "tryRecv p = do {
     h \<leftarrow> sl_range p 0 4;
     (if MAGIC_FROM_RELAY \<noteq> sl_data h then Some None
      else do {
        l \<leftarrow> sl_index p 4;
        body \<leftarrow> sl_from p (unat (5 + l));
        i \<leftarrow> sl_range p 5 (unat (5 + l));
        Some (if sl_data body = [] then None else Some (sl_data body, sl_data i)) }) }"

section \<open>Peer keeper\<close>

record PeerState =
  ps_PeerID :: PeerID
  ps_Addr :: UDPAddr
  ps_Last :: int

record peerkeeper =
  pk_conn :: int
  pk_id :: PeerID
  pk_states :: "(string \<times> PeerState) list"
  pk_created :: int
  pk_interval :: int
  pk_cacheReady :: "bool CacheValue"

text \<open>The loop of \<open>heartbeat\<close>: the first equal address becomes active now.\<close>
fun touch :: "int \<Rightarrow> UDPAddr \<Rightarrow> (string \<times> PeerState) list \<Rightarrow> (string \<times> PeerState) list option" where
  "touch now addr [] = None"
| "touch now addr ((k, s) # r) =
     (if ip_equal (ua_ip (ps_Addr s)) (ua_ip addr) \<and> ua_port (ps_Addr s) = ua_port addr
      then Some ((k, s\<lparr>ps_Last := now\<rparr>) # r)
      else map_option ((#) (k, s)) (touch now addr r))"

text \<open>\<open>locked\<close>: whether \<open>TryLock\<close> succeeds. The second result tells whether the address is new and
  is pinged.\<close>
definition heartbeat :: "(UDPAddr \<Rightarrow> string) \<Rightarrow> bool \<Rightarrow> int \<Rightarrow> UDPAddr \<Rightarrow> peerkeeper \<Rightarrow> peerkeeper \<times> bool" where
  "heartbeat str locked now addr pk =
     (if \<not> locked then (pk, False)
      else case touch now addr (pk_states pk) of
        Some st \<Rightarrow> (pk\<lparr>pk_states := st\<rparr>, False)
      | None \<Rightarrow> (pk\<lparr>pk_states := AList.update (str addr)
                    \<lparr>ps_PeerID = pk_id pk, ps_Addr = addr, ps_Last = now\<rparr> (pk_states pk)\<rparr>, True))"

definition keeper_healthcheck :: "int \<Rightarrow> peerkeeper \<Rightarrow> peerkeeper" where
  "keeper_healthcheck now pk =
     (if 3 * pk_interval pk < now - pk_created pk
      then pk\<lparr>pk_states := filter (\<lambda>ks. \<not> 2 * pk_interval pk + second < now - ps_Last (snd ks)) (pk_states pk)\<rparr>
      else pk)"

definition ready_check :: "int \<Rightarrow> peerkeeper \<Rightarrow> bool" where
  "ready_check now pk = list_ex (\<lambda>ks. now - ps_Last (snd ks) \<le> pk_interval pk + 2 * second) (pk_states pk)"

definition ready :: "int \<Rightarrow> peerkeeper \<Rightarrow> peerkeeper \<times> bool option" where
  "ready now pk =
     (if now - pk_created pk < 20 * second then (pk, Some (ready_check now pk))
      else let (v, r) = value_LoadTTL (pk_cacheReady pk) now (pk_interval pk) (ready_check now pk)
           in (pk\<lparr>pk_cacheReady := v\<rparr>, r))"

text \<open>\<open>slices.SortFunc\<close> by activity, latest first.\<close>
definition latest_first :: "PeerState list \<Rightarrow> PeerState list" where
  "latest_first = sort_key (\<lambda>s. - ps_Last s)"

definition selectPeerUDP :: "int \<Rightarrow> peerkeeper \<Rightarrow> PeerState option" where
  "selectPeerUDP now pk =
     (let candidates = filter (\<lambda>s. now - ps_Last s < 2 * (pk_interval pk + second)) (map snd (pk_states pk)) in
      case latest_first candidates of [] \<Rightarrow> None | s # _ \<Rightarrow> Some s)"

datatype udp_error = ErrUDPConnNotReady | ErrUDPConnInactive | ErrClosed | ErrListen

text \<open>A nil \<open>p\<close> is \<^const>\<open>None\<close>. The results: the datagrams sent (socket, address, bytes) and the
  returned value; \<^const>\<open>None\<close> is the nil dereference of \<open>peerState\<close>. The socket accepts every write.\<close>
definition writeUDP :: "int \<Rightarrow> bytes option \<Rightarrow> peerkeeper \<Rightarrow> ((int \<times> UDPAddr \<times> bytes) list \<times> (udp_error + nat)) option" where
  "writeUDP now p pk =
     (let peerState = selectPeerUDP now pk in
      case p of
        None \<Rightarrow> Some ([], Inl ErrClosed)
      | Some b \<Rightarrow>
          (case peerState of
             None \<Rightarrow> None
           | Some s \<Rightarrow>
               (if pk_interval pk + second < now - ps_Last s
                then Some ([(pk_conn pk, ps_Addr s, b)], Inl ErrUDPConnInactive)
                else Some ([(pk_conn pk, ps_Addr s, b)], Inr (length b)))))"

text \<open>One tick of \<open>run\<close>: the addresses to ping.\<close>
definition keeper_tick :: "peerkeeper \<Rightarrow> (int \<times> UDPAddr) list" where
  "keeper_tick pk = map (\<lambda>ks. (pk_conn pk, ps_Addr (snd ks))) (pk_states pk)"

section \<open>Configuration\<close>

record DiscoConfig =
  PortScanOffset :: int
  PortScanCount :: int
  PortScanDuration :: int
  ChallengesRetry :: int
  ChallengesInitialInterval :: int
  ChallengesBackoffRate :: rat

definition defaultDiscoConfig :: DiscoConfig where
  "defaultDiscoConfig = \<lparr>PortScanOffset = -1000, PortScanCount = 3000, PortScanDuration = 5 * second,
     ChallengesRetry = 5, ChallengesInitialInterval = 200000000, ChallengesBackoffRate = 165 / 100\<rparr>"

text \<open>\<open>SetModifyDiscoConfig\<close> on the configuration the callback leaves.\<close>
definition clamp_config :: "DiscoConfig \<Rightarrow> DiscoConfig" where
  "clamp_config c = \<lparr>
     PortScanOffset = max (min (PortScanOffset c) 65535) (-65535),
     PortScanCount = min (max 32 (PortScanCount c)) (65535 - 1024),
     PortScanDuration = max second (PortScanDuration c),
     ChallengesRetry = max 1 (ChallengesRetry c),
     ChallengesInitialInterval = max 10000000 (ChallengesInitialInterval c),
     ChallengesBackoffRate = max 1 (ChallengesBackoffRate c)\<rparr>"

section \<open>Local network\<close>

definition is_public :: "IP \<Rightarrow> bool" where
  "is_public ip \<longleftrightarrow> IsGlobalUnicast ip \<and> \<not> IsPrivate ip \<and> \<not> IsCGN ip"

definition pubIP6 :: "UDPAddr list \<Rightarrow> UDPAddr list" where
  "pubIP6 la = filter (\<lambda>a. To4 (ua_ip a) = None \<and> is_public (ua_ip a)) la"

definition pubIP4 :: "UDPAddr list \<Rightarrow> UDPAddr list" where
  "pubIP4 la = filter (\<lambda>a. To4 (ua_ip a) \<noteq> None \<and> is_public (ua_ip a)) la"

text \<open>\<open>localAddrs\<close>: the text form of an address is its key, so equal addresses appear once.\<close>
fun local_addrs :: "bool \<Rightarrow> bool \<Rightarrow> int \<Rightarrow> IP list \<Rightarrow> UDPAddr list \<Rightarrow> UDPAddr list" where
  "local_addrs no4 no6 port [] acc = acc"
| "local_addrs no4 no6 port (ip # ips) acc =
     (if To4 ip \<noteq> None \<and> no4 \<or> To4 ip = None \<and> no6 then local_addrs no4 no6 port ips acc
      else if UDPAddrContains acc \<lparr>ua_ip = ip, ua_port = port\<rparr> then local_addrs no4 no6 port ips acc
      else local_addrs no4 no6 port ips (acc @ [\<lparr>ua_ip = ip, ua_port = port\<rparr>]))"

definition lan_type :: "IP \<Rightarrow> NATType" where
  "lan_type ip = (if is_public ip then (if To4 ip \<noteq> None then IP4 else IP6) else Internal)"

definition lanAddrsGenerate :: "PeerID \<Rightarrow> UDPAddr list \<Rightarrow> Endpoint list" where
  "lanAddrsGenerate peerID addrs = map (\<lambda>a. \<lparr>ep_ID = peerID, ep_Addr = a, ep_Type = lan_type (ua_ip a)\<rparr>) addrs"

section \<open>Lemmas\<close>

lemma relay_magic_length [simp]: "length MAGIC_TO_RELAY = 4" "length MAGIC_FROM_RELAY = 4"
  by (simp_all add: MAGIC_TO_RELAY_def MAGIC_FROM_RELAY_def)

lemma unat_5_Len: "length i \<le> 250 \<Longrightarrow> unat (5 + Len i) = 5 + length i"
  by (simp add: Len_def unat_word_ariths unat_of_nat)

lemma relay_header:
  assumes "length m = 4" and "length i \<le> 250"
  shows "sl_range (GSlice (m @ [Len i] @ i @ p) spare) 0 4 = Some (GSlice m ([Len i] @ i @ p @ spare))"
    and "sl_index (GSlice (m @ [Len i] @ i @ p) spare) 4 = Some (Len i)"
    and "sl_from (GSlice (m @ [Len i] @ i @ p) spare) (unat (5 + Len i)) = Some (GSlice p spare)"
    and "sl_range (GSlice (m @ [Len i] @ i @ p) spare) 5 (unat (5 + Len i)) = Some (GSlice i (p @ spare))"
  using assms unat_5_Len [OF assms(2)]
  by (simp_all add: sl_range_def sl_cap_def sl_index_def sl_len_def sl_from_def nth_append)

lemma tryToDst_toRelay:
  "length B \<le> 250 \<Longrightarrow> tryToDst (GSlice (toRelay p B) spare) A = Some (Some (toDst p A, B))"
  unfolding tryToDst_def toRelay_def
  using relay_header [OF relay_magic_length(1), of B p spare] by (simp del: append_Cons)

lemma tryToDst_toDst:
  "length A \<le> 250 \<Longrightarrow> tryToDst (GSlice (toDst p A) spare) R = Some None"
  unfolding tryToDst_def toDst_def
  using relay_header(1) [OF relay_magic_length(2), of A p spare]
  by (simp del: append_Cons add: MAGIC_TO_RELAY_def MAGIC_FROM_RELAY_def)

lemma tryRecv_toDst:
  "length A \<le> 250 \<Longrightarrow> tryRecv (GSlice (toDst p A) spare) = Some (if p = [] then None else Some (p, A))"
  unfolding tryRecv_def toDst_def
  using relay_header [OF relay_magic_length(2), of A p spare] by (simp del: append_Cons)

text \<open>A keeper holds states of its own peer at pairwise different addresses.\<close>
definition keeper_ok :: "peerkeeper \<Rightarrow> bool" where
  "keeper_ok pk \<longleftrightarrow> distinct (map fst (pk_states pk)) \<and>
     (\<forall>k s. map_of (pk_states pk) k = Some s \<longrightarrow> ps_PeerID s = pk_id pk) \<and>
     (\<forall>k s k' s'. map_of (pk_states pk) k = Some s \<longrightarrow> map_of (pk_states pk) k' = Some s' \<longrightarrow>
        same_addr (ps_Addr s) (ps_Addr s') \<longrightarrow> k = k')"

lemma touch_keys: "touch now addr xs = Some ys \<Longrightarrow> map fst ys = map fst xs"
  by (induction xs arbitrary: ys) (auto split: if_splits)

lemma touch_Some:
  "touch now addr xs = Some ys \<Longrightarrow> distinct (map fst xs) \<Longrightarrow>
   \<exists>k s. map_of xs k = Some s \<and> same_addr (ps_Addr s) addr \<and> map_of ys = (map_of xs)(k \<mapsto> s\<lparr>ps_Last := now\<rparr>)"
proof (induction xs arbitrary: ys)
  case (Cons x xs)
  obtain k s where x: "x = (k, s)" by fastforce
  show ?case
  proof (cases "same_addr (ps_Addr s) addr")
    case True
    with Cons.prems x have "ys = (k, s\<lparr>ps_Last := now\<rparr>) # xs" by (auto simp: same_addr_def)
    with x True show ?thesis by (intro exI [of _ k] exI [of _ s]) auto
  next
    case False
    with Cons.prems x obtain zs where z: "touch now addr xs = Some zs" "ys = (k, s) # zs" by (auto simp: same_addr_def)
    have d: "distinct (map fst xs)" using Cons.prems(2) by simp
    from Cons.IH [OF z(1) d] obtain k' s' where
      i: "map_of xs k' = Some s'" "same_addr (ps_Addr s') addr" "map_of zs = (map_of xs)(k' \<mapsto> s'\<lparr>ps_Last := now\<rparr>)" by blast
    have "k \<notin> fst ` set xs" "k' \<in> fst ` set xs" using i(1) Cons.prems(2) x by (auto dest: map_of_SomeD intro: rev_image_eqI)
    then have "k' \<noteq> k" by metis
    then have "map_of (x # xs) k' = Some s'" "map_of ys = (map_of (x # xs))(k' \<mapsto> s'\<lparr>ps_Last := now\<rparr>)"
      using i x z(2) by (simp_all add: fun_upd_twist)
    with i(2) show ?thesis by blast
  qed
qed simp

lemma touch_None: "touch now addr xs = None \<longleftrightarrow> (\<forall>s \<in> snd ` set xs. \<not> same_addr (ps_Addr s) addr)"
proof (induction xs)
  case (Cons x xs)
  then show ?case by (cases x) (simp add: same_addr_def)
qed simp

lemma heartbeat_ok:
  assumes "keeper_ok pk"
  shows "keeper_ok (fst (heartbeat str locked now addr pk))"
proof -
  have d: "distinct (map fst (pk_states pk))" using assms by (simp add: keeper_ok_def)
  show ?thesis
  proof (cases "touch now addr (pk_states pk)")
    case None
    have no: "\<not> same_addr (ps_Addr s) addr" "\<not> same_addr addr (ps_Addr s)" if "map_of (pk_states pk) k = Some s" for k s
      using None that same_addr_sym by (fastforce simp: touch_None dest: map_of_SomeD)+
    show ?thesis
      using assms None no d
      by (auto simp del: map_of_eq_Some_iff simp: keeper_ok_def heartbeat_def update_conv' distinct_update split: if_splits)
  next
    case (Some ys)
    from touch_Some [OF Some d] obtain k s where
      x: "map_of (pk_states pk) k = Some s" "map_of ys = (map_of (pk_states pk))(k \<mapsto> s\<lparr>ps_Last := now\<rparr>)" by blast
    show ?thesis
      using assms Some d x touch_keys [OF Some]
      by (auto simp del: map_of_eq_Some_iff simp: keeper_ok_def heartbeat_def split: if_splits)
  qed
qed

lemma map_of_filter_Some:
  "distinct (map fst xs) \<Longrightarrow> map_of (filter P xs) k = Some v \<Longrightarrow> map_of xs k = Some v"
  by (meson filter_is_subset map_of_SomeD map_of_is_SomeI subsetD)

lemma keeper_healthcheck_ok: "keeper_ok pk \<Longrightarrow> keeper_ok (keeper_healthcheck now pk)"
  using map_of_filter_Some [of "pk_states pk"]
  by (simp del: map_of_eq_Some_iff add: keeper_ok_def keeper_healthcheck_def distinct_map_filter) blast

lemma ready_ok: "keeper_ok pk \<Longrightarrow> keeper_ok (fst (ready now pk))"
  by (simp add: ready_def keeper_ok_def case_prod_unfold Let_def)

lemma latest_first_hd:
  assumes "latest_first xs = s # ys"
  shows "s \<in> set xs \<and> (\<forall>x \<in> set xs. ps_Last x \<le> ps_Last s)"
proof -
  have "sorted (map (\<lambda>s. - ps_Last s) (latest_first xs))" unfolding latest_first_def by (rule sorted_sort_key)
  then have "\<forall>x \<in> set (s # ys). ps_Last x \<le> ps_Last s" unfolding assms by auto
  moreover have "set xs = set (s # ys)" using set_sort [of "\<lambda>s. - ps_Last s" xs] assms unfolding latest_first_def by metis
  ultimately show ?thesis by auto
qed

lemma latest_first_Nil: "latest_first xs = [] \<longleftrightarrow> xs = []"
  unfolding latest_first_def by (metis length_0_conv length_sort)

lemma selectPeerUDP_latest:
  assumes "selectPeerUDP now pk = Some s"
  shows "s \<in> snd ` set (pk_states pk) \<and> now - ps_Last s < 2 * (pk_interval pk + second) \<and>
    (\<forall>x \<in> snd ` set (pk_states pk). ps_Last x \<le> ps_Last s)"
proof -
  let ?c = "filter (\<lambda>s. now - ps_Last s < 2 * (pk_interval pk + second)) (map snd (pk_states pk))"
  from assms obtain ys where "latest_first ?c = s # ys"
    unfolding selectPeerUDP_def Let_def by (cases "latest_first ?c") simp_all
  from latest_first_hd [OF this] have s: "s \<in> set ?c" "\<forall>x \<in> set ?c. ps_Last x \<le> ps_Last s" by auto
  have "ps_Last x \<le> ps_Last s" if "x \<in> snd ` set (pk_states pk)" for x
    using s that by (cases "x \<in> set ?c") auto
  with s show ?thesis by auto
qed

lemma selectPeerUDP_None:
  "selectPeerUDP now pk = None \<longleftrightarrow> (\<forall>x \<in> snd ` set (pk_states pk). 2 * (pk_interval pk + second) \<le> now - ps_Last x)"
proof -
  let ?c = "filter (\<lambda>s. now - ps_Last s < 2 * (pk_interval pk + second)) (map snd (pk_states pk))"
  have "selectPeerUDP now pk = None \<longleftrightarrow> latest_first ?c = []"
    unfolding selectPeerUDP_def Let_def by (cases "latest_first ?c") simp_all
  also have "\<dots> \<longleftrightarrow> (\<forall>x \<in> set (map snd (pk_states pk)). \<not> now - ps_Last x < 2 * (pk_interval pk + second))"
    unfolding latest_first_Nil filter_empty_conv ..
  finally show ?thesis by (simp only: set_map not_less)
qed

end
