(* ===== verification/Udp_Conn.thy ===== *)
theory Udp_Conn
  imports Udp_Peer
begin

text \<open>
  The UDP connection (\<open>disco/udp/udp.go\<close>, \<open>disco/udp/stun.go\<close>): its listeners, the index of peer
  keepers, the handling of one received packet, writing and relaying, the health check, NAT
  detection, and the challenges sent to a new endpoint. What other goroutines and the network decide
  are arguments: the current time, whether a lock attempt succeeds, which ports can be listened on.
  Sockets are named by their port.
\<close>

section \<open>State\<close>

record UDPConn =
  uc_Port :: int
  uc_ID :: PeerID
  uc_KeepAlive :: int
  uc_Magic :: "bytes option"
  uc_conns :: "int list option"
  uc_nat :: "NATInfo option"
  uc_index :: "(PeerID \<times> peerkeeper) list"
  uc_cache :: "PeerID pool"
  uc_stun :: "bytes \<rightharpoonup> bool"

datatype udp_event =
  USend int UDPAddr bytes
| UDatagram PeerID bytes
| UStun bytes "ip_addr \<times> u16"
| URelayErr PeerID udp_error

section \<open>Listeners\<close>

text \<open>\<open>listen\<close> tells which ports can be bound. The slice of connections is nil at first; cutting it to
  length 0 keeps it non-nil.\<close>
definition RestartListener :: "(int \<Rightarrow> bool) \<Rightarrow> UDPConn \<Rightarrow> UDPConn \<times> udp_error option" where
  "RestartListener listen c =
     (if \<not> listen (uc_Port c) then (c\<lparr>uc_conns := map_option (\<lambda>_. []) (uc_conns c)\<rparr>, Some ErrListen)
      else
        (let hard = (case uc_nat c of Some i \<Rightarrow> ni_Type i = Hard | None \<Rightarrow> False);
             more = (if hard then filter listen (map (\<lambda>i. uc_Port c + 1 + int i) [0..<255]) else [])
         in (c\<lparr>uc_conns := Some (uc_Port c # more)\<rparr>, None)))"

text \<open>\<^const>\<open>None\<close>: index out of range.\<close>
definition mainUDP :: "UDPConn \<Rightarrow> (udp_error + int) option" where
  "mainUDP c = (case uc_conns c of None \<Rightarrow> Some (Inl ErrUDPConnNotReady) | Some [] \<Rightarrow> None | Some (p # _) \<Rightarrow> Some (Inr p))"

record UDPConfig =
  cfg_Port :: int
  cfg_ID :: PeerID
  cfg_PeerKeepaliveInterval :: int
  cfg_DiscoMagic :: "bytes option"

definition ListenUDP :: "(int \<Rightarrow> bool) \<Rightarrow> UDPConfig \<Rightarrow> UDPConn option" where
  "ListenUDP listen cfg =
     (if Len (cfg_ID cfg) = 0 then None
      else
        (let ka = (if cfg_PeerKeepaliveInterval cfg < second then 10 * second else cfg_PeerKeepaliveInterval cfg);
             c = \<lparr>uc_Port = cfg_Port cfg, uc_ID = cfg_ID cfg, uc_KeepAlive = ka, uc_Magic = cfg_DiscoMagic cfg,
                  uc_conns = None, uc_nat = None, uc_index = [], uc_cache = pool_init, uc_stun = Map.empty\<rparr>
         in case RestartListener listen c of (c', None) \<Rightarrow> Some c' | (c', Some e) \<Rightarrow> None))"

section \<open>Peer index\<close>

definition set_keeper :: "PeerID \<Rightarrow> peerkeeper \<Rightarrow> UDPConn \<Rightarrow> UDPConn" where
  "set_keeper i pk c = c\<lparr>uc_index := AList.update i pk (uc_index c)\<rparr>"

definition discoPing :: "UDPConn \<Rightarrow> int \<Rightarrow> UDPAddr \<Rightarrow> udp_event" where
  "discoPing c conn addr = USend conn addr (NewPing (uc_Magic c) (uc_ID c))"

text \<open>\<open>locked\<close>: whether \<open>TryRLock\<close> succeeds; otherwise the keeper is nil.\<close>
definition tryGetPeerkeeper :: "bool \<Rightarrow> int \<Rightarrow> int \<Rightarrow> PeerID \<Rightarrow> UDPConn \<Rightarrow> UDPConn \<times> peerkeeper option" where
  "tryGetPeerkeeper locked now conn peerID c =
     (if \<not> locked then (c, None)
      else case map_of (uc_index c) peerID of
        Some pk \<Rightarrow> (let pk' = (if pk_conn pk \<noteq> conn then pk\<lparr>pk_conn := conn\<rparr> else pk) in (set_keeper peerID pk' c, Some pk'))
      | None \<Rightarrow>
          (let pk = \<lparr>pk_conn = conn, pk_id = peerID, pk_states = [], pk_created = now,
                     pk_interval = uc_KeepAlive c, pk_cacheReady = \<lparr>updateTime = None, cvalue = None\<rparr>\<rparr>
           in (set_keeper peerID pk c, Some pk)))"

text \<open>\<open>c.tryGetPeerkeeper(udpConn, peerID).heartbeat(peerAddr)\<close>\<close>
definition peer_heartbeat :: "(UDPAddr \<Rightarrow> string) \<Rightarrow> bool \<times> bool \<Rightarrow> int \<Rightarrow> int \<Rightarrow> PeerID \<Rightarrow> UDPAddr \<Rightarrow> UDPConn \<Rightarrow> UDPConn \<times> udp_event list" where
  "peer_heartbeat str lk now conn peerID addr c =
     (case tryGetPeerkeeper (fst lk) now conn peerID c of
        (c1, None) \<Rightarrow> (c1, [])
      | (c1, Some pk) \<Rightarrow>
          (let (pk', new) = heartbeat str (snd lk) now addr pk
           in (set_keeper peerID pk' c1, if new then [discoPing c (pk_conn pk') addr] else [])))"

text \<open>\<open>findPeer\<close>: the answer, \<^const>\<open>None\<close> for the panic of an empty cache.\<close>
definition findPeer :: "int \<Rightarrow> PeerID \<Rightarrow> UDPConn \<Rightarrow> UDPConn \<times> peerkeeper option option" where
  "findPeer now peerID c =
     (case map_of (uc_index c) peerID of
        None \<Rightarrow> (c, Some None)
      | Some pk \<Rightarrow>
          (case ready now pk of
             (pk', None) \<Rightarrow> (set_keeper peerID pk' c, None)
           | (pk', Some r) \<Rightarrow> (set_keeper peerID pk' c, Some (if r then Some pk' else None))))"

text \<open>The state of a keeper at an address, when it was active recently enough.\<close>
fun seek_state :: "int \<Rightarrow> int \<Rightarrow> UDPAddr \<Rightarrow> (string \<times> PeerState) list \<Rightarrow> PeerState option" where
  "seek_state now ka addr [] = None"
| "seek_state now ka addr ((k, s) # r) =
     (if \<not> ip_equal (ua_ip (ps_Addr s)) (ua_ip addr) \<or> ua_port (ps_Addr s) \<noteq> ua_port addr then seek_state now ka addr r
      else if 2 * ka < now - ps_Last s then None
      else Some s)"

definition doFind :: "int \<Rightarrow> UDPAddr \<Rightarrow> UDPConn \<Rightarrow> PeerID" where
  "doFind now addr c =
     (let candidates = List.map_filter (\<lambda>kv. seek_state now (uc_KeepAlive c) addr (pk_states (snd kv))) (uc_index c) in
      case latest_first candidates of [] \<Rightarrow> [] | s # _ \<Rightarrow> ps_PeerID s)"

text \<open>Cached for one millisecond per address; \<^const>\<open>None\<close> is the panic of an empty cache value.\<close>
definition findPeerID :: "(UDPAddr \<Rightarrow> string) \<Rightarrow> int \<Rightarrow> UDPAddr \<Rightarrow> UDPConn \<Rightarrow> UDPConn \<times> PeerID option" where
  "findPeerID str now addr c =
     (let (p, r) = LoadTTL (uc_cache c) (str addr) now 1000000 (\<lambda>_. doFind now addr c) in (c\<lparr>uc_cache := p\<rparr>, r))"

section \<open>Writing\<close>

definition WriteTo :: "int \<Rightarrow> bytes option \<Rightarrow> PeerID \<Rightarrow> UDPConn \<Rightarrow> (UDPConn \<times> udp_event list \<times> (udp_error + nat)) option" where
  "WriteTo now p peerID c =
     (case findPeer now peerID c of
        (c1, None) \<Rightarrow> None
      | (c1, Some None) \<Rightarrow> Some (c1, [], Inl ErrClosed)
      | (c1, Some (Some pk)) \<Rightarrow>
          (case writeUDP now p pk of
             None \<Rightarrow> None
           | Some (ws, r) \<Rightarrow> Some (c1, map (\<lambda>(s, a, b). USend s a b) ws, r)))"

definition RelayTo :: "int \<Rightarrow> PeerID \<Rightarrow> bytes \<Rightarrow> PeerID \<Rightarrow> UDPConn \<Rightarrow> (UDPConn \<times> udp_event list \<times> (udp_error + nat)) option" where
  "RelayTo now relay p peerID c = WriteTo now (Some (toRelay p peerID)) relay c"

section \<open>STUN round trips\<close>

text \<open>The channels of the waiting round trips: true while a receiver waits. The entry stays when the
  round trip ends, with a closed channel.\<close>
definition stun_begin :: "bytes \<Rightarrow> UDPConn \<Rightarrow> UDPConn" where
  "stun_begin txID c = c\<lparr>uc_stun := (uc_stun c)(txID \<mapsto> True)\<rparr>"

definition stun_end :: "bytes \<Rightarrow> UDPConn \<Rightarrow> UDPConn" where
  "stun_end txID c = c\<lparr>uc_stun := (uc_stun c)(txID \<mapsto> False)\<rparr>"

text \<open>A send on a closed channel panics and is recovered.\<close>
definition recvResponse :: "bytes \<Rightarrow> UDPConn \<Rightarrow> udp_event list" where
  "recvResponse b c =
     (case ParseResponse b of
        (txid, saddr, Some e) \<Rightarrow> []
      | (txid, saddr, None) \<Rightarrow> (case uc_stun c txid of Some True \<Rightarrow> [UStun txid saddr] | _ \<Rightarrow> []))"

section \<open>Receiving\<close>

text \<open>A packet of a known peer: relayed on, received from a relay, or delivered. Sending on the
  channels of datagrams and errors is an event.\<close>
definition handle_datagram :: "int \<Rightarrow> PeerID \<Rightarrow> gslice \<Rightarrow> UDPConn \<Rightarrow> (UDPConn \<times> udp_event list) option" where
  "handle_datagram now peerID buf c = do {
     fwd \<leftarrow> tryToDst buf peerID;
     (case fwd of
        Some (pkt, dst) \<Rightarrow> do {
          (c1, ev, r) \<leftarrow> WriteTo now (Some pkt) dst c;
          Some (c1, ev @ (case r of Inl e \<Rightarrow> [URelayErr dst e] | Inr _ \<Rightarrow> [])) }
      | None \<Rightarrow> do {
          rcv \<leftarrow> tryRecv buf;
          (case rcv of
             Some (pkt, src) \<Rightarrow> Some (c, [UDatagram src pkt])
           | None \<Rightarrow> Some (c, [UDatagram peerID (sl_data buf)])) }) }"

text \<open>One iteration of \<open>udpRead\<close> on a received packet, on the socket \<open>conn\<close>.\<close>
definition udpRead :: "local_cfg \<Rightarrow> (UDPAddr \<Rightarrow> string) \<Rightarrow> bool \<times> bool \<Rightarrow> int \<Rightarrow> int \<Rightarrow> gslice \<Rightarrow> UDPAddr \<Rightarrow> UDPConn \<Rightarrow> (UDPConn \<times> udp_event list) option" where
  "udpRead g str lk now conn buf peerAddr c =
     (let i = ParsePing (uc_Magic c) (sl_data buf) in
      if 0 < Len i then
        (if IsIgnoredLocalIP g (ua_ip peerAddr) then Some (c, [])
         else Some (peer_heartbeat str lk now conn i peerAddr c))
      else if Is (sl_data buf) then Some (c, recvResponse (sl_data buf) c)
      else case findPeerID str now peerAddr c of
             (c1, None) \<Rightarrow> None
           | (c1, Some peerID) \<Rightarrow>
               if Len peerID = 0 then Some (c1, [])
               else
                 (let (c2, ev) = peer_heartbeat str lk now conn peerID peerAddr c1 in
                  map_option (\<lambda>(c3, ev'). (c3, ev @ ev')) (handle_datagram now peerID buf c2)))"

section \<open>Health check\<close>

text \<open>One tick of \<open>runPeersHealthcheckLoop\<close>.\<close>
definition healthcheck :: "int \<Rightarrow> UDPConn \<Rightarrow> UDPConn" where
  "healthcheck now c =
     c\<lparr>uc_index := filter (\<lambda>kv. pk_states (snd kv) \<noteq> []) (map (\<lambda>(k, pk). (k, keeper_healthcheck now pk)) (uc_index c))\<rparr>"

section \<open>NAT detection\<close>

text \<open>The addresses that the STUN servers answered, in the order of the answers.\<close>
definition classify_nat :: "UDPAddr list \<Rightarrow> (UDPAddr \<Rightarrow> string) \<Rightarrow> NATInfo" where
  "classify_nat udpAddrs str =
     (if length udpAddrs \<le> 1 then \<lparr>ni_Type = Unknown, ni_Addrs = udpAddrs\<rparr>
      else if list_ex (\<lambda>a. str (hd udpAddrs) \<noteq> str a) udpAddrs then \<lparr>ni_Type = Hard, ni_Addrs = udpAddrs\<rparr>
      else \<lparr>ni_Type = Easy, ni_Addrs = udpAddrs\<rparr>)"

definition adjust_nat :: "UDPAddr list \<Rightarrow> NATInfo \<Rightarrow> NATInfo" where
  "adjust_nat la info =
     (if pubIP4 la \<noteq> [] \<and> pubIP6 la \<noteq> [] then MergeAddrs (MergeAddrs (info\<lparr>ni_Type := IP46\<rparr>) (pubIP4 la)) (pubIP6 la)
      else if ni_Type info = Easy \<and> pubIP6 la \<noteq> [] then MergeAddrs (info\<lparr>ni_Type := EasyIP6\<rparr>) (pubIP6 la)
      else if pubIP4 la \<noteq> [] then MergeAddrs (info\<lparr>ni_Type := IP4\<rparr>) (pubIP4 la)
      else info)"

text \<open>The listeners are restarted when the type becomes or stops being hard; the stored pointer sees
  the adjusted info. The result: the info, which is also sent to the NAT events.\<close>
definition DetectNAT :: "(int \<Rightarrow> bool) \<Rightarrow> (UDPAddr \<Rightarrow> string) \<Rightarrow> UDPAddr list \<Rightarrow> UDPAddr list \<Rightarrow> UDPConn \<Rightarrow> (UDPConn \<times> NATInfo) option" where
  "DetectNAT listen str la answers c = do {
     m \<leftarrow> mainUDP c;
     let info = adjust_nat la (case m of Inl _ \<Rightarrow> \<lparr>ni_Type = Unknown, ni_Addrs = []\<rparr> | Inr _ \<Rightarrow> classify_nat answers str);
     let wasHard = (case uc_nat c of Some i \<Rightarrow> ni_Type i = Hard | None \<Rightarrow> False);
     let c1 = c\<lparr>uc_nat := Some info\<rparr>;
     Some (if (ni_Type info = Hard) \<noteq> wasHard then fst (RestartListener listen c1) else c1, info) }"

text \<open>The endpoints announced for the wide area network.\<close>
definition wan_endpoints :: "PeerID \<Rightarrow> NATInfo \<Rightarrow> Endpoint list" where
  "wan_endpoints peerID i =
     (case ni_Addrs i of
        [] \<Rightarrow> []
      | a # _ \<Rightarrow>
          if ni_Type i = Hard then map (\<lambda>x. \<lparr>ep_ID = peerID, ep_Addr = x, ep_Type = ni_Type i\<rparr>) (ni_Addrs i)
          else [\<lparr>ep_ID = peerID, ep_Addr = a, ep_Type = ni_Type i\<rparr>])"

section \<open>Challenges\<close>

text \<open>Go's remainder truncates towards zero.\<close>
definition go_mod :: "int \<Rightarrow> int \<Rightarrow> int" where
  "go_mod a b = sgn a * (\<bar>a\<bar> mod b)"

text \<open>\<open>easyChallenges\<close> on one socket: the number of pings, given when the connection closes and when
  the peer is found.\<close>
fun easy_loop :: "(nat \<Rightarrow> bool) \<Rightarrow> (nat \<Rightarrow> bool) \<Rightarrow> nat \<Rightarrow> nat \<Rightarrow> nat" where
  "easy_loop stop found i 0 = 0"
| "easy_loop stop found i (Suc n) =
     (if stop i then 0 else if found i then 0 else Suc (easy_loop stop found (Suc i) n))"

definition easyChallenges :: "(nat \<Rightarrow> bool) \<Rightarrow> (nat \<Rightarrow> bool) \<Rightarrow> DiscoConfig \<Rightarrow> nat" where
  "easyChallenges stop found cfg = Suc (easy_loop stop found 0 (nat (ChallengesRetry cfg)))"

text \<open>\<open>hardChallenges\<close>: \<open>rnd i\<close> is the port drawn below \<open>65535-1024\<close>.\<close>
fun hard_loop :: "(nat \<Rightarrow> bool) \<Rightarrow> (nat \<Rightarrow> bool) \<Rightarrow> (nat \<Rightarrow> int) \<Rightarrow> nat \<Rightarrow> nat \<Rightarrow> int list" where
  "hard_loop stop found rnd i 0 = []"
| "hard_loop stop found rnd i (Suc n) =
     (if stop i then [] else if found i then []
      else rnd i mod (65535 - 1024) # hard_loop stop found rnd (Suc i) n)"

text \<open>The port scan over the ports of the loop.\<close>
fun port_scan :: "(int \<Rightarrow> bool) \<Rightarrow> (int \<Rightarrow> bool) \<Rightarrow> int list \<Rightarrow> int list" where
  "port_scan stop found [] = []"
| "port_scan stop found (port # ps) =
     (if stop port then []
      else let p = go_mod port 65536 in
        if p \<le> 1024 then port_scan stop found ps
        else if found port then []
        else p # port_scan stop found ps)"

record challenge_env =
  ce_closed :: "nat \<Rightarrow> bool"
  ce_found :: "nat \<Rightarrow> bool"
  ce_rnd :: "nat \<Rightarrow> int"
  ce_ready :: bool
  ce_scan_closed :: "int \<Rightarrow> bool"
  ce_scan_found :: "int \<Rightarrow> bool"

text \<open>\<open>RunDiscoMessageSendLoop\<close>: the pings it sends. The sockets run their easy challenges
  concurrently with the same environment; the rate limiter only delays.\<close>
definition RunDiscoMessageSendLoop :: "DiscoConfig \<Rightarrow> challenge_env \<Rightarrow> Endpoint \<Rightarrow> UDPConn \<Rightarrow> udp_event list option" where
  "RunDiscoMessageSendLoop cfg e ep c =
     (let ping = (\<lambda>conn addr. discoPing c conn addr);
          addr = ep_Addr ep
      in
      if ep_Type ep = Hard then
        (if (case uc_nat c of Some i \<Rightarrow> ni_Type i = Hard | None \<Rightarrow> False) then Some []
         else do {
           m \<leftarrow> mainUDP c;
           Some (case m of Inl _ \<Rightarrow> []
             | Inr conn \<Rightarrow> map (\<lambda>p. ping conn (addr\<lparr>ua_port := p\<rparr>)) (hard_loop (ce_closed e) (ce_found e) (ce_rnd e) 0 2000)) })
      else
        (let conns = (case uc_conns c of None \<Rightarrow> [] | Some cs \<Rightarrow> if IsPrivate (ua_ip addr) then take 1 cs else cs);
             easy = concat (map (\<lambda>conn. replicate (easyChallenges (ce_closed e) (ce_found e) cfg) (ping conn addr)) conns)
         in
         if ce_ready e \<or> To4 (ua_ip addr) = None \<or> IsPrivate (ua_ip addr) then Some easy
         else do {
           m \<leftarrow> mainUDP c;
           Some (case m of Inl _ \<Rightarrow> easy
             | Inr conn \<Rightarrow> easy @ map (\<lambda>p. ping conn (addr\<lparr>ua_port := p\<rparr>))
                 (port_scan (ce_scan_closed e) (ce_scan_found e)
                    [ua_port addr + PortScanOffset cfg .. ua_port addr + PortScanCount cfg])) }))"

section \<open>Invariant\<close>

definition cache_value_ok :: "'a CacheValue \<Rightarrow> bool" where
  "cache_value_ok v \<longleftrightarrow> (updateTime v \<noteq> None \<longrightarrow> cvalue v \<noteq> None)"

definition udp_ok :: "UDPConn \<Rightarrow> bool" where
  "udp_ok c \<longleftrightarrow> distinct (map fst (uc_index c)) \<and> second \<le> uc_KeepAlive c \<and> uc_KeepAlive c < max_duration \<and>
     (\<forall>(i, pk) \<in> set (uc_index c). keeper_ok pk \<and> pk_id pk = i \<and> pk_interval pk = uc_KeepAlive c \<and> cache_value_ok (pk_cacheReady pk)) \<and>
     pool_ok (uc_cache c)"

text \<open>What an operation on one keeper keeps.\<close>
definition entry_ok :: "UDPConn \<Rightarrow> PeerID \<Rightarrow> peerkeeper \<Rightarrow> bool" where
  "entry_ok c i pk \<longleftrightarrow> keeper_ok pk \<and> pk_id pk = i \<and> pk_interval pk = uc_KeepAlive c \<and> cache_value_ok (pk_cacheReady pk)"

lemma udp_ok_alt:
  "udp_ok c \<longleftrightarrow> distinct (map fst (uc_index c)) \<and> second \<le> uc_KeepAlive c \<and> uc_KeepAlive c < max_duration \<and>
     (\<forall>(i, pk) \<in> set (uc_index c). entry_ok c i pk) \<and> pool_ok (uc_cache c)"
  by (simp add: udp_ok_def entry_ok_def)

lemma update_set_subset: "set (AList.update k v xs) \<subseteq> insert (k, v) (set xs)"
  by (induction xs) auto

lemma set_keeper_ok:
  assumes "udp_ok c" and "entry_ok c i pk"
  shows "udp_ok (set_keeper i pk c)"
proof -
  have "\<forall>(j, p) \<in> set (AList.update i pk (uc_index c)). entry_ok c j p"
    using assms update_set_subset [of i pk "uc_index c"] by (fastforce simp: udp_ok_alt)
  then show ?thesis
    using assms(1) by (auto simp: udp_ok_alt set_keeper_def distinct_update entry_ok_def)
qed

lemma entry_ok_lookup: "udp_ok c \<Longrightarrow> map_of (uc_index c) i = Some pk \<Longrightarrow> entry_ok c i pk"
  by (auto simp: udp_ok_alt dest: map_of_SomeD)

lemma entry_ok_set_keeper [simp]: "entry_ok (set_keeper j q c) i pk = entry_ok c i pk"
  by (simp add: entry_ok_def set_keeper_def)

lemma tryGetPeerkeeper_ok:
  assumes "udp_ok c" and "tryGetPeerkeeper locked now conn i c = (c', r)"
  shows "udp_ok c' \<and> (\<forall>pk. r = Some pk \<longrightarrow> entry_ok c' i pk)"
proof (cases "map_of (uc_index c) i")
  case None
  let ?pk = "\<lparr>pk_conn = conn, pk_id = i, pk_states = [], pk_created = now, pk_interval = uc_KeepAlive c,
    pk_cacheReady = \<lparr>updateTime = None, cvalue = None\<rparr>\<rparr>"
  have "entry_ok c i ?pk" by (simp add: entry_ok_def keeper_ok_def cache_value_ok_def)
  with assms None set_keeper_ok [OF assms(1) this] show ?thesis
    by (auto simp: tryGetPeerkeeper_def Let_def split: if_splits)
next
  case (Some pk)
  have "entry_ok c i (if pk_conn pk \<noteq> conn then pk\<lparr>pk_conn := conn\<rparr> else pk)"
    using entry_ok_lookup [OF assms(1) Some] by (simp add: entry_ok_def keeper_ok_def)
  with assms Some set_keeper_ok [OF assms(1) this] show ?thesis
    by (auto simp: tryGetPeerkeeper_def Let_def split: if_splits)
qed

lemma heartbeat_entry_ok:
  "entry_ok c i pk \<Longrightarrow> entry_ok c i (fst (heartbeat str locked now addr pk))"
  using heartbeat_ok [of pk str locked now addr]
  by (auto simp: entry_ok_def heartbeat_def split: option.splits)

lemma peer_heartbeat_ok:
  assumes "udp_ok c"
  shows "udp_ok (fst (peer_heartbeat str lk now conn i addr c))"
proof -
  obtain c1 r where t: "tryGetPeerkeeper (fst lk) now conn i c = (c1, r)" by fastforce
  note ok = tryGetPeerkeeper_ok [OF assms t]
  then show ?thesis
    using heartbeat_entry_ok [of c1 i _ str "snd lk" now addr] set_keeper_ok [of c1 i]
    by (auto simp: peer_heartbeat_def t Let_def case_prod_unfold split: option.splits)
qed

lemma ready_result:
  assumes "second \<le> pk_interval pk" and "pk_interval pk < max_duration" and "cache_value_ok (pk_cacheReady pk)"
  shows "snd (ready now pk) \<noteq> None \<and> cache_value_ok (pk_cacheReady (fst (ready now pk)))"
proof -
  have "or_second (pk_interval pk) < max_duration" using assms(1,2) by (simp add: or_second_def second_def)
  with assms(3) show ?thesis
    by (auto simp: ready_def cache_value_ok_def value_LoadTTL_def expired_def Let_def split: if_splits option.splits)
qed

lemma ready_fields [simp]:
  "pk_id (fst (ready now pk)) = pk_id pk" "pk_interval (fst (ready now pk)) = pk_interval pk"
  "pk_states (fst (ready now pk)) = pk_states pk" "pk_conn (fst (ready now pk)) = pk_conn pk"
  by (simp_all add: ready_def case_prod_unfold Let_def)

lemma findPeer_ok:
  assumes "udp_ok c"
  shows "udp_ok (fst (findPeer now i c)) \<and> snd (findPeer now i c) \<noteq> None"
proof (cases "map_of (uc_index c) i")
  case (Some pk)
  have e: "entry_ok c i pk" by (rule entry_ok_lookup [OF assms Some])
  obtain pk' r where r: "ready now pk = (pk', r)" by fastforce
  have "snd (ready now pk) \<noteq> None" "cache_value_ok (pk_cacheReady (fst (ready now pk)))"
    using ready_result [of pk now] e assms by (auto simp: entry_ok_def udp_ok_def)
  moreover have "keeper_ok pk'" using ready_ok [of pk now] e r by (simp add: entry_ok_def)
  ultimately have "entry_ok c i pk'" "r \<noteq> None"
    using e r ready_fields [of now pk] by (simp_all add: entry_ok_def)
  with set_keeper_ok [OF assms this(1)] Some r show ?thesis by (auto simp: findPeer_def)
qed (simp add: findPeer_def assms)

lemma WriteTo_ok: "udp_ok c \<Longrightarrow> WriteTo now p i c = Some (c', ev, r) \<Longrightarrow> udp_ok c'"
  using findPeer_ok [of c now i] by (auto simp: WriteTo_def split: prod.splits option.splits)

lemma LoadTTL_pool_ok:
  assumes "pool_ok s" and "0 \<le> ttl" and "ttl < max_duration"
  shows "pool_ok (fst (LoadTTL s k now ttl f)) \<and> snd (LoadTTL s k now ttl f) \<noteq> None"
proof -
  obtain s1 p where s1: "pool_ptr s k = (s1, p)" by fastforce
  have ok: "pool_ok s1" using pool_ptr_ok [OF assms(1), of k] s1 by simp
  have "or_second ttl < max_duration" using assms(2,3) by (simp add: or_second_def max_duration_def)
  then have v: "updateTime v = None \<or> cvalue v \<noteq> None \<Longrightarrow> snd (value_LoadTTL v now ttl x) \<noteq> None \<and>
      (updateTime (fst (value_LoadTTL v now ttl x)) \<noteq> None \<longrightarrow> cvalue (fst (value_LoadTTL v now ttl x)) \<noteq> None)" for v :: "'a CacheValue" and x
    by (auto simp: value_LoadTTL_def expired_def Let_def)
  have "updateTime (pvals s1 p) = None \<or> cvalue (pvals s1 p) \<noteq> None" using ok by (auto simp: pool_ok_def)
  from v [OF this, of "f k"] ok show ?thesis
    by (auto simp: LoadTTL_def s1 case_prod_unfold Let_def pool_ok_def ptr_of_def)
qed

lemma findPeerID_ok:
  assumes "udp_ok c"
  shows "udp_ok (fst (findPeerID str now addr c)) \<and> snd (findPeerID str now addr c) \<noteq> None"
proof -
  have "pool_ok (uc_cache c)" using assms by (simp add: udp_ok_def)
  from LoadTTL_pool_ok [OF this, of 1000000 "str addr" now "\<lambda>_. doFind now addr c"] assms show ?thesis
    by (simp add: findPeerID_def case_prod_unfold Let_def udp_ok_def max_duration_def)
qed

lemma handle_datagram_ok: "udp_ok c \<Longrightarrow> handle_datagram now i buf c = Some (c', ev) \<Longrightarrow> udp_ok c'"
  using WriteTo_ok [of c now]
  by (auto simp: handle_datagram_def bind_eq_Some_conv split: option.splits)

lemma udpRead_ok:
  assumes "udp_ok c" and "udpRead g str lk now conn buf addr c = Some (c', ev)"
  shows "udp_ok c'"
proof -
  let ?i = "ParsePing (uc_Magic c) (sl_data buf)"
  obtain c1 r where f: "findPeerID str now addr c = (c1, r)" by fastforce
  have c1: "udp_ok c1" using findPeerID_ok [OF assms(1), of str now addr] f by simp
  show ?thesis
  proof (cases "0 < Len ?i \<or> Is (sl_data buf)")
    case True
    then show ?thesis
      using assms peer_heartbeat_ok [OF assms(1), of str lk now conn ?i addr]
      by (auto simp: udpRead_def Let_def split: if_splits)
  next
    case False
    with assms(2) f obtain peerID where r: "r = Some peerID"
      by (cases r) (auto simp: udpRead_def Let_def)
    obtain c2 e2 where h: "peer_heartbeat str lk now conn peerID addr c1 = (c2, e2)" by fastforce
    have c2: "udp_ok c2" using peer_heartbeat_ok [OF c1, of str lk now conn peerID addr] h by simp
    from False assms(2) f r h
    have "c' = c1 \<or> (\<exists>e3. handle_datagram now peerID buf c2 = Some (c', e3))"
      by (auto simp: udpRead_def Let_def split: if_splits)
    with c1 handle_datagram_ok [OF c2] show ?thesis by blast
  qed
qed

lemma healthcheck_ok:
  assumes "udp_ok c"
  shows "udp_ok (healthcheck now c)"
proof -
  have e: "entry_ok (healthcheck now c) i (keeper_healthcheck now pk)" if "(i, pk) \<in> set (uc_index c)" for i pk
    using assms that keeper_healthcheck_ok [of pk now]
    by (fastforce simp: udp_ok_def entry_ok_def healthcheck_def keeper_healthcheck_def)
  have eq: "map fst (map (\<lambda>(k, pk). (k, keeper_healthcheck now pk)) (uc_index c)) = map fst (uc_index c)"
    by (simp add: case_prod_unfold)
  have d: "distinct (map fst (map (\<lambda>(k, pk). (k, keeper_healthcheck now pk)) (uc_index c)))"
    unfolding eq using assms by (simp add: udp_ok_def)
  from distinct_map_filter [OF d] have "distinct (map fst (uc_index (healthcheck now c)))"
    unfolding healthcheck_def UDPConn.select_convs UDPConn.update_convs by (cases c) simp
  then show ?thesis using assms e by (auto simp: udp_ok_alt healthcheck_def entry_ok_def)
qed

text \<open>The operations as steps.\<close>
inductive udp_step :: "UDPConn \<Rightarrow> UDPConn \<Rightarrow> bool" where
  Step_read: "udpRead g str lk now conn buf addr c = Some (c', ev) \<Longrightarrow> udp_step c c'"
| Step_write: "WriteTo now p i c = Some (c', ev, r) \<Longrightarrow> udp_step c c'"
| Step_health: "udp_step c (healthcheck now c)"
| Step_restart: "udp_step c (fst (RestartListener listen c))"
| Step_detect: "DetectNAT listen str la answers c = Some (c', info) \<Longrightarrow> udp_step c c'"
| Step_stun_begin: "udp_step c (stun_begin txid c)"
| Step_stun_end: "udp_step c (stun_end txid c)"

lemma RestartListener_fields:
  "uc_index (fst (RestartListener listen c)) = uc_index c" "uc_KeepAlive (fst (RestartListener listen c)) = uc_KeepAlive c"
  "uc_cache (fst (RestartListener listen c)) = uc_cache c"
  by (simp_all add: RestartListener_def Let_def)

lemma udp_ok_fields:
  "uc_index c' = uc_index c \<Longrightarrow> uc_KeepAlive c' = uc_KeepAlive c \<Longrightarrow> uc_cache c' = uc_cache c \<Longrightarrow> udp_ok c' = udp_ok c"
  by (simp add: udp_ok_def)

lemma DetectNAT_fields:
  "DetectNAT listen str la answers c = Some (c', info) \<Longrightarrow>
   uc_index c' = uc_index c \<and> uc_KeepAlive c' = uc_KeepAlive c \<and> uc_cache c' = uc_cache c"
  by (auto simp: DetectNAT_def Let_def RestartListener_fields bind_eq_Some_conv split: if_splits)

lemma udp_step_ok: "udp_step c c' \<Longrightarrow> udp_ok c \<Longrightarrow> udp_ok c'"
proof (induction rule: udp_step.induct)
  case (Step_detect listen str la answers c c' info)
  then show ?case using DetectNAT_fields [OF Step_detect.hyps] udp_ok_fields [of c' c] by blast
next
  case (Step_restart c listen)
  then show ?case using udp_ok_fields [OF RestartListener_fields] by blast
next
  case (Step_stun_begin txid c)
  then show ?case by (simp add: stun_begin_def udp_ok_def)
next
  case (Step_stun_end txid c)
  then show ?case by (simp add: stun_end_def udp_ok_def)
qed (blast intro: udpRead_ok WriteTo_ok healthcheck_ok)+

lemma pool_init_ok: "pool_ok pool_init"
  by (simp add: pool_ok_def pool_init_def cache_ok_def contents_def ptr_of_def)

lemma ListenUDP_ok:
  assumes "ListenUDP listen cfg = Some c" and "cfg_PeerKeepaliveInterval cfg < max_duration"
  shows "udp_ok c"
  using assms pool_init_ok
  by (auto simp: ListenUDP_def RestartListener_def Let_def udp_ok_def second_def max_duration_def split: if_splits prod.splits option.splits)

section \<open>Properties\<close>


definition demo_udp_cfg :: "PeerID \<Rightarrow> UDPConfig" where
  "demo_udp_cfg i = \<lparr>cfg_Port = 5000, cfg_ID = i, cfg_PeerKeepaliveInterval = second, cfg_DiscoMagic = None\<rparr>"


lemma udpRead_known:
  assumes "ParsePing (uc_Magic c) (sl_data buf) = []" and "\<not> Is (sl_data buf)"
    and "findPeerID str now addr c = (c1, Some i)" and "Len i \<noteq> 0"
  shows "udpRead g str lk now conn buf addr c =
    (case peer_heartbeat str lk now conn i addr c1 of (c2, ev) \<Rightarrow>
       map_option (\<lambda>(c3, ev'). (c3, ev @ ev')) (handle_datagram now i buf c2))"
  using assms by (simp add: udpRead_def Len_def Let_def)

lemma not_Is_relay: "\<not> Is (toRelay p i)" "\<not> Is (toDst p i)"
  by (simp_all add: Is_def toRelay_def toDst_def MAGIC_TO_RELAY_def MAGIC_FROM_RELAY_def)

lemma Len_nonzero: "i \<noteq> [] \<Longrightarrow> length i \<le> 255 \<Longrightarrow> Len i \<noteq> 0"
proof -
  assume a: "i \<noteq> []" "length i \<le> 255"
  then have "unat (Len i) = length i" by (simp add: Len_def unat_of_nat)
  with a show "Len i \<noteq> 0" by auto
qed

text \<open>A connection that knows two peers since time 0.\<close>
definition demo_keeper :: "PeerID \<Rightarrow> int \<Rightarrow> peerkeeper" where
  "demo_keeper i port = \<lparr>pk_conn = 5000, pk_id = i,
     pk_states = [(''a'', \<lparr>ps_PeerID = i, ps_Addr = \<lparr>ua_ip = [10, 0, 0, 1], ua_port = port\<rparr>, ps_Last = 0\<rparr>)],
     pk_created = 0, pk_interval = second, pk_cacheReady = \<lparr>updateTime = None, cvalue = None\<rparr>\<rparr>"

definition demo_conn :: "PeerID \<Rightarrow> UDPConn" where
  "demo_conn i = \<lparr>uc_Port = 5000, uc_ID = i, uc_KeepAlive = second, uc_Magic = None, uc_conns = Some [5000], uc_nat = None,
     uc_index = [([1], demo_keeper [1] 7001), ([2], demo_keeper [2] 7002)], uc_cache = pool_init, uc_stun = Map.empty\<rparr>"

lemma demo_findPeerID:
  assumes "i = 1 \<or> i = 2"
  shows "findPeerID (\<lambda>_. ''x'') 5 \<lparr>ua_ip = [10, 0, 0, 1], ua_port = 7000 + i\<rparr> (demo_conn k) =
    (demo_conn k\<lparr>uc_cache := fst (LoadTTL pool_init ''x'' 5 1000000 (\<lambda>_. [word_of_int i]))\<rparr>, Some [word_of_int i])"
proof -
  have d: "doFind 5 \<lparr>ua_ip = [10, 0, 0, 1], ua_port = 7000 + i\<rparr> (demo_conn k) = [word_of_int i]"
    using assms by (auto simp: doFind_def demo_conn_def demo_keeper_def List.map_filter_def latest_first_def second_def)
  have "snd (LoadTTL pool_init ''x'' 5 1000000 (\<lambda>_. [word_of_int i] :: PeerID)) = Some [word_of_int i]"
    by (simp add: LoadTTL_def pool_ptr_def pool_init_def Get_def Put_def evict_def
        value_LoadTTL_def expired_def or_second_def max_duration_def Let_def)
  then show ?thesis using d by (simp add: findPeerID_def case_prod_unfold Let_def demo_conn_def)
qed

text \<open>C10. Relaying end to end: the packet that a peer \<open>A\<close> addresses to \<open>B\<close> through a relay is
  forwarded by the relay to an address of \<open>B\<close>, and the receiver delivers exactly \<open>A\<close>'s payload as coming
  from \<open>A\<close>, for ids of up to 250 bytes; the bytes that earlier packets left in the read buffers do not
  matter. An empty payload is instead delivered as a datagram of the relay that holds the raw frame.\<close>
theorem relay_end_to_end:
  assumes "length A \<le> 250" and "length B \<le> 250" and "A \<noteq> []" and "R \<noteq> []" and "length R \<le> 255"
    and "ParsePing (uc_Magic r) (toRelay p B) = []" and "findPeerID str now xa r = (r1, Some A)"
    and "peer_heartbeat str lk now conn A xa r1 = (r2, hb)" and "WriteTo now (Some (toDst p A)) B r2 = Some (r3, ev, Inr n)"
    and "ParsePing (uc_Magic b) (toDst p A) = []" and "findPeerID str now' xr b = (b1, Some R)"
    and "peer_heartbeat str lk' now' conn' R xr b1 = (b2, hb')"
  shows "udpRead g str lk now conn (GSlice (toRelay p B) sp) xa r = Some (r3, hb @ ev) \<and>
    (\<exists>s x. ev = [USend s x (toDst p A)]) \<and>
    udpRead g' str lk' now' conn' (GSlice (toDst p A) sp') xr b =
      Some (b2, hb' @ [if p = [] then UDatagram R (toDst p A) else UDatagram A p])"
proof -
  have la: "Len A \<noteq> 0" and lr: "Len R \<noteq> 0" using Len_nonzero assms(1,3,4,5) by auto
  have "udpRead g str lk now conn (GSlice (toRelay p B) sp) xa r = Some (r3, hb @ ev)"
    using udpRead_known [of r "GSlice (toRelay p B) sp" str now xa r1 A] assms(6,7,8,9) la not_Is_relay(1)
    by (simp add: handle_datagram_def tryToDst_toRelay [OF assms(2)])
  moreover have "\<exists>s x. ev = [USend s x (toDst p A)]"
    using assms(9) by (auto simp: WriteTo_def writeUDP_def Let_def split: prod.splits option.splits if_splits)
  moreover have "udpRead g' str lk' now' conn' (GSlice (toDst p A) sp') xr b =
      Some (b2, hb' @ [if p = [] then UDatagram R (toDst p A) else UDatagram A p])"
    using udpRead_known [of b "GSlice (toDst p A) sp'" str now' xr b1 R] assms(10,11,12) lr not_Is_relay(2)
    by (simp add: handle_datagram_def tryToDst_toDst [OF assms(1)] tryRecv_toDst [OF assms(1)])
  ultimately show ?thesis by blast
qed

theorem relay_end_to_end_witness:
  "\<exists>r3 b2. udpRead \<lparr>ignoredLocalCIDRs = [], ignoredLocalInterfaceNamePrefixs = [], localIPs = []\<rparr> (\<lambda>_. ''x'') (True, True) 5 5000
      (GSlice (toRelay [8, 9] [2]) [7, 7, 7]) \<lparr>ua_ip = [10, 0, 0, 1], ua_port = 7001\<rparr> (demo_conn [3]) = Some r3 \<and>
    udpRead \<lparr>ignoredLocalCIDRs = [], ignoredLocalInterfaceNamePrefixs = [], localIPs = []\<rparr> (\<lambda>_. ''x'') (True, True) 5 5000
      (GSlice (toDst [8, 9] [1]) []) \<lparr>ua_ip = [10, 0, 0, 1], ua_port = 7002\<rparr> (demo_conn [2]) = Some (b2, [UDatagram [1] [8, 9]])"
proof -
  let ?a = "\<lparr>ua_ip = [10, 0, 0, 1], ua_port = 7001\<rparr>" and ?b = "\<lparr>ua_ip = [10, 0, 0, 1], ua_port = 7002\<rparr>"
  from demo_findPeerID [of 1 "[3]"] obtain P where
    f1: "findPeerID (\<lambda>_. ''x'') 5 ?a (demo_conn [3]) = (demo_conn [3]\<lparr>uc_cache := P\<rparr>, Some [1])" by auto
  from demo_findPeerID [of 2 "[2]"] obtain Q where
    f2: "findPeerID (\<lambda>_. ''x'') 5 ?b (demo_conn [2]) = (demo_conn [2]\<lparr>uc_cache := Q\<rparr>, Some [2])" by auto
  have h1: "\<exists>r2. peer_heartbeat (\<lambda>_. ''x'') (True, True) 5 5000 [1] ?a (demo_conn [3]\<lparr>uc_cache := P\<rparr>) = (r2, []) \<and>
      (\<exists>r3 ev. WriteTo 5 (Some (toDst [8, 9] [1])) [2] r2 = Some (r3, ev, Inr (length (toDst [8, 9] [1]))))"
    by (simp add: peer_heartbeat_def tryGetPeerkeeper_def demo_conn_def demo_keeper_def heartbeat_def set_keeper_def Let_def
        WriteTo_def findPeer_def ready_def ready_check_def second_def writeUDP_def selectPeerUDP_def latest_first_def)
  have h2: "\<exists>b2. peer_heartbeat (\<lambda>_. ''x'') (True, True) 5 5000 [2] ?b (demo_conn [2]\<lparr>uc_cache := Q\<rparr>) = (b2, [])"
    by (simp add: peer_heartbeat_def tryGetPeerkeeper_def demo_conn_def demo_keeper_def heartbeat_def set_keeper_def Let_def)
  from h1 h2 obtain r2 r3 ev b2 where h:
    "peer_heartbeat (\<lambda>_. ''x'') (True, True) 5 5000 [1] ?a (demo_conn [3]\<lparr>uc_cache := P\<rparr>) = (r2, [])"
    "WriteTo 5 (Some (toDst [8, 9] [1])) [2] r2 = Some (r3, ev, Inr (length (toDst [8, 9] [1])))"
    "peer_heartbeat (\<lambda>_. ''x'') (True, True) 5 5000 [2] ?b (demo_conn [2]\<lparr>uc_cache := Q\<rparr>) = (b2, [])" by blast
  have p: "ParsePing (uc_Magic (demo_conn [3])) (toRelay [8, 9] [2]) = []" "ParsePing (uc_Magic (demo_conn [2])) (toDst [8, 9] [1]) = []"
    by (simp_all add: ParsePing_def magic_def default_ping_def toRelay_def toDst_def MAGIC_TO_RELAY_def MAGIC_FROM_RELAY_def demo_conn_def Let_def)
  have l: "length ([1] :: PeerID) \<le> 250" "length ([2] :: PeerID) \<le> 250" "[1] \<noteq> ([] :: PeerID)" "[2] \<noteq> ([] :: PeerID)"
    "length ([2] :: PeerID) \<le> 255" by simp_all
  show ?thesis using relay_end_to_end [OF l p(1) f1 h(1,2) p(2) f2 h(3)] by auto
qed

text \<open>A crash from the network: when a known peer sends the four bytes of the relay magic alone, or
  the magic and an id length of 251 or more, the read loop panics, whatever the state.\<close>
theorem relay_header_panics:
  assumes "findPeerID str now addr c = (c1, Some i)" and "Len i \<noteq> 0" and "ParsePing (uc_Magic c) pkt = []"
    and "pkt = MAGIC_TO_RELAY \<or> (\<exists>l rest. pkt = MAGIC_TO_RELAY @ [l] @ rest \<and> 251 \<le> l)"
  shows "udpRead g str lk now conn (GSlice pkt sp) addr c = None"
proof -
  obtain rest' where pk: "pkt = MAGIC_TO_RELAY @ rest'" using assms(4) by auto
  have no: "\<not> Is pkt" by (simp add: pk Is_def MAGIC_TO_RELAY_def)
  have h: "sl_range (GSlice pkt sp) 0 4 = Some (GSlice MAGIC_TO_RELAY (rest' @ sp))"
    by (simp add: pk sl_range_def sl_cap_def)
  have "tryToDst (GSlice pkt sp) i = None"
  proof (cases "pkt = MAGIC_TO_RELAY")
    case True
    then show ?thesis using h by (simp add: tryToDst_def sl_index_def sl_len_def)
  next
    case False
    with assms(4) obtain l rest where l: "pkt = MAGIC_TO_RELAY @ [l] @ rest" "251 \<le> l" by blast
    have "sl_index (GSlice pkt sp) 4 = Some l" by (simp add: l(1) sl_index_def sl_len_def nth_append)
    moreover have "unat (5 + l) < 5"
    proof -
      have "unat l < 2 ^ LENGTH(8)" by (rule unsigned_less)
      moreover have "251 \<le> unat l" using l(2) by (simp add: word_le_nat_alt)
      ultimately obtain k where k: "unat l = 251 + k" "k < 5" using le_Suc_ex [of 251 "unat l"] by auto
      have "unat (5 + l) = (256 + k) mod 256" by (simp add: unat_word_ariths k(1))
      with k(2) show ?thesis by simp
    qed
    then have "sl_range (GSlice pkt sp) 5 (unat (5 + l)) = None" by (simp add: sl_range_def)
    ultimately show ?thesis using h by (simp add: tryToDst_def bind_eq_None_conv)
  qed
  then have "handle_datagram now i (GSlice pkt sp) c2 = None" for c2 by (simp add: handle_datagram_def)
  then show ?thesis
    using udpRead_known [of c "GSlice pkt sp" str now addr c1 i] assms(1-3) no by (simp add: case_prod_unfold)
qed

theorem relay_header_panics_witness:
  "udpRead \<lparr>ignoredLocalCIDRs = [], ignoredLocalInterfaceNamePrefixs = [], localIPs = []\<rparr> (\<lambda>_. ''x'') (True, True) 5 5000
     (GSlice [0x5f, 0x70, 0x67, 1] [0, 0]) \<lparr>ua_ip = [10, 0, 0, 1], ua_port = 7001\<rparr> (demo_conn [3]) = None"
proof -
  from demo_findPeerID [of 1 "[3]"] obtain P where
    f: "findPeerID (\<lambda>_. ''x'') 5 \<lparr>ua_ip = [10, 0, 0, 1], ua_port = 7001\<rparr> (demo_conn [3]) = (demo_conn [3]\<lparr>uc_cache := P\<rparr>, Some [1])" by auto
  show ?thesis
    by (rule relay_header_panics [OF f])
      (simp_all add: Len_def MAGIC_TO_RELAY_def ParsePing_def magic_def default_ping_def demo_conn_def Let_def)
qed

text \<open>Writing to a peer: a peer known for less than 20 seconds that was heard of within its
  keepalive interval and two seconds gets exactly one datagram, at the address it was most recently
  heard from, and the write reports inactivity when that is older than the interval and one second;
  a peer not heard of since gets nothing and an error.\<close>
theorem WriteTo_latest_address:
  assumes "udp_ok c" and "map_of (uc_index c) i = Some pk" and "now - pk_created pk < 20 * second"
  shows "if ready_check now pk
    then \<exists>s \<in> snd ` set (pk_states pk). (\<forall>x \<in> snd ` set (pk_states pk). ps_Last x \<le> ps_Last s) \<and> ps_PeerID s = i \<and>
      (\<exists>c'. WriteTo now (Some p) i c = Some (c', [USend (pk_conn pk) (ps_Addr s) p],
          if pk_interval pk + second < now - ps_Last s then Inl ErrUDPConnInactive else Inr (length p)))
    else \<exists>c'. WriteTo now (Some p) i c = Some (c', [], Inl ErrClosed)"
proof -
  have e: "entry_ok c i pk" by (rule entry_ok_lookup [OF assms(1,2)])
  have f: "findPeer now i c = (set_keeper i pk c, Some (if ready_check now pk then Some pk else None))"
    using assms(2,3) by (simp add: findPeer_def ready_def)
  show ?thesis
  proof (cases "ready_check now pk")
    case True
    then obtain x where x: "x \<in> snd ` set (pk_states pk)" "now - ps_Last x \<le> pk_interval pk + 2 * second"
      by (auto simp: ready_check_def list_ex_iff)
    have "second \<le> pk_interval pk" "0 < second" using e assms(1) by (auto simp: entry_ok_def udp_ok_def second_def)
    with x(2) have "\<not> 2 * (pk_interval pk + second) \<le> now - ps_Last x" by simp
    with x(1) selectPeerUDP_None [of now pk] obtain s where s: "selectPeerUDP now pk = Some s" by (cases "selectPeerUDP now pk") auto
    note l = selectPeerUDP_latest [OF s]
    have "ps_PeerID s = i" using l e by (auto simp: entry_ok_def keeper_ok_def simp del: map_of_eq_Some_iff dest: map_of_is_SomeI)
    moreover have "WriteTo now (Some p) i c = Some (set_keeper i pk c, [USend (pk_conn pk) (ps_Addr s) p],
          if pk_interval pk + second < now - ps_Last s then Inl ErrUDPConnInactive else Inr (length p))"
      using True f s by (simp add: WriteTo_def writeUDP_def Let_def)
    ultimately show ?thesis unfolding if_P [OF True] using l by blast
  next
    case False
    then show ?thesis by (simp add: WriteTo_def f)
  qed
qed

lemma demo_ok: "udp_ok (demo_conn i)"
  using pool_init_ok
  by (simp add: udp_ok_def demo_conn_def demo_keeper_def keeper_ok_def cache_value_ok_def second_def max_duration_def del: map_of_eq_Some_iff split: if_splits)

theorem WriteTo_latest_address_witness:
  "\<exists>c'. WriteTo 5 (Some [9]) [1] (demo_conn [3]) = Some (c', [USend 5000 \<lparr>ua_ip = [10, 0, 0, 1], ua_port = 7001\<rparr> [9]], Inr 1)"
proof -
  have m: "map_of (uc_index (demo_conn [3])) [1] = Some (demo_keeper [1] 7001)" by (simp add: demo_conn_def)
  have "5 - pk_created (demo_keeper [1] 7001) < 20 * second" "ready_check 5 (demo_keeper [1] 7001)"
    by (simp_all add: demo_keeper_def second_def ready_check_def)
  with WriteTo_latest_address [OF demo_ok m, of 5 "[9]"] show ?thesis
    by (simp add: demo_keeper_def second_def)
qed

lemma go_mod_pos: "0 \<le> a \<Longrightarrow> go_mod a b = a mod b"
  by (cases "a = 0") (simp_all add: go_mod_def sgn_if)

lemma go_mod_neg: "a < 0 \<Longrightarrow> go_mod a 65536 \<le> 0"
  by (simp add: go_mod_def sgn_if)

lemma port_scan_all:
  "port_scan (\<lambda>_. False) (\<lambda>_. False) ps = filter (\<lambda>p. 1024 < p) (map (\<lambda>port. go_mod port 65536) ps)"
  by (induction ps) (auto simp: Let_def)

lemma port_scan_prefix: "\<exists>r. port_scan (\<lambda>_. False) (\<lambda>_. False) ps = port_scan stop found ps @ r"
  by (induction ps) (auto simp: Let_def)

text \<open>The port scan: uninterrupted it pings exactly the unprivileged ports of the window around the
  peer's port, wrapped at 65536 (ports below zero are skipped, not wrapped); stopped by closing or by
  a peer that gets ready it pings a prefix of them, and a configuration that passed the clamping
  bounds the number of pings.\<close>
theorem port_scan_window:
  "set (port_scan (\<lambda>_. False) (\<lambda>_. False) [a..b]) = {p. 1024 < p \<and> (\<exists>port \<in> {a..b}. 0 \<le> port \<and> p = port mod 65536)} \<and>
   (\<exists>r. port_scan (\<lambda>_. False) (\<lambda>_. False) [a..b] = port_scan stop found [a..b] @ r) \<and>
   length (port_scan stop found [q + PortScanOffset (clamp_config cfg) .. q + PortScanCount (clamp_config cfg)]) \<le> 130047"
proof -
  have m: "1024 < p \<and> p = go_mod port 65536 \<longleftrightarrow> 1024 < p \<and> 0 \<le> port \<and> p = port mod 65536" for p port
    using go_mod_pos [of port 65536] go_mod_neg [of port] by (cases "0 \<le> port") auto
  have "set (port_scan (\<lambda>_. False) (\<lambda>_. False) [a..b]) = {p. \<exists>port \<in> {a..b}. 1024 < p \<and> p = go_mod port 65536}"
    unfolding port_scan_all by auto
  also have "\<dots> = {p. 1024 < p \<and> (\<exists>port \<in> {a..b}. 0 \<le> port \<and> p = port mod 65536)}"
    unfolding m by auto
  finally have win: "set (port_scan (\<lambda>_. False) (\<lambda>_. False) [a..b]) = {p. 1024 < p \<and> (\<exists>port \<in> {a..b}. 0 \<le> port \<and> p = port mod 65536)}" .
  let ?w = "[q + PortScanOffset (clamp_config cfg) .. q + PortScanCount (clamp_config cfg)]"
  have "length (port_scan stop found ?w) \<le> length ?w"
  proof -
    obtain r where "port_scan (\<lambda>_. False) (\<lambda>_. False) ?w = port_scan stop found ?w @ r" using port_scan_prefix by blast
    then have "length (port_scan stop found ?w) \<le> length (port_scan (\<lambda>_. False) (\<lambda>_. False) ?w)" by simp
    also have "\<dots> \<le> length ?w" unfolding port_scan_all using length_filter_le le_trans by (metis length_map)
    finally show ?thesis .
  qed
  also have "\<dots> \<le> 130047"
  proof -
    have "PortScanCount (clamp_config cfg) \<le> 64511" "- 65535 \<le> PortScanOffset (clamp_config cfg)"
      by (simp_all add: clamp_config_def)
    then show ?thesis by (simp add: nat_le_iff)
  qed
  finally show ?thesis using win port_scan_prefix by blast
qed

text \<open>When the port cannot be bound again, the list of sockets is left empty but not nil, and every
  later use of the main socket panics.\<close>
lemma restart_failure_panics:
  assumes "uc_conns c \<noteq> None" and "\<not> listen (uc_Port c)"
  shows "mainUDP (fst (RestartListener listen c)) = None"
  using assms by (auto simp: mainUDP_def RestartListener_def)

end
