(* ===== verification/Ws.thy ===== *)
theory Ws
  imports Disco
begin

text \<open>
  The client of the map server (\<open>disco/ws/ws.go\<close>): frames and their masking with the nonce, the
  handling of a received message, the byte stream over the web socket, the negotiated rate limits,
  dialing with redirects, and the retry delays. The web socket itself delivers whole messages. A
  received message is a slice whose spare capacity the reader allocated: its contents are not the
  program's. \<open>net.ResolveUDPAddr\<close>, \<open>url.ParseQuery\<close>, JSON and \<open>strconv.ParseInt\<close> are arguments.
\<close>

section \<open>Message streams\<close>

text \<open>Both ends of the connection offer the messages of the stream as an \<open>io.Reader\<close>: a message that
  does not fit into the buffer is kept for the next call. What a reader promises:\<close>

locale message_reader =
  fixes rd :: "nat \<Rightarrow> 's \<Rightarrow> (bytes \<times> 's) option"
    and pending :: "'s \<Rightarrow> bytes"
  assumes rd_step: "rd n s = Some (b, s') \<Longrightarrow> pending s = b @ pending s' \<and> length b \<le> n"
    and rd_blocks: "rd n s = None \<Longrightarrow> pending s = []"
begin

fun read_sizes :: "nat list \<Rightarrow> 's \<Rightarrow> bytes \<times> 's" where
  "read_sizes [] s = ([], s)"
| "read_sizes (n # ns) s =
     (case rd n s of None \<Rightarrow> ([], s)
      | Some (b, s') \<Rightarrow> (let (bs, t) = read_sizes ns s' in (b @ bs, t)))"

lemma read_sizes_exact: "read_sizes ns s = (bs, t) \<Longrightarrow> pending s = bs @ pending t"
proof (induction ns arbitrary: s bs)
  case (Cons n ns)
  show ?case
  proof (cases "rd n s")
    case None
    with Cons.prems rd_blocks show ?thesis by simp
  next
    case (Some r)
    obtain b s' where r: "r = (b, s')" by fastforce
    obtain bs' t' where i: "read_sizes ns s' = (bs', t')" by fastforce
    from Cons.prems Some r i have "bs = b @ bs'" "t = t'" by auto
    with Cons.IH [of s' bs'] i rd_step [of n s b s'] Some r show ?thesis by simp
  qed
qed simp

end

section \<open>State\<close>

record WSConn =
  ws_peerID :: PeerID
  ws_nonce :: u8
  ws_raw :: bool
  ws_closed :: bool
  ws_connData :: "bytes list"
  ws_connBuf :: "bytes option"
  ws_active :: int
  ws_limiter :: "(int \<times> int) option"
  ws_streamLimiter :: "(int \<times> int) option"
  ws_controllers :: "u8 \<Rightarrow> string list"

datatype ws_error = WsClosed | BadLimit | AlreadyInUse | NotFound | Forbidden | DialError

datatype ws_event =
  WDatagram PeerID bytes
| WPeer u8 PeerID url_values
| WLeave PeerID
| WEndpoint PeerID UDPAddr NATType
| WSecret NetworkSecret
| WControl string bytes

section \<open>Writing\<close>

text \<open>The message on the wire.\<close>
definition ws_write :: "bytes \<Rightarrow> WSConn \<Rightarrow> ws_error + bytes" where
  "ws_write b c = (if ws_raw c then Inr (mask (ws_nonce c) b) else Inl WsClosed)"

definition ws_Write :: "bytes \<Rightarrow> WSConn \<Rightarrow> ws_error + bytes" where
  "ws_Write p c = ws_write ([CONTROL_CONN] @ p) c"

definition ws_WriteTo :: "bytes \<Rightarrow> PeerID \<Rightarrow> u8 \<Rightarrow> WSConn \<Rightarrow> ws_error + bytes" where
  "ws_WriteTo p peerID op c = ws_write ([op] @ [Len peerID] @ peerID @ p) c"

definition LeadDisco :: "PeerID \<Rightarrow> WSConn \<Rightarrow> ws_error + bytes" where
  "LeadDisco peerID c = ws_WriteTo [] peerID CONTROL_LEAD_DISCO c"

fun distinct_addrs :: "UDPAddr list \<Rightarrow> UDPAddr list \<Rightarrow> UDPAddr list" where
  "distinct_addrs acc [] = acc"
| "distinct_addrs acc (a # as) =
     (if UDPAddrContains acc a then distinct_addrs acc as else distinct_addrs (acc @ [a]) as)"

text \<open>\<open>json\<close> is \<open>json.Marshal\<close> of a NAT info. Nothing is written when there is no address.\<close>
definition ws_UpdateNATInfo :: "(NATInfo \<Rightarrow> bytes) \<Rightarrow> NATInfo \<Rightarrow> WSConn \<Rightarrow> (ws_error + bytes) option" where
  "ws_UpdateNATInfo json i c =
     (if ni_Addrs i = [] then None
      else Some (ws_write ([CONTROL_UPDATE_NAT_INFO, 0] @ json (i\<lparr>ni_Addrs := distinct_addrs [] (ni_Addrs i)\<rparr>)) c))"

section \<open>Reading the stream\<close>

text \<open>\<open>Read\<close> into a buffer of \<open>n\<close> bytes; \<^const>\<open>None\<close> when it blocks. The end of the stream after
  \<open>Close\<close> is not an answer of this function.\<close>
definition ws_Read :: "nat \<Rightarrow> WSConn \<Rightarrow> (bytes \<times> WSConn) option" where
  "ws_Read n c =
     (case ws_connBuf c of
        Some buf \<Rightarrow> Some (take n buf, c\<lparr>ws_connBuf := (if n < length buf then Some (drop n buf) else None)\<rparr>)
      | None \<Rightarrow>
          (case ws_connData c of
             [] \<Rightarrow> None
           | wsb # rest \<Rightarrow>
               Some (take n wsb, c\<lparr>ws_connData := rest,
                                   ws_connBuf := (if n < length wsb then Some (drop n wsb) else None)\<rparr>)))"

definition ws_pending :: "WSConn \<Rightarrow> bytes" where
  "ws_pending c = (case ws_connBuf c of None \<Rightarrow> [] | Some b \<Rightarrow> b) @ concat (ws_connData c)"

interpretation ws_reader: message_reader ws_Read ws_pending
  by unfold_locales (auto simp: ws_Read_def ws_pending_def split: option.splits list.splits if_splits)

section \<open>Received messages\<close>

text \<open>\<open>b[2 : b[1]+2]\<close> and \<open>b[b[1]+2:]\<close>: the sum is a byte.\<close>
definition frame_end :: "gslice \<Rightarrow> nat option" where
  "frame_end b = do { l \<leftarrow> sl_index b 1; Some (unat (l + 2)) }"

definition frame_id :: "gslice \<Rightarrow> PeerID option" where
  "frame_id b = do { e \<leftarrow> frame_end b; s \<leftarrow> sl_range b 2 e; Some (sl_data s) }"

definition frame_data :: "gslice \<Rightarrow> bytes option" where
  "frame_data b = do { e \<leftarrow> frame_end b; s \<leftarrow> sl_from b e; Some (sl_data s) }"

text \<open>The endpoint message; \<^const>\<open>None\<close> is a panic, no event an address that does not resolve.\<close>
definition handle_udp_addr :: "(bytes \<Rightarrow> UDPAddr option) \<Rightarrow> gslice \<Rightarrow> ws_event list option" where
  "handle_udp_addr resolve b = do {
     l \<leftarrow> sl_index b 1;
     tag \<leftarrow> sl_index b (unat (l + 2));
     (if tag \<noteq> 0x61 then do {
        i \<leftarrow> frame_id b;
        d \<leftarrow> frame_data b;
        Some (case resolve d of None \<Rightarrow> [] | Some a \<Rightarrow> [WEndpoint i a Unknown]) }
      else do {
        addrLen \<leftarrow> sl_index b (unat (l + 3));
        let s = l + 4;
        a \<leftarrow> sl_range b (unat s) (unat (s + addrLen));
        (case resolve (sl_data a) of
           None \<Rightarrow> Some []
         | Some ua \<Rightarrow> do {
             i \<leftarrow> frame_id b;
             t \<leftarrow> sl_from b (unat (s + addrLen));
             Some [WEndpoint i ua (map (char_of \<circ> uint) (sl_data t))] }) }) }"

text \<open>\<open>handleEvents\<close> on an unmasked message.\<close>
definition handleEvents :: "(bytes \<Rightarrow> url_values) \<Rightarrow> (bytes \<Rightarrow> UDPAddr option) \<Rightarrow> (bytes \<Rightarrow> NetworkSecret option) \<Rightarrow> gslice \<Rightarrow> WSConn \<Rightarrow> (WSConn \<times> ws_event list) option" where
  "handleEvents parse resolve unjson b c = do {
     op \<leftarrow> sl_index b 0;
     (if op = CONTROL_RELAY then do {
        i \<leftarrow> frame_id b; d \<leftarrow> frame_data b; Some (c, [WDatagram i d]) }
      else if op = CONTROL_NEW_PEER \<or> op = CONTROL_UPDATE_META then do {
        d \<leftarrow> frame_data b; i \<leftarrow> frame_id b; Some (c, [WPeer op i (parse d)]) }
      else if op = CONTROL_PEER_LEAVE then do {
        i \<leftarrow> frame_id b; Some (c, [WLeave i]) }
      else if op = CONTROL_NEW_PEER_UDP_ADDR then do {
        ev \<leftarrow> handle_udp_addr resolve b; Some (c, ev) }
      else if op = CONTROL_UPDATE_NETWORK_SECRET then do {
        d \<leftarrow> sl_from b 1;
        Some (c, case unjson (sl_data d) of None \<Rightarrow> [] | Some s \<Rightarrow> [WSecret s]) }
      else if op = CONTROL_CONN then do {
        d \<leftarrow> sl_from b 1; Some (c\<lparr>ws_connData := ws_connData c @ [sl_data d]\<rparr>, []) }
      else Some (c, map (\<lambda>name. WControl name (sl_data b)) (ws_controllers c op))) }"

text \<open>One binary message of \<open>runEventsReadLoop\<close>.\<close>
definition ws_recv :: "(bytes \<Rightarrow> url_values) \<Rightarrow> (bytes \<Rightarrow> UDPAddr option) \<Rightarrow> (bytes \<Rightarrow> NetworkSecret option) \<Rightarrow> int \<Rightarrow> gslice \<Rightarrow> WSConn \<Rightarrow> (WSConn \<times> ws_event list) option" where
  "ws_recv parse resolve unjson now b c =
     handleEvents parse resolve unjson (GSlice (mask (ws_nonce c) (sl_data b)) (sl_spare b)) (c\<lparr>ws_active := now\<rparr>)"

section \<open>Controllers\<close>

definition Register :: "u8 \<Rightarrow> string \<Rightarrow> WSConn \<Rightarrow> WSConn" where
  "Register t name c = c\<lparr>ws_controllers := (ws_controllers c)(t := ws_controllers c t @ [name])\<rparr>"

definition Unregister :: "u8 \<Rightarrow> string \<Rightarrow> WSConn \<Rightarrow> WSConn" where
  "Unregister t name c = c\<lparr>ws_controllers := (ws_controllers c)(t := filter (\<lambda>n. n \<noteq> name) (ws_controllers c t))\<rparr>"

section \<open>Connecting\<close>

text \<open>Headers of the response; an absent header reads as the empty string.\<close>
record limit_headers =
  h_limit_arg :: string
  h_burst_arg :: string
  h_stream_limit_arg :: string
  h_stream_burst_arg :: string

definition configureRatelimiter :: "(string \<Rightarrow> int option) \<Rightarrow> limit_headers \<Rightarrow> WSConn \<Rightarrow> WSConn \<times> ws_error option" where
  "configureRatelimiter parse h c =
     (if h_limit_arg h = '''' then (c, None)
      else case parse (h_limit_arg h) of
        None \<Rightarrow> (c, Some BadLimit)
      | Some limit \<Rightarrow>
          (case parse (if h_burst_arg h = '''' then h_limit_arg h else h_burst_arg h) of
             None \<Rightarrow> (c, Some BadLimit)
           | Some burst \<Rightarrow>
               (let c1 = (if 0 < limit then c\<lparr>ws_limiter := Some (limit, burst)\<rparr> else c) in
                case parse (h_stream_limit_arg h) of
                  None \<Rightarrow> (c1, Some BadLimit)
                | Some sl \<Rightarrow>
                    (case parse (if h_stream_burst_arg h = '''' then h_stream_limit_arg h else h_stream_burst_arg h) of
                       None \<Rightarrow> (c1, Some BadLimit)
                     | Some sb \<Rightarrow> (if 0 < limit then c1\<lparr>ws_streamLimiter := Some (sl, sb)\<rparr> else c1, None)))))"

text \<open>What a server answers to the handshake: the status, the redirect location, the nonce and the
  limit headers, and whether the dialer fails.\<close>
record ws_response =
  r_status :: nat
  r_location :: string
  r_nonce :: u8
  r_limits :: limit_headers
  r_err :: bool

text \<open>\<open>dial\<close>, with redirects; \<^const>\<open>None\<close> when they never end. The STUN header is well formed.\<close>
partial_function (option) dial :: "(string \<Rightarrow> int option) \<Rightarrow> (string \<Rightarrow> ws_response) \<Rightarrow> int \<Rightarrow> string \<Rightarrow> WSConn \<Rightarrow> (WSConn \<times> ws_error option) option" where
  "dial parse net now server c =
     (let r = net server in
      if r_status r = 400 then Some (c, Some AlreadyInUse)
      else if r_status r = 404 then Some (c, Some NotFound)
      else if r_status r = 403 then Some (c, Some Forbidden)
      else if r_status r = 307 then dial parse net now (r_location r) c
      else if r_err r then Some (c, Some DialError)
      else case configureRatelimiter parse (r_limits r) c of
             (c1, Some e) \<Rightarrow> Some (c1, Some e)
           | (c1, None) \<Rightarrow> Some (c1\<lparr>ws_raw := True, ws_nonce := r_nonce r, ws_active := now\<rparr>, None))"

text \<open>The delay before the next dial, a 64-bit duration; the loop sleeps at most five seconds.\<close>
definition retry_init :: int where "retry_init = 200000000"

definition retry_next :: "int \<Rightarrow> int" where
  "retry_next d = max (sint (word_of_int (d * 2) :: 64 word)) retry_init"

definition retry_sleep :: "int \<Rightarrow> int" where
  "retry_sleep d = min d 5000000000"

text \<open>\<open>updateNetworkSecret\<close>: five attempts on the store, which accepts the \<open>i\<close>-th or not.\<close>
fun store_secret :: "(nat \<Rightarrow> bool) \<Rightarrow> nat \<Rightarrow> nat \<Rightarrow> bool" where
  "store_secret accepts i 0 = False"
| "store_secret accepts i (Suc n) = (if accepts i then True else store_secret accepts (Suc i) n)"

definition updateNetworkSecret :: "(nat \<Rightarrow> bool) \<Rightarrow> NetworkSecret \<Rightarrow> NetworkSecret \<Rightarrow> NetworkSecret" where
  "updateNetworkSecret accepts secret store = (if store_secret accepts 0 5 then UpdateNetworkSecret store secret else store)"

section \<open>Lemmas\<close>

lemma unat_Len_2: "length i \<le> 253 \<Longrightarrow> unat (Len i + 2) = length i + 2"
  by (simp add: Len_def unat_word_ariths unat_of_nat)

lemma frame_parts:
  assumes "length i \<le> 253"
  shows "sl_index (GSlice ([op] @ [Len i] @ i @ d) sp) 0 = Some op"
    and "frame_id (GSlice ([op] @ [Len i] @ i @ d) sp) = Some i"
    and "frame_data (GSlice ([op] @ [Len i] @ i @ d) sp) = Some d"
  using unat_Len_2 [OF assms]
  by (simp_all add: frame_id_def frame_data_def frame_end_def sl_index_def sl_len_def sl_range_def sl_cap_def sl_from_def)

lemma retry_bounds: "retry_init \<le> d \<Longrightarrow> retry_init \<le> retry_next d \<and> retry_init \<le> retry_sleep d \<and> retry_sleep d \<le> 5000000000"
  by (simp add: retry_next_def retry_sleep_def retry_init_def)

end
