(* ===== verification/P2p.thy ===== *)
theory P2p
  imports Udp_Conn Ws "HOL-Library.List_Lexorder"
begin

text \<open>
  The packet connection of a node (\<open>p2p/conn.go\<close>, \<open>p2p/config.go\<close>) over the UDP connection and the
  connection to the map server: the choice between the direct path, a relaying peer and the server,
  the choice of the relaying peer, the control loop that exchanges endpoints, and the options.
  Goroutines of the control loop are operations; whether a lock attempt succeeds, the clock and the
  interfaces of the host are arguments. \<open>str\<close> is \<open>UDPAddr.String\<close>.
\<close>

section \<open>State\<close>

record 'e PacketConn =
  pn_SymmAlgo :: "'e SymmAlgo option"
  pn_MinDiscoPeriod :: int
  pn_closed :: bool
  pn_udp :: UDPConn
  pn_ws :: WSConn
  pn_peers :: "PeerState list CacheValue"
  pn_peerMap :: "(PeerID, url_values) Cache"
  pn_cooling :: "(PeerID, int) Cache"
  pn_mode :: string
  pn_relayPeerIndex :: u64

datatype p2p_error = ErrNotP2PAddr | ErrConnClosed | ErrNoRelayPeer | UdpErr udp_error | WsErr ws_error

datatype p2p_event = PUdp udp_event | PWs bytes

definition MODE_DEFAULT :: string where "MODE_DEFAULT = ''''"
definition MODE_FORCE_PEER_RELAY :: string where "MODE_FORCE_PEER_RELAY = ''PEER_RELAY''"
definition MODE_FORCE_RELAY :: string where "MODE_FORCE_RELAY = ''RELAY''"

lemmas transport_modes = MODE_DEFAULT_def MODE_FORCE_PEER_RELAY_def MODE_FORCE_RELAY_def

definition mode_String :: "string \<Rightarrow> string" where
  "mode_String mode = (if mode = '''' then ''DEFAULT'' else mode)"

text \<open>What a write to the web socket puts on the wire.\<close>
definition ws_sent :: "ws_error + bytes \<Rightarrow> p2p_event list" where
  "ws_sent r = (case r of Inl _ \<Rightarrow> [] | Inr b \<Rightarrow> [PWs b])"

section \<open>Known peers\<close>

text \<open>\<open>UDPConn.Peers\<close>: sorted by id and address, in descending order; the sort is stable.\<close>
definition peer_sort_key :: "(UDPAddr \<Rightarrow> string) \<Rightarrow> PeerState \<Rightarrow> bytes" where
  "peer_sort_key str s = ps_PeerID s @ map of_char (str (ps_Addr s))"

definition udp_Peers :: "(UDPAddr \<Rightarrow> string) \<Rightarrow> UDPConn \<Rightarrow> PeerState list" where
  "udp_Peers str c =
     rev (sort_key (peer_sort_key str) (rev (concat (map (\<lambda>kv. map snd (pk_states (snd kv))) (uc_index c)))))"

definition PeerMeta :: "PeerID \<Rightarrow> 'e PacketConn \<Rightarrow> 'e PacketConn \<times> url_values option" where
  "PeerMeta peerID c = (let (m, r) = Get (pn_peerMap c) peerID in (c\<lparr>pn_peerMap := m\<rparr>, r))"

text \<open>\<open>meta["label"]\<close> and \<open>meta.Get("nat")\<close>\<close>
definition values_of :: "url_values \<Rightarrow> string \<Rightarrow> string list" where
  "values_of m k = (case m k of None \<Rightarrow> [] | Some vs \<Rightarrow> vs)"

definition first_value :: "url_values \<Rightarrow> string \<Rightarrow> string" where
  "first_value m k = (case values_of m k of [] \<Rightarrow> '''' | v # _ \<Rightarrow> v)"

text \<open>A peer with these metadata can relay.\<close>
definition can_relay :: "url_values \<Rightarrow> bool" where
  "can_relay meta \<longleftrightarrow> \<not> snd (labels_Get (values_of meta ''label'') ''node.nr'') \<and>
     (is_Easy (first_value meta ''nat'') \<or> is_IP4 (first_value meta ''nat''))"

text \<open>The loop of \<open>relayPeer\<close> over a snapshot of the peers, with the number of rounds left. The
  shared index moves on at every round.\<close>
fun select_relay :: "PeerState list \<Rightarrow> PeerID \<Rightarrow> nat \<Rightarrow> 'e PacketConn \<Rightarrow> 'e PacketConn \<times> PeerID" where
  "select_relay peers peerID 0 c = (c, [])"
| "select_relay peers peerID (Suc n) c =
     (let i = pn_relayPeerIndex c + 1;
          p = peers ! unat (i mod of_nat (length peers));
          c1 = c\<lparr>pn_relayPeerIndex := i\<rparr>
      in if ps_PeerID p = peerID then select_relay peers peerID n c1
         else case PeerMeta (ps_PeerID p) c1 of
                (c2, None) \<Rightarrow> select_relay peers peerID n c2
              | (c2, Some meta) \<Rightarrow> if can_relay meta then (c2, ps_PeerID p) else select_relay peers peerID n c2)"

text \<open>An identifier as a key of the process-wide cache, which the UDP connection shares.\<close>
definition id_key :: "PeerID \<Rightarrow> string" where
  "id_key i = map (char_of \<circ> uint) i"

definition cache_miss :: "'a pool \<Rightarrow> string \<Rightarrow> int \<Rightarrow> int \<Rightarrow> bool" where
  "cache_miss s key now ttl = (let (s1, p) = pool_ptr s key in expired (pvals s1 p) now ttl)"

definition selectRelayPeer :: "(UDPAddr \<Rightarrow> string) \<Rightarrow> int \<Rightarrow> PeerID \<Rightarrow> 'e PacketConn \<Rightarrow> ('e PacketConn \<times> PeerID) option" where
  "selectRelayPeer str now peerID c =
     (case value_LoadTTL (pn_peers c) now 1000000 (udp_Peers str (pn_udp c)) of
        (v, None) \<Rightarrow> None
      | (v, Some peers) \<Rightarrow> Some (select_relay peers peerID (length peers) (c\<lparr>pn_peers := v\<rparr>)))"

text \<open>The answer is cached for a millisecond. The empty id means no relay.\<close>
definition relayPeer :: "(UDPAddr \<Rightarrow> string) \<Rightarrow> int \<Rightarrow> PeerID \<Rightarrow> 'e PacketConn \<Rightarrow> ('e PacketConn \<times> PeerID) option" where
  "relayPeer str now peerID c = do {
     (c1, found) \<leftarrow> (if cache_miss (uc_cache (pn_udp c)) (id_key peerID) now 1000000
                     then selectRelayPeer str now peerID c else Some (c, []));
     let (pool, r) = LoadTTL (uc_cache (pn_udp c)) (id_key peerID) now 1000000 (\<lambda>_. found);
     relay \<leftarrow> r;
     Some (c1\<lparr>pn_udp := (pn_udp c1)\<lparr>uc_cache := pool\<rparr>\<rparr>, relay) }"

section \<open>Writing\<close>

text \<open>\<open>locked\<close>: whether \<open>TryLock\<close> succeeds.\<close>
definition TryLeadDisco :: "bool \<Rightarrow> int \<Rightarrow> PeerID \<Rightarrow> 'e PacketConn \<Rightarrow> 'e PacketConn \<times> p2p_event list" where
  "TryLeadDisco locked now peerID c =
     (if \<not> locked then (c, [])
      else let (cool, r) = Get (pn_cooling c) peerID; c1 = c\<lparr>pn_cooling := cool\<rparr> in
        if (case r of None \<Rightarrow> True | Some lastTime \<Rightarrow> pn_MinDiscoPeriod c < now - lastTime)
        then (c1\<lparr>pn_cooling := Put cool peerID now\<rparr>, ws_sent (LeadDisco peerID (pn_ws c)))
        else (c1, []))"

text \<open>The two writes of the UDP connection.\<close>
definition direct :: "int \<Rightarrow> bytes \<Rightarrow> PeerID \<Rightarrow> 'e PacketConn \<Rightarrow> ('e PacketConn \<times> p2p_event list \<times> (udp_error + nat)) option" where
  "direct now p peerID c =
     map_option (\<lambda>(u, ev, r). (c\<lparr>pn_udp := u\<rparr>, map PUdp ev, r)) (WriteTo now (Some p) peerID (pn_udp c))"

definition relayed :: "int \<Rightarrow> PeerID \<Rightarrow> bytes \<Rightarrow> PeerID \<Rightarrow> 'e PacketConn \<Rightarrow> ('e PacketConn \<times> p2p_event list \<times> (udp_error + nat)) option" where
  "relayed now relay p peerID c =
     map_option (\<lambda>(u, ev, r). (c\<lparr>pn_udp := u\<rparr>, map PUdp ev, r)) (RelayTo now relay p peerID (pn_udp c))"

text \<open>An empty relay is no relay: nothing is written.\<close>
definition try_relay :: "int \<Rightarrow> PeerID \<Rightarrow> bytes \<Rightarrow> PeerID \<Rightarrow> 'e PacketConn \<Rightarrow> ('e PacketConn \<times> p2p_event list \<times> (udp_error + nat)) option" where
  "try_relay now relay p peerID c = (if relay = [] then Some (c, [], Inl ErrClosed) else relayed now relay p peerID c)"

definition server_relayed :: "bytes \<Rightarrow> PeerID \<Rightarrow> 'e PacketConn \<Rightarrow> 'e PacketConn \<times> p2p_event list \<times> (p2p_error + nat)" where
  "server_relayed p peerID c =
     (let r = ws_WriteTo p peerID CONTROL_RELAY (pn_ws c) in
      (c, ws_sent r, case r of Inl e \<Rightarrow> Inl (WsErr e) | Inr _ \<Rightarrow> Inr (length p)))"

text \<open>\<open>WriteTo\<close> of a payload that is not nil, to a peer id or (\<^const>\<open>None\<close>) an address of another
  kind.\<close>
definition p2p_WriteTo :: "(UDPAddr \<Rightarrow> string) \<Rightarrow> bool \<Rightarrow> int \<Rightarrow> bytes \<Rightarrow> PeerID option \<Rightarrow> 'e PacketConn
    \<Rightarrow> ('e PacketConn \<times> p2p_event list \<times> (p2p_error + nat)) option" where
  "p2p_WriteTo str locked now payload addr c =
     (case addr of
        None \<Rightarrow> Some (c, [], Inl ErrNotP2PAddr)
      | Some peerID \<Rightarrow>
          if pn_closed c then Some (c, [], Inl ErrConnClosed)
          else let p = TryEncrypt (pn_SymmAlgo c) \<lparr>dg_PeerID = peerID, dg_Data = payload\<rparr> in
            if pn_mode c = MODE_FORCE_RELAY then Some (server_relayed p peerID c)
            else if pn_mode c = MODE_FORCE_PEER_RELAY then do {
              (c1, relay) \<leftarrow> relayPeer str now peerID c;
              (if relay = [] then Some (c1, [], Inl ErrNoRelayPeer)
               else do {
                 (c2, ev, r) \<leftarrow> relayed now relay p peerID c1;
                 Some (c2, ev, map_sum UdpErr id r) }) }
            else do {
              (c1, ev1, r1) \<leftarrow> direct now p peerID c;
              (case r1 of
                 Inr n \<Rightarrow> Some (c1, ev1, Inr n)
               | Inl e1 \<Rightarrow> do {
                   let (c2, ev2) = (if e1 = ErrUDPConnInactive then (c1, []) else TryLeadDisco locked now peerID c1);
                   (c3, relay) \<leftarrow> relayPeer str now peerID c2;
                   (c4, ev4, ok) \<leftarrow> try_relay now relay p peerID c3;
                   (case ok of
                      Inr n \<Rightarrow> Some (c4, ev1 @ ev2 @ ev4, Inr n)
                    | Inl _ \<Rightarrow>
                        (let (c5, ev5, r5) = server_relayed p peerID c4 in Some (c5, ev1 @ ev2 @ ev4 @ ev5, r5))) }) })"

section \<open>Reading\<close>

text \<open>What \<open>ReadFrom\<close> into a buffer of \<open>n\<close> bytes makes of a datagram of either transport.\<close>
definition p2p_read :: "nat \<Rightarrow> Datagram \<Rightarrow> 'e PacketConn \<Rightarrow> bytes \<times> PeerID" where
  "p2p_read n d c = (take n (TryDecrypt (pn_SymmAlgo c) d), dg_PeerID d)"

text \<open>What the ready channels of its \<open>select\<close> offer: the closing, a deadline, and the datagrams of
  the two transports; a closed channel offers nothing.\<close>
datatype ready_case = ConnClosed | DeadlineReached bool | FromWs "Datagram option" | FromUdp "Datagram option"

datatype p2p_read_error = NetErrClosed | ErrDeadline

definition ReadFrom :: "nat \<Rightarrow> ready_case \<Rightarrow> 'e PacketConn \<Rightarrow> p2p_read_error + (bytes \<times> PeerID)" where
  "ReadFrom n r c =
     (case r of
        ConnClosed \<Rightarrow> Inl NetErrClosed
      | DeadlineReached ok \<Rightarrow> Inl (if ok then ErrDeadline else NetErrClosed)
      | FromWs None \<Rightarrow> Inl NetErrClosed
      | FromWs (Some d) \<Rightarrow> Inr (p2p_read n d c)
      | FromUdp None \<Rightarrow> Inl NetErrClosed
      | FromUdp (Some d) \<Rightarrow> Inr (p2p_read n d c))"

section \<open>Control loop\<close>

text \<open>\<open>GenerateLocalAddrsSends\<close>: the endpoints announced to a new peer. \<open>upnp\<close> is the mapped address
  when there is one; \<open>now\<close> is a second later, when the wide area addresses are detected unless the
  peer was found in the meantime.\<close>
definition GenerateLocalAddrsSends :: "(int \<Rightarrow> bool) \<Rightarrow> (UDPAddr \<Rightarrow> string) \<Rightarrow> UDPAddr list \<Rightarrow> UDPAddr list \<Rightarrow> UDPAddr option \<Rightarrow> int
    \<Rightarrow> PeerID \<Rightarrow> UDPConn \<Rightarrow> (UDPConn \<times> Endpoint list) option" where
  "GenerateLocalAddrsSends listen str la answers upnp now peerID c = do {
     let fixed = (case upnp of None \<Rightarrow> [] | Some a \<Rightarrow> [\<lparr>ep_ID = peerID, ep_Addr = a, ep_Type = UPnP\<rparr>]) @ lanAddrsGenerate peerID la;
     (case findPeer now peerID c of
        (c1, None) \<Rightarrow> None
      | (c1, Some (Some _)) \<Rightarrow> Some (c1, fixed)
      | (c1, Some None) \<Rightarrow> do {
          (c2, info) \<leftarrow> DetectNAT listen str la answers c1;
          Some (c2, fixed @ wan_endpoints peerID info) }) }"

text \<open>\<open>sendEndpoint\<close>: the message that tells a peer an address of this node.\<close>
definition endpoint_data :: "(UDPAddr \<Rightarrow> string) \<Rightarrow> Endpoint \<Rightarrow> bytes" where
  "endpoint_data str e =
     (let addr = map of_char (str (ep_Addr e)) in [0x61] @ [Len addr] @ addr @ map of_char (ep_Type e))"

definition sendEndpoint :: "(UDPAddr \<Rightarrow> string) \<Rightarrow> Endpoint \<Rightarrow> 'e PacketConn \<Rightarrow> ws_error + bytes" where
  "sendEndpoint str e c = ws_WriteTo (endpoint_data str e) (ep_ID e) CONTROL_NEW_PEER_UDP_ADDR (pn_ws c)"

datatype p2p_action =
  AnnounceTo PeerID
| OnPeer PeerID url_values
| OnPeerLeave PeerID
| Challenge Endpoint
| DetectNATType

text \<open>\<open>handleEvent\<close>: the new state and what it starts. \<open>AnnounceTo\<close> is \<open>GenerateLocalAddrsSends\<close>,
  \<open>Challenge\<close> is \<open>RunDiscoMessageSendLoop\<close>, \<open>DetectNATType\<close> is \<open>DetectNAT\<close>.\<close>
definition handleEvent :: "u8 \<Rightarrow> ws_event option \<Rightarrow> 'e PacketConn \<Rightarrow> 'e PacketConn \<times> p2p_action list" where
  "handleEvent code e c =
     (case e of
        Some (WPeer op i meta) \<Rightarrow>
          (c\<lparr>pn_peerMap := Put (pn_peerMap c) i meta\<rparr>, (if op = CONTROL_NEW_PEER then [AnnounceTo i] else []) @ [OnPeer i meta])
      | Some (WLeave i) \<Rightarrow> (c, [OnPeerLeave i])
      | Some (WEndpoint i a t) \<Rightarrow> (c, [Challenge \<lparr>ep_ID = i, ep_Addr = a, ep_Type = t\<rparr>])
      | None \<Rightarrow> (c, if code = CONTROL_SERVER_CONNECTED then [DetectNATType] else [])
      | _ \<Rightarrow> (c, []))"

text \<open>An error of the UDP connection: a relay write to an unknown peer starts its discovery.\<close>
definition handleError :: "bool \<Rightarrow> int \<Rightarrow> udp_event \<Rightarrow> 'e PacketConn \<Rightarrow> 'e PacketConn \<times> p2p_event list" where
  "handleError locked now e c =
     (case e of URelayErr i err \<Rightarrow> if err = ErrUDPConnInactive then (c, []) else TryLeadDisco locked now i c
      | _ \<Rightarrow> (c, []))"

text \<open>One address update of \<open>networkChangeDetect\<close>, with the known addresses; \<open>show\<close> is \<open>IP.String\<close>.
  A new address restarts the listener and resets the cooling of discoveries.\<close>
definition addr_update :: "local_cfg \<Rightarrow> (IP \<Rightarrow> string) \<Rightarrow> (int \<Rightarrow> bool) \<Rightarrow> (UDPAddr \<Rightarrow> string) \<Rightarrow> UDPAddr list \<Rightarrow> UDPAddr list
    \<Rightarrow> IP \<Rightarrow> bool \<Rightarrow> string set \<Rightarrow> 'e PacketConn \<Rightarrow> (string set \<times> 'e PacketConn) option" where
  "addr_update g show_ip listen str la answers ip new found c =
     (if IsLinkLocalUnicast ip then Some (found, c)
      else if \<not> new then Some (found - {show_ip ip}, c)
      else if IsIgnoredLocalIP g ip then Some (found, c)
      else if show_ip ip \<in> found then Some (found, c)
      else do {
        (u2, info) \<leftarrow> DetectNAT listen str la answers (fst (RestartListener listen (pn_udp c)));
        Some (insert (show_ip ip) found,
              c\<lparr>pn_udp := u2, pn_ws := (pn_ws c)\<lparr>ws_raw := False\<rparr>, pn_cooling := Clear (pn_cooling c)\<rparr>) })"

section \<open>Options\<close>

record 'e p2p_Config =
  po_UDPPort :: int
  po_DisableIPv6 :: bool
  po_DisableIPv4 :: bool
  po_PeerInfo :: Peer
  po_SymmAlgo :: "'e SymmAlgo option"
  po_KeepAlivePeriod :: int
  po_MinDiscoPeriod :: int

text \<open>\<^const>\<open>None\<close> is an error of the option.\<close>
type_synonym 'e p2p_Option = "'e p2p_Config \<Rightarrow> 'e p2p_Config option"

text \<open>The library's X25519 and base58: public key of a private key, and the shared secret.\<close>
record curve =
  cv_private :: "bytes \<Rightarrow> bytes option"
  cv_public :: "bytes \<Rightarrow> bytes option"
  cv_pub :: "bytes \<Rightarrow> bytes"
  cv_ECDH :: "bytes \<Rightarrow> bytes \<Rightarrow> bytes option"
  b58_Encode :: "bytes \<Rightarrow> bytes"
  b58_Decode :: "bytes \<Rightarrow> bytes"

definition OptionNoOp :: "'e p2p_Option" where "OptionNoOp cfg = Some cfg"

definition ListenUDPPort :: "int \<Rightarrow> 'e p2p_Option" where
  "ListenUDPPort port cfg = Some (cfg\<lparr>po_UDPPort := port\<rparr>)"

definition ListenPeerID :: "PeerID \<Rightarrow> 'e p2p_Option" where
  "ListenPeerID i cfg =
     (if po_SymmAlgo cfg \<noteq> None then None
      else if 0 < Len i then Some (cfg\<lparr>po_PeerInfo := (po_PeerInfo cfg)\<lparr>pr_ID := i\<rparr>\<rparr>) else Some cfg)"

text \<open>The key shared with the owner of a public key.\<close>
definition shared_key :: "curve \<Rightarrow> bytes \<Rightarrow> PeerID \<Rightarrow> bytes option" where
  "shared_key cv priv pubKey = do { pub \<leftarrow> cv_public cv (b58_Decode cv pubKey); cv_ECDH cv priv pub }"

text \<open>\<open>algo\<close> builds a cipher from the provider of the shared keys.\<close>
definition ListenPeerCurve25519 :: "curve \<Rightarrow> ((PeerID \<Rightarrow> bytes option) \<Rightarrow> 'e SymmAlgo) \<Rightarrow> bytes \<Rightarrow> 'e p2p_Option" where
  "ListenPeerCurve25519 cv algo privateKey cfg =
     (if po_SymmAlgo cfg \<noteq> None then None
      else case cv_private cv (b58_Decode cv privateKey) of
        None \<Rightarrow> None
      | Some priv \<Rightarrow>
          Some (cfg\<lparr>po_SymmAlgo := Some (algo (shared_key cv priv)),
                    po_PeerInfo := (po_PeerInfo cfg)\<lparr>pr_ID := b58_Encode cv (cv_pub cv priv)\<rparr>\<rparr>))"

text \<open>\<open>generated\<close> is the key that the random source gives.\<close>
definition ListenPeerSecure :: "curve \<Rightarrow> ((PeerID \<Rightarrow> bytes option) \<Rightarrow> 'e SymmAlgo) \<Rightarrow> bytes option \<Rightarrow> 'e p2p_Option" where
  "ListenPeerSecure cv algo generated cfg =
     (case generated of None \<Rightarrow> None | Some priv \<Rightarrow> ListenPeerCurve25519 cv algo (b58_Encode cv priv) cfg)"

definition ListenIPv6Only :: "'e p2p_Option" where
  "ListenIPv6Only cfg = Some (cfg\<lparr>po_DisableIPv4 := True, po_DisableIPv6 := False\<rparr>)"

definition ListenIPv4Only :: "'e p2p_Option" where
  "ListenIPv4Only cfg = Some (cfg\<lparr>po_DisableIPv4 := False, po_DisableIPv6 := True\<rparr>)"

definition PeerSilenceMode :: "'e p2p_Option" where
  "PeerSilenceMode cfg = Some (cfg\<lparr>po_PeerInfo := WithSilenceMode (po_PeerInfo cfg)\<rparr>)"

definition PeerAlias1 :: "string \<Rightarrow> 'e p2p_Option" where
  "PeerAlias1 alias cfg = Some (cfg\<lparr>po_PeerInfo := WithMeta ''alias1'' alias (po_PeerInfo cfg)\<rparr>)"

definition PeerAlias2 :: "string \<Rightarrow> 'e p2p_Option" where
  "PeerAlias2 alias cfg = Some (cfg\<lparr>po_PeerInfo := WithMeta ''alias2'' alias (po_PeerInfo cfg)\<rparr>)"

definition PeerMetaOption :: "string \<Rightarrow> string \<Rightarrow> 'e p2p_Option" where
  "PeerMetaOption key v cfg = Some (cfg\<lparr>po_PeerInfo := WithMeta key v (po_PeerInfo cfg)\<rparr>)"

definition KeepAlivePeriod :: "int \<Rightarrow> 'e p2p_Option" where
  "KeepAlivePeriod period cfg = Some (cfg\<lparr>po_KeepAlivePeriod := period\<rparr>)"

definition MinDiscoPeriod :: "int \<Rightarrow> 'e p2p_Option" where
  "MinDiscoPeriod period cfg = Some (cfg\<lparr>po_MinDiscoPeriod := period\<rparr>)"

fun apply_options :: "'e p2p_Option list \<Rightarrow> 'e p2p_Option" where
  "apply_options [] cfg = Some cfg"
| "apply_options (opt # opts) cfg = (case opt cfg of None \<Rightarrow> None | Some cfg' \<Rightarrow> apply_options opts cfg')"

text \<open>\<open>rid\<close> is a random id in base58.\<close>
definition default_config :: "PeerID \<Rightarrow> 'e p2p_Config" where
  "default_config rid = \<lparr>po_UDPPort = 29877, po_DisableIPv6 = False, po_DisableIPv4 = False, po_PeerInfo = NewPeer rid,
     po_SymmAlgo = None, po_KeepAlivePeriod = 10 * second, po_MinDiscoPeriod = 120 * second\<rparr>"

text \<open>\<open>ListenPacketContext\<close>: \<open>dialed\<close> is the result of dialing the map server.\<close>
definition ListenPacketContext :: "(int \<Rightarrow> bool) \<Rightarrow> PeerID \<Rightarrow> (Peer \<Rightarrow> WSConn option) \<Rightarrow> 'e p2p_Option list \<Rightarrow> 'e PacketConn option" where
  "ListenPacketContext listen rid dialed opts = do {
     cfg \<leftarrow> apply_options opts (default_config rid);
     u \<leftarrow> ListenUDP listen \<lparr>cfg_Port = po_UDPPort cfg, cfg_ID = pr_ID (po_PeerInfo cfg),
            cfg_PeerKeepaliveInterval = po_KeepAlivePeriod cfg, cfg_DiscoMagic = None\<rparr>;
     w \<leftarrow> dialed (po_PeerInfo cfg);
     peerMap \<leftarrow> New 1024;
     cooling \<leftarrow> New 1024;
     Some \<lparr>pn_SymmAlgo = po_SymmAlgo cfg, pn_MinDiscoPeriod = po_MinDiscoPeriod cfg, pn_closed = False, pn_udp = u, pn_ws = w,
           pn_peers = \<lparr>updateTime = None, cvalue = None\<rparr>, pn_peerMap = peerMap, pn_cooling = cooling,
           pn_mode = MODE_DEFAULT, pn_relayPeerIndex = 0\<rparr> }"

end
