(* ===== verification/Secure.thy ===== *)
theory Secure
  imports Lru
begin

text \<open>
  The packet ciphers: AES-CBC with PKCS#7 padding (\<open>secure/aescbc/aescbc.go\<close>) and ChaCha20-Poly1305
  with a nonce taken from the clock (\<open>secure/chacha20poly1305/chacha20poly1305.go\<close>), both with a
  cache of ciphers per public key. The block cipher and the AEAD are parameters; padding, chaining,
  nonces, the retries of decryption and the caches are modelled.
\<close>

section \<open>PKCS#7\<close>

definition BlockSize :: nat where "BlockSize = 16"

definition PKCS7Padding :: "bytes \<Rightarrow> nat \<Rightarrow> bytes" where
  "PKCS7Padding data blockSize =
     (let padding = blockSize - length data mod blockSize
      in data @ replicate padding (of_nat padding))"

datatype secure_error =
  InvalidPaddingSize | InvalidPadding | InvalidEncrypted | KeySizeError | KeyError | NilAlgo | RandError | InvalidData

text \<open>\<^const>\<open>None\<close>: index out of range, for an empty argument or a padding longer than it.\<close>
definition PKCS7UnPadding :: "bytes \<Rightarrow> (secure_error + bytes) option" where
  "PKCS7UnPadding data =
     (if data = [] then None
      else let padding = unat (last data) in
        if padding < 1 \<or> BlockSize < padding then Some (Inl InvalidPaddingSize)
        else if length data < padding then None
        else if list_all (\<lambda>x. x = of_nat padding) (drop (length data - padding) data)
        then Some (Inr (take (length data - padding) data))
        else Some (Inl InvalidPadding))"

lemma unpad_replicate:
  assumes "1 \<le> p" and "p \<le> 16"
  shows "PKCS7UnPadding (data @ replicate p (of_nat p)) = Some (Inr data)"
proof -
  have u: "unat (of_nat p :: u8) = p" using assms by (simp add: unat_of_nat)
  have l: "last (data @ replicate p (of_nat p)) = (of_nat p :: u8)"
    using assms by (simp add: last_append last_replicate)
  have ne: "data @ replicate p (of_nat p :: u8) \<noteq> []" using assms by auto
  show ?thesis
    unfolding PKCS7UnPadding_def Let_def l u using ne assms by (simp add: list_all_iff BlockSize_def)
qed

lemma unpad_pad: "PKCS7UnPadding (PKCS7Padding data BlockSize) = Some (Inr data)"
  unfolding PKCS7Padding_def Let_def by (rule unpad_replicate) (simp_all add: BlockSize_def Suc_leI)

lemma length_pad: "length (PKCS7Padding data BlockSize) mod BlockSize = 0 \<and> 0 < length (PKCS7Padding data BlockSize)"
proof -
  have "length data + (16 - length data mod 16) = 16 * (length data div 16 + 1)"
    using mult_div_mod_eq [of 16 "length data"] mod_less_divisor [of 16 "length data", simplified]
    by (simp only: distrib_left mult_1_right)
  then have "length (PKCS7Padding data BlockSize) = 16 * (length data div 16 + 1)"
    by (simp add: PKCS7Padding_def BlockSize_def Let_def)
  then show ?thesis by (simp add: BlockSize_def)
qed

section \<open>Cipher block chaining\<close>

definition xor_bytes :: "bytes \<Rightarrow> bytes \<Rightarrow> bytes" where
  "xor_bytes a b = map2 (\<lambda>x y. x XOR y) a b"

function cbc_encrypt :: "(bytes \<Rightarrow> bytes) \<Rightarrow> bytes \<Rightarrow> bytes \<Rightarrow> bytes" where
  "cbc_encrypt E iv data =
     (if length data < 16 then []
      else (let c = E (xor_bytes iv (take 16 data)) in c @ cbc_encrypt E c (drop 16 data)))"
  by pat_completeness auto
termination by (relation "measure (\<lambda>(E, iv, data). length data)") auto

function cbc_decrypt :: "(bytes \<Rightarrow> bytes) \<Rightarrow> bytes \<Rightarrow> bytes \<Rightarrow> bytes" where
  "cbc_decrypt D iv data =
     (if length data < 16 then []
      else xor_bytes iv (D (take 16 data)) @ cbc_decrypt D (take 16 data) (drop 16 data))"
  by pat_completeness auto
termination by (relation "measure (\<lambda>(D, iv, data). length data)") auto

declare cbc_encrypt.simps [simp del] cbc_decrypt.simps [simp del]

text \<open>What the code relies on of a block cipher: blocks of sixteen bytes, decryption inverts
  encryption.\<close>
definition block_cipher :: "(bytes \<Rightarrow> bytes \<Rightarrow> bytes) \<Rightarrow> (bytes \<Rightarrow> bytes \<Rightarrow> bytes) \<Rightarrow> bool" where
  "block_cipher E D \<longleftrightarrow>
     (\<forall>k b. length b = 16 \<longrightarrow> length (E k b) = 16 \<and> D k (E k b) = b)"

lemma xor_bytes_cancel: "length a = length b \<Longrightarrow> xor_bytes a (xor_bytes a b) = b"
  by (induction a b rule: list_induct2) (simp_all add: xor_bytes_def flip: xor.assoc)

lemma length_xor_bytes [simp]: "length (xor_bytes a b) = min (length a) (length b)"
  by (simp add: xor_bytes_def)

lemma cbc_inverse:
  assumes "block_cipher E D" and "length iv = 16" and "length data mod 16 = 0"
  shows "cbc_decrypt (D k) iv (cbc_encrypt (E k) iv data) = data \<and> length (cbc_encrypt (E k) iv data) = length data"
  using assms(2,3)
proof (induction "E k" iv data rule: cbc_encrypt.induct)
  case (1 iv data)
  show ?case
  proof (cases "length data < 16")
    case True
    with 1(3) have "data = []" by simp
    then show ?thesis by (simp add: cbc_encrypt.simps cbc_decrypt.simps)
  next
    case False
    let ?c = "E k (xor_bytes iv (take 16 data))"
    have x: "length (xor_bytes iv (take 16 data)) = 16" using 1(2) False by simp
    then have c: "length ?c = 16" "D k ?c = xor_bytes iv (take 16 data)"
      using assms(1) unfolding block_cipher_def by blast+
    have "length (drop 16 data) mod 16 = 0" using 1(3) False le_mod_geq [of 16 "length data"] by simp
    with 1(1) [OF False refl c(1)] have IH: "cbc_decrypt (D k) ?c (cbc_encrypt (E k) ?c (drop 16 data)) = drop 16 data"
      "length (cbc_encrypt (E k) ?c (drop 16 data)) = length (drop 16 data)" by simp_all
    have e: "cbc_encrypt (E k) iv data = ?c @ cbc_encrypt (E k) ?c (drop 16 data)"
      using False by (simp add: cbc_encrypt.simps [of "E k" iv data] Let_def)
    have "xor_bytes iv (D k ?c) = take 16 data"
      unfolding c(2) using 1(2) False by (intro xor_bytes_cancel) simp
    with IH c(1) False show ?thesis
      unfolding e by (simp add: cbc_decrypt.simps [of "D k" iv])
  qed
qed

section \<open>AES-CBC\<close>

text \<open>\<open>aes.NewCipher\<close> accepts keys of 16, 24 and 32 bytes; a block is represented by its key.\<close>
definition NewCipher :: "bytes \<Rightarrow> secure_error + bytes" where
  "NewCipher key = (if length key \<in> {16, 24, 32} then Inr key else Inl KeySizeError)"

text \<open>\<open>iv\<close> are the sixteen bytes read from \<open>rand.Reader\<close>, or \<^const>\<open>None\<close> when the read fails.\<close>
definition aes_seal :: "(bytes \<Rightarrow> bytes \<Rightarrow> bytes) \<Rightarrow> bytes \<Rightarrow> bytes option \<Rightarrow> bytes \<Rightarrow> secure_error + bytes" where
  "aes_seal E block iv data =
     (case iv of None \<Rightarrow> Inl RandError
      | Some iv \<Rightarrow> Inr (iv @ cbc_encrypt (E block) iv (PKCS7Padding data BlockSize)))"

definition aes_open :: "(bytes \<Rightarrow> bytes \<Rightarrow> bytes) \<Rightarrow> bytes \<Rightarrow> bytes \<Rightarrow> (secure_error + bytes) option" where
  "aes_open D block data =
     (if length data < BlockSize \<or> length data mod BlockSize \<noteq> 0 then Some (Inl InvalidEncrypted)
      else PKCS7UnPadding (cbc_decrypt (D block) (take BlockSize data) (drop BlockSize data)))"

definition Encrypt :: "(bytes \<Rightarrow> bytes \<Rightarrow> bytes) \<Rightarrow> bytes \<Rightarrow> bytes option \<Rightarrow> bytes \<Rightarrow> secure_error + bytes" where
  "Encrypt E key iv data = (case NewCipher key of Inl e \<Rightarrow> Inl e | Inr block \<Rightarrow> aes_seal E block iv data)"

definition Decrypt :: "(bytes \<Rightarrow> bytes \<Rightarrow> bytes) \<Rightarrow> bytes \<Rightarrow> bytes \<Rightarrow> (secure_error + bytes) option" where
  "Decrypt D key data = (case NewCipher key of Inl e \<Rightarrow> Some (Inl e) | Inr block \<Rightarrow> aes_open D block data)"

section \<open>Ciphers per public key\<close>

type_synonym provider = "string \<Rightarrow> secure_error + bytes"

text \<open>The struct of either algorithm: its cache and the provider of secret keys.\<close>
record AESCBC =
  cipher :: "(string, bytes) Cache"
  provideSecretKey :: provider

definition aes_New :: "provider \<Rightarrow> AESCBC" where
  "aes_New p = \<lparr>cipher = the (New 128), provideSecretKey = p\<rparr>"

text \<open>\<open>new\<close> is the constructor of the cipher from a secret key.\<close>
definition ensureCipher :: "(bytes \<Rightarrow> secure_error + bytes) \<Rightarrow> AESCBC \<Rightarrow> string \<Rightarrow> AESCBC \<times> (secure_error + bytes)" where
  "ensureCipher new s pubKey =
     (let (c1, r) = Get (cipher s) pubKey; s1 = s\<lparr>cipher := c1\<rparr> in
      case r of
        Some block \<Rightarrow> (s1, Inr block)
      | None \<Rightarrow>
          (case provideSecretKey s pubKey of
             Inl e \<Rightarrow> (s1, Inl e)
           | Inr secretKey \<Rightarrow>
               (case new secretKey of
                  Inl e \<Rightarrow> (s1, Inl e)
                | Inr b \<Rightarrow> (s1\<lparr>cipher := Put c1 pubKey b\<rparr>, Inr b))))"

text \<open>A nil receiver is \<^const>\<open>None\<close>.\<close>
definition aes_Encrypt :: "(bytes \<Rightarrow> bytes \<Rightarrow> bytes) \<Rightarrow> AESCBC option \<Rightarrow> bytes option \<Rightarrow> bytes \<Rightarrow> string \<Rightarrow> AESCBC option \<times> (secure_error + bytes)" where
  "aes_Encrypt E s iv b pubKey =
     (case s of None \<Rightarrow> (None, Inl NilAlgo)
      | Some s \<Rightarrow>
          (case ensureCipher NewCipher s pubKey of
             (s', Inl e) \<Rightarrow> (Some s', Inl e)
           | (s', Inr block) \<Rightarrow> (Some s', aes_seal E block iv b)))"

definition aes_Decrypt :: "(bytes \<Rightarrow> bytes \<Rightarrow> bytes) \<Rightarrow> AESCBC option \<Rightarrow> bytes \<Rightarrow> string \<Rightarrow> AESCBC option \<times> (secure_error + bytes) option" where
  "aes_Decrypt D s b pubKey =
     (case s of None \<Rightarrow> (None, Some (Inl NilAlgo))
      | Some s \<Rightarrow>
          (case ensureCipher NewCipher s pubKey of
             (s', Inl e) \<Rightarrow> (Some s', Some (Inl e))
           | (s', Inr block) \<Rightarrow> (Some s', aes_open D block b)))"

section \<open>ChaCha20-Poly1305\<close>

definition put_u64le :: "u64 \<Rightarrow> bytes" where
  "put_u64le v = map (\<lambda>i. ucast (drop_bit (8 * i) v)) [0..<8]"

definition chacha_New :: "bytes \<Rightarrow> secure_error + bytes" where
  "chacha_New key = (if length key = 32 then Inr key else Inl KeySizeError)"

text \<open>Go's integer division truncates; a zero time window panics.\<close>
definition trunc_div :: "int \<Rightarrow> int \<Rightarrow> int" where
  "trunc_div a b = sgn a * sgn b * (\<bar>a\<bar> div \<bar>b\<bar>)"

text \<open>The nonce of twelve bytes for slot \<open>t\<close> of the clock.\<close>
definition nonce_at :: "int \<Rightarrow> bytes" where
  "nonce_at t = replicate 4 0 @ put_u64le (word_of_int t)"

definition chacha_Encrypt :: "(bytes \<Rightarrow> bytes \<Rightarrow> bytes \<Rightarrow> bytes) \<Rightarrow> AESCBC option \<Rightarrow> int \<Rightarrow> int \<Rightarrow> bytes \<Rightarrow> string
    \<Rightarrow> AESCBC option \<times> (secure_error + bytes) option" where
  "chacha_Encrypt seal s win now data pubKey =
     (case s of None \<Rightarrow> (None, Some (Inl NilAlgo))
      | Some s \<Rightarrow>
          (case ensureCipher chacha_New s pubKey of
             (s', Inl e) \<Rightarrow> (Some s', Some (Inl e))
           | (s', Inr key) \<Rightarrow>
               (Some s', if win = 0 then None else Some (Inr (seal key (nonce_at (trunc_div now win)) data)))))"

definition chacha_open :: "(bytes \<Rightarrow> bytes \<Rightarrow> bytes \<Rightarrow> bytes option) \<Rightarrow> bytes \<Rightarrow> int \<Rightarrow> bytes \<Rightarrow> secure_error + bytes" where
  "chacha_open opn key t data =
     (case opn key (nonce_at t) data of
        Some p \<Rightarrow> Inr p
      | None \<Rightarrow>
          (case opn key (nonce_at (t + 1)) data of
             Some p \<Rightarrow> Inr p
           | None \<Rightarrow>
               (case opn key (nonce_at (t - 1)) data of
                  Some p \<Rightarrow> Inr p
                | None \<Rightarrow> Inl InvalidData)))"

definition chacha_Decrypt :: "(bytes \<Rightarrow> bytes \<Rightarrow> bytes \<Rightarrow> bytes option) \<Rightarrow> AESCBC option \<Rightarrow> int \<Rightarrow> int \<Rightarrow> bytes \<Rightarrow> string
    \<Rightarrow> AESCBC option \<times> (secure_error + bytes) option" where
  "chacha_Decrypt opn s win now data pubKey =
     (case s of None \<Rightarrow> (None, Some (Inl NilAlgo))
      | Some s \<Rightarrow>
          (case ensureCipher chacha_New s pubKey of
             (s', Inl e) \<Rightarrow> (Some s', Some (Inl e))
           | (s', Inr key) \<Rightarrow>
               (Some s', if win = 0 then None else Some (chacha_open opn key (trunc_div now win) data))))"

section \<open>The cipher cache memoises the provider\<close>

definition key_for :: "(bytes \<Rightarrow> secure_error + bytes) \<Rightarrow> provider \<Rightarrow> string \<Rightarrow> bytes option" where
  "key_for new p k =
     (case p k of Inl _ \<Rightarrow> None | Inr x \<Rightarrow> (case new x of Inl _ \<Rightarrow> None | Inr b \<Rightarrow> Some b))"

definition algo_ok :: "(bytes \<Rightarrow> secure_error + bytes) \<Rightarrow> AESCBC \<Rightarrow> bool" where
  "algo_ok new s \<longleftrightarrow> cache_ok (cipher s) \<and>
     (\<forall>(j, u)\<in>set (contents (cipher s)). key_for new (provideSecretKey s) j = Some u)"

lemma aes_New_ok: "algo_ok new (aes_New p)"
  using New_ok [of 128] by (simp add: algo_ok_def aes_New_def New_def cache_ok_def contents_def)

text \<open>The cipher of a public key is the one its secret key gives, cached or not, and the cache stays
  sound.\<close>
lemma ensureCipher_ok:
  assumes "algo_ok new s"
  shows "algo_ok new (fst (ensureCipher new s k)) \<and>
    provideSecretKey (fst (ensureCipher new s k)) = provideSecretKey s \<and>
    (\<forall>b. snd (ensureCipher new s k) = Inr b \<longleftrightarrow> key_for new (provideSecretKey s) k = Some b)"
proof -
  obtain c1 r where g: "Get (cipher s) k = (c1, r)" by fastforce
  have c: "cache_ok (cipher s)" using assms by (simp add: algo_ok_def)
  have m: "\<forall>(j, u)\<in>set (contents (cipher s)). key_for new (provideSecretKey s) j = Some u"
    using assms by (simp add: algo_ok_def)
  have c1: "cache_ok c1" and m1: "\<forall>(j, u)\<in>set (contents c1). key_for new (provideSecretKey s) j = Some u"
    using lru.get_ok [OF c, of k] lru.memo_get(1) [OF c m, of k] g by simp_all
  show ?thesis
  proof (cases r)
    case (Some b)
    with lru.memo_get(2) [OF c m, of k b] g have "key_for new (provideSecretKey s) k = Some b" by simp
    with g Some c1 m1 show ?thesis by (simp add: ensureCipher_def algo_ok_def)
  next
    case None
    have p: "cache_ok (Put c1 k b) \<and> (\<forall>(j, u)\<in>set (contents (Put c1 k b)). key_for new (provideSecretKey s) j = Some u)"
      if "key_for new (provideSecretKey s) k = Some b" for b
      using lru.put_ok [OF c1] lru.memo_put [OF c1 m1 that] by simp
    show ?thesis
      using g None c1 m1 p
      by (auto simp: ensureCipher_def algo_ok_def key_for_def split: sum.splits)
  qed
qed

section \<open>Properties\<close>

lemma aes_open_seal:
  assumes "block_cipher E D" and "length iv = 16"
  shows "aes_seal E k (Some iv) b = Inr c \<Longrightarrow> aes_open D k c = Some (Inr b)"
proof -
  assume c: "aes_seal E k (Some iv) b = Inr c"
  let ?p = "PKCS7Padding b BlockSize"
  note inv = cbc_inverse [OF assms, of ?p k]
  have p: "length ?p mod 16 = 0" "0 < length ?p" using length_pad [of b] by (simp_all add: BlockSize_def)
  have "c = iv @ cbc_encrypt (E k) iv ?p" using c by (simp add: aes_seal_def)
  moreover have "(16 + length ?p) mod 16 = 0" using p(1) by simp
  ultimately show ?thesis
    using assms(2) inv p unpad_pad [of b] by (simp add: aes_open_def BlockSize_def)
qed

text \<open>Nothing protects the initialisation vector: a change of it is a change of the first block.\<close>
lemma xor_bytes_swap:
  assumes "length a = length b" and "length d = length b"
  shows "xor_bytes (xor_bytes a d) (xor_bytes a b) = xor_bytes b d"
  using assms by (induction a b arbitrary: d rule: list_induct2) (auto simp: xor_bytes_def length_Suc_conv xor.left_commute xor.commute xor.assoc)

lemma aes_open_flip:
  assumes "block_cipher E D" and "length iv = 16" and "length d = 16" and "16 \<le> length b"
    and "aes_seal E k (Some iv) b = Inr (iv @ c)"
  shows "aes_open D k (xor_bytes iv d @ c) = Some (Inr (xor_bytes (take 16 b) d @ drop 16 b))"
proof -
  let ?p = "PKCS7Padding b BlockSize"
  have p: "length ?p mod 16 = 0" "0 < length ?p" using length_pad [of b] by (simp_all add: BlockSize_def)
  then have l: "\<not> length ?p < 16" by (metis mod_less neq0_conv)
  have tp: "take 16 ?p = take 16 b" "drop 16 ?p = PKCS7Padding (drop 16 b) BlockSize"
    using assms(4) by (simp_all add: PKCS7Padding_def Let_def BlockSize_def le_mod_geq)
  let ?x = "E k (xor_bytes iv (take 16 b))"
  have x: "length ?x = 16" "D k ?x = xor_bytes iv (take 16 b)"
    using assms(1,2,4) unfolding block_cipher_def by simp_all
  have c: "c = ?x @ cbc_encrypt (E k) ?x (drop 16 ?p)"
    using assms(5) l by (simp add: aes_seal_def cbc_encrypt.simps [of "E k" iv ?p] Let_def tp)
  have m: "length (drop 16 ?p) mod 16 = 0" using p(1) l le_mod_geq [of 16 "length ?p"] by simp
  note inv = cbc_inverse [OF assms(1) x(1) m, of k]
  have "cbc_decrypt (D k) (xor_bytes iv d) c = xor_bytes (xor_bytes iv d) (xor_bytes iv (take 16 b)) @ drop 16 ?p"
    using x inv m by (simp add: c cbc_decrypt.simps [of "D k" "xor_bytes iv d"])
  also have "xor_bytes (xor_bytes iv d) (xor_bytes iv (take 16 b)) = xor_bytes (take 16 b) d"
    using assms(2,3,4) by (intro xor_bytes_swap) simp_all
  finally have dec: "cbc_decrypt (D k) (xor_bytes iv d) c = PKCS7Padding (xor_bytes (take 16 b) d @ drop 16 b) BlockSize"
    using assms(3,4) tp(2) by (simp add: PKCS7Padding_def Let_def BlockSize_def le_mod_geq)
  have "length c mod 16 = 0" using inv m x(1) by (simp add: c)
  then show ?thesis
    using assms(2,3) unpad_pad [of "xor_bytes (take 16 b) d @ drop 16 b"] by (simp add: aes_open_def BlockSize_def dec [simplified BlockSize_def])
qed

lemma length_cbc_decrypt:
  assumes "\<And>b. length b = 16 \<Longrightarrow> length (D b) = 16" and "length iv = 16" and "length data mod 16 = 0"
  shows "length (cbc_decrypt D iv data) = length data"
  using assms
proof (induction D iv data rule: cbc_decrypt.induct)
  case (1 D iv data)
  show ?case
  proof (cases "length data < 16")
    case True
    with 1(4) show ?thesis by (simp add: cbc_decrypt.simps)
  next
    case False
    have "length (drop 16 data) mod 16 = 0" using 1(4) False le_mod_geq [of 16 "length data"] by simp
    then have "length (cbc_decrypt D (take 16 data) (drop 16 data)) = length (drop 16 data)"
      using 1(1) [OF False 1(2)] False by simp
    moreover have "length (D (take 16 data)) = 16" using False by (intro 1(2)) simp
    ultimately show ?thesis using False 1(3) by (simp add: cbc_decrypt.simps [of D iv data])
  qed
qed

text \<open>A concrete block cipher of the required shape.\<close>
definition xor_cipher :: "bytes \<Rightarrow> bytes \<Rightarrow> bytes" where
  "xor_cipher k b = map (\<lambda>x. x XOR 90) b"

lemma xor_cipher_ok: "block_cipher xor_cipher xor_cipher"
  by (simp add: block_cipher_def xor_cipher_def comp_def xor.assoc)

definition demo_provider :: provider where
  "demo_provider k = (if k = ''peer'' then Inr (replicate 32 1) else Inl KeyError)"

text \<open>C13. AES-CBC round trip: with the same secret key on both sides, what one side encrypts for a peer
  the other side decrypts to the same bytes, whatever the caches hold.\<close>
theorem aes_roundtrip:
  assumes "block_cipher E D" and "algo_ok NewCipher s" and "algo_ok NewCipher s'"
    and "key_for NewCipher (provideSecretKey s) pub = Some k" and "key_for NewCipher (provideSecretKey s') pub' = Some k"
    and "length iv = 16"
  shows "\<exists>c. snd (aes_Encrypt E (Some s) (Some iv) b pub) = Inr c \<and>
    snd (aes_Decrypt D (Some s') c pub') = Some (Inr b)"
proof -
  have e1: "snd (ensureCipher NewCipher s pub) = Inr k" using ensureCipher_ok [OF assms(2), of pub] assms(4) by simp
  have e2: "snd (ensureCipher NewCipher s' pub') = Inr k" using ensureCipher_ok [OF assms(3), of pub'] assms(5) by simp
  let ?c = "iv @ cbc_encrypt (E k) iv (PKCS7Padding b BlockSize)"
  have seal: "aes_seal E k (Some iv) b = Inr ?c" by (simp add: aes_seal_def)
  have "snd (aes_Encrypt E (Some s) (Some iv) b pub) = Inr ?c"
    using e1 seal by (cases "ensureCipher NewCipher s pub") (simp add: aes_Encrypt_def)
  moreover have "snd (aes_Decrypt D (Some s') ?c pub') = Some (Inr b)"
    using e2 aes_open_seal [OF assms(1,6) seal] by (cases "ensureCipher NewCipher s' pub'") (simp add: aes_Decrypt_def)
  ultimately show ?thesis by blast
qed

theorem aes_roundtrip_witness:
  "\<exists>c. snd (aes_Encrypt xor_cipher (Some (aes_New demo_provider)) (Some (replicate 16 7)) [1, 2, 3] ''peer'') = Inr c \<and>
     snd (aes_Decrypt xor_cipher (Some (aes_New demo_provider)) c ''peer'') = Some (Inr [1, 2, 3])"
  by (rule aes_roundtrip [OF xor_cipher_ok aes_New_ok aes_New_ok])
    (simp_all add: key_for_def aes_New_def demo_provider_def NewCipher_def)

text \<open>Decryption of a packet of exactly one block, which passes the length check, is an index out of
  range: the padding of the empty plaintext is read at index -1. Every other packet is answered by a
  plaintext or an error.\<close>
theorem aes_open_panics_on_one_block:
  assumes "\<And>b. length b = 16 \<Longrightarrow> length (D k b) = 16"
  shows "aes_open D k data = None \<longleftrightarrow> length data = 16"
proof -
  let ?pt = "cbc_decrypt (D k) (take 16 data) (drop 16 data)"
  have un: "PKCS7UnPadding x = None \<longleftrightarrow> x = [] \<or> (1 \<le> unat (last x) \<and> unat (last x) \<le> 16 \<and> length x < unat (last x))"
    for x :: bytes
    by (auto simp: PKCS7UnPadding_def Let_def BlockSize_def)
  show ?thesis
  proof (cases "length data < 16 \<or> length data mod 16 \<noteq> 0")
    case True
    then show ?thesis by (auto simp: aes_open_def BlockSize_def)
  next
    case False
    then have open_eq: "aes_open D k data = PKCS7UnPadding ?pt" by (simp add: aes_open_def BlockSize_def)
    show ?thesis
    proof (cases "length data = 16")
      case True
      then have "?pt = []" by (simp add: cbc_decrypt.simps)
      with True open_eq show ?thesis by (simp add: PKCS7UnPadding_def)
    next
      case other: False
      with False have l: "16 \<le> length (drop 16 data)" "length (drop 16 data) mod 16 = 0"
        using le_mod_geq [of 16 "length data"] by (auto simp: dvd_def)
      have "length ?pt = length (drop 16 data)"
        using length_cbc_decrypt [of "D k" "take 16 data" "drop 16 data", OF assms] l False by simp
      with l(1) have "PKCS7UnPadding ?pt \<noteq> None" by (auto simp: un)
      with other open_eq show ?thesis by simp
    qed
  qed
qed

theorem aes_open_panics_on_one_block_witness:
  "aes_open xor_cipher [] (replicate 16 0) = None"
  using aes_open_panics_on_one_block [of xor_cipher "[]" "replicate 16 0"] by (simp add: xor_cipher_def)

text \<open>What the code relies on of the AEAD: opening under the same key and nonce inverts sealing, and a
  packet that opens is the sealing of its plaintext.\<close>
definition aead :: "(bytes \<Rightarrow> bytes \<Rightarrow> bytes \<Rightarrow> bytes) \<Rightarrow> (bytes \<Rightarrow> bytes \<Rightarrow> bytes \<Rightarrow> bytes option) \<Rightarrow> bool" where
  "aead seal opn \<longleftrightarrow> (\<forall>k n d x. opn k n x = Some d \<longleftrightarrow> x = seal k n d)"

definition toy_seal :: "bytes \<Rightarrow> bytes \<Rightarrow> bytes \<Rightarrow> bytes" where "toy_seal k n d = n @ d"
definition toy_open :: "bytes \<Rightarrow> bytes \<Rightarrow> bytes \<Rightarrow> bytes option" where
  "toy_open k n x = (if take (length n) x = n then Some (drop (length n) x) else None)"

lemma toy_aead: "aead toy_seal toy_open"
  unfolding aead_def toy_seal_def toy_open_def by (auto, metis append_take_drop_id)

lemma chacha_open_Inr:
  assumes "chacha_open opn k u c = Inr p"
  shows "\<exists>t. \<bar>t - u\<bar> \<le> 1 \<and> opn k (nonce_at t) c = Some p"
proof -
  consider "opn k (nonce_at u) c = Some p" | "opn k (nonce_at (u + 1)) c = Some p" | "opn k (nonce_at (u - 1)) c = Some p"
    using assms by (auto simp: chacha_open_def split: option.splits)
  then show ?thesis
  proof cases
    case 1
    then show ?thesis by (intro exI [of _ u]) simp
  next
    case 2
    then show ?thesis by (intro exI [of _ "u + 1"]) simp
  next
    case 3
    then show ?thesis by (intro exI [of _ "u - 1"]) simp
  qed
qed

lemma chacha_open_total:
  "opn k (nonce_at u) c \<noteq> None \<or> opn k (nonce_at (u + 1)) c \<noteq> None \<or> opn k (nonce_at (u - 1)) c \<noteq> None \<Longrightarrow>
   \<exists>p. chacha_open opn k u c = Inr p"
  unfolding chacha_open_def
  by (cases "opn k (nonce_at u) c"; cases "opn k (nonce_at (u + 1)) c"; cases "opn k (nonce_at (u - 1)) c") simp_all

text \<open>Clock tolerance of ChaCha20-Poly1305: when the clocks of the two sides are at most one time
  slot apart, decryption never reports invalid data, and what it returns seals, under the nonce of a
  neighbouring slot, to the very packet; with an injective nonce this is the plaintext.\<close>
theorem chacha_accepts_adjacent_slots:
  assumes "aead seal opn" and "algo_ok chacha_New s" and "algo_ok chacha_New s'"
    and "key_for chacha_New (provideSecretKey s) pub = Some k" and "key_for chacha_New (provideSecretKey s') pub' = Some k"
    and "win \<noteq> 0" and "\<bar>trunc_div now' win - trunc_div now win\<bar> \<le> 1"
  shows "\<exists>c p t. snd (chacha_Encrypt seal (Some s) win now b pub) = Some (Inr c) \<and>
    snd (chacha_Decrypt opn (Some s') win now' c pub') = Some (Inr p) \<and>
    \<bar>t - trunc_div now' win\<bar> \<le> 1 \<and> c = seal k (nonce_at t) p \<and> (now' = now \<longrightarrow> p = b)"
proof -
  have e1: "snd (ensureCipher chacha_New s pub) = Inr k" using ensureCipher_ok [OF assms(2), of pub] assms(4) by simp
  have e2: "snd (ensureCipher chacha_New s' pub') = Inr k" using ensureCipher_ok [OF assms(3), of pub'] assms(5) by simp
  let ?t = "trunc_div now win" and ?u = "trunc_div now' win"
  let ?c = "seal k (nonce_at ?t) b"
  have inv: "opn k n x = Some d \<longleftrightarrow> x = seal k n d" for n d x using assms(1) unfolding aead_def by blast
  have "?t = ?u \<or> ?t = ?u + 1 \<or> ?t = ?u - 1" using assms(7) by linarith
  then have "opn k (nonce_at ?u) ?c \<noteq> None \<or> opn k (nonce_at (?u + 1)) ?c \<noteq> None \<or> opn k (nonce_at (?u - 1)) ?c \<noteq> None"
    using inv [of "nonce_at ?t" ?c b] by auto
  then obtain p where p: "chacha_open opn k ?u ?c = Inr p" using chacha_open_total by blast
  from chacha_open_Inr [OF p] inv obtain t where t: "\<bar>t - ?u\<bar> \<le> 1" "?c = seal k (nonce_at t) p" by blast
  have "p = b" if "now' = now"
  proof -
    have "opn k (nonce_at ?u) ?c = Some b" using that inv by simp
    with p show ?thesis by (simp add: chacha_open_def)
  qed
  moreover have "snd (chacha_Encrypt seal (Some s) win now b pub) = Some (Inr ?c)"
    using e1 assms(6) by (cases "ensureCipher chacha_New s pub") (simp add: chacha_Encrypt_def)
  moreover have "snd (chacha_Decrypt opn (Some s') win now' ?c pub') = Some (Inr p)"
    using e2 p assms(6) by (cases "ensureCipher chacha_New s' pub'") (simp add: chacha_Decrypt_def)
  ultimately show ?thesis using t by blast
qed

theorem chacha_accepts_adjacent_slots_witness:
  "\<exists>c p. snd (chacha_Encrypt toy_seal (Some (aes_New demo_provider)) 10 1000 [1, 2] ''peer'') = Some (Inr c) \<and>
     snd (chacha_Decrypt toy_open (Some (aes_New demo_provider)) 10 1009 c ''peer'') = Some (Inr p)"
proof -
  have k: "key_for chacha_New (provideSecretKey (aes_New demo_provider)) ''peer'' = Some (replicate 32 1)"
    by (simp add: key_for_def aes_New_def demo_provider_def chacha_New_def)
  show ?thesis
    using chacha_accepts_adjacent_slots [OF toy_aead aes_New_ok aes_New_ok k k, of 10 1009 1000 "[1, 2]"]
    by (auto simp: trunc_div_def)
qed

text \<open>Nonce reuse: all packets encrypted for a peer within one time slot are sealed under the same
  key and the same nonce.\<close>
theorem chacha_nonce_reused:
  assumes "algo_ok chacha_New s" and "algo_ok chacha_New s2"
    and "key_for chacha_New (provideSecretKey s) pub = Some k" and "key_for chacha_New (provideSecretKey s2) pub = Some k"
    and "win \<noteq> 0" and "trunc_div now win = trunc_div now2 win"
  shows "\<exists>n. snd (chacha_Encrypt seal (Some s) win now d pub) = Some (Inr (seal k n d)) \<and>
    snd (chacha_Encrypt seal (Some s2) win now2 d2 pub) = Some (Inr (seal k n d2))"
proof -
  have "snd (ensureCipher chacha_New s pub) = Inr k" "snd (ensureCipher chacha_New s2 pub) = Inr k"
    using ensureCipher_ok [OF assms(1), of pub] ensureCipher_ok [OF assms(2), of pub] assms(3,4) by simp_all
  then show ?thesis
    using assms(5,6) by (cases "ensureCipher chacha_New s pub"; cases "ensureCipher chacha_New s2 pub")
      (auto simp: chacha_Encrypt_def)
qed

theorem chacha_nonce_reused_witness:
  "\<exists>n. snd (chacha_Encrypt toy_seal (Some (aes_New demo_provider)) 10 1000 [1] ''peer'') = Some (Inr (n @ [1])) \<and>
     snd (chacha_Encrypt toy_seal (Some (aes_New demo_provider)) 10 1009 [2] ''peer'') = Some (Inr (n @ [2]))"
proof -
  have k: "key_for chacha_New (provideSecretKey (aes_New demo_provider)) ''peer'' = Some (replicate 32 1)"
    by (simp add: key_for_def aes_New_def demo_provider_def chacha_New_def)
  show ?thesis
    using chacha_nonce_reused [OF aes_New_ok aes_New_ok k k, of 10 1000 1009 toy_seal "[1]" "[2]"]
    by (auto simp: trunc_div_def toy_seal_def)
qed

end
