(* ===== verification/Net_Text.thy ===== *)
theory Net_Text
  imports Pg_Prelude
begin

text \<open>
  Text forms of Go's standard library that the program parses and prints: decimal numbers
  (\<open>strconv\<close>), substrings (\<open>strings\<close>), and \<open>host:port\<close> pairs (\<open>net.SplitHostPort\<close>,
  \<open>net.JoinHostPort\<close>).
\<close>

section \<open>Numbers\<close>

text \<open>\<open>strconv.ParseUint(s, 10, _)\<close> without its bound on the size.\<close>
definition digit :: "char \<Rightarrow> nat option" where
  "digit c = (let n = of_char c :: nat in if 48 \<le> n \<and> n \<le> 57 then Some (n - 48) else None)"

fun parse_uint :: "nat \<Rightarrow> string \<Rightarrow> nat option" where
  "parse_uint acc [] = Some acc"
| "parse_uint acc (c # cs) = (case digit c of None \<Rightarrow> None | Some d \<Rightarrow> parse_uint (10 * acc + d) cs)"

definition ParseUint :: "nat \<Rightarrow> string \<Rightarrow> nat option" where
  "ParseUint bits s = (if s = [] then None else Option.bind (parse_uint 0 s) (\<lambda>n. if n < 2 ^ bits then Some n else None))"

definition digit_char :: "nat \<Rightarrow> char" where
  "digit_char d = char_of (48 + d)"

text \<open>\<open>strconv.Itoa\<close> of a number that is not negative.\<close>
fun Itoa :: "nat \<Rightarrow> string" where
  "Itoa n = (if n < 10 then [digit_char n] else Itoa (n div 10) @ [digit_char (n mod 10)])"

declare Itoa.simps [simp del]

lemma digit_char_simps:
  "digit_char 0 = CHR ''0''" "digit_char 1 = CHR ''1''" "digit_char 2 = CHR ''2''" "digit_char 3 = CHR ''3''" "digit_char 4 = CHR ''4''"
  "digit_char 5 = CHR ''5''" "digit_char 6 = CHR ''6''" "digit_char 7 = CHR ''7''" "digit_char 8 = CHR ''8''" "digit_char 9 = CHR ''9''"
  by code_simp+

lemma digit_digit_char [simp]: "d < 10 \<Longrightarrow> digit (digit_char d) = Some d"
  by (simp add: digit_def digit_char_def)

lemma parse_uint_append: "parse_uint acc (s @ t) = Option.bind (parse_uint acc s) (\<lambda>a. parse_uint a t)"
  by (induction s arbitrary: acc) (auto split: option.splits)

lemma parse_uint_Itoa [simp]: "parse_uint 0 (Itoa n) = Some n"
proof (induction n rule: Itoa.induct)
  case (1 n)
  then show ?case by (cases "n < 10") (simp_all add: Itoa.simps [of n] parse_uint_append)
qed

lemma Itoa_not_Nil [simp]: "Itoa n \<noteq> []"
  by (subst Itoa.simps) simp

lemma ParseUint_Itoa [simp]: "n < 2 ^ bits \<Longrightarrow> ParseUint bits (Itoa n) = Some n"
  by (simp add: ParseUint_def)

lemma parse_uint_digits: "parse_uint acc s = Some n \<Longrightarrow> c \<in> set s \<Longrightarrow> digit c \<noteq> None"
  by (induction s arbitrary: acc) (auto split: option.splits)

lemma Itoa_digits: "c \<in> set (Itoa n) \<Longrightarrow> digit c \<noteq> None"
  using parse_uint_digits [OF parse_uint_Itoa] .

section \<open>Substrings\<close>

text \<open>\<open>strings.HasPrefix\<close>, and \<open>strings.Index\<close> of a text.\<close>
fun has_prefix :: "string \<Rightarrow> string \<Rightarrow> bool" where
  "has_prefix s [] = True"
| "has_prefix [] (p # ps) = False"
| "has_prefix (c # s) (p # ps) = (c = p \<and> has_prefix s ps)"

fun str_index :: "string \<Rightarrow> string \<Rightarrow> nat option" where
  "str_index [] p = (if p = [] then Some 0 else None)"
| "str_index (c # s) p = (if has_prefix (c # s) p then Some 0 else map_option Suc (str_index s p))"

definition str_contains :: "string \<Rightarrow> string \<Rightarrow> bool" where
  "str_contains s p \<longleftrightarrow> str_index s p \<noteq> None"

text \<open>\<open>strings.LastIndexByte\<close>\<close>
fun last_index :: "string \<Rightarrow> char \<Rightarrow> nat option" where
  "last_index [] c = None"
| "last_index (x # s) c =
     (case last_index s c of Some i \<Rightarrow> Some (Suc i) | None \<Rightarrow> if x = c then Some 0 else None)"

lemma has_prefix_iff: "has_prefix s p \<longleftrightarrow> (\<exists>r. s = p @ r)"
  by (induction s p rule: has_prefix.induct) auto

lemma str_index_Some: "str_index s p = Some i \<Longrightarrow> \<exists>r. s = take i s @ p @ r \<and> i + length p \<le> length s"
proof (induction s arbitrary: i)
  case (Cons c s)
  show ?case
  proof (cases "has_prefix (c # s) p")
    case True
    with Cons.prems show ?thesis by (auto simp: has_prefix_iff dest: arg_cong [where f = length])
  next
    case False
    with Cons.prems obtain k where k: "str_index s p = Some k" "i = Suc k" by auto
    from Cons.IH [OF k(1)] k(2) show ?thesis by auto
  qed
qed (auto split: if_splits)

lemma str_index_append: "str_index (a @ p @ r) p \<noteq> None"
proof (induction a)
  case Nil
  have "has_prefix (p @ r) p" by (auto simp: has_prefix_iff)
  then show ?case by (cases "p @ r") auto
qed auto

lemma str_contains_iff: "str_contains s p \<longleftrightarrow> (\<exists>a r. s = a @ p @ r)"
  using str_index_Some str_index_append by (fastforce simp: str_contains_def)

text \<open>The pattern is found where its first character first occurs.\<close>
lemma str_index_first [simp]: "c \<notin> set a \<Longrightarrow> str_index (a @ c # q @ r) (c # q) = Some (length a)"
  by (induction a) (auto simp: has_prefix_iff)

lemma str_index_char [simp]: "c \<notin> set a \<Longrightarrow> str_index (a @ c # r) [c] = Some (length a)"
  using str_index_first [of c a "[]" r] by simp

lemma str_index_absent: "c \<notin> set s \<Longrightarrow> str_index s (c # q) = None"
  by (induction s) auto

lemma last_index_None [simp]: "last_index s c = None \<longleftrightarrow> c \<notin> set s"
  by (induction s) (auto split: option.splits)

lemma last_index_append [simp]: "c \<notin> set t \<Longrightarrow> last_index (s @ c # t) c = Some (length s)"
  by (induction s) (auto split: option.splits)

section \<open>Hosts and ports\<close>

definition JoinHostPort :: "string \<Rightarrow> string \<Rightarrow> string" where
  "JoinHostPort host port =
     (if CHR '':'' \<in> set host then ''['' @ host @ '']:'' @ port else host @ '':'' @ port)"

datatype host_error = MissingPort | MissingBracket | TooManyColons | UnexpectedBracket

text \<open>The host part: where the port begins is the last colon \<open>i\<close>.\<close>
definition split_host :: "string \<Rightarrow> nat \<Rightarrow> host_error + string \<times> nat \<times> nat" where
  "split_host hp i =
     (if hp \<noteq> [] \<and> hd hp = CHR ''['' then
        (case str_index hp '']'' of
           None \<Rightarrow> Inl MissingBracket
         | Some e \<Rightarrow>
             if e + 1 = length hp then Inl MissingPort
             else if e + 1 = i then Inr (take (e - 1) (drop 1 hp), 1, e + 1)
             else if hp ! (e + 1) = CHR '':'' then Inl TooManyColons
             else Inl MissingPort)
      else if CHR '':'' \<in> set (take i hp) then Inl TooManyColons
      else Inr (take i hp, 0, 0))"

definition SplitHostPort :: "string \<Rightarrow> host_error + string \<times> string" where
  "SplitHostPort hp =
     (case last_index hp (CHR '':'') of
        None \<Rightarrow> Inl MissingPort
      | Some i \<Rightarrow>
          (case split_host hp i of
             Inl e \<Rightarrow> Inl e
           | Inr (host, j, k) \<Rightarrow>
               if CHR ''['' \<in> set (drop j hp) \<or> CHR '']'' \<in> set (drop k hp) then Inl UnexpectedBracket
               else Inr (host, drop (i + 1) hp)))"

definition unbracketed :: "string \<Rightarrow> bool" where
  "unbracketed s \<longleftrightarrow> CHR ''['' \<notin> set s \<and> CHR '']'' \<notin> set s"

text \<open>Splitting undoes joining.\<close>
lemma SplitHostPort_JoinHostPort:
  assumes "unbracketed host" and "unbracketed port" and "CHR '':'' \<notin> set port"
  shows "SplitHostPort (JoinHostPort host port) = Inr (host, port)"
proof (cases "CHR '':'' \<in> set host")
  case True
  have "last_index (''['' @ host @ '']:'' @ port) (CHR '':'') = Some (length host + 2)"
    using last_index_append [OF assms(3), of "''['' @ host @ '']''"] by simp
  moreover have "str_index (''['' @ host @ '']:'' @ port) '']'' = Some (length host + 1)"
    using assms(1) str_index_char [of "CHR '']''" "''['' @ host" "'':'' @ port"] by (simp add: unbracketed_def)
  ultimately show ?thesis
    using assms True unfolding SplitHostPort_def JoinHostPort_def split_host_def unbracketed_def by simp
next
  case False
  have "last_index (host @ '':'' @ port) (CHR '':'') = Some (length host)" using assms(3) by simp
  moreover have "\<not> (host @ '':'' @ port \<noteq> [] \<and> hd (host @ '':'' @ port) = CHR ''['')"
    using assms(1) by (cases host) (auto simp: unbracketed_def)
  ultimately show ?thesis
    using assms False by (simp add: SplitHostPort_def JoinHostPort_def split_host_def unbracketed_def)
qed

lemma Itoa_unbracketed: "unbracketed (Itoa n)" and Itoa_no_colon: "CHR '':'' \<notin> set (Itoa n)"
proof -
  have "digit (CHR ''['') = None" "digit (CHR '']'') = None" "digit (CHR '':'') = None" by (simp_all add: digit_def)
  then show "unbracketed (Itoa n)" "CHR '':'' \<notin> set (Itoa n)" using Itoa_digits [of _ n] unfolding unbracketed_def by blast+
qed

end
