(* ===== verification/Peermap_Auth.thy ===== *)
theory Peermap_Auth
  imports Disco Secure Net_Text "HOL-Library.Countable"
begin

text \<open>
  Credentials and configuration of the map server: network secrets (\<open>peermap/auth/auth.go\<close>), exporter
  tokens (\<open>peermap/exporter/auth/auth.go\<close>), rate limits and defaults
  (\<open>peermap/config/config.go\<close>), nonces and error codes (\<open>langs\<close>). The AEAD, JSON and base64 are
  arguments; times are nanoseconds.
\<close>

section \<open>Network secrets\<close>

record JSONSecret =
  js_Network :: string
  js_Admin :: bool
  js_Alias :: string
  js_Neighbors :: "string list"
  js_Deadline :: int

record Net =
  net_ID :: string
  net_Alias :: string
  net_Neighbors :: "string list"

datatype auth_error = ErrInvalidToken | ErrTokenExpired

text \<open>AES-GCM with a random nonce, JSON and URL base64 under the server's key.\<close>
record auth_env =
  ae_seal :: "bytes \<Rightarrow> bytes \<Rightarrow> bytes \<Rightarrow> bytes"
  ae_open :: "bytes \<Rightarrow> bytes \<Rightarrow> bytes option"
  ae_to_json :: "JSONSecret \<Rightarrow> bytes"
  ae_of_json :: "bytes \<Rightarrow> JSONSecret option"
  ae_encode :: "bytes \<Rightarrow> string"
  ae_decode :: "string \<Rightarrow> bytes option"

definition secretVersion :: u8 where "secretVersion = 1"

text \<open>The nonce of twelve and the tag of sixteen bytes.\<close>
definition Overhead :: nat where "Overhead = 28"

definition nano :: int where "nano = 1000000000"

definition no_secret :: JSONSecret where
  "no_secret = \<lparr>js_Network = '''', js_Admin = False, js_Alias = '''', js_Neighbors = [], js_Deadline = 0\<rparr>"

text \<open>\<open>rnd\<close> is the nonce that \<open>Seal\<close> draws.\<close>
definition GenerateSecretAdmin :: "auth_env \<Rightarrow> bytes \<Rightarrow> int \<Rightarrow> bool \<Rightarrow> Net \<Rightarrow> int \<Rightarrow> string" where
  "GenerateSecretAdmin e rnd now adm n validDuration =
     (let b = ae_to_json e \<lparr>js_Network = net_ID n, js_Admin = adm, js_Alias = net_Alias n, js_Neighbors = net_Neighbors n,
                            js_Deadline = (now + validDuration) div nano\<rparr>;
          version = [secretVersion]
      in ae_encode e (version @ ae_seal e rnd b version))"

definition GenerateSecret :: "auth_env \<Rightarrow> bytes \<Rightarrow> int \<Rightarrow> Net \<Rightarrow> int \<Rightarrow> string" where
  "GenerateSecret e rnd now n validDuration = GenerateSecretAdmin e rnd now False n validDuration"

text \<open>The token is returned with the expiry error too.\<close>
definition ParseSecret :: "auth_env \<Rightarrow> int \<Rightarrow> string \<Rightarrow> JSONSecret \<times> auth_error option" where
  "ParseSecret e now networkIDChiper =
     (case ae_decode e networkIDChiper of
        None \<Rightarrow> (no_secret, Some ErrInvalidToken)
      | Some tokenData \<Rightarrow>
          if length tokenData < 1 + Overhead \<or> tokenData ! 0 \<noteq> secretVersion then (no_secret, Some ErrInvalidToken)
          else case ae_open e (drop 1 tokenData) (take 1 tokenData) of
                 None \<Rightarrow> (no_secret, Some ErrInvalidToken)
               | Some plainData \<Rightarrow>
                   (case ae_of_json e plainData of
                      None \<Rightarrow> (no_secret, Some ErrInvalidToken)
                    | Some token \<Rightarrow>
                        if js_Deadline token * nano - now \<le> 0 then (token, Some ErrTokenExpired) else (token, None)))"

section \<open>Exporter tokens\<close>

text \<open>\<open>New\<close>: AES-CBC under the digest of the key, for every public key.\<close>
definition exporter_New :: "(bytes \<Rightarrow> bytes) \<Rightarrow> bytes \<Rightarrow> AESCBC" where
  "exporter_New sha secretKey = aes_New (\<lambda>pubKey. Inr (sha secretKey))"

datatype token_error = BadEncoding | BadCipher secure_error | BadVersion | Expired_token

text \<open>An instruction is its expiry in seconds; JSON that does not parse leaves it zero. \<^const>\<open>None\<close>:
  the plain text is empty, or the cipher panics.\<close>
definition CheckToken :: "(bytes \<Rightarrow> bytes \<Rightarrow> bytes) \<Rightarrow> (string \<Rightarrow> bytes option) \<Rightarrow> (bytes \<Rightarrow> int option) \<Rightarrow> int \<Rightarrow> AESCBC option \<Rightarrow> string \<Rightarrow> AESCBC option \<times> (token_error + int) option" where
  "CheckToken dec decode unjson now_sec a token =
     (case decode token of
        None \<Rightarrow> (a, Some (Inl BadEncoding))
      | Some b \<Rightarrow>
          (case aes_Decrypt dec a b '''' of
             (a1, None) \<Rightarrow> (a1, None)
           | (a1, Some (Inl e)) \<Rightarrow> (a1, Some (Inl (BadCipher e)))
           | (a1, Some (Inr plain)) \<Rightarrow>
               (a1, case plain of
                      [] \<Rightarrow> None
                    | v # rest \<Rightarrow>
                        if v \<noteq> 1 then Some (Inl BadVersion)
                        else let expiredAt = (case unjson rest of None \<Rightarrow> 0 | Some t \<Rightarrow> t) in
                          if expiredAt - now_sec \<le> 0 then Some (Inl Expired_token) else Some (Inr expiredAt))))"

definition GenerateToken :: "(bytes \<Rightarrow> bytes \<Rightarrow> bytes) \<Rightarrow> (bytes \<Rightarrow> string) \<Rightarrow> (int \<Rightarrow> bytes) \<Rightarrow> bytes option \<Rightarrow> AESCBC option \<Rightarrow> int \<Rightarrow> AESCBC option \<times> (token_error + string)" where
  "GenerateToken enc encode json iv a expiredAt =
     (case aes_Encrypt enc a iv ([1] @ json expiredAt) '''' of
        (a1, Inl e) \<Rightarrow> (a1, Inl (BadCipher e))
      | (a1, Inr chiper) \<Rightarrow> (a1, Inr (encode chiper)))"

section \<open>Configuration\<close>

record RateLimiter =
  rl_Limit :: int
  rl_Burst :: int

record RateLimiterConfig =
  rc_Limit :: int
  rc_Burst :: int
  rc_Relay :: RateLimiter
  rc_StreamR :: RateLimiter
  rc_StreamW :: RateLimiter

datatype config_error = BurstTooSmall | LimitNegative | RotationPeriod

definition inherit :: "RateLimiterConfig \<Rightarrow> RateLimiter \<Rightarrow> RateLimiter" where
  "inherit c r = \<lparr>rl_Limit = (if rl_Limit r = 0 \<and> 0 < rc_Limit c then rc_Limit c else rl_Limit r),
                  rl_Burst = (if rl_Burst r = 0 \<and> 0 < rc_Burst c then rc_Burst c else rl_Burst r)\<rparr>"

definition check_limiter :: "RateLimiter \<Rightarrow> config_error option" where
  "check_limiter r = (if rl_Burst r < rl_Limit r then Some BurstTooSmall else if rl_Limit r < 0 then Some LimitNegative else None)"

definition rate_check :: "RateLimiterConfig \<Rightarrow> RateLimiterConfig \<times> config_error option" where
  "rate_check c =
     (let c1 = c\<lparr>rc_Relay := inherit c (rc_Relay c), rc_StreamR := inherit c (rc_StreamR c), rc_StreamW := inherit c (rc_StreamW c)\<rparr> in
      (c1, case check_limiter (rc_Relay c1) of Some e \<Rightarrow> Some e
           | None \<Rightarrow> (case check_limiter (rc_StreamR c1) of Some e \<Rightarrow> Some e | None \<Rightarrow> check_limiter (rc_StreamW c1))))"

record PmConfig =
  cf_Listen :: string
  cf_SecretKey :: string
  cf_STUNs :: "string list"
  cf_PublicNetwork :: string
  cf_RateLimiter :: "RateLimiterConfig option"
  cf_RotationPeriod :: int
  cf_ValidityPeriod :: int

text \<open>\<open>key\<close> is the random key for an empty one. \<open>max(validity/2, minute)\<close> is an integer division.\<close>
definition ApplyDefaults :: "string \<Rightarrow> PmConfig \<Rightarrow> PmConfig \<times> config_error option" where
  "ApplyDefaults key cfg =
     (let c1 = (if cf_Listen cfg = '''' then cfg\<lparr>cf_Listen := ''127.0.0.1:9987''\<rparr> else cfg);
          c2 = (if cf_SecretKey c1 = '''' then c1\<lparr>cf_SecretKey := key\<rparr> else c1);
          (c3, e) = (case cf_RateLimiter c2 of
                       None \<Rightarrow> (c2, None)
                     | Some r \<Rightarrow> (let (r', e) = rate_check r in (c2\<lparr>cf_RateLimiter := Some r'\<rparr>, e)))
      in case e of Some err \<Rightarrow> (c3, Some err)
         | None \<Rightarrow>
             (let c4 = (if cf_ValidityPeriod c3 = 0 then c3\<lparr>cf_ValidityPeriod := 48 * 3600 * nano\<rparr> else c3);
                  c5 = (if cf_RotationPeriod c4 = 0
                        then c4\<lparr>cf_RotationPeriod := max (sgn (cf_ValidityPeriod c4) * (\<bar>cf_ValidityPeriod c4\<bar> div 2)) (60 * nano)\<rparr> else c4)
              in (c5, if cf_ValidityPeriod c5 \<le> cf_RotationPeriod c5 then Some RotationPeriod else None)))"

definition Overwrite :: "PmConfig \<Rightarrow> PmConfig \<Rightarrow> PmConfig" where
  "Overwrite cfg cfg1 =
     (let c1 = (if cf_SecretKey cfg1 \<noteq> '''' then cfg\<lparr>cf_SecretKey := cf_SecretKey cfg1\<rparr> else cfg);
          c2 = (if cf_Listen cfg1 \<noteq> '''' then c1\<lparr>cf_Listen := cf_Listen cfg1\<rparr> else c1);
          c3 = (if cf_STUNs cfg1 \<noteq> [] then c2\<lparr>cf_STUNs := cf_STUNs cfg1\<rparr> else c2)
      in if cf_PublicNetwork cfg1 \<noteq> '''' then c3\<lparr>cf_PublicNetwork := cf_PublicNetwork cfg1\<rparr> else c3)"

section \<open>Nonces\<close>

text \<open>\<open>strconv.ParseUint(nonce, 10, 8)\<close>, and 0 for what is not a number.\<close>
definition MustParseNonce :: "string \<Rightarrow> u8" where
  "MustParseNonce nonce = (case ParseUint 8 nonce of None \<Rightarrow> 0 | Some n \<Rightarrow> of_nat n)"

text \<open>\<open>NewNonce\<close> on the stream of random bytes, empty when it fails.\<close>
fun NewNonce :: "u8 list \<Rightarrow> u8" where
  "NewNonce [] = 0"
| "NewNonce (b # bs) = (if b = 0 then NewNonce bs else b)"

section \<open>Lemmas\<close>

text \<open>Documented behaviour of the AEAD and the codecs: opening accepts exactly what sealing made.\<close>
definition auth_env_ok :: "auth_env \<Rightarrow> bool" where
  "auth_env_ok e \<longleftrightarrow>
     (\<forall>c a p. ae_open e c a = Some p \<longleftrightarrow> (\<exists>r. length r = 12 \<and> c = ae_seal e r p a)) \<and>
     (\<forall>r p a. length r = 12 \<longrightarrow> length (ae_seal e r p a) = length p + Overhead) \<and>
     (\<forall>s. ae_of_json e (ae_to_json e s) = Some s) \<and>
     (\<forall>b. ae_decode e (ae_encode e b) = Some b)"

lemma rate_check_ok:
  assumes "rate_check c = (c', None)" and "l \<in> {rc_Relay c', rc_StreamR c', rc_StreamW c'}"
  shows "0 \<le> rl_Limit l \<and> rl_Limit l \<le> rl_Burst l"
  using assms by (auto simp: rate_check_def check_limiter_def Let_def split: option.splits if_splits)

lemma parse_generated:
  assumes "auth_env_ok e" and "length rnd = 12"
  shows "ParseSecret e now' (GenerateSecretAdmin e rnd now adm n valid) =
     (\<lparr>js_Network = net_ID n, js_Admin = adm, js_Alias = net_Alias n, js_Neighbors = net_Neighbors n,
        js_Deadline = (now + valid) div nano\<rparr>,
      if now' < (now + valid) div nano * nano then None else Some ErrTokenExpired)"
proof -
  let ?t = "\<lparr>js_Network = net_ID n, js_Admin = adm, js_Alias = net_Alias n, js_Neighbors = net_Neighbors n,
        js_Deadline = (now + valid) div nano\<rparr>"
  let ?c = "ae_seal e rnd (ae_to_json e ?t) [secretVersion]"
  have "ae_open e ?c [secretVersion] = Some (ae_to_json e ?t)" "length ?c = length (ae_to_json e ?t) + Overhead"
    using assms unfolding auth_env_ok_def by blast+
  moreover have "ae_of_json e (ae_to_json e ?t) = Some ?t" "\<And>b. ae_decode e (ae_encode e b) = Some b"
    using assms(1) unfolding auth_env_ok_def by blast+
  ultimately show ?thesis
    by (simp add: ParseSecret_def GenerateSecretAdmin_def Let_def not_less)
qed

text \<open>An environment that keeps the laws.\<close>
definition toy_tag :: "bytes \<Rightarrow> bytes" where "toy_tag a = take 16 (a @ replicate 16 0)"

definition toy_env :: auth_env where
  "toy_env = \<lparr>ae_seal = (\<lambda>r p a. r @ p @ toy_tag a),
     ae_open = (\<lambda>c a. if 28 \<le> length c \<and> drop (length c - 16) c = toy_tag a then Some (take (length c - 28) (drop 12 c)) else None),
     ae_to_json = (\<lambda>s. replicate (to_nat (js_Network s, js_Admin s, js_Alias s, js_Neighbors s, js_Deadline s)) 0),
     ae_of_json = (\<lambda>b. case from_nat (length b) of (n, adm, al, ns, d) \<Rightarrow>
        Some \<lparr>js_Network = n, js_Admin = adm, js_Alias = al, js_Neighbors = ns, js_Deadline = d\<rparr>),
     ae_encode = map (\<lambda>v. char_of (unat v)), ae_decode = (\<lambda>s. Some (map (\<lambda>c. of_nat (of_char c)) s))\<rparr>"

lemma toy_env_ok: "auth_env_ok toy_env"
proof -
  have l: "length (toy_tag a) = 16" for a by (simp add: toy_tag_def)
  have op: "ae_open toy_env c a = Some p \<longleftrightarrow> (\<exists>r. length r = 12 \<and> c = ae_seal toy_env r p a)" for c a p
  proof
    assume "ae_open toy_env c a = Some p"
    then have c: "28 \<le> length c" "drop (length c - 16) c = toy_tag a" "take (length c - 28) (drop 12 c) = p"
      by (auto simp: toy_env_def split: if_splits)
    have "c = take 12 c @ take (length c - 28) (drop 12 c) @ drop (length c - 28) (drop 12 c)"
      unfolding append_take_drop_id ..
    moreover have "drop (length c - 28) (drop 12 c) = toy_tag a" using c(1,2) by simp
    ultimately have "c = ae_seal toy_env (take 12 c) p a" using c(3) by (simp add: toy_env_def)
    with c(1) show "\<exists>r. length r = 12 \<and> c = ae_seal toy_env r p a" by (intro exI [of _ "take 12 c"]) simp
  next
    assume "\<exists>r. length r = 12 \<and> c = ae_seal toy_env r p a"
    then obtain r where "length r = 12" "c = r @ p @ toy_tag a" by (auto simp: toy_env_def)
    then show "ae_open toy_env c a = Some p" using l by (simp add: toy_env_def)
  qed
  have "map (\<lambda>c. of_nat (of_char c) :: u8) (map (\<lambda>v. char_of (unat v)) b) = b" for b
  proof -
    have "(of_nat (of_char (char_of (unat v) :: char)) :: u8) = v" for v :: u8
    proof -
      have "unat v < 256" using unsigned_less [of v] by simp
      then show ?thesis by simp
    qed
    then show ?thesis by (simp add: comp_def)
  qed
  then show ?thesis using op l by (simp add: auth_env_ok_def toy_env_def Overhead_def)
qed

section \<open>Properties\<close>

text \<open>C28. Network secrets: a generated secret parses back to the network, the administrator flag and
  the neighbours it was made for until its deadline, and is refused from then on; and every secret
  that is accepted was sealed under the server's key, in the current version, and has not expired.\<close>
theorem network_secret_sound:
  assumes "auth_env_ok e" and "length rnd = 12"
  shows "ParseSecret e now' (GenerateSecretAdmin e rnd now adm n valid) =
     (\<lparr>js_Network = net_ID n, js_Admin = adm, js_Alias = net_Alias n, js_Neighbors = net_Neighbors n,
        js_Deadline = (now + valid) div nano\<rparr>,
      if now' < (now + valid) div nano * nano then None else Some ErrTokenExpired) \<and>
    (\<forall>t. ParseSecret e now' s = (t, None) \<longrightarrow>
      now' < js_Deadline t * nano \<and>
      (\<exists>r plain. length r = 12 \<and> ae_decode e s = Some ([secretVersion] @ ae_seal e r plain [secretVersion]) \<and> ae_of_json e plain = Some t))"
proof (intro conjI allI impI)
  show "ParseSecret e now' (GenerateSecretAdmin e rnd now adm n valid) =
     (\<lparr>js_Network = net_ID n, js_Admin = adm, js_Alias = net_Alias n, js_Neighbors = net_Neighbors n,
        js_Deadline = (now + valid) div nano\<rparr>,
      if now' < (now + valid) div nano * nano then None else Some ErrTokenExpired)"
    by (rule parse_generated [OF assms])
next
  fix t assume p: "ParseSecret e now' s = (t, None)"
  then obtain d plain where d: "ae_decode e s = Some d" "\<not> length d < 1 + Overhead" "d ! 0 = secretVersion"
    "ae_open e (drop 1 d) (take 1 d) = Some plain" "ae_of_json e plain = Some t" and l: "now' < js_Deadline t * nano"
    by (auto simp: ParseSecret_def split: option.splits if_splits)
  then show "now' < js_Deadline t * nano" by simp
  obtain v d' where vd: "d = v # d'" using d(2) by (cases d) auto
  with d(3) have "v = secretVersion" by simp
  with d(4) vd assms(1) obtain r where "length r = 12" "d' = ae_seal e r plain [secretVersion]"
    unfolding auth_env_ok_def by auto
  with d vd \<open>v = secretVersion\<close> show "\<exists>r plain. length r = 12 \<and>
      ae_decode e s = Some ([secretVersion] @ ae_seal e r plain [secretVersion]) \<and> ae_of_json e plain = Some t" by auto
qed

theorem network_secret_sound_witness:
  "snd (ParseSecret toy_env 5 (GenerateSecretAdmin toy_env (replicate 12 7) 0 False \<lparr>net_ID = ''n'', net_Alias = '''', net_Neighbors = []\<rparr> (2 * nano))) = None \<and>
   snd (ParseSecret toy_env (3 * nano) (GenerateSecretAdmin toy_env (replicate 12 7) 0 False \<lparr>net_ID = ''n'', net_Alias = '''', net_Neighbors = []\<rparr> (2 * nano))) = Some ErrTokenExpired"
proof -
  have "length (replicate 12 (7 :: u8)) = 12" by simp
  note s = network_secret_sound [OF toy_env_ok this, THEN conjunct1]
  show ?thesis unfolding s by (simp add: nano_def)
qed

end
