(* ===== verification/Peermap.thy ===== *)
theory Peermap
  imports Peermap_Auth Ws "HOL-Library.AList"
begin

text \<open>
  The map server (\<open>peermap/peermap.go\<close>): networks, the index of peers, one connection per peer, the
  handling of its messages, broadcasts, liveness and secret rotation, and the connect request.
  Connections are pointers into a store, so that a connection replaced by a newer one stays what it
  is. Rate limiters only delay and are left out. A nil web socket, a nil network context and slice
  bounds are panics (\<^const>\<open>None\<close>). The order of \<open>nc_peers\<close> is the order of a map iteration.
\<close>

section \<open>State\<close>

record peerConn =
  pc_id :: PeerID
  pc_nonce :: u8
  pc_secret :: JSONSecret
  pc_meta :: url_values
  pc_conn :: bool
  pc_open :: bool
  pc_active :: int
  pc_connData :: "bytes list"
  pc_connBuf :: "bytes option"
  pc_RelayRx :: u64
  pc_StreamTx :: u64
  pc_StreamRx :: u64

record networkContext =
  nc_id :: string
  nc_peers :: "(PeerID \<times> nat) list"
  nc_create :: int
  nc_update :: int
  nc_alias :: string
  nc_neighbors :: "string list"

record PeerMap =
  pm_networks :: "string \<rightharpoonup> networkContext"
  pm_index :: "PeerID \<rightharpoonup> string"
  pm_peers :: "nat \<rightharpoonup> peerConn"
  pm_next :: nat
  pm_cfg :: PmConfig

datatype pm_event = PmSend nat bytes | PmPing nat

text \<open>The library functions that the server uses.\<close>
record pm_env =
  en_auth :: auth_env
  en_encode :: "url_values \<Rightarrow> bytes"
  en_parseQuery :: "string \<Rightarrow> url_values option"
  en_unjson :: "bytes \<Rightarrow> NATInfo option"
  en_str :: "UDPAddr \<Rightarrow> string"
  en_json :: "NetworkSecret \<Rightarrow> bytes"

abbreviation network_of :: "peerConn \<Rightarrow> string" where
  "network_of p \<equiv> js_Network (pc_secret p)"

section \<open>Lookup\<close>

definition getNetwork :: "string \<Rightarrow> PeerMap \<Rightarrow> networkContext option" where
  "getNetwork n pm = pm_networks pm n"

definition ctx_getPeer :: "PeerID \<Rightarrow> networkContext \<Rightarrow> nat option" where
  "ctx_getPeer i ctx = map_of (nc_peers ctx) i"

text \<open>The peer in its network, or in a neighbour network.\<close>
definition getPeer :: "string \<Rightarrow> PeerID \<Rightarrow> PeerMap \<Rightarrow> nat option" where
  "getPeer network peerID pm =
     (case getNetwork network pm of
        None \<Rightarrow> None
      | Some ctx \<Rightarrow>
          (case ctx_getPeer peerID ctx of
             Some h \<Rightarrow> Some h
           | None \<Rightarrow>
               (case Option.bind (pm_index pm peerID) (pm_networks pm) of
                  None \<Rightarrow> None
                | Some neighNet \<Rightarrow>
                    if nc_id neighNet \<in> set (nc_neighbors ctx) then ctx_getPeer peerID neighNet else None)))"

definition FindPeer :: "string \<Rightarrow> (url_values \<Rightarrow> bool) \<Rightarrow> PeerMap \<Rightarrow> nat list option" where
  "FindPeer network flt pm =
     map_option (\<lambda>ctx. filter (\<lambda>h. case pm_peers pm h of None \<Rightarrow> False | Some p \<Rightarrow> flt (pc_meta p)) (map snd (nc_peers ctx)))
       (getNetwork network pm)"

definition set_ctx :: "string \<Rightarrow> networkContext \<Rightarrow> PeerMap \<Rightarrow> PeerMap" where
  "set_ctx n ctx pm = pm\<lparr>pm_networks := (pm_networks pm)(n \<mapsto> ctx)\<rparr>"

definition set_peer :: "nat \<Rightarrow> peerConn \<Rightarrow> PeerMap \<Rightarrow> PeerMap" where
  "set_peer h p pm = pm\<lparr>pm_peers := (pm_peers pm)(h \<mapsto> p)\<rparr>"

definition removePeer :: "string \<Rightarrow> PeerID \<Rightarrow> PeerMap \<Rightarrow> PeerMap" where
  "removePeer network i pm =
     (case getNetwork network pm of
        None \<Rightarrow> pm
      | Some ctx \<Rightarrow> (set_ctx network (ctx\<lparr>nc_peers := AList.delete i (nc_peers ctx)\<rparr>) pm)\<lparr>pm_index := (pm_index pm)(i := None)\<rparr>)"

section \<open>Writing to peers\<close>

text \<open>A closed web socket refuses the message.\<close>
definition pm_write :: "PeerMap \<Rightarrow> nat \<Rightarrow> bytes \<Rightarrow> pm_event list option" where
  "pm_write pm h b =
     (case pm_peers pm h of
        None \<Rightarrow> Some []
      | Some p \<Rightarrow> if \<not> pc_conn p then None else Some (if pc_open p then [PmSend h (mask (pc_nonce p) b)] else []))"

fun write_each :: "PeerMap \<Rightarrow> bytes \<Rightarrow> nat list \<Rightarrow> pm_event list option" where
  "write_each pm b [] = Some []"
| "write_each pm b (h # hs) = do { e \<leftarrow> pm_write pm h b; es \<leftarrow> write_each pm b hs; Some (e @ es) }"

definition broadcast :: "PeerMap \<Rightarrow> peerConn \<Rightarrow> bytes \<Rightarrow> pm_event list option" where
  "broadcast pm p b =
     (case getNetwork (network_of p) pm of
        None \<Rightarrow> None
      | Some ctx \<Rightarrow> write_each pm b (map snd (filter (\<lambda>(k, h). k \<noteq> pc_id p) (nc_peers ctx))))"

definition broadcastMeta :: "pm_env \<Rightarrow> PeerMap \<Rightarrow> peerConn \<Rightarrow> pm_event list option" where
  "broadcastMeta e pm p = broadcast pm p ([CONTROL_UPDATE_META] @ [Len (pc_id p)] @ pc_id p @ en_encode e (pc_meta p))"

definition broadcastLeave :: "PeerMap \<Rightarrow> peerConn \<Rightarrow> pm_event list option" where
  "broadcastLeave pm p = broadcast pm p ([CONTROL_PEER_LEAVE] @ [Len (pc_id p)] @ pc_id p)"

definition new_peer_frame :: "pm_env \<Rightarrow> peerConn \<Rightarrow> bytes" where
  "new_peer_frame e p = [CONTROL_NEW_PEER] @ [Len (pc_id p)] @ pc_id p @ en_encode e (pc_meta p)"

text \<open>Each of the two learns about the other.\<close>
definition leadDisco :: "pm_env \<Rightarrow> PeerMap \<Rightarrow> nat \<Rightarrow> nat \<Rightarrow> pm_event list option" where
  "leadDisco e pm h t =
     (case (pm_peers pm h, pm_peers pm t) of
        (Some p, Some q) \<Rightarrow> do {
          e1 \<leftarrow> pm_write pm t (new_peer_frame e p);
          e2 \<leftarrow> pm_write pm h (new_peer_frame e q);
          Some (e1 @ e2) }
      | _ \<Rightarrow> Some [])"

text \<open>The frame that \<open>relayTo\<close> builds. The end of the id is a byte: for ids of 254 and 255 bytes the
  slice is out of range, for longer ones the id is cut and the frame padded with zeros.\<close>
definition relay_frame :: "u8 \<Rightarrow> PeerID \<Rightarrow> bytes \<Rightarrow> bytes option" where
  "relay_frame op i data =
     (let e = unat (Len i + 2) in
      if e < 2 then None
      else Some ([op, Len i] @ take (e - 2) i @ data @ replicate (2 + length i - e) 0))"

definition relayTo :: "PeerMap \<Rightarrow> nat \<Rightarrow> nat \<Rightarrow> gslice \<Rightarrow> (PeerMap \<times> pm_event list) option" where
  "relayTo pm h t b =
     (case pm_peers pm h of
        None \<Rightarrow> Some (pm, [])
      | Some p \<Rightarrow> do {
          data \<leftarrow> frame_data b;
          op \<leftarrow> sl_index b 0;
          bb \<leftarrow> relay_frame op (pc_id p) data;
          ev \<leftarrow> pm_write pm t bb;
          Some (set_peer h (p\<lparr>pc_RelayRx := pc_RelayRx p + of_nat (sl_len b)\<rparr>) pm, ev) })"

section \<open>Closing and liveness\<close>

text \<open>\<open>Close\<close> runs once per connection.\<close>
definition pm_Close :: "nat \<Rightarrow> PeerMap \<Rightarrow> (PeerMap \<times> pm_event list) option" where
  "pm_Close h pm =
     (case pm_peers pm h of
        None \<Rightarrow> Some (pm, [])
      | Some p \<Rightarrow>
          if \<not> pc_open p then Some (pm, [])
          else if \<not> pc_conn p then None
          else let pm1 = set_peer h (p\<lparr>pc_open := False\<rparr>) (removePeer (network_of p) (pc_id p) pm) in
               map_option (Pair pm1) (broadcastLeave pm1 p))"

text \<open>\<open>checkAlive\<close>: \<open>pong\<close> tells whether the peer answers one of the three pings.\<close>
definition checkAlive :: "int \<Rightarrow> bool \<Rightarrow> nat \<Rightarrow> PeerMap \<Rightarrow> (PeerMap \<times> pm_event list \<times> bool) option" where
  "checkAlive seconds pong h pm =
     (case pm_peers pm h of
        None \<Rightarrow> Some (pm, [], True)
      | Some p \<Rightarrow>
          if seconds - pc_active p \<le> 2 then Some (pm, [], True)
          else if \<not> pc_conn p then None
          else if pong then Some (pm, [PmPing h], True)
          else map_option (\<lambda>(pm1, ev). (pm1, [PmPing h, PmPing h, PmPing h] @ ev, False)) (pm_Close h pm))"

text \<open>\<open>SetIfAbsent\<close> of the new connection \<open>h\<close> in the network \<open>n\<close>; the last result tells whether it
  was set.\<close>
definition SetIfAbsent :: "int \<Rightarrow> bool \<Rightarrow> string \<Rightarrow> PeerID \<Rightarrow> nat \<Rightarrow> PeerMap \<Rightarrow> (PeerMap \<times> pm_event list \<times> bool) option" where
  "SetIfAbsent seconds pong n i h pm =
     (case getNetwork n pm of
        None \<Rightarrow> None
      | Some ctx \<Rightarrow> do {
          (pm1, ev, alive) \<leftarrow> (case ctx_getPeer i ctx of None \<Rightarrow> Some (pm, [], False) | Some h1 \<Rightarrow> checkAlive seconds pong h1 pm);
          (if alive then Some (pm1, ev, False)
           else case getNetwork n pm1 of
                  None \<Rightarrow> None
                | Some ctx1 \<Rightarrow> Some (set_ctx n (ctx1\<lparr>nc_peers := AList.update i h (nc_peers ctx1)\<rparr>) pm1, ev, True)) })"

section \<open>Secrets and network metadata\<close>

definition generateSecret :: "pm_env \<Rightarrow> bytes \<Rightarrow> int \<Rightarrow> PeerMap \<Rightarrow> Net \<Rightarrow> bool \<Rightarrow> NetworkSecret" where
  "generateSecret e rnd now pm n adm =
     \<lparr>ns_Secret = GenerateSecretAdmin (en_auth e) rnd now adm n (cf_ValidityPeriod (pm_cfg pm)),
      ns_Network = net_ID n, ns_Expire = now + (cf_ValidityPeriod (pm_cfg pm) - 10 * nano)\<rparr>"

definition Grant :: "pm_env \<Rightarrow> bytes \<Rightarrow> int \<Rightarrow> PeerMap \<Rightarrow> string \<Rightarrow> string \<Rightarrow> NetworkSecret" where
  "Grant e rnd now pm network state =
     (let n = (case getNetwork network pm of
                 None \<Rightarrow> \<lparr>net_ID = network, net_Alias = '''', net_Neighbors = []\<rparr>
               | Some ctx \<Rightarrow> \<lparr>net_ID = network, net_Alias = nc_alias ctx, net_Neighbors = nc_neighbors ctx\<rparr>)
      in generateSecret e rnd now pm n (take 6 state = ''PG_ADM''))"

text \<open>The secret of the connection is replaced only when the message could be written.\<close>
definition updateSecret :: "pm_env \<Rightarrow> bytes \<Rightarrow> int \<Rightarrow> nat \<Rightarrow> PeerMap \<Rightarrow> (PeerMap \<times> pm_event list) option" where
  "updateSecret e rnd now h pm =
     (case pm_peers pm h of
        None \<Rightarrow> Some (pm, [])
      | Some p \<Rightarrow>
          (case getNetwork (network_of p) pm of
             None \<Rightarrow> None
           | Some ctx \<Rightarrow>
               (let secret = generateSecret e rnd now pm
                      \<lparr>net_ID = network_of p, net_Alias = nc_alias ctx, net_Neighbors = nc_neighbors ctx\<rparr> False in
                do { ev \<leftarrow> pm_write pm h ([CONTROL_UPDATE_NETWORK_SECRET] @ en_json e secret);
                     Some (if pc_open p then set_peer h (p\<lparr>pc_secret := fst (ParseSecret (en_auth e) now (ns_Secret secret))\<rparr>) pm else pm, ev) })))"

fun update_secrets :: "pm_env \<Rightarrow> bytes \<Rightarrow> int \<Rightarrow> nat list \<Rightarrow> PeerMap \<Rightarrow> (PeerMap \<times> pm_event list) option" where
  "update_secrets e rnd now [] pm = Some (pm, [])"
| "update_secrets e rnd now (h # hs) pm = do {
     (pm1, e1) \<leftarrow> updateSecret e rnd now h pm;
     (pm2, e2) \<leftarrow> update_secrets e rnd now hs pm1;
     Some (pm2, e1 @ e2) }"

definition updateMeta :: "pm_env \<Rightarrow> bytes \<Rightarrow> int \<Rightarrow> string \<Rightarrow> networkContext \<Rightarrow> Net \<Rightarrow> PeerMap \<Rightarrow> (PeerMap \<times> pm_event list) option" where
  "updateMeta e rnd now network ctx n pm =
     (if nc_alias ctx = net_Alias n \<and> nc_neighbors ctx = net_Neighbors n then Some (pm, [])
      else update_secrets e rnd now (map snd (nc_peers ctx))
             (set_ctx network (ctx\<lparr>nc_update := now, nc_neighbors := net_Neighbors n, nc_alias := net_Alias n\<rparr>) pm))"

text \<open>The time of a number of seconds since 1970; the seconds since the year 1 are a 64-bit integer.\<close>
definition epoch :: int where "epoch = 62135596800"

definition time_Unix :: "int \<Rightarrow> int" where
  "time_Unix sec = (sint (word_of_int (sec + epoch) :: 64 word) - epoch) * nano"

definition initMeta :: "Net \<Rightarrow> int \<Rightarrow> networkContext \<Rightarrow> networkContext" where
  "initMeta n upd ctx =
     (if upd < nc_update ctx then ctx
      else ctx\<lparr>nc_update := upd, nc_alias := net_Alias n, nc_neighbors := net_Neighbors n\<rparr>)"

text \<open>A tick of \<open>keepalive\<close>.\<close>
definition keepalive :: "pm_env \<Rightarrow> bytes \<Rightarrow> int \<Rightarrow> nat \<Rightarrow> PeerMap \<Rightarrow> (PeerMap \<times> pm_event list) option" where
  "keepalive e rnd now h pm =
     (case pm_peers pm h of
        None \<Rightarrow> Some (pm, [])
      | Some p \<Rightarrow>
          if \<not> pc_open p then Some (pm, [])
          else if 25 < now div nano - pc_active p then pm_Close h pm
          else if time_Unix (js_Deadline (pc_secret p)) - now < cf_ValidityPeriod (pm_cfg pm) - cf_RotationPeriod (pm_cfg pm)
          then map_option (\<lambda>(pm1, ev). (pm1, PmPing h # ev)) (updateSecret e rnd now h pm)
          else Some (pm, [PmPing h]))"

section \<open>Messages of a peer\<close>

definition updateNATInfo :: "pm_env \<Rightarrow> nat \<Rightarrow> gslice \<Rightarrow> PeerMap \<Rightarrow> (PeerMap \<times> pm_event list) option" where
  "updateNATInfo e h b pm =
     (case pm_peers pm h of
        None \<Rightarrow> Some (pm, [])
      | Some p \<Rightarrow> do {
          d \<leftarrow> sl_from b 2;
          (case en_unjson e (sl_data d) of
             None \<Rightarrow> Some (pm, [])
           | Some i \<Rightarrow>
               (let m = (pc_meta p)(''addr'' := (if ni_Addrs i = [] then None else Some (map (en_str e) (ni_Addrs i))),
                                    ''nat'' := Some [nat_String (ni_Type i)]);
                    p' = p\<lparr>pc_meta := m\<rparr>; pm1 = set_peer h p' pm
                in map_option (Pair pm1) (broadcastMeta e pm1 p'))) })"

text \<open>One message of \<open>readMessageLoop\<close>.\<close>
definition readMessage :: "pm_env \<Rightarrow> int \<Rightarrow> nat \<Rightarrow> gslice \<Rightarrow> PeerMap \<Rightarrow> (PeerMap \<times> pm_event list) option" where
  "readMessage e now h raw pm0 =
     (case pm_peers pm0 h of
        None \<Rightarrow> Some (pm0, [])
      | Some p0 \<Rightarrow>
          (let p = p0\<lparr>pc_active := now div nano\<rparr>; pm = set_peer h p pm0;
               b = GSlice (mask (pc_nonce p) (sl_data raw)) (sl_spare raw)
           in do {
             op \<leftarrow> sl_index b 0;
             (if op = CONTROL_CONN then do {
                d \<leftarrow> sl_from b 1;
                Some (set_peer h (p\<lparr>pc_connData := pc_connData p @ [sl_data d]\<rparr>) pm, []) }
              else if op = CONTROL_UPDATE_NAT_INFO then updateNATInfo e h b pm
              else do {
                tgtPeerID \<leftarrow> frame_id b;
                (case getPeer (network_of p) tgtPeerID pm of
                   None \<Rightarrow> Some (pm, [])
                 | Some t \<Rightarrow>
                     if op = CONTROL_LEAD_DISCO then map_option (Pair pm) (leadDisco e pm h t)
                     else relayTo pm h t b) }) }))"

section \<open>Server streams\<close>

definition peer_Read :: "nat \<Rightarrow> peerConn \<Rightarrow> (bytes \<times> peerConn) option" where
  "peer_Read n p =
     (case pc_connBuf p of
        Some buf \<Rightarrow> Some (take n buf, p\<lparr>pc_connBuf := (if n < length buf then Some (drop n buf) else None),
                                       pc_StreamRx := pc_StreamRx p + of_nat (length (take n buf))\<rparr>)
      | None \<Rightarrow>
          (case pc_connData p of
             [] \<Rightarrow> None
           | wsb # rest \<Rightarrow>
               Some (take n wsb, p\<lparr>pc_connData := rest,
                                   pc_connBuf := (if n < length wsb then Some (drop n wsb) else None),
                                   pc_StreamRx := pc_StreamRx p + of_nat (length (take n wsb))\<rparr>)))"

definition peer_Write :: "bytes \<Rightarrow> nat \<Rightarrow> PeerMap \<Rightarrow> (PeerMap \<times> pm_event list) option" where
  "peer_Write b h pm = do {
     ev \<leftarrow> pm_write pm h ([CONTROL_CONN] @ b);
     Some (case pm_peers pm h of
             None \<Rightarrow> pm
           | Some p \<Rightarrow> if pc_open p then set_peer h (p\<lparr>pc_StreamTx := pc_StreamTx p + of_nat (length b)\<rparr>) pm else pm, ev) }"

definition peer_pending :: "peerConn \<Rightarrow> bytes" where
  "peer_pending p = (case pc_connBuf p of None \<Rightarrow> [] | Some b \<Rightarrow> b) @ concat (pc_connData p)"

interpretation peer_reader: message_reader peer_Read peer_pending
  by unfold_locales (auto simp: peer_Read_def peer_pending_def split: option.splits list.splits if_splits)

section \<open>Connecting\<close>

record connect_request =
  rq_secret :: string
  rq_peerID :: PeerID
  rq_nonce :: string
  rq_metadata :: string

datatype pm_response = RForbidden nat | RUpgraded nat | RServerError

definition newNetworkContext :: "string \<Rightarrow> int \<Rightarrow> networkContext" where
  "newNetworkContext n now = \<lparr>nc_id = n, nc_peers = [], nc_create = now, nc_update = - epoch * nano, nc_alias = '''', nc_neighbors = []\<rparr>"

text \<open>The messages of \<open>start\<close> to the peers of the network.\<close>
fun lead_all :: "pm_env \<Rightarrow> PeerMap \<Rightarrow> nat \<Rightarrow> nat list \<Rightarrow> pm_event list option" where
  "lead_all e pm h [] = Some []"
| "lead_all e pm h (t # ts) = do { e1 \<leftarrow> leadDisco e pm h t; e2 \<leftarrow> lead_all e pm h ts; Some (e1 @ e2) }"

definition pm_start :: "pm_env \<Rightarrow> nat \<Rightarrow> PeerMap \<Rightarrow> pm_event list option" where
  "pm_start e h pm =
     (case pm_peers pm h of
        None \<Rightarrow> Some []
      | Some p \<Rightarrow>
          if pc_meta p ''silenceMode'' \<noteq> None then Some []
          else if cf_PublicNetwork (pm_cfg pm) = network_of p then Some []
          else case getNetwork (network_of p) pm of
                 None \<Rightarrow> None
               | Some ctx \<Rightarrow>
                   lead_all e pm h (map snd (filter (\<lambda>(k, t). k \<noteq> pc_id p \<and>
                     (case pm_peers pm t of None \<Rightarrow> False | Some q \<Rightarrow> pc_meta q ''silenceMode'' = None)) (nc_peers ctx))))"

definition fresh_peer :: "connect_request \<Rightarrow> JSONSecret \<Rightarrow> url_values \<Rightarrow> peerConn" where
  "fresh_peer rq secret meta =
     \<lparr>pc_id = rq_peerID rq, pc_nonce = MustParseNonce (rq_nonce rq), pc_secret = secret, pc_meta = meta,
      pc_conn = False, pc_open = True, pc_active = 0, pc_connData = [], pc_connBuf = None,
      pc_RelayRx = 0, pc_StreamTx = 0, pc_StreamRx = 0\<rparr>"

text \<open>The second half of \<open>HandlePeerPacketConnect\<close>: registration, upgrade, start. \<open>upgrade\<close> tells
  whether the protocol upgrade succeeds, \<open>pong\<close> whether an earlier connection of the same peer still
  answers.\<close>
definition register_peer :: "pm_env \<Rightarrow> int \<Rightarrow> bool \<Rightarrow> bool \<Rightarrow> peerConn \<Rightarrow> PeerMap \<Rightarrow> (PeerMap \<times> pm_event list \<times> pm_response) option" where
  "register_peer e now pong upgrade peer pm1 =
     (let h = pm_next pm1; n = network_of peer in do {
        (pm2, ev, isSet) \<leftarrow> SetIfAbsent (now div nano) pong n (pc_id peer) h pm1;
        (if \<not> isSet then Some (pm2, ev, RForbidden 4000)
         else let pm3 = (set_peer h peer pm2)\<lparr>pm_next := Suc h, pm_index := (pm_index pm2)(pc_id peer \<mapsto> n)\<rparr> in
           if \<not> upgrade then Some (pm3, ev, RServerError)
           else let pm4 = set_peer h (peer\<lparr>pc_conn := True, pc_active := now div nano\<rparr>) pm3 in
             map_option (\<lambda>ev'. (pm4, ev @ ev', RUpgraded h)) (pm_start e h pm4)) })"

text \<open>The network of a secret with the metadata of the secret.\<close>
definition open_network :: "int \<Rightarrow> JSONSecret \<Rightarrow> PeerMap \<Rightarrow> PeerMap" where
  "open_network now secret pm =
     (let n = js_Network secret;
          ctx0 = (case getNetwork n pm of Some c \<Rightarrow> c | None \<Rightarrow> newNetworkContext n now)
      in set_ctx n (initMeta \<lparr>net_ID = '''', net_Alias = js_Alias secret, net_Neighbors = js_Neighbors secret\<rparr>
                      (time_Unix (js_Deadline secret) - cf_ValidityPeriod (pm_cfg pm)) ctx0) pm)"

text \<open>\<open>HandlePeerPacketConnect\<close>. The public network needs no secret.\<close>
definition connect :: "pm_env \<Rightarrow> int \<Rightarrow> bool \<Rightarrow> bool \<Rightarrow> connect_request \<Rightarrow> PeerMap \<Rightarrow> (PeerMap \<times> pm_event list \<times> pm_response) option" where
  "connect e now pong upgrade rq pm =
     (let public = cf_PublicNetwork (pm_cfg pm) in
      case (if public = '''' \<or> public \<noteq> rq_secret rq then ParseSecret (en_auth e) now (rq_secret rq)
            else (no_secret\<lparr>js_Network := rq_secret rq, js_Deadline := 2 ^ 63 - 1\<rparr>, None)) of
        (_, Some err) \<Rightarrow> Some (pm, [], RForbidden 4030)
      | (secret, None) \<Rightarrow>
          (let pm1 = open_network now secret pm in
           case (if rq_metadata rq = '''' then Some Map.empty else en_parseQuery e (rq_metadata rq)) of
             None \<Rightarrow> Some (pm1, [], RForbidden 4050)
           | Some meta \<Rightarrow> register_peer e now pong upgrade (fresh_peer rq secret meta) pm1))"

text \<open>The limits that the response announces to the client; \<open>show\<close> prints an integer.\<close>
definition limit_response :: "(int \<Rightarrow> string) \<Rightarrow> PmConfig \<Rightarrow> limit_headers" where
  "limit_response show_int cfg =
     (case cf_RateLimiter cfg of
        None \<Rightarrow> \<lparr>h_limit_arg = [], h_burst_arg = [], h_stream_limit_arg = [], h_stream_burst_arg = []\<rparr>
      | Some r \<Rightarrow>
          \<lparr>h_limit_arg = (if 0 < rl_Limit (rc_Relay r) then show_int (rl_Limit (rc_Relay r)) else []),
           h_burst_arg = (if 0 < rl_Limit (rc_Relay r) then show_int (rl_Burst (rc_Relay r)) else []),
           h_stream_limit_arg = (if 0 < rl_Limit (rc_StreamR r) then show_int (rl_Limit (rc_StreamR r)) else []),
           h_stream_burst_arg = (if 0 < rl_Limit (rc_StreamR r) then show_int (rl_Burst (rc_StreamR r)) else [])\<rparr>)"

section \<open>Administration\<close>

datatype http_status = StatusOK | StatusUnauthorized | StatusBadRequest | StatusNotFound

text \<open>\<open>HandlePutNetworkMeta\<close>: \<open>token\<close> is the result of the token check, the request may not parse.\<close>
definition putNetworkMeta :: "pm_env \<Rightarrow> bytes \<Rightarrow> int \<Rightarrow> (token_error + int) \<Rightarrow> string \<Rightarrow> (string \<times> string list) option \<Rightarrow> PeerMap \<Rightarrow> (PeerMap \<times> pm_event list \<times> http_status) option" where
  "putNetworkMeta e rnd now token network request pm =
     (case token of
        Inl _ \<Rightarrow> Some (pm, [], StatusUnauthorized)
      | Inr _ \<Rightarrow>
          (case request of
             None \<Rightarrow> Some (pm, [], StatusBadRequest)
           | Some (alias, neighbors) \<Rightarrow>
               (case getNetwork network pm of
                  None \<Rightarrow> Some (pm, [], StatusNotFound)
                | Some ctx \<Rightarrow>
                    map_option (\<lambda>(pm1, ev). (pm1, ev, StatusOK))
                      (updateMeta e rnd now network ctx \<lparr>net_ID = '''', net_Alias = alias, net_Neighbors = neighbors\<rparr> pm))))"

definition getNetworkMeta :: "(token_error + int) \<Rightarrow> string \<Rightarrow> PeerMap \<Rightarrow> http_status \<times> (string \<times> string list) option" where
  "getNetworkMeta token network pm =
     (case token of
        Inl _ \<Rightarrow> (StatusUnauthorized, None)
      | Inr _ \<Rightarrow> (case getNetwork network pm of
                   None \<Rightarrow> (StatusNotFound, None)
                 | Some ctx \<Rightarrow> (StatusOK, Some (nc_alias ctx, nc_neighbors ctx))))"

text \<open>\<open>HandleQueryNetworks\<close>; \<open>order\<close> is the order in which the map of networks is read.\<close>
record NetworkHead =
  nh_ID :: string
  nh_Alias :: string
  nh_PeersCount :: nat
  nh_CreateTime :: string

definition format_int :: "int \<Rightarrow> string" where
  "format_int n = (if n < 0 then ''-'' @ Itoa (nat (- n)) else Itoa (nat n))"

definition queryNetworks :: "(token_error + int) \<Rightarrow> string list \<Rightarrow> PeerMap \<Rightarrow> http_status \<times> NetworkHead list" where
  "queryNetworks token order pm =
     (case token of
        Inl _ \<Rightarrow> (StatusUnauthorized, [])
      | Inr _ \<Rightarrow> (StatusOK, List.map_filter (\<lambda>k. map_option (\<lambda>v.
          \<lparr>nh_ID = k, nh_Alias = nc_alias v, nh_PeersCount = length (nc_peers v), nh_CreateTime = format_int (nc_create v)\<rparr>)
          (getNetwork k pm)) order))"

text \<open>\<open>peerConn.String\<close> writes the counters into the metadata that it prints; \<open>url_string\<close> is
  \<open>url.URL.String\<close> of a peer id and a query.\<close>
definition with_counters :: "peerConn \<Rightarrow> peerConn" where
  "with_counters p = p\<lparr>pc_meta := (pc_meta p)(''rrx'' \<mapsto> [Itoa (unat (pc_RelayRx p))],
     ''stx'' \<mapsto> [Itoa (unat (pc_StreamTx p))], ''srx'' \<mapsto> [Itoa (unat (pc_StreamRx p))])\<rparr>"

definition peer_String :: "(PeerID \<Rightarrow> bytes \<Rightarrow> bytes) \<Rightarrow> pm_env \<Rightarrow> peerConn \<Rightarrow> bytes \<times> peerConn" where
  "peer_String url_string e p = (let p' = with_counters p in (url_string (pc_id p') (en_encode e (pc_meta p')), p'))"

fun peer_strings :: "(PeerID \<Rightarrow> bytes \<Rightarrow> bytes) \<Rightarrow> pm_env \<Rightarrow> nat list \<Rightarrow> PeerMap \<Rightarrow> bytes list \<times> PeerMap" where
  "peer_strings us e [] pm = ([], pm)"
| "peer_strings us e (h # hs) pm =
     (case pm_peers pm h of
        None \<Rightarrow> peer_strings us e hs pm
      | Some p \<Rightarrow> (let (t, p') = peer_String us e p; (ts, pm') = peer_strings us e hs (set_peer h p' pm) in (t # ts, pm')))"

fun network_peers :: "(PeerID \<Rightarrow> bytes \<Rightarrow> bytes) \<Rightarrow> pm_env \<Rightarrow> string list \<Rightarrow> PeerMap \<Rightarrow> (string \<times> string \<times> bytes list) list \<times> PeerMap" where
  "network_peers us e [] pm = ([], pm)"
| "network_peers us e (k # ks) pm =
     (case getNetwork k pm of
        None \<Rightarrow> network_peers us e ks pm
      | Some v \<Rightarrow> (let (ps, pm1) = peer_strings us e (map snd (nc_peers v)) pm; (ns, pm2) = network_peers us e ks pm1
                  in ((k, nc_alias v, ps) # ns, pm2)))"

text \<open>\<open>HandleQueryNetworkPeers\<close>\<close>
definition queryNetworkPeers :: "(PeerID \<Rightarrow> bytes \<Rightarrow> bytes) \<Rightarrow> pm_env \<Rightarrow> (token_error + int) \<Rightarrow> string list \<Rightarrow> PeerMap \<Rightarrow> http_status \<times> (string \<times> string \<times> bytes list) list \<times> PeerMap" where
  "queryNetworkPeers us e token order pm =
     (case token of
        Inl _ \<Rightarrow> (StatusUnauthorized, [], pm)
      | Inr _ \<Rightarrow> (StatusOK, network_peers us e order pm))"

definition pm_New :: "string \<Rightarrow> PmConfig \<Rightarrow> PeerMap option" where
  "pm_New key cfg =
     (case ApplyDefaults key cfg of
        (_, Some e) \<Rightarrow> None
      | (cfg1, None) \<Rightarrow> Some \<lparr>pm_networks = Map.empty, pm_index = Map.empty, pm_peers = Map.empty, pm_next = 0, pm_cfg = cfg1\<rparr>)"

end
