(* ===== verification/Peermap_Correct.thy ===== *)
theory Peermap_Correct
  imports Peermap
begin

text \<open>
  Correctness of the map server: the registration invariant and its preservation by every operation,
  the authenticity and visibility of what peers receive from each other, the delivery of a relayed
  packet from one client to another, and the messages and requests that crash the server.
\<close>

section \<open>The registration invariant\<close>

definition net_ok :: "PeerMap \<Rightarrow> string \<Rightarrow> networkContext \<Rightarrow> bool" where
  "net_ok pm n ctx \<longleftrightarrow> nc_id ctx = n \<and> distinct (map fst (nc_peers ctx)) \<and>
     (\<forall>i h. map_of (nc_peers ctx) i = Some h \<longrightarrow>
        (\<exists>p. pm_peers pm h = Some p \<and> pc_id p = i \<and> network_of p = n \<and> pc_open p))"

definition peer_ok :: "PeerMap \<Rightarrow> nat \<Rightarrow> peerConn \<Rightarrow> bool" where
  "peer_ok pm h p \<longleftrightarrow> h < pm_next pm \<and>
     (\<exists>ctx. pm_networks pm (network_of p) = Some ctx \<and> (pc_open p \<longrightarrow> map_of (nc_peers ctx) (pc_id p) = Some h))"

definition pm_ok :: "PeerMap \<Rightarrow> bool" where
  "pm_ok pm \<longleftrightarrow> (\<forall>n ctx. pm_networks pm n = Some ctx \<longrightarrow> net_ok pm n ctx) \<and>
     (\<forall>h p. pm_peers pm h = Some p \<longrightarrow> peer_ok pm h p)"

lemma pm_okD:
  assumes "pm_ok pm"
  shows "pm_networks pm n = Some ctx \<Longrightarrow> net_ok pm n ctx" and "pm_peers pm h = Some p \<Longrightarrow> peer_ok pm h p"
  using assms by (auto simp: pm_ok_def)

lemma net_okD:
  "net_ok pm n ctx \<Longrightarrow> map_of (nc_peers ctx) i = Some h \<Longrightarrow> \<exists>p. pm_peers pm h = Some p \<and> pc_id p = i \<and> network_of p = n \<and> pc_open p"
  "net_ok pm n ctx \<Longrightarrow> nc_id ctx = n \<and> distinct (map fst (nc_peers ctx))"
  by (auto simp: net_ok_def simp del: map_of_eq_Some_iff)

lemma net_okI:
  assumes "nc_id ctx = n" and "distinct (map fst (nc_peers ctx))"
    and "\<And>i h. map_of (nc_peers ctx) i = Some h \<Longrightarrow> \<exists>p. pm_peers pm h = Some p \<and> pc_id p = i \<and> network_of p = n \<and> pc_open p"
  shows "net_ok pm n ctx"
  using assms by (auto simp: net_ok_def simp del: map_of_eq_Some_iff)

text \<open>The same networks exist.\<close>
definition same_nets :: "PeerMap \<Rightarrow> PeerMap \<Rightarrow> bool" where
  "same_nets pm pm' \<longleftrightarrow> dom (pm_networks pm') = dom (pm_networks pm)"

lemma same_nets_refl [simp]: "same_nets pm pm"
  by (simp add: same_nets_def)

lemma set_peer_simps [simp]:
  "pm_networks (set_peer h p pm) = pm_networks pm" "pm_next (set_peer h p pm) = pm_next pm"
  "pm_peers (set_peer h p pm) = (pm_peers pm)(h \<mapsto> p)" "pm_cfg (set_peer h p pm) = pm_cfg pm"
  "pm_index (set_peer h p pm) = pm_index pm"
  by (simp_all add: set_peer_def)

lemma set_ctx_simps [simp]:
  "pm_networks (set_ctx n c pm) = (pm_networks pm)(n \<mapsto> c)" "pm_next (set_ctx n c pm) = pm_next pm"
  "pm_peers (set_ctx n c pm) = pm_peers pm" "pm_cfg (set_ctx n c pm) = pm_cfg pm"
  by (simp_all add: set_ctx_def)

lemma set_peer_ok:
  assumes "pm_ok pm" and "pm_peers pm h = Some p" and "pc_id p' = pc_id p" and "network_of p' = network_of p" and "pc_open p' = pc_open p"
  shows "pm_ok (set_peer h p' pm)"
proof -
  have "net_ok (set_peer h p' pm) n ctx" if "pm_networks pm n = Some ctx" for n ctx
  proof (rule net_okI)
    show "nc_id ctx = n" "distinct (map fst (nc_peers ctx))" using net_okD(2) [OF pm_okD(1) [OF assms(1) that]] by auto
    fix i k assume "map_of (nc_peers ctx) i = Some k"
    from net_okD(1) [OF pm_okD(1) [OF assms(1) that] this] assms(2-5)
    show "\<exists>q. pm_peers (set_peer h p' pm) k = Some q \<and> pc_id q = i \<and> network_of q = n \<and> pc_open q" by (cases "k = h") auto
  qed
  moreover have "peer_ok (set_peer h p' pm) k q" if "pm_peers (set_peer h p' pm) k = Some q" for k q
    using that pm_okD(2) [OF assms(1), of k] pm_okD(2) [OF assms(1,2)] assms(3-5)
    by (auto simp: peer_ok_def split: if_splits)
  ultimately show ?thesis by (simp add: pm_ok_def)
qed

lemma set_ctx_ok:
  assumes "pm_ok pm" and "pm_networks pm n = Some ctx" and "nc_id ctx' = nc_id ctx" and "nc_peers ctx' = nc_peers ctx"
  shows "pm_ok (set_ctx n ctx' pm)"
proof -
  have "net_ok (set_ctx n ctx' pm) m c" if "pm_networks (set_ctx n ctx' pm) m = Some c" for m c
    using that pm_okD(1) [OF assms(1), of m] assms(2-4) by (auto simp: net_ok_def split: if_splits)
  moreover have "peer_ok (set_ctx n ctx' pm) k q" if "pm_peers pm k = Some q" for k q
    using pm_okD(2) [OF assms(1) that] assms(2-4) by (auto simp: peer_ok_def)
  ultimately show ?thesis by (simp add: pm_ok_def)
qed

lemma new_ctx_ok:
  assumes "pm_ok pm" and "pm_networks pm n = None" and "nc_id ctx = n" and "nc_peers ctx = []"
  shows "pm_ok (set_ctx n ctx pm)"
proof -
  have "net_ok (set_ctx n ctx pm) m c" if "pm_networks (set_ctx n ctx pm) m = Some c" for m c
    using that pm_okD(1) [OF assms(1), of m] assms(2-4) by (auto simp: net_ok_def split: if_splits)
  moreover have "peer_ok (set_ctx n ctx pm) k q" if "pm_peers pm k = Some q" for k q
    using pm_okD(2) [OF assms(1) that] assms(2-4) by (auto simp: peer_ok_def)
  ultimately show ?thesis by (simp add: pm_ok_def)
qed

text \<open>The state after a connection was taken off the registers.\<close>
lemma close_state_ok:
  assumes "pm_ok pm" and "pm_peers pm h = Some p" and "pc_open p"
  defines "pm1 \<equiv> set_peer h (p\<lparr>pc_open := False\<rparr>) (removePeer (network_of p) (pc_id p) pm)"
  shows "pm_ok pm1 \<and> pm_next pm1 = pm_next pm \<and> same_nets pm pm1 \<and>
    (\<exists>ctx. pm_networks pm1 (network_of p) = Some ctx \<and> map_of (nc_peers ctx) (pc_id p) = None)"
proof -
  from pm_okD(2) [OF assms(1,2)] obtain ctx where
    ctx: "pm_networks pm (network_of p) = Some ctx" "map_of (nc_peers ctx) (pc_id p) = Some h" "h < pm_next pm"
    using assms(3) by (auto simp: peer_ok_def simp del: map_of_eq_Some_iff)
  let ?ctx = "ctx\<lparr>nc_peers := AList.delete (pc_id p) (nc_peers ctx)\<rparr>"
  have f: "pm_networks pm1 = (pm_networks pm)(network_of p \<mapsto> ?ctx)" "pm_peers pm1 = (pm_peers pm)(h \<mapsto> p\<lparr>pc_open := False\<rparr>)"
    "pm_next pm1 = pm_next pm"
    using ctx(1) by (simp_all add: pm1_def removePeer_def getNetwork_def set_ctx_def)
  have net: "net_ok pm n c" if "pm_networks pm n = Some c" for n c by (rule pm_okD(1) [OF assms(1) that])
  have h: "map_of (nc_peers c) i = Some h \<longleftrightarrow> n = network_of p \<and> i = pc_id p" if "pm_networks pm n = Some c" for n c i
    using net_okD(1) [OF net [OF that], of i h] that ctx(1,2) assms(2) by auto
  have "net_ok pm1 n c" if "pm_networks pm1 n = Some c" for n c
  proof (cases "n = network_of p")
    case True
    then have c: "c = ?ctx" using that f by simp
    show ?thesis
      unfolding c
    proof (rule net_okI)
      show "nc_id ?ctx = n" "distinct (map fst (nc_peers ?ctx))"
        using net_okD(2) [OF net [OF ctx(1)]] True by (auto simp: distinct_delete)
      fix i k assume "map_of (nc_peers ?ctx) i = Some k"
      then have i: "map_of (nc_peers ctx) i = Some k" "i \<noteq> pc_id p" by (auto simp: delete_conv' split: if_splits)
      with h [OF ctx(1)] have "k \<noteq> h" by auto
      with net_okD(1) [OF net [OF ctx(1)] i(1)] True
      show "\<exists>q. pm_peers pm1 k = Some q \<and> pc_id q = i \<and> network_of q = n \<and> pc_open q" by (auto simp: f)
    qed
  next
    case False
    then have c: "pm_networks pm n = Some c" using that f by simp
    show ?thesis
    proof (rule net_okI)
      show "nc_id c = n" "distinct (map fst (nc_peers c))" using net_okD(2) [OF net [OF c]] by auto
      fix i k assume i: "map_of (nc_peers c) i = Some k"
      with h [OF c] False have "k \<noteq> h" by auto
      with net_okD(1) [OF net [OF c] i]
      show "\<exists>q. pm_peers pm1 k = Some q \<and> pc_id q = i \<and> network_of q = n \<and> pc_open q" by (auto simp: f)
    qed
  qed
  moreover have "peer_ok pm1 k q" if "pm_peers pm1 k = Some q" for k q
  proof (cases "k = h")
    case True
    then show ?thesis using that ctx f by (auto simp: peer_ok_def)
  next
    case False
    then have q: "pm_peers pm k = Some q" using that f by simp
    from pm_okD(2) [OF assms(1) q] obtain c where c: "k < pm_next pm" "pm_networks pm (network_of q) = Some c"
      "pc_open q \<longrightarrow> map_of (nc_peers c) (pc_id q) = Some k" by (auto simp: peer_ok_def simp del: map_of_eq_Some_iff)
    have "pc_open q \<longrightarrow> network_of q = network_of p \<longrightarrow> pc_id q \<noteq> pc_id p"
      using c ctx(1,2) False by auto
    then show ?thesis using c ctx(1) by (auto simp: peer_ok_def f delete_conv')
  qed
  ultimately have "pm_ok pm1" by (simp add: pm_ok_def)
  moreover have "same_nets pm pm1" using ctx(1) f by (auto simp: same_nets_def)
  ultimately show ?thesis using f ctx(1) by (simp add: delete_conv')
qed

lemma pm_Close_ok:
  assumes "pm_ok pm" and "pm_Close h pm = Some (pm', ev)"
  shows "pm_ok pm' \<and> pm_next pm' = pm_next pm \<and> same_nets pm pm'"
proof (cases "pm_peers pm h")
  case (Some p)
  show ?thesis
  proof (cases "pc_open p")
    case True
    with assms(2) Some have "pm' = set_peer h (p\<lparr>pc_open := False\<rparr>) (removePeer (network_of p) (pc_id p) pm)"
      by (auto simp: pm_Close_def Let_def split: if_splits)
    with close_state_ok [OF assms(1) Some True] show ?thesis by blast
  qed (use assms Some in \<open>simp add: pm_Close_def\<close>)
qed (use assms in \<open>simp add: pm_Close_def\<close>)

lemma checkAlive_ok:
  assumes "pm_ok pm" and "checkAlive s pong h pm = Some (pm', ev, alive)"
  shows "pm_ok pm' \<and> pm_next pm' = pm_next pm \<and> same_nets pm pm'"
proof -
  from assms(2) have "pm' = pm \<or> (\<exists>ev'. pm_Close h pm = Some (pm', ev'))"
    by (auto simp: checkAlive_def split: option.splits if_splits)
  with pm_Close_ok [OF assms(1)] assms(1) show ?thesis by auto
qed

text \<open>A registered connection that is not alive is off the register afterwards.\<close>
lemma checkAlive_absent:
  assumes "pm_ok pm" and "checkAlive s pong h pm = Some (pm', ev, False)" and "pm_networks pm n = Some ctx" and "map_of (nc_peers ctx) i = Some h"
  shows "\<exists>ctx'. pm_networks pm' n = Some ctx' \<and> map_of (nc_peers ctx') i = None"
proof -
  from pm_okD(1) [OF assms(1,3)] assms(4) obtain p where
    p: "pm_peers pm h = Some p" "pc_id p = i" "network_of p = n" "pc_open p" by (auto simp: net_ok_def simp del: map_of_eq_Some_iff)
  from assms(2) p obtain ev' where "pm_Close h pm = Some (pm', ev')"
    by (auto simp: checkAlive_def split: if_splits)
  with p have "pm' = set_peer h (p\<lparr>pc_open := False\<rparr>) (removePeer (network_of p) (pc_id p) pm)"
    by (auto simp: pm_Close_def Let_def split: if_splits)
  with close_state_ok [OF assms(1) p(1,4)] p show ?thesis by blast
qed

text \<open>Registering a new connection at an absent id.\<close>
lemma register_ok:
  assumes "pm_ok pm" and "pm_networks pm n = Some ctx" and "map_of (nc_peers ctx) i = None"
    and "pc_id p = i" and "network_of p = n" and "pc_open p"
  shows "pm_ok ((set_peer (pm_next pm) p (set_ctx n (ctx\<lparr>nc_peers := AList.update i (pm_next pm) (nc_peers ctx)\<rparr>) pm))
    \<lparr>pm_next := Suc (pm_next pm), pm_index := ix\<rparr>)" (is "pm_ok ?pm")
proof -
  let ?h = "pm_next pm"
  have fresh: "pm_peers pm ?h = None"
    using pm_okD(2) [OF assms(1), of ?h] by (cases "pm_peers pm ?h") (auto simp: peer_ok_def)
  have net: "net_ok pm m c" if "pm_networks pm m = Some c" for m c by (rule pm_okD(1) [OF assms(1) that])
  have no: "map_of (nc_peers c) j \<noteq> Some ?h" if "pm_networks pm m = Some c" for m c j
    using net_okD(1) [OF net [OF that], of j ?h] fresh by auto
  have "net_ok ?pm m c" if "pm_networks ?pm m = Some c" for m c
  proof (cases "m = n")
    case True
    then have c: "c = ctx\<lparr>nc_peers := AList.update i ?h (nc_peers ctx)\<rparr>" using that by simp
    show ?thesis
    proof (rule net_okI)
      show "nc_id c = m" "distinct (map fst (nc_peers c))"
        using net_okD(2) [OF net [OF assms(2)]] True by (auto simp: c distinct_update)
      fix j k assume j: "map_of (nc_peers c) j = Some k"
      show "\<exists>q. pm_peers ?pm k = Some q \<and> pc_id q = j \<and> network_of q = m \<and> pc_open q"
      proof (cases "j = i")
        case True
        with j have "k = ?h" by (simp add: c update_conv')
        with True \<open>m = n\<close> assms show ?thesis by simp
      next
        case False
        with j have j': "map_of (nc_peers ctx) j = Some k" by (simp add: c update_conv')
        with no [OF assms(2)] have "k \<noteq> ?h" by auto
        with net_okD(1) [OF net [OF assms(2)] j'] \<open>m = n\<close> show ?thesis by auto
      qed
    qed
  next
    case False
    then have c: "pm_networks pm m = Some c" using that by simp
    show ?thesis
    proof (rule net_okI)
      show "nc_id c = m" "distinct (map fst (nc_peers c))" using net_okD(2) [OF net [OF c]] by auto
      fix j k assume j: "map_of (nc_peers c) j = Some k"
      with no [OF c] have "k \<noteq> ?h" by auto
      with net_okD(1) [OF net [OF c] j]
      show "\<exists>q. pm_peers ?pm k = Some q \<and> pc_id q = j \<and> network_of q = m \<and> pc_open q" by auto
    qed
  qed
  moreover have "peer_ok ?pm k q" if "pm_peers ?pm k = Some q" for k q
  proof (cases "k = ?h")
    case True
    then show ?thesis using that assms by (simp add: peer_ok_def update_conv')
  next
    case False
    then have "pm_peers pm k = Some q" using that by simp
    from pm_okD(2) [OF assms(1) this] assms(2,3) show ?thesis
      by (auto simp: peer_ok_def update_conv' simp del: map_of_eq_Some_iff split: if_splits)
  qed
  ultimately show ?thesis by (simp add: pm_ok_def)
qed

lemma SetIfAbsent_ok:
  assumes "pm_ok pm" and "SetIfAbsent s pong n i (pm_next pm) pm = Some (pm', ev, isSet)"
  shows "if isSet then \<exists>pm1 ctx. pm_ok pm1 \<and> pm_next pm1 = pm_next pm \<and> pm_networks pm1 n = Some ctx \<and>
      map_of (nc_peers ctx) i = None \<and> pm' = set_ctx n (ctx\<lparr>nc_peers := AList.update i (pm_next pm) (nc_peers ctx)\<rparr>) pm1
    else pm_ok pm'"
proof -
  from assms(2) obtain ctx where ctx: "pm_networks pm n = Some ctx"
    by (auto simp: SetIfAbsent_def getNetwork_def split: option.splits)
  show ?thesis
  proof (cases "map_of (nc_peers ctx) i")
    case None
    with assms ctx show ?thesis
      by (auto simp: SetIfAbsent_def getNetwork_def ctx_getPeer_def)
  next
    case (Some h1)
    with assms(2) ctx obtain pm1 ev1 alive where c: "checkAlive s pong h1 pm = Some (pm1, ev1, alive)"
      by (auto simp: SetIfAbsent_def getNetwork_def ctx_getPeer_def bind_eq_Some_conv)
    note ok = checkAlive_ok [OF assms(1) c]
    show ?thesis
    proof (cases alive)
      case True
      with assms(2) ctx Some c ok show ?thesis
        by (auto simp: SetIfAbsent_def getNetwork_def ctx_getPeer_def)
    next
      case False
      with c have c': "checkAlive s pong h1 pm = Some (pm1, ev1, False)" by simp
      from checkAlive_absent [OF assms(1) c' ctx Some] obtain ctx1 where
        "pm_networks pm1 n = Some ctx1" "map_of (nc_peers ctx1) i = None" by blast
      with assms(2) ctx Some c ok False show ?thesis
        by (auto simp: SetIfAbsent_def getNetwork_def ctx_getPeer_def)
    qed
  qed
qed

lemma relayTo_ok: "pm_ok pm \<Longrightarrow> relayTo pm h t b = Some (pm', ev) \<Longrightarrow> pm_ok pm'"
  by (auto simp: relayTo_def bind_eq_Some_conv split: option.splits intro!: set_peer_ok)

lemma updateNATInfo_ok: "pm_ok pm \<Longrightarrow> updateNATInfo e h b pm = Some (pm', ev) \<Longrightarrow> pm_ok pm'"
  by (auto simp: updateNATInfo_def bind_eq_Some_conv Let_def split: option.splits intro!: set_peer_ok)

lemma readMessage_ok:
  assumes "pm_ok pm" and "readMessage e now h raw pm = Some (pm', ev)"
  shows "pm_ok pm'"
proof (cases "pm_peers pm h")
  case (Some p)
  let ?p = "p\<lparr>pc_active := now div nano\<rparr>"
  have ok: "pm_ok (set_peer h ?p pm)" by (rule set_peer_ok [OF assms(1) Some]) simp_all
  have conn: "pm_ok (set_peer h (?p\<lparr>pc_connData := d\<rparr>) (set_peer h ?p pm))" for d
    by (rule set_peer_ok [OF ok, of h ?p]) simp_all
  from assms(2) Some ok conn relayTo_ok [OF ok] updateNATInfo_ok [OF ok] show ?thesis
    by (auto simp: readMessage_def Let_def bind_eq_Some_conv split: if_splits option.splits)
qed (use assms in \<open>simp add: readMessage_def\<close>)

lemma updateSecret_ok:
  assumes "pm_ok pm" and "auth_env_ok (en_auth e)" and "length rnd = 12" and "updateSecret e rnd now h pm = Some (pm', ev)"
  shows "pm_ok pm'"
proof (cases "pm_peers pm h")
  case (Some p)
  have net: "js_Network (fst (ParseSecret (en_auth e) now (ns_Secret (generateSecret e rnd now pm n adm)))) = net_ID n" for n adm
    using parse_generated [OF assms(2,3)] by (simp add: generateSecret_def)
  from assms(4) Some obtain ctx where ctx: "getNetwork (network_of p) pm = Some ctx"
    by (auto simp: updateSecret_def split: option.splits)
  let ?n = "\<lparr>net_ID = network_of p, net_Alias = nc_alias ctx, net_Neighbors = nc_neighbors ctx\<rparr>"
  let ?p = "p\<lparr>pc_secret := fst (ParseSecret (en_auth e) now (ns_Secret (generateSecret e rnd now pm ?n False)))\<rparr>"
  have "pm' = (if pc_open p then set_peer h ?p pm else pm)"
    using assms(4) Some ctx by (auto simp: updateSecret_def Let_def bind_eq_Some_conv)
  moreover have "pm_ok (set_peer h ?p pm)" by (rule set_peer_ok [OF assms(1) Some]) (simp_all add: net)
  ultimately show ?thesis using assms(1) by simp
qed (use assms in \<open>simp add: updateSecret_def\<close>)

lemma update_secrets_ok:
  "auth_env_ok (en_auth e) \<Longrightarrow> length rnd = 12 \<Longrightarrow> pm_ok pm \<Longrightarrow> update_secrets e rnd now hs pm = Some (pm', ev) \<Longrightarrow> pm_ok pm'"
proof (induction hs arbitrary: pm ev)
  case (Cons h hs)
  then obtain pm1 e1 e2 where "updateSecret e rnd now h pm = Some (pm1, e1)" "update_secrets e rnd now hs pm1 = Some (pm', e2)"
    by (auto simp: bind_eq_Some_conv)
  with Cons updateSecret_ok show ?case by blast
qed simp

lemma updateMeta_ok:
  assumes "pm_ok pm" and "auth_env_ok (en_auth e)" and "length rnd = 12" and "pm_networks pm network = Some ctx"
    and "updateMeta e rnd now network ctx n pm = Some (pm', ev)"
  shows "pm_ok pm'"
proof -
  let ?ctx = "ctx\<lparr>nc_update := now, nc_neighbors := net_Neighbors n, nc_alias := net_Alias n\<rparr>"
  have "pm_ok (set_ctx network ?ctx pm)" by (rule set_ctx_ok [OF assms(1,4)]) simp_all
  from update_secrets_ok [OF assms(2,3) this] assms(1,5) show ?thesis
    by (auto simp: updateMeta_def split: if_splits)
qed

lemma keepalive_ok:
  assumes "pm_ok pm" and "auth_env_ok (en_auth e)" and "length rnd = 12" and "keepalive e rnd now h pm = Some (pm', ev)"
  shows "pm_ok pm'"
  using assms pm_Close_ok [OF assms(1)] updateSecret_ok [OF assms(1-3)]
  by (auto simp: keepalive_def split: option.splits if_splits)

lemma open_network_ok:
  assumes "pm_ok pm"
  shows "pm_ok (open_network now secret pm)"
proof -
  have im: "nc_id (initMeta a b c) = nc_id c" "nc_peers (initMeta a b c) = nc_peers c" for a b c
    by (simp_all add: initMeta_def)
  show ?thesis
  proof (cases "pm_networks pm (js_Network secret)")
    case None
    then show ?thesis unfolding open_network_def Let_def
      by (intro new_ctx_ok [OF assms]) (simp_all add: im getNetwork_def newNetworkContext_def)
  next
    case (Some c)
    then show ?thesis unfolding open_network_def Let_def
      by (intro set_ctx_ok [OF assms Some]) (simp_all add: im getNetwork_def)
  qed
qed

lemma register_peer_state:
  assumes "register_peer e now pong upgrade peer pm = Some (pm', ev, r)"
  obtains pm2 ev2 isSet where "SetIfAbsent (now div nano) pong (network_of peer) (pc_id peer) (pm_next pm) pm = Some (pm2, ev2, isSet)"
    and "\<not> isSet \<Longrightarrow> pm' = pm2 \<and> r = RForbidden 4000"
    and "isSet \<Longrightarrow> (let pm3 = (set_peer (pm_next pm) peer pm2)\<lparr>pm_next := Suc (pm_next pm), pm_index := (pm_index pm2)(pc_id peer \<mapsto> network_of peer)\<rparr> in
      if upgrade then pm' = set_peer (pm_next pm) (peer\<lparr>pc_conn := True, pc_active := now div nano\<rparr>) pm3 \<and> r = RUpgraded (pm_next pm)
      else pm' = pm3 \<and> r = RServerError)"
  using assms by (auto simp: register_peer_def Let_def bind_eq_Some_conv split: if_splits)

lemma register_peer_ok:
  assumes "pm_ok pm" and "pc_open peer" and "register_peer e now pong upgrade peer pm = Some (pm', ev, r)"
  shows "pm_ok pm'"
proof -
  from assms(3) obtain pm2 ev2 isSet where
    s: "SetIfAbsent (now div nano) pong (network_of peer) (pc_id peer) (pm_next pm) pm = Some (pm2, ev2, isSet)"
    and rest: "\<not> isSet \<Longrightarrow> pm' = pm2 \<and> r = RForbidden 4000"
      "isSet \<Longrightarrow> (let pm3 = (set_peer (pm_next pm) peer pm2)\<lparr>pm_next := Suc (pm_next pm), pm_index := (pm_index pm2)(pc_id peer \<mapsto> network_of peer)\<rparr> in
        if upgrade then pm' = set_peer (pm_next pm) (peer\<lparr>pc_conn := True, pc_active := now div nano\<rparr>) pm3 \<and> r = RUpgraded (pm_next pm)
        else pm' = pm3 \<and> r = RServerError)"
    by (rule register_peer_state) blast
  note set = SetIfAbsent_ok [OF assms(1) s]
  show ?thesis
  proof (cases isSet)
    case False
    then show ?thesis using rest(1) set by simp
  next
    case True
    with set obtain pm0 c where c: "pm_ok pm0" "pm_next pm0 = pm_next pm" "pm_networks pm0 (network_of peer) = Some c"
      "map_of (nc_peers c) (pc_id peer) = None"
      "pm2 = set_ctx (network_of peer) (c\<lparr>nc_peers := AList.update (pc_id peer) (pm_next pm) (nc_peers c)\<rparr>) pm0" by auto
    let ?pm3 = "(set_peer (pm_next pm) peer pm2)\<lparr>pm_next := Suc (pm_next pm), pm_index := (pm_index pm2)(pc_id peer \<mapsto> network_of peer)\<rparr>"
    have ok3: "pm_ok ?pm3" using register_ok [OF c(1,3,4) refl refl assms(2)] c(2,5) by simp
    have p3: "pm_peers ?pm3 (pm_next pm) = Some peer" by simp
    have "pm_ok (set_peer (pm_next pm) (peer\<lparr>pc_conn := True, pc_active := now div nano\<rparr>) ?pm3)"
      by (rule set_peer_ok [OF ok3 p3]) simp_all
    with ok3 rest(2) [OF True] show ?thesis by (simp add: Let_def split: if_splits)
  qed
qed

lemma connect_cases:
  assumes "connect e now pong upgrade rq pm = Some (pm', ev, r)"
  obtains (refused) secret code where "pm' = pm \<or> pm' = open_network now secret pm" "r = RForbidden code"
  | (registered) secret meta where "register_peer e now pong upgrade (fresh_peer rq secret meta) (open_network now secret pm) = Some (pm', ev, r)"
  using assms unfolding connect_def Let_def
  by (auto split: prod.splits option.splits)

lemma connect_ok:
  assumes "pm_ok pm" and "connect e now pong upgrade rq pm = Some (pm', ev, r)"
  shows "pm_ok pm'"
  using assms(2)
proof (cases rule: connect_cases)
  case (refused secret code)
  then show ?thesis using assms(1) open_network_ok [OF assms(1)] by auto
next
  case (registered secret meta)
  have "pc_open (fresh_peer rq secret meta)" by (simp add: fresh_peer_def)
  from register_peer_ok [OF open_network_ok [OF assms(1)] this registered] show ?thesis .
qed

lemma stream_ok:
  assumes "pm_ok pm"
  shows "pm_peers pm h = Some p \<Longrightarrow> peer_Read n p = Some (b, p') \<Longrightarrow> pm_ok (set_peer h p' pm)"
    and "peer_Write b h pm = Some (pm', ev) \<Longrightarrow> pm_ok pm'"
proof -
  assume p: "pm_peers pm h = Some p" "peer_Read n p = Some (b, p')"
  show "pm_ok (set_peer h p' pm)"
    by (rule set_peer_ok [OF assms p(1)]; use p(2) in \<open>auto simp: peer_Read_def split: option.splits list.splits\<close>)
next
  assume "peer_Write b h pm = Some (pm', ev)"
  then show "pm_ok pm'" using assms
    by (auto simp: peer_Write_def bind_eq_Some_conv split: option.splits if_splits intro!: set_peer_ok)
qed

text \<open>The operations of the server as steps; the random bytes of a secret are twelve.\<close>
inductive pm_step :: "pm_env \<Rightarrow> PeerMap \<Rightarrow> PeerMap \<Rightarrow> bool" for e where
  Step_connect: "connect e now pong upgrade rq pm = Some (pm', ev, r) \<Longrightarrow> pm_step e pm pm'"
| Step_message: "readMessage e now h raw pm = Some (pm', ev) \<Longrightarrow> pm_step e pm pm'"
| Step_keepalive: "length rnd = 12 \<Longrightarrow> keepalive e rnd now h pm = Some (pm', ev) \<Longrightarrow> pm_step e pm pm'"
| Step_close: "pm_Close h pm = Some (pm', ev) \<Longrightarrow> pm_step e pm pm'"
| Step_meta: "length rnd = 12 \<Longrightarrow> putNetworkMeta e rnd now token network request pm = Some (pm', ev, st) \<Longrightarrow> pm_step e pm pm'"
| Step_read: "pm_peers pm h = Some p \<Longrightarrow> peer_Read n p = Some (b, p') \<Longrightarrow> pm_step e pm (set_peer h p' pm)"
| Step_write: "peer_Write b h pm = Some (pm', ev) \<Longrightarrow> pm_step e pm pm'"
| Step_query: "queryNetworkPeers us e token order pm = (st, nets, pm') \<Longrightarrow> pm_step e pm pm'"

text \<open>The list requests of the administration.\<close>
lemma peer_strings_ok: "pm_ok pm \<Longrightarrow> peer_strings us e hs pm = (ts, pm') \<Longrightarrow> pm_ok pm' \<and> pm_networks pm' = pm_networks pm"
proof (induction hs arbitrary: pm ts)
  case (Cons h hs)
  show ?case
  proof (cases "pm_peers pm h")
    case None
    with Cons.IH [OF Cons.prems(1), of ts] Cons.prems(2) show ?thesis by simp
  next
    case (Some p)
    have "pm_ok (set_peer h (with_counters p) pm)"
      by (rule set_peer_ok [OF Cons.prems(1) Some]) (simp_all add: with_counters_def)
    from Cons.IH [OF this] Cons.prems(2) Some show ?thesis by (auto simp: peer_String_def Let_def split: prod.splits)
  qed
qed simp

lemma network_peers_ok: "pm_ok pm \<Longrightarrow> network_peers us e ks pm = (ns, pm') \<Longrightarrow> pm_ok pm'"
proof (induction ks arbitrary: pm ns)
  case (Cons k ks)
  then show ?case
    by (auto split: option.splits prod.splits dest: peer_strings_ok) (use Cons.IH in blast)?
qed simp

lemma queryNetworkPeers_ok: "pm_ok pm \<Longrightarrow> queryNetworkPeers us e token order pm = (st, nets, pm') \<Longrightarrow> pm_ok pm'"
  by (auto simp: queryNetworkPeers_def split: sum.splits dest: network_peers_ok)

lemma putNetworkMeta_ok:
  assumes "pm_ok pm" and "auth_env_ok (en_auth e)" and "length rnd = 12" and "putNetworkMeta e rnd now token network request pm = Some (pm', ev, st)"
  shows "pm_ok pm'"
  using assms updateMeta_ok [OF assms(1-3)]
  by (auto simp: putNetworkMeta_def getNetwork_def split: sum.splits option.splits)

lemma pm_step_ok: "pm_step e pm pm' \<Longrightarrow> auth_env_ok (en_auth e) \<Longrightarrow> pm_ok pm \<Longrightarrow> pm_ok pm'"
proof (induction rule: pm_step.induct)
  case (Step_close h pm pm' ev)
  then show ?case using pm_Close_ok by blast
qed (blast intro: connect_ok readMessage_ok keepalive_ok putNetworkMeta_ok stream_ok queryNetworkPeers_ok)+

lemma pm_New_ok: "pm_New key cfg = Some pm \<Longrightarrow> pm_ok pm"
  by (auto simp: pm_New_def pm_ok_def split: prod.splits option.splits)

section \<open>What peers receive\<close>

lemma pm_write_event:
  "pm_write pm h b = Some ev \<Longrightarrow> x \<in> set ev \<Longrightarrow> \<exists>q. pm_peers pm h = Some q \<and> x = PmSend h (mask (pc_nonce q) b)"
  by (auto simp: pm_write_def split: option.splits if_splits)

lemma write_each_event:
  "write_each pm b hs = Some ev \<Longrightarrow> x \<in> set ev \<Longrightarrow> \<exists>h \<in> set hs. \<exists>q. pm_peers pm h = Some q \<and> x = PmSend h (mask (pc_nonce q) b)"
proof (induction hs arbitrary: ev)
  case (Cons h hs)
  from Cons.prems(1) obtain e1 e2 where e: "pm_write pm h b = Some e1" "write_each pm b hs = Some e2" "ev = e1 @ e2"
    by (auto simp: bind_eq_Some_conv)
  with Cons.prems(2) have "x \<in> set e1 \<or> x \<in> set e2" by auto
  with Cons.IH [OF e(2)] pm_write_event [OF e(1)] show ?case by auto
qed simp

text \<open>A peer sees its own network and the neighbours that its network lists.\<close>
definition visible :: "PeerMap \<Rightarrow> peerConn \<Rightarrow> peerConn \<Rightarrow> bool" where
  "visible pm p q \<longleftrightarrow> network_of q = network_of p \<or>
     (case pm_networks pm (network_of p) of None \<Rightarrow> False | Some ctx \<Rightarrow> network_of q \<in> set (nc_neighbors ctx))"

lemma getPeer_visible:
  assumes "pm_ok pm" and "getPeer (network_of p) i pm = Some t"
  shows "\<exists>q. pm_peers pm t = Some q \<and> pc_id q = i \<and> pc_open q \<and> visible pm p q"
proof -
  from assms(2) obtain ctx where ctx: "pm_networks pm (network_of p) = Some ctx"
    by (auto simp: getPeer_def getNetwork_def split: option.splits)
  show ?thesis
  proof (cases "ctx_getPeer i ctx")
    case (Some k)
    with assms(2) ctx net_okD(1) [OF pm_okD(1) [OF assms(1) ctx], of i k] show ?thesis
      by (auto simp: getPeer_def getNetwork_def ctx_getPeer_def visible_def)
  next
    case None
    with assms(2) ctx obtain m c where c: "pm_networks pm m = Some c" "nc_id c \<in> set (nc_neighbors ctx)" "map_of (nc_peers c) i = Some t"
      by (auto simp: getPeer_def getNetwork_def ctx_getPeer_def bind_eq_Some_conv split: option.splits if_splits simp del: map_of_eq_Some_iff)
    from net_okD [OF pm_okD(1) [OF assms(1) c(1)]] c(3) obtain q where
      "pm_peers pm t = Some q" "pc_id q = i" "network_of q = nc_id c" "pc_open q" by blast
    with c(2) ctx show ?thesis by (auto simp: visible_def)
  qed
qed

lemma getPeer_set_peer [simp]: "getPeer n i (set_peer h p pm) = getPeer n i pm"
  unfolding getPeer_def getNetwork_def set_peer_simps ..

lemma leadDisco_Some:
  assumes "pm_peers pm h = Some p" and "pm_peers pm t = Some q" and "leadDisco e pm h t = Some ev"
  obtains e1 e2 where "pm_write pm t (new_peer_frame e p) = Some e1" "pm_write pm h (new_peer_frame e q) = Some e2" "ev = e1 @ e2"
  using assms by (auto simp: leadDisco_def bind_eq_Some_conv)

lemma relay_frame_short: "length i \<le> 253 \<Longrightarrow> relay_frame op i d = Some ([op, Len i] @ i @ d)"
  using unat_Len_2 [of i] by (simp add: relay_frame_def Let_def)

lemma broadcast_visible:
  assumes "pm_ok pm" and "pm_peers pm h = Some p" and "broadcast pm p b = Some ev" and "x \<in> set ev"
  shows "\<exists>t q. pm_peers pm t = Some q \<and> visible pm p q \<and> x = PmSend t (mask (pc_nonce q) b)"
proof -
  from assms(3) obtain ctx where ctx: "pm_networks pm (network_of p) = Some ctx"
    and w: "write_each pm b (map snd (filter (\<lambda>(k, h). k \<noteq> pc_id p) (nc_peers ctx))) = Some ev"
    by (auto simp: broadcast_def getNetwork_def split: option.splits)
  from write_each_event [OF w assms(4)] obtain i t q where
    t: "(i, t) \<in> set (nc_peers ctx)" "pm_peers pm t = Some q" "x = PmSend t (mask (pc_nonce q) b)" by auto
  note net = pm_okD(1) [OF assms(1) ctx]
  from t(1) net_okD(2) [OF net] have "map_of (nc_peers ctx) i = Some t" by (auto intro: map_of_is_SomeI)
  with net_okD(1) [OF net this] t have "network_of q = network_of p" by auto
  with t show ?thesis by (auto simp: visible_def)
qed

text \<open>A server with two connected peers of one network.\<close>
definition demo_pm_cfg :: PmConfig where
  "demo_pm_cfg = \<lparr>cf_Listen = ''l'', cf_SecretKey = ''k'', cf_STUNs = [], cf_PublicNetwork = ''n'', cf_RateLimiter = None,
     cf_RotationPeriod = 24 * 3600 * nano, cf_ValidityPeriod = 48 * 3600 * nano\<rparr>"

definition demo_env :: pm_env where
  "demo_env = \<lparr>en_auth = toy_env, en_encode = (\<lambda>_. []), en_parseQuery = (\<lambda>_. None), en_unjson = (\<lambda>_. None),
     en_str = (\<lambda>_. ''a''), en_json = (\<lambda>_. [])\<rparr>"

definition demo_peer :: "PeerID \<Rightarrow> u8 \<Rightarrow> peerConn" where
  "demo_peer i nonce = \<lparr>pc_id = i, pc_nonce = nonce, pc_secret = no_secret\<lparr>js_Network := ''n''\<rparr>, pc_meta = Map.empty,
     pc_conn = True, pc_open = True, pc_active = 0, pc_connData = [], pc_connBuf = None, pc_RelayRx = 0, pc_StreamTx = 0, pc_StreamRx = 0\<rparr>"

definition demo_pm :: PeerMap where
  "demo_pm = \<lparr>pm_networks = [''n'' \<mapsto> (newNetworkContext ''n'' 0)\<lparr>nc_peers := [([1], 0), ([2], 1)]\<rparr>],
     pm_index = [[1] \<mapsto> ''n'', [2] \<mapsto> ''n''], pm_peers = [0 \<mapsto> demo_peer [1] 5, 1 \<mapsto> demo_peer [2] 6], pm_next = 2, pm_cfg = demo_pm_cfg\<rparr>"

lemma demo_pm_ok: "pm_ok demo_pm"
  by (auto simp: pm_ok_def net_ok_def peer_ok_def demo_pm_def demo_peer_def newNetworkContext_def split: if_splits)

definition demo_client :: "PeerID \<Rightarrow> u8 \<Rightarrow> WSConn" where
  "demo_client i nonce = \<lparr>ws_peerID = i, ws_nonce = nonce, ws_raw = True, ws_closed = False, ws_connData = [], ws_connBuf = None,
     ws_active = 0, ws_limiter = None, ws_streamLimiter = None, ws_controllers = (\<lambda>_. [])\<rparr>"

section \<open>Properties\<close>



text \<open>What a lead of a discovery and a relayed frame send to others.\<close>
lemma leadDisco_authentic:
  assumes "leadDisco e pm h u = Some ev" and "pm_peers pm h = Some p" and "pm_peers pm u = Some q" and "PmSend t w \<in> set ev" and "t \<noteq> h"
  shows "t = u \<and> mask (pc_nonce q) w = [CONTROL_NEW_PEER] @ [Len (pc_id p)] @ pc_id p @ en_encode e (pc_meta p)"
proof -
  obtain e1 e2 where e: "pm_write pm u (new_peer_frame e p) = Some e1" "pm_write pm h (new_peer_frame e q) = Some e2" "ev = e1 @ e2"
    using assms(1-3) by (metis leadDisco_Some)
  have "PmSend t w \<notin> set e2" using pm_write_event [OF e(2)] assms(5) by auto
  with e(3) assms(4) have "PmSend t w \<in> set e1" by auto
  from pm_write_event [OF e(1) this] assms(3) show ?thesis by (auto simp: new_peer_frame_def)
qed

lemma relayTo_authentic:
  assumes "relayTo pm h u b = Some (pm', ev)" and "pm_peers pm h = Some p" and "length (pc_id p) \<le> 253"
    and "pm_peers pm u = Some q" and "PmSend t w \<in> set ev"
  shows "t = u \<and> (\<exists>op d. mask (pc_nonce q) w = [op] @ [Len (pc_id p)] @ pc_id p @ d)"
proof -
  obtain d op where e: "pm_write pm u ([op, Len (pc_id p)] @ pc_id p @ d) = Some ev"
    using assms(1,2) relay_frame_short [OF assms(3)] by (auto simp: relayTo_def bind_eq_Some_conv)
  from pm_write_event [OF e assms(5)] assms(4) show ?thesis by auto
qed

text \<open>C2. No spoofing and no leaking: whatever message a peer sends, what any other peer receives because
  of it is a frame that names the sender's own id, and the receiver is in the sender's network or in a
  network that this network lists as neighbour.\<close>
theorem messages_authentic_and_visible:
  assumes "pm_ok pm" and "pm_peers pm h = Some p" and "length (pc_id p) \<le> 253"
    and "readMessage e now h raw pm = Some (pm', ev)" and "PmSend t w \<in> set ev" and "t \<noteq> h"
  shows "\<exists>q op rest. pm_peers pm t = Some q \<and> visible pm p q \<and> mask (pc_nonce q) w = [op] @ [Len (pc_id p)] @ pc_id p @ rest"
proof -
  let ?p = "p\<lparr>pc_active := now div nano\<rparr>"
  let ?pm = "set_peer h ?p pm"
  let ?b = "GSlice (mask (pc_nonce p) (sl_data raw)) (sl_spare raw)"
  let ?goal = "\<exists>q op rest. pm_peers pm t = Some q \<and> visible pm p q \<and> mask (pc_nonce q) w = [op] @ [Len (pc_id p)] @ pc_id p @ rest"
  have ok: "pm_ok ?pm" by (rule set_peer_ok [OF assms(1,2)]) simp_all
  from assms(2,4,5) consider
    (nat) "updateNATInfo e h ?b ?pm = Some (pm', ev)"
  | (peer) tgt u where "getPeer (network_of p) tgt ?pm = Some u" "leadDisco e ?pm h u = Some ev \<or> relayTo ?pm h u ?b = Some (pm', ev)"
    by (auto simp: readMessage_def Let_def bind_eq_Some_conv split: if_splits option.splits)
  then show ?goal
  proof cases
    case nat
    then obtain m where br: "broadcastMeta e (set_peer h (?p\<lparr>pc_meta := m\<rparr>) ?pm) (?p\<lparr>pc_meta := m\<rparr>) = Some ev \<or> ev = []"
      by (auto simp: updateNATInfo_def Let_def bind_eq_Some_conv split: option.splits)
    let ?q = "?p\<lparr>pc_meta := m\<rparr>"
    have ok': "pm_ok (set_peer h ?q ?pm)" by (rule set_peer_ok [OF ok, of h ?p]) simp_all
    from br assms(5) broadcast_visible [OF ok', of h ?q _ ev] obtain q where
      q: "pm_peers (set_peer h ?q ?pm) t = Some q" "visible (set_peer h ?q ?pm) ?q q"
        "w = mask (pc_nonce q) ([CONTROL_UPDATE_META] @ [Len (pc_id p)] @ pc_id p @ en_encode e m)"
      by (auto simp: broadcastMeta_def)
    show ?goal
      by (rule exI [of _ q], rule exI [of _ CONTROL_UPDATE_META], rule exI [of _ "en_encode e m"])
        (use q assms(6) in \<open>simp add: visible_def\<close>)
  next
    case peer
    from getPeer_visible [OF ok, of ?p tgt u] peer(1) obtain q where
      q: "pm_peers ?pm u = Some q" "visible ?pm ?p q" by auto
    have h: "pm_peers ?pm h = Some ?p" by simp
    have "t = u \<and> (\<exists>op rest. mask (pc_nonce q) w = [op] @ [Len (pc_id p)] @ pc_id p @ rest)"
      using peer(2) leadDisco_authentic [OF _ h q(1) assms(5,6)] relayTo_authentic [OF _ h _ q(1) assms(5)] assms(3) by force
    with q assms(6) show ?goal by (auto simp: visible_def)
  qed
qed

theorem messages_authentic_and_visible_witness:
  "\<exists>pm' w op rest. readMessage demo_env 0 0 (GSlice (mask 5 ([CONTROL_RELAY, 1, 2] @ [9])) []) demo_pm = Some (pm', [PmSend 1 w]) \<and>
     mask 6 w = [op] @ [1] @ [1] @ rest"
proof -
  have "\<exists>pm' w. readMessage demo_env 0 0 (GSlice (mask 5 ([CONTROL_RELAY, 1, 2] @ [9])) []) demo_pm = Some (pm', [PmSend 1 w])"
    by (simp add: readMessage_def demo_pm_def demo_peer_def newNetworkContext_def Let_def sl_index_def sl_len_def control_codes frame_id_def frame_data_def
        frame_end_def sl_range_def sl_from_def sl_cap_def getPeer_def getNetwork_def ctx_getPeer_def no_secret_def relayTo_def relay_frame_def pm_write_def
        set_peer_def Len_def)
  then obtain pm' w where r: "readMessage demo_env 0 0 (GSlice (mask 5 ([CONTROL_RELAY, 1, 2] @ [9])) []) demo_pm = Some (pm', [PmSend 1 w])" by blast
  have p: "pm_peers demo_pm 0 = Some (demo_peer [1] 5)" "pm_peers demo_pm 1 = Some (demo_peer [2] 6)" by (simp_all add: demo_pm_def)
  have l: "length (pc_id (demo_peer [1] 5)) \<le> 253" by (simp add: demo_peer_def)
  from messages_authentic_and_visible [OF demo_pm_ok p(1) l r, of 1 w] p(2) r show ?thesis
    by (auto simp: demo_peer_def Len_def)
qed

text \<open>The server passes on every frame that it does not handle itself, with the sender's id.\<close>
lemma server_passes_frame:
  assumes "pm_peers pm h = Some p" and "getPeer (network_of p) B pm = Some t" and "t \<noteq> h"
    and "pm_peers pm t = Some q" and "pc_conn q" and "pc_open q" and "length (pc_id p) \<le> 253" and "length B \<le> 253"
    and "op \<notin> {CONTROL_CONN, CONTROL_UPDATE_NAT_INFO, CONTROL_LEAD_DISCO}"
  shows "\<exists>pm'. readMessage e now h (GSlice (mask (pc_nonce p) ([op] @ [Len B] @ B @ d)) sp) pm =
    Some (pm', [PmSend t (mask (pc_nonce q) ([op] @ [Len (pc_id p)] @ pc_id p @ d))])"
proof -
  let ?f = "[op] @ [Len B] @ B @ d" and ?p = "p\<lparr>pc_active := now div nano\<rparr>"
  have g: "getPeer (network_of p) B (set_peer h ?p pm) = Some t" using assms(2) by simp
  have r: "\<exists>pm'. relayTo (set_peer h ?p pm) h t (GSlice ?f sp) =
      Some (pm', [PmSend t (mask (pc_nonce q) ([op] @ [Len (pc_id p)] @ pc_id p @ d))])"
    using frame_parts(1,3) [OF assms(8), of op d sp] relay_frame_short [OF assms(7), of op d] assms(3-6)
    by (simp add: relayTo_def pm_write_def sl_len_def)
  then show ?thesis
    unfolding readMessage_def Let_def
    using frame_parts(1,2) [OF assms(8), of op d sp] g assms(1,9)
    by (auto simp del: append_Cons append_Nil)
qed

lemma ws_recv_frame:
  assumes "length i \<le> 253" and "ws_nonce c = n"
  shows "ws_recv parse resolve unjson now (GSlice (mask n ([CONTROL_RELAY] @ [Len i] @ i @ d)) sp) c =
    Some (c\<lparr>ws_active := now\<rparr>, [WDatagram i d])"
  unfolding ws_recv_def handleEvents_def
  using frame_parts [OF assms(1), of CONTROL_RELAY d sp] assms(2)
  by (simp del: append_Cons append_Nil)

text \<open>Delivery through the server: when two clients are connected with the nonces of their
  connections, a packet that one sends to the id of the other is masked, relayed, and comes out as
  exactly one datagram with the sender's id and the payload; spare bytes of the buffers do not matter.\<close>
theorem server_relay_delivers:
  assumes "pm_peers pm h = Some p" and "getPeer (network_of p) B pm = Some t" and "t \<noteq> h"
    and "pm_peers pm t = Some q" and "pc_conn q" and "pc_open q" and "length (pc_id p) \<le> 253" and "length B \<le> 253"
    and "ws_raw ca" and "ws_nonce ca = pc_nonce p" and "ws_nonce cb = pc_nonce q"
  shows "\<exists>w w' pm'. ws_WriteTo d B CONTROL_RELAY ca = Inr w \<and>
    readMessage e now h (GSlice w sp) pm = Some (pm', [PmSend t w']) \<and>
    ws_recv parse resolve unjson now' (GSlice w' sp') cb = Some (cb\<lparr>ws_active := now'\<rparr>, [WDatagram (pc_id p) d])"
proof -
  have "CONTROL_RELAY \<notin> {CONTROL_CONN, CONTROL_UPDATE_NAT_INFO, CONTROL_LEAD_DISCO}" by (simp add: control_codes)
  from server_passes_frame [OF assms(1-8) this, of e now d sp] ws_recv_frame [OF assms(7,11)] assms(9,10)
  show ?thesis by (simp add: ws_WriteTo_def ws_write_def del: append_Cons append_Nil) blast
qed

theorem server_relay_delivers_witness:
  "\<exists>w w' pm'. ws_WriteTo [9] [2] CONTROL_RELAY (demo_client [1] 5) = Inr w \<and>
    readMessage demo_env 0 0 (GSlice w []) demo_pm = Some (pm', [PmSend 1 w']) \<and>
    ws_recv (\<lambda>_. Map.empty) (\<lambda>_. None) (\<lambda>_. None) 7 (GSlice w' []) (demo_client [2] 6) =
      Some (demo_client [2] 6\<lparr>ws_active := 7\<rparr>, [WDatagram [1] [9]])"
proof -
  have p: "pm_peers demo_pm 0 = Some (demo_peer [1] 5)" "pm_peers demo_pm 1 = Some (demo_peer [2] 6)" by (simp_all add: demo_pm_def)
  have g: "getPeer (network_of (demo_peer [1] 5)) [2] demo_pm = Some 1"
    by (simp add: getPeer_def getNetwork_def demo_pm_def demo_peer_def newNetworkContext_def ctx_getPeer_def)
  from server_relay_delivers [OF p(1) g _ p(2), of "demo_client [1] 5" "demo_client [2] 6" "[9]" demo_env 0 "[]"
      "\<lambda>_. Map.empty" "\<lambda>_. None" "\<lambda>_. None" 7 "[]"]
  show ?thesis by (simp add: demo_peer_def demo_client_def)
qed

text \<open>Messages that crash the server: an empty binary message of any connected peer, and any message
  other than stream data and NAT info whose id length is 254 or 255, panic the read loop.\<close>
theorem short_message_panics:
  assumes "pm_peers pm h = Some p"
  shows "readMessage e now h (GSlice [] sp) pm = None \<and>
    (op \<noteq> CONTROL_CONN \<and> op \<noteq> CONTROL_UPDATE_NAT_INFO \<and> 254 \<le> l \<longrightarrow>
      readMessage e now h (GSlice (mask (pc_nonce p) ([op, l] @ rest)) sp) pm = None)"
proof (intro conjI impI)
  show "readMessage e now h (GSlice [] sp) pm = None"
    using assms by (simp add: readMessage_def Let_def mask_def sl_index_def sl_len_def)
next
  assume a: "op \<noteq> CONTROL_CONN \<and> op \<noteq> CONTROL_UPDATE_NAT_INFO \<and> 254 \<le> l"
  have "unat l < 2 ^ LENGTH(8)" by (rule unsigned_less)
  moreover have "254 \<le> unat l" using a by (simp add: word_le_nat_alt)
  ultimately obtain k where k: "unat l = 254 + k" "k < 2" using le_Suc_ex [of 254 "unat l"] by auto
  have "unat (l + 2) = (256 + k) mod 256" by (simp add: unat_word_ariths k(1))
  with k(2) have "unat (l + 2) < 2" by simp
  then have "frame_id (GSlice ([op, l] @ rest) sp) = None"
    by (simp add: frame_id_def frame_end_def sl_index_def sl_len_def sl_range_def)
  then show "readMessage e now h (GSlice (mask (pc_nonce p) ([op, l] @ rest)) sp) pm = None"
    using assms a by (simp add: readMessage_def Let_def sl_index_def sl_len_def)
qed

theorem short_message_panics_witness:
  "readMessage demo_env 0 0 (GSlice [] []) demo_pm = None \<and> readMessage demo_env 0 0 (GSlice (mask 5 ([CONTROL_RELAY, 255] @ [])) []) demo_pm = None"
proof -
  have p: "pm_peers demo_pm 0 = Some (demo_peer [1] 5)" by (simp add: demo_pm_def)
  from short_message_panics [OF p, of demo_env 0 "[]" CONTROL_RELAY 255 "[]"] show ?thesis
    by (simp add: control_codes demo_peer_def)
qed

text \<open>A ghost peer: the connection is registered before the protocol upgrade, and when the upgrade
  fails it stays registered with no web socket. From then on every broadcast of another peer of the
  network panics.\<close>
theorem failed_upgrade_leaves_ghost:
  assumes "connect e now pong False rq pm = Some (pm', ev, RServerError)"
  shows "\<exists>h g. pm_peers pm' h = Some g \<and> \<not> pc_conn g \<and> pc_open g \<and> pc_id g = rq_peerID rq \<and>
    getPeer (network_of g) (rq_peerID rq) pm' = Some h \<and>
    (\<forall>p b. network_of p = network_of g \<longrightarrow> pc_id p \<noteq> rq_peerID rq \<longrightarrow> broadcast pm' p b = None)"
proof -
  have panics: "write_each pm'' b hs = None" if "h \<in> set hs" "pm_peers pm'' h = Some g" "\<not> pc_conn g" for pm'' b hs h g
    using that by (induction hs) (auto simp: pm_write_def bind_eq_None_conv)
  from assms obtain secret meta where
    r: "register_peer e now pong False (fresh_peer rq secret meta) (open_network now secret pm) = Some (pm', ev, RServerError)"
    by (cases rule: connect_cases) auto
  let ?g = "fresh_peer rq secret meta" and ?pm1 = "open_network now secret pm"
  let ?h = "pm_next ?pm1" and ?n = "js_Network secret"
  have gs: "network_of ?g = ?n" "pc_id ?g = rq_peerID rq" "\<not> pc_conn ?g" "pc_open ?g" by (simp_all add: fresh_peer_def)
  from r obtain pm2 ev2 where s: "SetIfAbsent (now div nano) pong ?n (rq_peerID rq) ?h ?pm1 = Some (pm2, ev2, True)"
    and pm': "pm' = (set_peer ?h ?g pm2)\<lparr>pm_next := Suc ?h, pm_index := (pm_index pm2)(rq_peerID rq \<mapsto> ?n)\<rparr>"
    using gs(1,2) by (cases rule: register_peer_state) (auto simp: Let_def split: if_splits)
  from s obtain c where c: "pm_networks pm2 ?n = Some c" "map_of (nc_peers c) (rq_peerID rq) = Some ?h"
    by (auto simp: SetIfAbsent_def bind_eq_Some_conv update_conv' split: option.splits if_splits)
  have g: "pm_peers pm' ?h = Some ?g" by (simp add: pm')
  have gp: "getPeer ?n (rq_peerID rq) pm' = Some ?h" using c by (simp add: pm' getPeer_def getNetwork_def ctx_getPeer_def)
  have "broadcast pm' p b = None" if "network_of p = ?n" "pc_id p \<noteq> rq_peerID rq" for p b
  proof -
    have "(rq_peerID rq, ?h) \<in> set (nc_peers c)" using c(2) by (rule map_of_SomeD)
    then have "?h \<in> set (map snd (filter (\<lambda>(k, h). k \<noteq> pc_id p) (nc_peers c)))" using that(2) by force
    from panics [OF this g gs(3)] show ?thesis using that(1) c(1) by (simp add: broadcast_def getNetwork_def pm')
  qed
  with g gp gs show ?thesis by (intro exI [of _ ?h] exI [of _ ?g]) simp
qed

theorem failed_upgrade_leaves_ghost_witness:
  "\<exists>pm'. connect demo_env 0 False False \<lparr>rq_secret = ''n'', rq_peerID = [3], rq_nonce = ''5'', rq_metadata = ''''\<rparr> demo_pm = Some (pm', [], RServerError) \<and>
     broadcast pm' (demo_peer [1] 5) [25] = None"
proof -
  have "\<exists>pm'. connect demo_env 0 False False \<lparr>rq_secret = ''n'', rq_peerID = [3], rq_nonce = ''5'', rq_metadata = ''''\<rparr> demo_pm = Some (pm', [], RServerError)"
    by (simp add: connect_def demo_pm_def demo_pm_cfg_def Let_def no_secret_def getNetwork_def SetIfAbsent_def ctx_getPeer_def initMeta_def
        newNetworkContext_def set_ctx_def set_peer_def register_peer_def fresh_peer_def open_network_def)
  then obtain pm' where c: "connect demo_env 0 False False \<lparr>rq_secret = ''n'', rq_peerID = [3], rq_nonce = ''5'', rq_metadata = ''''\<rparr> demo_pm = Some (pm', [], RServerError)" ..
  from c have "\<forall>h g. pm_peers pm' h = Some g \<longrightarrow> network_of g = ''n''"
    by (auto simp: connect_def demo_pm_def demo_pm_cfg_def demo_peer_def Let_def no_secret_def getNetwork_def SetIfAbsent_def ctx_getPeer_def initMeta_def
        newNetworkContext_def set_ctx_def set_peer_def register_peer_def fresh_peer_def open_network_def split: if_splits)
  with failed_upgrade_leaves_ghost [OF c] have "broadcast pm' (demo_peer [1] 5) [25] = None"
    by (auto simp: demo_peer_def)
  with c show ?thesis by blast
qed

text \<open>C34. Rate limits: a server whose configuration limits relaying and reading of streams announces
  limits that every client adopts; one that limits relaying only can never be joined, since the
  client refuses the missing stream limit; and a stream limit without a relay limit is ignored.\<close>
theorem rate_limit_negotiation:
  assumes "cf_RateLimiter cfg = Some r" and "\<And>n. parse (show_int n) = Some n" and "\<And>n. show_int n \<noteq> ''''" and "parse '''' = None"
    and "ws_limiter c = None" and "ws_streamLimiter c = None"
  shows "configureRatelimiter parse (limit_response show_int cfg) c =
    (if rl_Limit (rc_Relay r) \<le> 0 then (c, None)
     else if rl_Limit (rc_StreamR r) \<le> 0 then (c\<lparr>ws_limiter := Some (rl_Limit (rc_Relay r), rl_Burst (rc_Relay r))\<rparr>, Some BadLimit)
     else (c\<lparr>ws_limiter := Some (rl_Limit (rc_Relay r), rl_Burst (rc_Relay r)),
             ws_streamLimiter := Some (rl_Limit (rc_StreamR r), rl_Burst (rc_StreamR r))\<rparr>, None))"
  using assms by (simp add: configureRatelimiter_def limit_response_def not_le)

definition unary :: "int \<Rightarrow> string" where
  "unary n = (if n < 0 then CHR ''-'' # replicate (nat (- n)) CHR ''1'' else CHR ''+'' # replicate (nat n) CHR ''1'')"

definition un_unary :: "string \<Rightarrow> int option" where
  "un_unary s = (case s of [] \<Rightarrow> None | c # cs \<Rightarrow> Some (if c = CHR ''-'' then - int (length cs) else int (length cs)))"

theorem rate_limit_negotiation_witness:
  "snd (configureRatelimiter un_unary (limit_response unary (demo_pm_cfg\<lparr>cf_RateLimiter := Some \<lparr>rc_Limit = 0, rc_Burst = 0,
      rc_Relay = \<lparr>rl_Limit = 5, rl_Burst = 9\<rparr>, rc_StreamR = \<lparr>rl_Limit = 0, rl_Burst = 0\<rparr>, rc_StreamW = \<lparr>rl_Limit = 0, rl_Burst = 0\<rparr>\<rparr>\<rparr>))
     (demo_client [1] 5)) = Some BadLimit"
proof -
  have u: "un_unary (unary n) = Some n" "unary n \<noteq> ''''" for n by (simp_all add: un_unary_def unary_def)
  have e: "un_unary '''' = None" by (simp add: un_unary_def)
  let ?cfg = "demo_pm_cfg\<lparr>cf_RateLimiter := Some \<lparr>rc_Limit = 0, rc_Burst = 0,
      rc_Relay = \<lparr>rl_Limit = 5, rl_Burst = 9\<rparr>, rc_StreamR = \<lparr>rl_Limit = 0, rl_Burst = 0\<rparr>, rc_StreamW = \<lparr>rl_Limit = 0, rl_Burst = 0\<rparr>\<rparr>\<rparr>"
  have r: "cf_RateLimiter ?cfg = Some \<lparr>rc_Limit = 0, rc_Burst = 0,
      rc_Relay = \<lparr>rl_Limit = 5, rl_Burst = 9\<rparr>, rc_StreamR = \<lparr>rl_Limit = 0, rl_Burst = 0\<rparr>, rc_StreamW = \<lparr>rl_Limit = 0, rl_Burst = 0\<rparr>\<rparr>" by simp
  have l: "ws_limiter (demo_client [1] 5) = None" "ws_streamLimiter (demo_client [1] 5) = None" by (simp_all add: demo_client_def)
  show ?thesis unfolding rate_limit_negotiation [OF r u e l] by simp
qed

text \<open>A sequence of messages of one connection.\<close>
fun readMessages :: "pm_env \<Rightarrow> int \<Rightarrow> nat \<Rightarrow> bytes list \<Rightarrow> PeerMap \<Rightarrow> PeerMap option" where
  "readMessages e now h [] pm = Some pm"
| "readMessages e now h (w # ws) pm = do { (pm1, ev) \<leftarrow> readMessage e now h (GSlice w []) pm; readMessages e now h ws pm1 }"

lemma readMessage_conn:
  assumes "pm_peers pm h = Some p"
  shows "readMessage e now h (GSlice (mask (pc_nonce p) ([CONTROL_CONN] @ d)) []) pm =
    Some (set_peer h (p\<lparr>pc_active := now div nano, pc_connData := pc_connData p @ [d]\<rparr>) (set_peer h (p\<lparr>pc_active := now div nano\<rparr>) pm), [])"
  using assms by (simp add: readMessage_def Let_def sl_index_def sl_len_def sl_from_def sl_range_def sl_cap_def)

text \<open>C12. Streams to the server: whatever a client writes, in pieces of any sizes, is what the server's
  readers get, in order and without loss, however they choose the sizes of their buffers; what they
  have not read yet stays pending.\<close>
theorem client_stream_exact:
  assumes "pm_peers pm h = Some p" and "ws_raw c" and "ws_nonce c = pc_nonce p"
  shows "\<exists>ws pm' p'. list_all2 (\<lambda>d w. ws_Write d c = Inr w) ds ws \<and> readMessages e now h ws pm = Some pm' \<and>
    pm_peers pm' h = Some p' \<and>
    (\<forall>sizes bs rest. peer_reader.read_sizes sizes p' = (bs, rest) \<longrightarrow> peer_pending p @ concat ds = bs @ peer_pending rest)"
proof -
  have "\<exists>ws pm' p'. list_all2 (\<lambda>d w. ws_Write d c = Inr w) ds ws \<and> readMessages e now h ws pm = Some pm' \<and>
      pm_peers pm' h = Some p' \<and> peer_pending p' = peer_pending p @ concat ds"
    using assms
  proof (induction ds arbitrary: pm p)
    case Nil
    then show ?case by (intro exI [of _ "[]"]) auto
  next
    case (Cons d ds)
    let ?w = "mask (pc_nonce p) ([CONTROL_CONN] @ d)"
    let ?p = "p\<lparr>pc_active := now div nano, pc_connData := pc_connData p @ [d]\<rparr>"
    let ?pm = "set_peer h ?p (set_peer h (p\<lparr>pc_active := now div nano\<rparr>) pm)"
    have w: "ws_Write d c = Inr ?w" using Cons.prems by (simp add: ws_Write_def ws_write_def)
    have p: "pm_peers ?pm h = Some ?p" by simp
    from Cons.IH [OF p] Cons.prems obtain ws pm' p' where
      i: "list_all2 (\<lambda>d w. ws_Write d c = Inr w) ds ws" "readMessages e now h ws ?pm = Some pm'" "pm_peers pm' h = Some p'"
      "peer_pending p' = peer_pending ?p @ concat ds" by auto
    have "readMessages e now h (?w # ws) pm = Some pm'" using readMessage_conn [OF Cons.prems(1)] i(2) by simp
    moreover have "peer_pending p' = peer_pending p @ concat (d # ds)" using i(4) by (simp add: peer_pending_def)
    ultimately show ?case using w i(1,3) by (intro exI [of _ "?w # ws"] exI [of _ pm'] exI [of _ p']) simp
  qed
  then obtain ws pm' p' where r: "list_all2 (\<lambda>d w. ws_Write d c = Inr w) ds ws" "readMessages e now h ws pm = Some pm'"
    "pm_peers pm' h = Some p'" "peer_pending p' = peer_pending p @ concat ds" by blast
  moreover have "peer_pending p @ concat ds = bs @ peer_pending rest" if "peer_reader.read_sizes sizes p' = (bs, rest)" for sizes bs rest
    using peer_reader.read_sizes_exact [OF that] r(4) by simp
  ultimately show ?thesis by blast
qed

theorem client_stream_exact_witness:
  "\<exists>ws pm' p'. list_all2 (\<lambda>d w. ws_Write d (demo_client [1] 5) = Inr w) [[1, 2, 3], [4]] ws \<and>
     readMessages demo_env 0 0 ws demo_pm = Some pm' \<and> pm_peers pm' 0 = Some p'"
proof -
  have p: "pm_peers demo_pm 0 = Some (demo_peer [1] 5)" by (simp add: demo_pm_def)
  have c: "ws_raw (demo_client [1] 5)" "ws_nonce (demo_client [1] 5) = pc_nonce (demo_peer [1] 5)"
    by (simp_all add: demo_client_def demo_peer_def)
  from client_stream_exact [OF p c, of "[[1, 2, 3], [4]]" demo_env 0] show ?thesis by blast
qed

end
