(* ===== verification/P2p_Correct.thy ===== *)
theory P2p_Correct
  imports P2p Peermap_Correct
begin

text \<open>
  Properties of the packet connection: which relay is chosen, what a write puts on the network, the
  delivery through the server, the exchange of endpoints, the cooling of discoveries, and the identity
  options.
\<close>

section \<open>The relaying peer\<close>

definition relay_eligible :: "'e PacketConn \<Rightarrow> PeerID \<Rightarrow> PeerState \<Rightarrow> bool" where
  "relay_eligible c target s \<longleftrightarrow> ps_PeerID s \<noteq> target \<and>
     (\<exists>meta. map_of (contents (pn_peerMap c)) (ps_PeerID s) = Some meta \<and> can_relay meta)"

lemma PeerMeta_value: "cache_ok (pn_peerMap c) \<Longrightarrow> snd (PeerMeta i c) = map_of (contents (pn_peerMap c)) i"
  by (simp add: PeerMeta_def Get_value case_prod_unfold Let_def)

lemma PeerMeta_keeps:
  assumes "cache_ok (pn_peerMap c)"
  shows "cache_ok (pn_peerMap (fst (PeerMeta i c)))"
    and "map_of (contents (pn_peerMap (fst (PeerMeta i c)))) = map_of (contents (pn_peerMap c))"
    and "pn_relayPeerIndex (fst (PeerMeta i c)) = pn_relayPeerIndex c"
  using Get_ok [OF assms, of i] map_of_recent [OF contents_distinct [OF assms], of i]
  by (auto simp: PeerMeta_def case_prod_unfold Let_def Get_contents [OF assms])

lemma relay_eligible_keeps:
  "map_of (contents (pn_peerMap c)) = map_of (contents (pn_peerMap d)) \<Longrightarrow> relay_eligible c t s = relay_eligible d t s"
  by (simp add: relay_eligible_def)

lemma unat_next: "Suc (unat i) < 2 ^ 64 \<Longrightarrow> unat (i + 1 :: u64) = Suc (unat i)"
  by (simp add: unat_word_ariths)

text \<open>The loop stops at the first eligible peer of its rotation.\<close>
lemma select_relay_result:
  fixes c :: "'e PacketConn"
  assumes "cache_ok (pn_peerMap c)" and "unat (pn_relayPeerIndex c) + n < 2 ^ 64" and "peers \<noteq> []"
    and "length peers < 2 ^ 64" and "\<forall>s\<in>set peers. ps_PeerID s \<noteq> []"
  shows "(snd (select_relay peers target n c) = [] \<longrightarrow>
      (\<forall>k<n. \<not> relay_eligible c target (peers ! ((unat (pn_relayPeerIndex c) + 1 + k) mod length peers)))) \<and>
    (snd (select_relay peers target n c) \<noteq> [] \<longrightarrow>
      (\<exists>s\<in>set peers. relay_eligible c target s \<and> snd (select_relay peers target n c) = ps_PeerID s))"
  using assms(1,2)
proof (induction n arbitrary: c)
  case (Suc n)
  let ?i = "pn_relayPeerIndex c + 1"
  let ?p = "peers ! unat (?i mod of_nat (length peers))"
  let ?c1 = "c\<lparr>pn_relayPeerIndex := ?i\<rparr>"
  let ?c2 = "fst (PeerMeta (ps_PeerID ?p) ?c1)"
  have i: "unat ?i = Suc (unat (pn_relayPeerIndex c))" using Suc.prems(2) by (intro unat_next) simp
  have pos: "unat (?i mod of_nat (length peers)) = (unat (pn_relayPeerIndex c) + 1) mod length peers"
    using assms(4) i by (simp add: unat_mod unat_of_nat)
  have inp: "?p \<in> set peers" using assms(3) pos by simp
  have ok1: "cache_ok (pn_peerMap ?c1)" "map_of (contents (pn_peerMap ?c1)) = map_of (contents (pn_peerMap c))" using Suc.prems(1) by simp_all
  note k2 = PeerMeta_keeps [OF ok1(1), of "ps_PeerID ?p"]
  have rest: "(snd (select_relay peers target n d) = [] \<longrightarrow>
      (\<forall>k<n. \<not> relay_eligible c target (peers ! ((unat (pn_relayPeerIndex c) + 1 + Suc k) mod length peers)))) \<and>
      (snd (select_relay peers target n d) \<noteq> [] \<longrightarrow>
      (\<exists>s\<in>set peers. relay_eligible c target s \<and> snd (select_relay peers target n d) = ps_PeerID s))"
    if "cache_ok (pn_peerMap d)" "pn_relayPeerIndex d = ?i" "map_of (contents (pn_peerMap d)) = map_of (contents (pn_peerMap c))" for d :: "'e PacketConn"
    using Suc.IH [OF that(1)] Suc.prems(2) that(2) i relay_eligible_keeps [OF that(3)] by simp
  have stepk: "(\<forall>k<n. \<not> E (Suc k)) \<and> \<not> E 0 \<Longrightarrow> \<forall>k<Suc n. \<not> E k" for E
    by (metis not0_implies_Suc not_less_eq)
  show ?case
  proof (cases "relay_eligible c target ?p")
    case True
    then obtain meta where m: "snd (PeerMeta (ps_PeerID ?p) ?c1) = Some meta" "can_relay meta" "ps_PeerID ?p \<noteq> target"
      using PeerMeta_value [OF ok1(1)] by (auto simp: relay_eligible_def)
    then have "snd (select_relay peers target (Suc n) c) = ps_PeerID ?p"
      by (auto simp: Let_def split: prod.splits)
    with True inp assms(5) show ?thesis by auto
  next
    case False
    have "\<exists>d :: 'e PacketConn. snd (select_relay peers target (Suc n) c) = snd (select_relay peers target n d) \<and>
      cache_ok (pn_peerMap d) \<and> pn_relayPeerIndex d = ?i \<and> map_of (contents (pn_peerMap d)) = map_of (contents (pn_peerMap c))"
    proof (cases "ps_PeerID ?p = target")
      case True
      with ok1 show ?thesis by (intro exI [of _ ?c1]) (simp add: Let_def)
    next
      case f: False
      with False PeerMeta_value [OF ok1(1), of "ps_PeerID ?p"] ok1(2) have
        "snd (PeerMeta (ps_PeerID ?p) ?c1) = None \<or> (\<exists>m. snd (PeerMeta (ps_PeerID ?p) ?c1) = Some m \<and> \<not> can_relay m)"
        by (cases "snd (PeerMeta (ps_PeerID ?p) ?c1)") (auto simp: relay_eligible_def)
      with f have "snd (select_relay peers target (Suc n) c) = snd (select_relay peers target n ?c2)"
        by (auto simp: Let_def split: prod.splits)
      with k2 ok1 show ?thesis by (intro exI [of _ ?c2]) simp
    qed
    then obtain d :: "'e PacketConn" where d: "snd (select_relay peers target (Suc n) c) = snd (select_relay peers target n d)"
      "cache_ok (pn_peerMap d)" "pn_relayPeerIndex d = ?i" "map_of (contents (pn_peerMap d)) = map_of (contents (pn_peerMap c))" by blast
    have "\<not> relay_eligible c target (peers ! ((unat (pn_relayPeerIndex c) + 1 + 0) mod length peers))" using False pos by simp
    with stepk [of "\<lambda>k. relay_eligible c target (peers ! ((unat (pn_relayPeerIndex c) + 1 + k) mod length peers))"] rest [OF d(2-4)]
    show ?thesis unfolding d(1) by blast
  qed
qed simp

lemma rotation_covers:
  fixes L :: nat
  assumes "j < L"
  shows "\<exists>k<L. (a + k) mod L = j"
proof -
  let ?k = "(j + (L - a mod L)) mod L"
  have "(a + ?k) mod L = (a mod L + (j + (L - a mod L))) mod L" by (metis mod_add_eq mod_mod_trivial)
  also have "a mod L + (j + (L - a mod L)) = j + L" using assms mod_less_divisor [of L a] by linarith
  finally have "(a + ?k) mod L = j" using assms by simp
  moreover have "?k < L" using assms by simp
  ultimately show ?thesis by blast
qed

text \<open>C23. The search for a relay goes once around the known peers, from where the last search stopped:
  it answers a peer that is not the target, whose metadata are known, that does not refuse relaying
  and whose NAT lets it relay, and it answers none only when there is no such peer.\<close>
theorem relay_selection_complete:
  assumes "cache_ok (pn_peerMap c)" and "unat (pn_relayPeerIndex c) + length peers < 2 ^ 64"
    and "\<forall>s\<in>set peers. ps_PeerID s \<noteq> []"
  shows "if \<exists>s\<in>set peers. relay_eligible c target s
    then \<exists>s\<in>set peers. relay_eligible c target s \<and> snd (select_relay peers target (length peers) c) = ps_PeerID s
    else snd (select_relay peers target (length peers) c) = []"
proof (cases "peers = []")
  case False
  have "length peers < 2 ^ 64" using assms(2) by simp
  note r = select_relay_result [OF assms(1,2) False this assms(3), of target]
  have cov: "\<not> relay_eligible c target s"
    if "\<forall>k<length peers. \<not> relay_eligible c target (peers ! ((unat (pn_relayPeerIndex c) + 1 + k) mod length peers))" "s \<in> set peers" for s
  proof -
    from that(2) obtain j where "j < length peers" "s = peers ! j" by (metis in_set_conv_nth)
    with rotation_covers [of j "length peers" "unat (pn_relayPeerIndex c) + 1"] that(1) show ?thesis by metis
  qed
  show ?thesis
  proof (cases "snd (select_relay peers target (length peers) c) = []")
    case True
    with r cov show ?thesis by auto
  next
    case f: False
    with r show ?thesis by auto
  qed
qed simp

definition demo_meta :: url_values where
  "demo_meta = [''nat'' \<mapsto> [''easy'']]"

definition demo_pn :: "string \<Rightarrow> unit PacketConn" where
  "demo_pn mode = \<lparr>pn_SymmAlgo = None, pn_MinDiscoPeriod = 120 * second, pn_closed = False, pn_udp = demo_conn [3],
     pn_ws = demo_client [1] 5, pn_peers = \<lparr>updateTime = None, cvalue = None\<rparr>,
     pn_peerMap = Put (the (New 1024)) [7] demo_meta, pn_cooling = the (New 1024), pn_mode = mode, pn_relayPeerIndex = 0\<rparr>"

lemma New_1024: "cache_ok (the (New 1024))" "contents (the (New 1024)) = []"
  by (rule conjunct1 [OF New_ok, of 1024] conjunct1 [OF conjunct2 [OF New_ok], of 1024], simp add: New_def)+

lemma Put_New_1024: "contents (Put (the (New 1024)) k v) = [(k, v)]"
  by (simp add: Put_contents New_1024 insert_recent_def)

theorem relay_selection_complete_witness:
  "snd (select_relay [\<lparr>ps_PeerID = [2], ps_Addr = \<lparr>ua_ip = [], ua_port = 1\<rparr>, ps_Last = 0\<rparr>, \<lparr>ps_PeerID = [7], ps_Addr = \<lparr>ua_ip = [], ua_port = 1\<rparr>, ps_Last = 0\<rparr>]
     [2] 2 (demo_pn '''')) = [7]"
proof -
  let ?p = "[\<lparr>ps_PeerID = [2], ps_Addr = \<lparr>ua_ip = [], ua_port = 1\<rparr>, ps_Last = 0\<rparr>, \<lparr>ps_PeerID = [7], ps_Addr = \<lparr>ua_ip = [], ua_port = (1::int)\<rparr>, ps_Last = (0::int)\<rparr>] :: PeerState list"
  have c: "contents (pn_peerMap (demo_pn '''')) = [([7], demo_meta)]"
    by (simp add: demo_pn_def Put_New_1024)
  have e: "relay_eligible (demo_pn '''') [2] (?p ! 1)" "\<not> relay_eligible (demo_pn '''') [2] (?p ! 0)"
    by (simp_all add: relay_eligible_def c can_relay_def demo_meta_def values_of_def first_value_def is_Easy_def Easy_def)
  have "cache_ok (pn_peerMap (demo_pn ''''))" by (simp add: demo_pn_def Put_ok New_1024)
  moreover have "unat (pn_relayPeerIndex (demo_pn '''')) + length ?p < 2 ^ 64" "\<forall>s\<in>set ?p. ps_PeerID s \<noteq> []"
    by (simp_all add: demo_pn_def)
  ultimately have r: "if \<exists>s\<in>set ?p. relay_eligible (demo_pn '''') [2] s
    then \<exists>s\<in>set ?p. relay_eligible (demo_pn '''') [2] s \<and> snd (select_relay ?p [2] (length ?p) (demo_pn '''')) = ps_PeerID s
    else snd (select_relay ?p [2] (length ?p) (demo_pn '''')) = []"
    by (rule relay_selection_complete)
  have l: "length ?p = 2" by simp
  from r [unfolded l] e show ?thesis by (simp del: select_relay.simps)
qed

section \<open>What a write sends\<close>

lemma length_toRelay: "length (toRelay p i) = length p + 5 + length i"
  by (simp add: toRelay_def)

lemma WriteTo_events:
  assumes "WriteTo now (Some p) i u = Some (u', ev, r)"
  shows "(\<forall>x\<in>set ev. \<exists>s a. x = USend s a p) \<and> (\<forall>n. r = Inr n \<longrightarrow> n = length p \<and> ev \<noteq> [])"
  using assms by (auto simp: WriteTo_def writeUDP_def Let_def split: prod.splits option.splits if_splits)

lemma direct_events:
  assumes "direct now p i c = Some (c', ev, r)"
  shows "(\<forall>x\<in>set ev. \<exists>s a. x = PUdp (USend s a p)) \<and> (\<forall>n. r = Inr n \<longrightarrow> n = length p \<and> ev \<noteq> []) \<and> pn_ws c' = pn_ws c"
  using assms WriteTo_events [of now p i "pn_udp c"] by (fastforce simp: direct_def)

lemma relayed_events:
  assumes "relayed now relay p i c = Some (c', ev, r)"
  shows "(\<forall>x\<in>set ev. \<exists>s a. x = PUdp (USend s a (toRelay p i))) \<and>
    (\<forall>n. r = Inr n \<longrightarrow> n = length p + 5 + length i \<and> ev \<noteq> []) \<and> pn_ws c' = pn_ws c"
  using assms WriteTo_events [of now "toRelay p i" relay "pn_udp c"]
  by (fastforce simp: relayed_def RelayTo_def length_toRelay)

lemma select_relay_ws [simp]: "pn_ws (fst (select_relay peers t n c)) = pn_ws c"
  by (induction n arbitrary: c) (auto simp: Let_def PeerMeta_def split: prod.splits option.splits)

lemma selectRelayPeer_ws: "selectRelayPeer str now i c = Some (c', r) \<Longrightarrow> pn_ws c' = pn_ws c"
  by (auto simp: selectRelayPeer_def split: prod.splits option.splits dest: arg_cong [where f = "\<lambda>x. pn_ws (fst x)"])

lemma relayPeer_ws: "relayPeer str now i c = Some (c', r) \<Longrightarrow> pn_ws c' = pn_ws c"
  by (auto simp: relayPeer_def Let_def bind_eq_Some_conv selectRelayPeer_ws case_prod_unfold split: if_splits)

lemma TryLeadDisco_events:
  assumes "TryLeadDisco locked now i c = (c', ev)"
  shows "set ev \<subseteq> {PWs (mask (ws_nonce (pn_ws c)) ([CONTROL_LEAD_DISCO, Len i] @ i))} \<and> pn_ws c' = pn_ws c"
  using assms
  by (auto simp: TryLeadDisco_def Let_def ws_sent_def LeadDisco_def ws_WriteTo_def ws_write_def split: prod.splits if_splits)

lemma server_relayed_events:
  assumes "server_relayed p i c = (c', ev, r)"
  shows "set ev \<subseteq> {PWs (mask (ws_nonce (pn_ws c)) ([CONTROL_RELAY, Len i] @ i @ p))} \<and>
    (\<forall>n. r = Inr n \<longrightarrow> n = length p \<and> ev \<noteq> [])"
  using assms by (auto simp: server_relayed_def Let_def ws_sent_def ws_WriteTo_def ws_write_def split: if_splits)

text \<open>The kinds of packets that a write to a peer can put on the network.\<close>
definition sent_direct :: "bytes \<Rightarrow> p2p_event set" where
  "sent_direct p = {PUdp (USend s a p) | s a. True}"

definition sent_by_peer :: "bytes \<Rightarrow> PeerID \<Rightarrow> p2p_event set" where
  "sent_by_peer p i = {PUdp (USend s a (toRelay p i)) | s a. True}"

definition sent_by_server :: "bytes \<Rightarrow> PeerID \<Rightarrow> u8 \<Rightarrow> p2p_event set" where
  "sent_by_server p i nonce = {PWs (mask nonce ([CONTROL_RELAY, Len i] @ i @ p))}"

definition sent_lead :: "PeerID \<Rightarrow> u8 \<Rightarrow> p2p_event set" where
  "sent_lead i nonce = {PWs (mask nonce ([CONTROL_LEAD_DISCO, Len i] @ i))}"

lemmas sent_defs = sent_direct_def sent_by_peer_def sent_by_server_def sent_lead_def

lemma ex_in_nonempty: "xs \<noteq> [] \<Longrightarrow> set xs \<subseteq> A \<Longrightarrow> \<exists>x\<in>set xs. x \<in> A"
  by (cases xs) auto

text \<open>A write on a connection that is closed or has a forced mode.\<close>
lemma forced_write:
  assumes "p2p_WriteTo str locked now payload (Some i) c = Some (c', ev, r)"
    and "p = TryEncrypt (pn_SymmAlgo c) \<lparr>dg_PeerID = i, dg_Data = payload\<rparr>" and "k = ws_nonce (pn_ws c)"
    and "pn_closed c \<or> pn_mode c = MODE_FORCE_RELAY \<or> pn_mode c = MODE_FORCE_PEER_RELAY"
  shows "set ev \<subseteq> (if pn_mode c = MODE_FORCE_RELAY then sent_by_server p i k
      else if pn_mode c = MODE_FORCE_PEER_RELAY then sent_by_peer p i
      else sent_direct p \<union> sent_by_peer p i \<union> sent_by_server p i k \<union> sent_lead i k) \<and>
    (\<forall>n. r = Inr n \<longrightarrow> (\<exists>x\<in>set ev. (x \<in> sent_direct p \<or> x \<in> sent_by_server p i k) \<and> n = length p \<or>
       x \<in> sent_by_peer p i \<and> n = length p + 5 + length i))"
proof -
  from assms(4) consider (closed) "pn_closed c" | (server) "\<not> pn_closed c" "pn_mode c = MODE_FORCE_RELAY"
    | (peer) "\<not> pn_closed c" "pn_mode c = MODE_FORCE_PEER_RELAY" by blast
  then show ?thesis
  proof cases
    case closed
    with assms(1) show ?thesis by (auto simp: p2p_WriteTo_def)
  next
    case server
    with assms(1,2) have "server_relayed p i c = (c', ev, r)" by (simp add: p2p_WriteTo_def)
    from server_relayed_events [OF this] server show ?thesis
      by (cases ev) (auto simp: sent_defs assms(3))
  next
    case peer
    then have m: "pn_mode c \<noteq> MODE_FORCE_RELAY" by (simp add: transport_modes)
    with peer assms(1,2) obtain c1 relay where rp: "relayPeer str now i c = Some (c1, relay)"
      "(relay = [] \<and> ev = [] \<and> r = Inl ErrNoRelayPeer) \<or>
       (\<exists>r1. relayed now relay p i c1 = Some (c', ev, r1) \<and> r = map_sum UdpErr id r1)"
      by (fastforce simp: p2p_WriteTo_def Let_def bind_eq_Some_conv split: if_splits)
    from rp(2) show ?thesis
    proof
      assume "\<exists>r1. relayed now relay p i c1 = Some (c', ev, r1) \<and> r = map_sum UdpErr id r1"
      then obtain r1 where r1: "relayed now relay p i c1 = Some (c', ev, r1)" "r = map_sum UdpErr id r1" by blast
      from relayed_events [OF r1(1)] have e: "set ev \<subseteq> sent_by_peer p i" "\<forall>n. r1 = Inr n \<longrightarrow> n = length p + 5 + length i \<and> ev \<noteq> []"
        by (auto simp: sent_defs)
      with ex_in_nonempty [OF _ e(1)] r1(2) m peer show ?thesis by (cases r1) auto
    qed (simp add: m peer)
  qed
qed

text \<open>A write that tries the direct path, then another peer, then the server.\<close>
lemma default_write:
  assumes "p2p_WriteTo str locked now payload (Some i) c = Some (c', ev, r)"
    and "p = TryEncrypt (pn_SymmAlgo c) \<lparr>dg_PeerID = i, dg_Data = payload\<rparr>" and "k = ws_nonce (pn_ws c)"
    and "\<not> (pn_closed c \<or> pn_mode c = MODE_FORCE_RELAY \<or> pn_mode c = MODE_FORCE_PEER_RELAY)"
  shows "set ev \<subseteq> sent_direct p \<union> sent_by_peer p i \<union> sent_by_server p i k \<union> sent_lead i k \<and>
    (\<forall>n. r = Inr n \<longrightarrow> (\<exists>x\<in>set ev. (x \<in> sent_direct p \<or> x \<in> sent_by_server p i k) \<and> n = length p \<or>
       x \<in> sent_by_peer p i \<and> n = length p + 5 + length i))"
proof -
  from assms(4) have m: "\<not> pn_closed c" "pn_mode c \<noteq> MODE_FORCE_RELAY" "pn_mode c \<noteq> MODE_FORCE_PEER_RELAY" by blast+
  from m assms(1,2) obtain c1 ev1 r1 where d: "direct now p i c = Some (c1, ev1, r1)" by (auto simp: p2p_WriteTo_def Let_def bind_eq_Some_conv)
  from direct_events [OF d] have d1: "set ev1 \<subseteq> sent_direct p" "\<forall>n. r1 = Inr n \<longrightarrow> n = length p \<and> ev1 \<noteq> []" "pn_ws c1 = pn_ws c"
    by (auto simp: sent_defs)
  show ?thesis
  proof (cases r1)
    case (Inr n)
    with d m assms(1,2) have "ev = ev1" "r = Inr n" by (auto simp: p2p_WriteTo_def Let_def)
    with ex_in_nonempty [OF _ d1(1)] d1 Inr m show ?thesis by auto
  next
    case (Inl e1)
    let ?t = "if e1 = ErrUDPConnInactive then (c1, []) else TryLeadDisco locked now i c1"
    obtain c2 ev2 where t: "?t = (c2, ev2)" by fastforce
    have t2: "set ev2 \<subseteq> sent_lead i k" "pn_ws c2 = pn_ws c"
      using t TryLeadDisco_events [of locked now i c1 c2 ev2] d1(3) by (auto simp: sent_defs assms(3) split: if_splits)
    from d Inl m assms(1,2) t obtain c3 relay where rp: "relayPeer str now i c2 = Some (c3, relay)"
      by (auto simp: p2p_WriteTo_def Let_def bind_eq_Some_conv)
    let ?o = "try_relay now relay p i c3"
    have "?o \<noteq> None" using d Inl m assms(1,2) t rp
      by (intro notI) (simp add: p2p_WriteTo_def Let_def)
    then obtain c4 ev4 ok where o: "?o = Some (c4, ev4, ok)" by (metis option.exhaust prod_cases3)
    have o4: "set ev4 \<subseteq> sent_by_peer p i" "\<forall>n. ok = Inr n \<longrightarrow> n = length p + 5 + length i \<and> ev4 \<noteq> []" "pn_ws c4 = pn_ws c"
      using o [unfolded try_relay_def] relayed_events [of now relay p i c3 c4 ev4 ok] relayPeer_ws [OF rp] t2(2) by (auto simp: sent_defs split: if_splits)
    have res: "(case ok of Inr n \<Rightarrow> Some (c4, ev1 @ ev2 @ ev4, Inr n)
        | Inl _ \<Rightarrow> (let (c5, ev5, r5) = server_relayed p i c4 in Some (c5, ev1 @ ev2 @ ev4 @ ev5, r5))) = Some (c', ev, r)"
      using d Inl m assms(1,2) t rp o by (simp add: p2p_WriteTo_def Let_def split: sum.splits)
    show ?thesis
    proof (cases ok)
      case (Inr n)
      with res have "ev = ev1 @ ev2 @ ev4" "r = Inr n" by auto
      with ex_in_nonempty [OF _ o4(1)] o4(2) d1(1) t2(1) o4(1) Inr m show ?thesis by auto
    next
      case (Inl e)
      obtain c5 ev5 r5 where s: "server_relayed p i c4 = (c5, ev5, r5)" by (metis prod_cases3)
      from server_relayed_events [OF s] have s5: "set ev5 \<subseteq> sent_by_server p i k" "\<forall>n. r5 = Inr n \<longrightarrow> n = length p \<and> ev5 \<noteq> []"
        using o4(3) by (auto simp: sent_defs assms(3))
      from res Inl s have "ev = ev1 @ ev2 @ ev4 @ ev5" "r = r5" by auto
      with ex_in_nonempty [OF _ s5(1)] s5(2) d1(1) t2(1) o4(1) s5(1) m show ?thesis by auto
    qed
  qed
qed



section \<open>Through the server\<close>

text \<open>Two ciphers that belong together: what one encrypts for \<open>B\<close>, the other decrypts as coming from
  \<open>A\<close>. Two nodes without cipher belong together too.\<close>
definition algs_match :: "'e SymmAlgo option \<Rightarrow> 'f SymmAlgo option \<Rightarrow> PeerID \<Rightarrow> PeerID \<Rightarrow> bool" where
  "algs_match a b A B =
     (case a of
        None \<Rightarrow> b = None
      | Some x \<Rightarrow>
          (case b of None \<Rightarrow> False
           | Some y \<Rightarrow> (\<forall>m. \<exists>c. alg_Encrypt x m B = Inr c \<and> alg_Decrypt y c A = Inr m)))"

lemma algs_match_roundtrip:
  "algs_match a b A B \<Longrightarrow>
   TryDecrypt b \<lparr>dg_PeerID = A, dg_Data = TryEncrypt a \<lparr>dg_PeerID = B, dg_Data = m\<rparr>\<rparr> = m"
  by (auto simp: algs_match_def TryDecrypt_def TryEncrypt_def split: option.splits dest!: spec [of _ m])

lemma relay_not_handled: "op \<in> {CONTROL_RELAY, CONTROL_NEW_PEER_UDP_ADDR} \<Longrightarrow> op \<notin> {CONTROL_CONN, CONTROL_UPDATE_NAT_INFO, CONTROL_LEAD_DISCO}"
  by (auto simp: control_codes)

text \<open>A payload on the path over the server.\<close>
lemma server_path:
  assumes "pm_peers pm h = Some p" and "getPeer (network_of p) B pm = Some t" and "t \<noteq> h"
    and "pm_peers pm t = Some q" and "pc_conn q" and "pc_open q" and "length (pc_id p) \<le> 253" and "length B \<le> 253"
    and "\<not> pn_closed ca" and "pn_mode ca = MODE_FORCE_RELAY" and "ws_raw (pn_ws ca)" and "ws_nonce (pn_ws ca) = pc_nonce p"
    and "ws_nonce (pn_ws cb) = pc_nonce q" and "algs_match (pn_SymmAlgo ca) (pn_SymmAlgo cb) (pc_id p) B"
  shows "\<exists>w w' pm' wb x n. p2p_WriteTo str locked now payload (Some B) ca = Some (ca, [PWs w], Inr n) \<and>
    readMessage e now' h (GSlice w sp) pm = Some (pm', [PmSend t w']) \<and>
    ws_recv parse resolve unjson now'' (GSlice w' sp') (pn_ws cb) = Some (wb, [WDatagram (pc_id p) x]) \<and>
    ReadFrom m (FromWs (Some \<lparr>dg_PeerID = pc_id p, dg_Data = x\<rparr>)) (cb\<lparr>pn_ws := wb\<rparr>) = Inr (take m payload, pc_id p)"
proof -
  let ?x = "TryEncrypt (pn_SymmAlgo ca) \<lparr>dg_PeerID = B, dg_Data = payload\<rparr>"
  let ?w = "mask (pc_nonce p) ([CONTROL_RELAY] @ [Len B] @ B @ ?x)"
  have "p2p_WriteTo str locked now payload (Some B) ca = Some (ca, [PWs ?w], Inr (length ?x))"
    using assms(9-12) by (simp add: p2p_WriteTo_def server_relayed_def ws_WriteTo_def ws_write_def ws_sent_def Let_def)
  moreover obtain pm' where "readMessage e now' h (GSlice ?w sp) pm =
      Some (pm', [PmSend t (mask (pc_nonce q) ([CONTROL_RELAY] @ [Len (pc_id p)] @ pc_id p @ ?x))])"
    using server_passes_frame [OF assms(1-8) relay_not_handled, of CONTROL_RELAY e now' ?x sp] by auto
  moreover note ws_recv_frame [OF assms(7,13), of parse resolve unjson now'' ?x sp']
  moreover have "ReadFrom m (FromWs (Some \<lparr>dg_PeerID = pc_id p, dg_Data = ?x\<rparr>)) (cb\<lparr>pn_ws := wb\<rparr>) = Inr (take m payload, pc_id p)" for wb
    using algs_match_roundtrip [OF assms(14), of payload] by (simp add: ReadFrom_def p2p_read_def)
  ultimately show ?thesis by blast
qed

text \<open>End to end through the server: a payload that a node writes to a visible peer over the server
  comes out of the read of that peer as the same payload, cut to the buffer, with the writer's id, when
  both have ciphers that belong together or none.\<close>
theorem end_to_end_through_server:
  assumes "pm_peers pm h = Some p" and "getPeer (network_of p) B pm = Some t" and "t \<noteq> h"
    and "pm_peers pm t = Some q" and "pc_conn q" and "pc_open q" and "length (pc_id p) \<le> 253" and "length B \<le> 253"
    and "\<not> pn_closed ca" and "pn_mode ca = MODE_FORCE_RELAY" and "ws_raw (pn_ws ca)" and "ws_nonce (pn_ws ca) = pc_nonce p"
    and "ws_nonce (pn_ws cb) = pc_nonce q" and "algs_match (pn_SymmAlgo ca) (pn_SymmAlgo cb) (pc_id p) B"
  shows "\<exists>w w' pm' wb x n. p2p_WriteTo str locked now payload (Some B) ca = Some (ca, [PWs w], Inr n) \<and>
    readMessage e now' h (GSlice w sp) pm = Some (pm', [PmSend t w']) \<and>
    ws_recv parse resolve unjson now'' (GSlice w' sp') (pn_ws cb) = Some (wb, [WDatagram (pc_id p) x]) \<and>
    ReadFrom m (FromWs (Some \<lparr>dg_PeerID = pc_id p, dg_Data = x\<rparr>)) (cb\<lparr>pn_ws := wb\<rparr>) = Inr (take m payload, pc_id p)"
  by (rule server_path [OF assms])

text \<open>A toy cipher: encryption flips every byte.\<close>
definition flip_alg :: "unit SymmAlgo" where
  "flip_alg = \<lparr>alg_Encrypt = (\<lambda>b k. Inr (map (\<lambda>x. x XOR 255) b)), alg_Decrypt = (\<lambda>b k. Inr (map (\<lambda>x. x XOR 255) b))\<rparr>"

lemma flip_match: "algs_match (Some flip_alg) (Some flip_alg) A B"
  by (simp add: algs_match_def flip_alg_def comp_def xor.assoc)

definition demo_node :: "PeerID \<Rightarrow> u8 \<Rightarrow> unit PacketConn" where
  "demo_node i k = (demo_pn MODE_FORCE_RELAY)\<lparr>pn_SymmAlgo := Some flip_alg, pn_ws := demo_client i k\<rparr>"

lemma demo_server:
  "pm_peers demo_pm 0 = Some (demo_peer [1] 5)" "pm_peers demo_pm 1 = Some (demo_peer [2] 6)"
  "getPeer (network_of (demo_peer [1] 5)) [2] demo_pm = Some 1"
  by (simp_all add: demo_pm_def getPeer_def getNetwork_def demo_peer_def newNetworkContext_def ctx_getPeer_def)

lemma demo_simps [simp]:
  "pn_ws (demo_node i k) = demo_client i k" "pn_mode (demo_node i k) = MODE_FORCE_RELAY" "\<not> pn_closed (demo_node i k)"
  "pn_SymmAlgo (demo_node i k) = Some flip_alg" "ws_raw (demo_client i k)" "ws_nonce (demo_client i k) = k"
  "pc_id (demo_peer i k) = i" "pc_nonce (demo_peer i k) = k" "pc_conn (demo_peer i k)" "pc_open (demo_peer i k)"
  by (simp_all add: demo_node_def demo_pn_def demo_client_def demo_peer_def)

theorem end_to_end_through_server_witness:
  "\<exists>w w' pm' wb x n. p2p_WriteTo (\<lambda>_. ''x'') True 0 [9, 8] (Some [2]) (demo_node [1] 5) = Some (demo_node [1] 5, [PWs w], Inr n) \<and>
    readMessage demo_env 0 0 (GSlice w []) demo_pm = Some (pm', [PmSend 1 w']) \<and>
    ws_recv (\<lambda>_. Map.empty) (\<lambda>_. None) (\<lambda>_. None) 0 (GSlice w' []) (pn_ws (demo_node [2] 6)) = Some (wb, [WDatagram [1] x]) \<and>
    ReadFrom 1 (FromWs (Some \<lparr>dg_PeerID = [1], dg_Data = x\<rparr>)) (demo_node [2] 6\<lparr>pn_ws := wb\<rparr>) = Inr ([9], [1])"
proof -
  have m: "algs_match (pn_SymmAlgo (demo_node [1] 5)) (pn_SymmAlgo (demo_node [2] 6)) (pc_id (demo_peer [1] 5)) [2]"
    by (simp add: flip_match)
  from end_to_end_through_server [OF demo_server(1,3) _ demo_server(2) _ _ _ _ _ _ _ _ _ m, of "\<lambda>_. ''x''" True 0 "[9, 8]" demo_env 0 "[]" "\<lambda>_. Map.empty" "\<lambda>_. None" "\<lambda>_. None" 0 "[]" 1]
  show ?thesis by simp
qed

text \<open>Failures of the cipher fall back to plaintext: when the encryption for a peer fails, the write
  sends the payload unencrypted, and bytes whose decryption fails are delivered as they are, as data of
  the peer.\<close>
theorem cipher_failure_falls_back:
  assumes "pn_SymmAlgo c = Some a" and "alg_Encrypt a payload i = Inl er" and "alg_Decrypt a forged i = Inl er'"
    and "\<not> pn_closed c" and "pn_mode c = MODE_FORCE_RELAY" and "ws_raw (pn_ws c)"
  shows "p2p_WriteTo str locked now payload (Some i) c =
      Some (c, [PWs (mask (ws_nonce (pn_ws c)) ([CONTROL_RELAY, Len i] @ i @ payload))], Inr (length payload)) \<and>
    ReadFrom n (FromWs (Some \<lparr>dg_PeerID = i, dg_Data = forged\<rparr>)) c = Inr (take n forged, i) \<and>
    ReadFrom n (FromUdp (Some \<lparr>dg_PeerID = i, dg_Data = forged\<rparr>)) c = Inr (take n forged, i)"
  using assms
  by (simp add: p2p_WriteTo_def server_relayed_def ws_WriteTo_def ws_write_def ws_sent_def TryEncrypt_def TryDecrypt_def ReadFrom_def p2p_read_def Let_def)

theorem cipher_failure_falls_back_witness:
  "\<exists>c :: unit PacketConn. p2p_WriteTo (\<lambda>_. ''x'') True 0 [7] (Some [2]) c = Some (c, [PWs (mask 5 [0, 1, 2, 7])], Inr 1) \<and> pn_SymmAlgo c \<noteq> None"
proof -
  let ?a = "\<lparr>alg_Encrypt = (\<lambda>b k. Inl ()), alg_Decrypt = (\<lambda>b k. Inl ())\<rparr>"
  let ?c = "(demo_node [1] 5)\<lparr>pn_SymmAlgo := Some ?a\<rparr>"
  from cipher_failure_falls_back [of ?c ?a "[7]" "[2]" "()" "[7]" "()" "\<lambda>_. ''x''" True 0 1]
  have "p2p_WriteTo (\<lambda>_. ''x'') True 0 [7] (Some [2]) ?c = Some (?c, [PWs (mask 5 [0, 1, 2, 7])], Inr 1)"
    by (simp add: demo_node_def demo_pn_def demo_client_def Len_def control_codes)
  then show ?thesis by (intro exI [of _ ?c]) simp
qed

section \<open>Exchange of endpoints\<close>

lemma char_roundtrip: "map (char_of \<circ> uint) (map of_char t :: bytes) = t"
proof -
  have "char_of (uint (of_char c :: u8)) = c" for c
  proof -
    have "uint (of_char c :: u8) = of_char c" by (simp add: uint_word_of_int_eq [symmetric] of_char_def unsigned_of_int)
    then show ?thesis by simp
  qed
  then show ?thesis by (simp add: comp_def)
qed

lemma sl_middle:
  assumes "length u = n"
  shows "sl_range (GSlice (u @ a @ t) sp) n (n + length a) = Some (GSlice a (t @ sp))"
    and "sl_from (GSlice (u @ a @ t) sp) (n + length a) = Some (GSlice t sp)"
  using assms by (auto simp: sl_range_def sl_cap_def sl_from_def sl_len_def)

text \<open>The endpoint message parses back, when the id and the address fit into the byte arithmetic.\<close>
lemma endpoint_parses:
  assumes "length i + 4 + length (str (ep_Addr ep)) \<le> 255" and "resolve (map of_char (str (ep_Addr ep))) = Some (ep_Addr ep)"
  shows "handle_udp_addr resolve (GSlice ([op] @ [Len i] @ i @ endpoint_data str ep) sp) = Some [WEndpoint i (ep_Addr ep) (ep_Type ep)]"
proof -
  let ?a = "map of_char (str (ep_Addr ep)) :: bytes" and ?t = "map of_char (ep_Type ep) :: bytes"
  let ?f = "GSlice ([op] @ [Len i] @ i @ endpoint_data str ep) sp"
  have i: "length i \<le> 253" using assms(1) by simp
  have d: "endpoint_data str ep = [0x61] @ [Len ?a] @ ?a @ ?t" by (simp add: endpoint_data_def Let_def)
  have u: "unat (Len i + 2) = length i + 2" "unat (Len i + 3) = length i + 3" "unat (Len i + 4) = length i + 4"
    "unat (Len i + 4 + Len ?a) = length i + 4 + length ?a"
    using assms(1) by (simp_all add: Len_def unat_word_ariths unat_of_nat)
  have "sl_index ?f 1 = Some (Len i)" "sl_index ?f (length i + 2) = Some 0x61" "sl_index ?f (length i + 3) = Some (Len ?a)"
    unfolding d by (simp_all add: sl_index_def sl_len_def nth_append nth_Cons')
  moreover have "sl_range ?f (length i + 4) (length i + 4 + length ?a) = Some (GSlice ?a (?t @ sp))"
    "sl_from ?f (length i + 4 + length ?a) = Some (GSlice ?t sp)"
    using sl_middle [of "[op] @ [Len i] @ i @ [0x61] @ [Len ?a]" "length i + 4" ?a ?t sp] unfolding d by simp_all
  moreover note u assms(2) frame_parts(2) [OF i, of op "endpoint_data str ep" sp]
  ultimately show ?thesis
    by (simp del: append_Cons append_Nil map_map add: handle_udp_addr_def Let_def char_roundtrip)
qed

text \<open>C22. The endpoint exchange: the message in which a node tells a peer one of its addresses is relayed by
  the server and makes the peer challenge exactly that address, with its NAT type, as an endpoint of
  the sender, when the id and the text of the address together have at most 251 bytes.\<close>
theorem endpoint_exchange:
  assumes "pm_peers pm h = Some p" and "getPeer (network_of p) (ep_ID ep) pm = Some t" and "t \<noteq> h"
    and "pm_peers pm t = Some q" and "pc_conn q" and "pc_open q" and "length (ep_ID ep) \<le> 253"
    and "length (pc_id p) + 4 + length (str (ep_Addr ep)) \<le> 255"
    and "ws_raw (pn_ws ca)" and "ws_nonce (pn_ws ca) = pc_nonce p" and "ws_nonce (pn_ws cb) = pc_nonce q"
    and "resolve (map of_char (str (ep_Addr ep))) = Some (ep_Addr ep)"
  shows "\<exists>w w' pm' wb. sendEndpoint str ep ca = Inr w \<and>
    readMessage e now h (GSlice w sp) pm = Some (pm', [PmSend t w']) \<and>
    ws_recv parse resolve unjson now' (GSlice w' sp') (pn_ws cb) = Some (wb, [WEndpoint (pc_id p) (ep_Addr ep) (ep_Type ep)]) \<and>
    snd (handleEvent CONTROL_NEW_PEER_UDP_ADDR (Some (WEndpoint (pc_id p) (ep_Addr ep) (ep_Type ep))) cb) = [Challenge (ep\<lparr>ep_ID := pc_id p\<rparr>)]"
proof -
  let ?op = "CONTROL_NEW_PEER_UDP_ADDR"
  let ?w = "mask (pc_nonce p) ([?op] @ [Len (ep_ID ep)] @ ep_ID ep @ endpoint_data str ep)"
  let ?g = "[?op] @ [Len (pc_id p)] @ pc_id p @ endpoint_data str ep"
  have i: "length (pc_id p) \<le> 253" using assms(8) by simp
  have "sendEndpoint str ep ca = Inr ?w" using assms(9,10) by (simp add: sendEndpoint_def ws_WriteTo_def ws_write_def)
  moreover obtain pm' where "readMessage e now h (GSlice ?w sp) pm = Some (pm', [PmSend t (mask (pc_nonce q) ?g)])"
    using server_passes_frame [OF assms(1-6) i assms(7) relay_not_handled, of ?op e now "endpoint_data str ep" sp] by auto
  moreover have "ws_recv parse resolve unjson now' (GSlice (mask (pc_nonce q) ?g) sp') (pn_ws cb) =
      Some ((pn_ws cb)\<lparr>ws_active := now'\<rparr>, [WEndpoint (pc_id p) (ep_Addr ep) (ep_Type ep)])"
    using frame_parts(1) [OF i, of ?op "endpoint_data str ep" sp'] endpoint_parses [of "pc_id p" str ep resolve ?op sp'] assms(8,11,12)
    by (simp del: append_Cons append_Nil add: ws_recv_def handleEvents_def control_codes)
  moreover have "snd (handleEvent ?op (Some (WEndpoint (pc_id p) (ep_Addr ep) (ep_Type ep))) cb) = [Challenge (ep\<lparr>ep_ID := pc_id p\<rparr>)]"
    by (cases ep) (simp add: handleEvent_def)
  ultimately show ?thesis by blast
qed

theorem endpoint_exchange_witness:
  "\<exists>w w' pm' wb. sendEndpoint (\<lambda>_. ''a:1'') \<lparr>ep_ID = [2], ep_Addr = \<lparr>ua_ip = [1, 2, 3, 4], ua_port = 1\<rparr>, ep_Type = Easy\<rparr> (demo_node [1] 5) = Inr w \<and>
    readMessage demo_env 0 0 (GSlice w []) demo_pm = Some (pm', [PmSend 1 w']) \<and>
    ws_recv (\<lambda>_. Map.empty) (\<lambda>_. Some \<lparr>ua_ip = [1, 2, 3, 4], ua_port = 1\<rparr>) (\<lambda>_. None) 0 (GSlice w' []) (pn_ws (demo_node [2] 6)) =
      Some (wb, [WEndpoint [1] \<lparr>ua_ip = [1, 2, 3, 4], ua_port = 1\<rparr> Easy])"
proof -
  let ?ep = "\<lparr>ep_ID = [2], ep_Addr = \<lparr>ua_ip = [1, 2, 3, 4], ua_port = 1\<rparr>, ep_Type = Easy\<rparr> :: Endpoint"
  have g: "getPeer (network_of (demo_peer [1] 5)) (ep_ID ?ep) demo_pm = Some 1" using demo_server(3) by simp
  from endpoint_exchange [OF demo_server(1) g _ demo_server(2), of "\<lambda>_. ''a:1''" "demo_node [1] 5" "demo_node [2] 6"
      "\<lambda>_. Some \<lparr>ua_ip = [1, 2, 3, 4], ua_port = 1\<rparr>" demo_env 0 "[]" "\<lambda>_. Map.empty" "\<lambda>_. None" 0 "[]"]
  show ?thesis by auto
qed

section \<open>Cooling of discoveries\<close>

definition lead_due :: "'e PacketConn \<Rightarrow> int \<Rightarrow> PeerID \<Rightarrow> bool" where
  "lead_due c now i \<longleftrightarrow>
     (case map_of (contents (pn_cooling c)) i of None \<Rightarrow> True | Some l \<Rightarrow> pn_MinDiscoPeriod c < now - l)"

text \<open>Discoveries cool down: a discovery of a peer is requested exactly when none was requested within
  the minimal period, as far as the cache remembers, and a second one within the period after it is
  never sent, whatever the other goroutines hold.\<close>
theorem lead_disco_cools_down:
  assumes "cache_ok (pn_cooling c)" and "TryLeadDisco True now i c = (c', ev)"
  shows "(ws_raw (pn_ws c) \<longrightarrow> (ev \<noteq> [] \<longleftrightarrow> lead_due c now i)) \<and>
    (lead_due c now i \<longrightarrow> now' - now \<le> pn_MinDiscoPeriod c \<longrightarrow> snd (TryLeadDisco locked now' i c') = [])"
proof -
  obtain cool r where g: "Get (pn_cooling c) i = (cool, r)" by fastforce
  have r: "r = map_of (contents (pn_cooling c)) i" using Get_value [OF assms(1), of i] g by simp
  have ok: "cache_ok cool" using Get_ok [OF assms(1), of i] g by simp
  have "snd (Get (Put cool i now) i) = Some now" by (rule lru.get_put_same [OF ok])
  then obtain cool' where g': "Get (Put cool i now) i = (cool', Some now)" by (cases "Get (Put cool i now) i") auto
  show ?thesis
  proof (cases "lead_due c now i")
    case True
    then have "c' = c\<lparr>pn_cooling := Put cool i now\<rparr>" "ev = ws_sent (LeadDisco i (pn_ws c))"
      using assms(2) g r by (auto simp: TryLeadDisco_def lead_due_def Let_def split: option.splits)
    with True g' show ?thesis
      by (auto simp: TryLeadDisco_def ws_sent_def LeadDisco_def ws_WriteTo_def ws_write_def Let_def)
  next
    case False
    then show ?thesis
      using assms(2) g r by (auto simp: TryLeadDisco_def lead_due_def Let_def split: option.splits)
  qed
qed

theorem lead_disco_cools_down_witness:
  "\<exists>c' ev. TryLeadDisco True 7 [2] (demo_node [1] 5) = (c', ev) \<and> ev \<noteq> [] \<and> snd (TryLeadDisco True 8 [2] c') = []"
proof -
  obtain c' ev where t: "TryLeadDisco True 7 [2] (demo_node [1] 5) = (c', ev)" by fastforce
  have "cache_ok (pn_cooling (demo_node [1] 5))" "lead_due (demo_node [1] 5) 7 [2]" "(1::int) \<le> pn_MinDiscoPeriod (demo_node [1] 5)"
    by (simp_all add: demo_node_def demo_pn_def New_1024 lead_due_def second_def)
  with lead_disco_cools_down [OF _ t, of 8 True] t show ?thesis by auto
qed

section \<open>Identities\<close>

text \<open>The laws of the library's X25519 and base58 on the keys it accepts.\<close>
definition curve_ok :: "curve \<Rightarrow> bool" where
  "curve_ok cv \<longleftrightarrow> (\<forall>b. b58_Decode cv (b58_Encode cv b) = b) \<and>
     (\<forall>x k. cv_private cv x = Some k \<longrightarrow> cv_public cv (cv_pub cv k) = Some (cv_pub cv k)) \<and>
     (\<forall>x k y l. cv_private cv x = Some k \<longrightarrow> cv_private cv y = Some l \<longrightarrow>
        cv_ECDH cv k (cv_pub cv l) = cv_ECDH cv l (cv_pub cv k))"

text \<open>Identities: two nodes with generated keys, whatever their other options before, get their public
  keys as ids and derive the same secret for each other from these ids; an option that sets an id by
  hand is an error after the key and is overridden by a key set later, and a second key is an
  error.\<close>
theorem secure_ids_share_key:
  assumes "curve_ok cv" and "cv_private cv x = Some k" and "cv_private cv y = Some l"
    and "ListenPeerSecure cv algo (Some x) cfg = Some a" and "ListenPeerSecure cv algo' (Some y) cfg' = Some b"
  shows "pr_ID (po_PeerInfo a) = b58_Encode cv (cv_pub cv k) \<and> po_SymmAlgo a = Some (algo (shared_key cv k)) \<and>
    shared_key cv k (pr_ID (po_PeerInfo b)) = shared_key cv l (pr_ID (po_PeerInfo a)) \<and>
    apply_options [ListenPeerID i] a = None \<and> apply_options [ListenPeerSecure cv algo (Some y)] a = None \<and>
    (po_SymmAlgo cfg = None \<longrightarrow>
       map_option (pr_ID \<circ> po_PeerInfo) (apply_options [ListenPeerID i, ListenPeerSecure cv algo (Some x)] cfg) = Some (pr_ID (po_PeerInfo a)))"
proof -
  have d: "b58_Decode cv (b58_Encode cv z) = z" for z using assms(1) by (simp add: curve_ok_def)
  have p: "cv_public cv (cv_pub cv k) = Some (cv_pub cv k)" "cv_public cv (cv_pub cv l) = Some (cv_pub cv l)"
    "cv_ECDH cv k (cv_pub cv l) = cv_ECDH cv l (cv_pub cv k)"
    using assms(1-3) unfolding curve_ok_def by blast+
  show ?thesis
    using assms(2-5) d p
    by (auto simp: ListenPeerSecure_def ListenPeerCurve25519_def ListenPeerID_def shared_key_def split: if_splits)
qed

definition toy_curve :: curve where
  "toy_curve = \<lparr>cv_private = Some, cv_public = Some, cv_pub = rev, cv_ECDH = (\<lambda>k p. if length k = length p then Some (map2 (XOR) (rev k) p) else None),
     b58_Encode = id, b58_Decode = id\<rparr>"

lemma map2_xor_commute: "length a = length b \<Longrightarrow> map2 (XOR) a (b :: bytes) = map2 (XOR) b a"
  by (induction a b rule: list_induct2) (auto simp: xor.commute)

lemma toy_curve_ok: "curve_ok toy_curve"
  by (auto simp: curve_ok_def toy_curve_def intro: map2_xor_commute)

theorem secure_ids_share_key_witness:
  "\<exists>a b. ListenPeerSecure toy_curve (\<lambda>_. flip_alg) (Some [1, 2]) (default_config [3]) = Some a \<and>
    ListenPeerSecure toy_curve (\<lambda>_. flip_alg) (Some [5, 7]) (default_config [4]) = Some b \<and>
    shared_key toy_curve [1, 2] (pr_ID (po_PeerInfo b)) = shared_key toy_curve [5, 7] (pr_ID (po_PeerInfo a)) \<and>
    apply_options [ListenPeerID [9]] a = None"
proof -
  have k: "cv_private toy_curve z = Some z" for z by (simp add: toy_curve_def)
  obtain a b where ab: "ListenPeerSecure toy_curve (\<lambda>_. flip_alg) (Some [1, 2]) (default_config [3]) = Some a"
    "ListenPeerSecure toy_curve (\<lambda>_. flip_alg) (Some [5, 7]) (default_config [4]) = Some b"
    by (simp add: ListenPeerSecure_def ListenPeerCurve25519_def default_config_def k)
  from secure_ids_share_key [OF toy_curve_ok k k ab, of "[9]"] ab show ?thesis by blast
qed

end
