(* ===== verification/Nic.thy ===== *)
theory Nic
  imports Disco Lru "HOL-Library.AList" "HOL-Library.List_Lexorder" "HOL-Library.Char_ord"
begin

text \<open>
  The virtual network interface (\<open>vpn/nic/nic.go\<close>, \<open>vpn/nic/packet.go\<close>): packets with room for a
  header, the packet pool, the peers by their addresses and the routes. Peers are pointers into a
  store. The caches iterate in the order of a Go map, which is an argument. \<open>net.ParseIP\<close> and the
  other conversions of addresses are arguments.
\<close>

section \<open>Packets\<close>

record Packet =
  pk_buf :: bytes
  pk_offset :: nat

definition IPPacketOffset :: nat where "IPPacketOffset = 16"

text \<open>\<^const>\<open>None\<close> is a panic here and below.\<close>
definition NewPacket :: "nat \<Rightarrow> nat \<Rightarrow> Packet option" where
  "NewPacket offset capa = (if capa < offset then None else Some \<lparr>pk_buf = replicate offset 0, pk_offset = offset\<rparr>)"

definition AsBytes :: "Packet \<Rightarrow> bytes option" where
  "AsBytes p = (if length (pk_buf p) < pk_offset p then None else Some (drop (pk_offset p) (pk_buf p)))"

text \<open>A slice of a packet is never nil, so an empty packet is indexed.\<close>
definition Ver :: "Packet \<Rightarrow> u8 option" where
  "Ver p = do { b \<leftarrow> AsBytes p; x \<leftarrow> lindex b 0; Some (drop_bit 4 x) }"

definition Bytes :: "nat \<Rightarrow> Packet \<Rightarrow> bytes option" where
  "Bytes offset p =
     (if pk_offset p < offset \<or> length (pk_buf p) < offset then None else Some (drop offset (pk_buf p)))"

definition Packet_Write :: "bytes \<Rightarrow> Packet \<Rightarrow> Packet" where
  "Packet_Write b p = p\<lparr>pk_buf := pk_buf p @ b\<rparr>"

definition SetHeader :: "bytes \<Rightarrow> Packet \<Rightarrow> Packet option" where
  "SetHeader header p =
     (if pk_offset p < length header then None
      else Some (p\<lparr>pk_buf := header @ drop (length header) (pk_buf p)\<rparr>))"

definition Packet_Reset :: "Packet \<Rightarrow> Packet" where
  "Packet_Reset p = p\<lparr>pk_buf := take (pk_offset p) (pk_buf p)\<rparr>"

text \<open>The pool gives a packet that was put back, or a new one.\<close>
definition pool_Get :: "nat \<Rightarrow> Packet option \<Rightarrow> Packet option" where
  "pool_Get mtu pooled =
     (case pooled of
        Some p \<Rightarrow> Some p
      | None \<Rightarrow> NewPacket IPPacketOffset ((if mtu \<noteq> 0 then mtu else 65536 - 8 - 40 - IPPacketOffset) + IPPacketOffset))"

definition pool_Put :: "Packet \<Rightarrow> Packet" where
  "pool_Put p = Packet_Reset p"

definition GetPacket :: "nat \<Rightarrow> Packet option \<Rightarrow> bytes \<Rightarrow> Packet option" where
  "GetPacket mtu pooled data = map_option (Packet_Write data) (pool_Get mtu pooled)"

section \<open>The interface\<close>

record nic_Peer =
  np_Addr :: PeerID
  np_IPv4 :: string
  np_IPv6 :: string
  np_Meta :: "url_values option"

record VirtualNIC =
  vn_routing :: "(string, string) Cache"
  vn_peers :: "(string, nat) Cache"
  vn_heap :: "nat \<rightharpoonup> nic_Peer"
  vn_next :: nat

definition vn_init :: VirtualNIC where
  "vn_init = \<lparr>vn_routing = the (New 512), vn_peers = the (New 1024), vn_heap = Map.empty, vn_next = 0\<rparr>"

record ip_lib =
  il_ParseIP :: "string \<Rightarrow> IP"
  il_ParseCIDR :: "string \<Rightarrow> IPNet option"
  il_String :: "IP \<Rightarrow> string"
  il_CIDR :: "IPNet \<Rightarrow> string"

definition peer_at :: "string \<Rightarrow> VirtualNIC \<Rightarrow> VirtualNIC \<times> nic_Peer option" where
  "peer_at ip v = (let (c, r) = Get (vn_peers v) ip in (v\<lparr>vn_peers := c\<rparr>, Option.bind r (vn_heap v)))"

text \<open>The predicate of the route search.\<close>
definition route_covers :: "ip_lib \<Rightarrow> IP \<Rightarrow> string \<Rightarrow> bool" where
  "route_covers il ip k = (case il_ParseCIDR il k of None \<Rightarrow> False | Some n \<Rightarrow> net_contains n ip)"

text \<open>\<open>order\<close> are the keys of the routing cache in the order of the iteration.\<close>
definition GetPeer :: "ip_lib \<Rightarrow> string list \<Rightarrow> string \<Rightarrow> VirtualNIC \<Rightarrow> VirtualNIC \<times> PeerID option" where
  "GetPeer il order ip v =
     (case peer_at ip v of
        (v1, Some p) \<Rightarrow> (v1, Some (np_Addr p))
      | (v1, None) \<Rightarrow>
          (let (rt, found) = Find order (\<lambda>k _. route_covers il (il_ParseIP il ip) k) (vn_routing v1);
               via = (case found of None \<Rightarrow> '''' | Some (_, x) \<Rightarrow> x);
               (v2, r) = peer_at via (v1\<lparr>vn_routing := rt\<rparr>)
           in (v2, if via = '''' then None else map_option np_Addr r)))"

definition AddPeer :: "nic_Peer \<Rightarrow> VirtualNIC \<Rightarrow> VirtualNIC" where
  "AddPeer peer v =
     (let h = vn_next v;
          c1 = (if np_IPv4 peer \<noteq> '''' then Put (vn_peers v) (np_IPv4 peer) h else vn_peers v);
          c2 = (if np_IPv6 peer \<noteq> '''' then Put c1 (np_IPv6 peer) h else c1)
      in v\<lparr>vn_peers := c2, vn_heap := (vn_heap v)(h \<mapsto> peer), vn_next := Suc h\<rparr>)"

definition has_addr :: "VirtualNIC \<Rightarrow> PeerID \<Rightarrow> nat \<Rightarrow> bool" where
  "has_addr v addr h = (case vn_heap v h of None \<Rightarrow> False | Some p \<Rightarrow> np_Addr p = addr)"

definition RemovePeer :: "string list \<Rightarrow> PeerID \<Rightarrow> VirtualNIC \<Rightarrow> VirtualNIC" where
  "RemovePeer order addr v =
     (case Find order (\<lambda>_ h. has_addr v addr h) (vn_peers v) of
        (c, None) \<Rightarrow> v\<lparr>vn_peers := c\<rparr>
      | (c, Some (_, h)) \<Rightarrow>
          (case vn_heap v h of None \<Rightarrow> v | Some p \<Rightarrow> v\<lparr>vn_peers := Del (Del c (np_IPv4 p)) (np_IPv6 p)\<rparr>))"

text \<open>Adding to nil metadata panics.\<close>
definition LabelPeer :: "string list \<Rightarrow> PeerID \<Rightarrow> string \<Rightarrow> VirtualNIC \<Rightarrow> VirtualNIC option" where
  "LabelPeer order addr kv v =
     (case Find order (\<lambda>_ h. has_addr v addr h) (vn_peers v) of
        (c, None) \<Rightarrow> Some (v\<lparr>vn_peers := c\<rparr>)
      | (c, Some (_, h)) \<Rightarrow>
          (case vn_heap v h of None \<Rightarrow> None | Some p \<Rightarrow>
             (case np_Meta p of None \<Rightarrow> None
              | Some m \<Rightarrow>
                  (let p' = p\<lparr>np_Meta := Some (m(''label'' \<mapsto> (case m ''label'' of None \<Rightarrow> [] | Some vs \<Rightarrow> vs) @ [kv]))\<rparr>;
                       c1 = (if np_IPv4 p \<noteq> '''' then Put c (np_IPv4 p) h else c);
                       c2 = (if np_IPv6 p \<noteq> '''' then Put c1 (np_IPv6 p) h else c1)
                   in Some (v\<lparr>vn_peers := c2, vn_heap := (vn_heap v)(h \<mapsto> p')\<rparr>)))))"

definition AddRoute :: "ip_lib \<Rightarrow> IPNet \<Rightarrow> IP \<Rightarrow> VirtualNIC \<Rightarrow> VirtualNIC \<times> bool" where
  "AddRoute il dst via v =
     (if IsUnspecified via then (v, False)
      else (v\<lparr>vn_routing := Put (vn_routing v) (il_CIDR il dst) (il_String il via)\<rparr>, True))"

definition DelRoute :: "ip_lib \<Rightarrow> IPNet \<Rightarrow> IP \<Rightarrow> VirtualNIC \<Rightarrow> VirtualNIC \<times> bool" where
  "DelRoute il dst via v =
     (if IsUnspecified via then (v, False)
      else (v\<lparr>vn_routing := Put (vn_routing v) (il_CIDR il dst) ''''\<rparr>, True))"

text \<open>\<open>Peers\<close>: one peer per address; \<open>order\<close> are the dumped keys in the order of iteration, \<open>order'\<close>
  rearranges the peers in the order of the second map.\<close>
definition nic_Peers :: "string list \<Rightarrow> (nic_Peer list \<Rightarrow> nic_Peer list) \<Rightarrow> VirtualNIC \<Rightarrow> nic_Peer list" where
  "nic_Peers order order' v =
     (let dumped = List.map_filter (\<lambda>k. Option.bind (Dump (vn_peers v) k) (vn_heap v)) order;
          peerMap = fold (\<lambda>p m. AList.update (np_Addr p) p m) dumped []
      in rev (sort_key (\<lambda>p. np_IPv4 p @ np_IPv6 p) (rev (order' (map snd peerMap)))))"

section \<open>Packet lemmas\<close>

text \<open>The invariant of packets: the room for the header is there.\<close>
definition packet_ok :: "Packet \<Rightarrow> bool" where
  "packet_ok p \<longleftrightarrow> pk_offset p \<le> length (pk_buf p)"

inductive packet_reach :: "Packet \<Rightarrow> bool" where
  new: "NewPacket offset capa = Some p \<Longrightarrow> packet_reach p"
| append: "packet_reach p \<Longrightarrow> packet_reach (Packet_Write b p)"
| set_header: "packet_reach p \<Longrightarrow> SetHeader h p = Some q \<Longrightarrow> packet_reach q"
| reset: "packet_reach p \<Longrightarrow> packet_reach (Packet_Reset p)"

lemma packet_reach_ok: "packet_reach p \<Longrightarrow> packet_ok p"
  by (induction rule: packet_reach.induct)
    (auto simp: packet_ok_def NewPacket_def Packet_Write_def SetHeader_def Packet_Reset_def split: if_splits)

lemma AsBytes_ok: "packet_ok p \<Longrightarrow> AsBytes p = Some (drop (pk_offset p) (pk_buf p))"
  by (simp add: AsBytes_def packet_ok_def)

lemma GetPacket_bytes:
  assumes "case pooled of None \<Rightarrow> True | Some q \<Rightarrow> \<exists>p. packet_ok p \<and> q = pool_Put p"
  shows "\<exists>p. GetPacket mtu pooled data = Some p \<and> AsBytes p = Some data \<and> packet_ok p"
proof -
  have "\<exists>q. pool_Get mtu pooled = Some q \<and> length (pk_buf q) = pk_offset q"
    using assms by (auto simp: pool_Get_def NewPacket_def packet_ok_def pool_Put_def Packet_Reset_def split: option.splits)
  then obtain q where q: "pool_Get mtu pooled = Some q" "length (pk_buf q) = pk_offset q" by blast
  then show ?thesis
    by (intro exI [of _ "Packet_Write data q"]) (simp add: GetPacket_def AsBytes_def Packet_Write_def packet_ok_def)
qed

section \<open>Peer lemmas\<close>

text \<open>The first matching key of the iteration decides.\<close>
lemma Find_first:
  assumes "cache_ok c"
  shows "snd (Find ks P c) =
    (case find (\<lambda>k. case map_of (contents c) k of None \<Rightarrow> False | Some x \<Rightarrow> P k x) ks of
       None \<Rightarrow> None | Some k \<Rightarrow> Some (k, the (map_of (contents c) k)))"
proof (induction ks)
  case (Cons k ks)
  show ?case
  proof (cases "cache c k")
    case None
    with Cons contents_map_of [OF assms, of k] show ?thesis by simp
  next
    case (Some e)
    then obtain x where "celem c e = Some (k, x)" using assms by (auto simp: cache_ok_def)
    with Some Cons contents_map_of [OF assms, of k] show ?thesis by simp
  qed
qed simp

lemma Find_keeps:
  assumes "cache_ok c"
  shows "cache_ok (fst (Find ks P c))" "map_of (contents (fst (Find ks P c))) = map_of (contents c)"
  using Find_ok [OF assms, of ks P] map_of_inject_set [OF contents_distinct contents_distinct [OF assms]] by blast+

text \<open>The state of the interface: two caches, with pointers that are allocated.\<close>
definition nic_ok :: "VirtualNIC \<Rightarrow> bool" where
  "nic_ok v \<longleftrightarrow> cache_ok (vn_routing v) \<and> cache_ok (vn_peers v) \<and> capacity (vn_peers v) = 1024 \<and>
     (\<forall>k h. map_of (contents (vn_peers v)) k = Some h \<longrightarrow> h < vn_next v \<and> vn_heap v h \<noteq> None)"

lemma vn_init_ok: "nic_ok vn_init"
  using New_ok [of 1024 "the (New 1024) :: (string, nat) Cache"] New_ok [of 512 "the (New 512) :: (string, string) Cache"]
  by (simp add: nic_ok_def vn_init_def New_def)

lemma Put_lookup:
  assumes "cache_ok c" and "map_of (contents (Put c k x)) j = Some y"
  shows "j = k \<and> y = x \<or> map_of (contents c) j = Some y"
proof -
  have "snd (Get (Put c k x) j) = Some y" using assms by (simp add: Get_value Put_ok)
  then show ?thesis
    using lru.put_other [OF assms(1), of j k x y] lru.get_put_same [OF assms(1), of k x] Get_value [OF assms(1), of j] by (cases "j = k") auto
qed

lemma Del_lookup: "cache_ok c \<Longrightarrow> map_of (contents (Del c k)) j = (if j = k then None else map_of (contents c) j)"
  using Del_ok [of c k] by (simp add: lru.map_of_filter_key)

lemma Del_capacity: "capacity (Del c k) = capacity c"
  by (simp add: Del_def split: option.splits)

lemma Find_capacity: "capacity (fst (Find ks P c)) = capacity c"
  by (induction ks) (auto split: option.splits)

lemma Del_cache_ok: "cache_ok c \<Longrightarrow> cache_ok (Del c k)"
  by (rule conjunct1 [OF Del_ok])

text \<open>What holds of all entries still holds after an insertion of such an entry.\<close>
definition all_entries :: "('v \<Rightarrow> bool) \<Rightarrow> (string, 'v) Cache \<Rightarrow> bool" where
  "all_entries Q c \<longleftrightarrow> (\<forall>k h. map_of (contents c) k = Some h \<longrightarrow> Q h)"

lemma all_entries_Put: "cache_ok c \<Longrightarrow> all_entries Q c \<Longrightarrow> Q x \<Longrightarrow> all_entries Q (Put c k x)"
  unfolding all_entries_def using Put_lookup by metis

lemma all_entries_mono: "all_entries Q c \<Longrightarrow> (\<And>h. Q h \<Longrightarrow> R h) \<Longrightarrow> all_entries R c"
  by (simp add: all_entries_def)

lemma nic_ok_entries:
  "nic_ok v \<longleftrightarrow> cache_ok (vn_routing v) \<and> cache_ok (vn_peers v) \<and> capacity (vn_peers v) = 1024 \<and>
     all_entries (\<lambda>h. h < vn_next v \<and> vn_heap v h \<noteq> None) (vn_peers v)"
  unfolding nic_ok_def all_entries_def by (rule refl)

lemma AddPeer_ok:
  assumes "nic_ok v"
  shows "nic_ok (AddPeer p v)"
proof -
  let ?Q = "\<lambda>h. h < Suc (vn_next v) \<and> ((vn_heap v)(vn_next v \<mapsto> p)) h \<noteq> None"
  have c: "cache_ok (vn_routing v)" "cache_ok (vn_peers v)" "capacity (vn_peers v) = 1024" using assms by (simp_all add: nic_ok_def)
  have q: "all_entries ?Q (vn_peers v)" "?Q (vn_next v)"
    using assms by (auto simp: nic_ok_entries elim: all_entries_mono)
  show ?thesis
    unfolding nic_ok_entries using c q by (simp add: AddPeer_def Let_def Put_ok all_entries_Put)
qed

lemma RemovePeer_ok:
  assumes "nic_ok v"
  shows "nic_ok (RemovePeer order addr v)"
proof -
  let ?f = "Find order (\<lambda>_ h. has_addr v addr h) (vn_peers v)"
  have c: "cache_ok (vn_peers v)" using assms by (simp add: nic_ok_def)
  obtain c1 r where f: "?f = (c1, r)" by fastforce
  have c1: "cache_ok c1" "map_of (contents c1) = map_of (contents (vn_peers v))" "capacity c1 = capacity (vn_peers v)"
    using Find_keeps [OF c] Find_capacity f by (metis fst_conv)+
  show ?thesis
    using assms c1 by (auto simp: RemovePeer_def f nic_ok_def Del_cache_ok Del_lookup Del_capacity split: option.splits if_splits)
qed

lemma LabelPeer_ok:
  assumes "nic_ok v" and "LabelPeer order addr kv v = Some v'"
  shows "nic_ok v'"
proof -
  let ?f = "Find order (\<lambda>_ h. has_addr v addr h) (vn_peers v)"
  have c: "cache_ok (vn_peers v)" using assms by (simp add: nic_ok_def)
  obtain c1 r where f: "?f = (c1, r)" by fastforce
  have c1: "cache_ok c1" "map_of (contents c1) = map_of (contents (vn_peers v))" "capacity c1 = capacity (vn_peers v)"
    using Find_keeps [OF c] Find_capacity f by (metis fst_conv)+
  show ?thesis
  proof (cases r)
    case None
    with assms c1 show ?thesis by (auto simp: LabelPeer_def f nic_ok_def)
  next
    case (Some kh)
    obtain k h where kh: "kh = (k, h)" by fastforce
    then have "map_of (contents (vn_peers v)) k = Some h"
      using Find_ok [OF c, of order "\<lambda>_ h. has_addr v addr h"] f Some by auto
    then have h: "h < vn_next v" using assms(1) by (auto simp: nic_ok_def)
    from assms(2) Some kh obtain p m where p: "vn_heap v h = Some p" "np_Meta p = Some m"
      by (auto simp: LabelPeer_def f split: option.splits)
    let ?Q = "\<lambda>h. h < vn_next v' \<and> vn_heap v' h \<noteq> None"
    from assms(2) Some kh p have v': "vn_next v' = vn_next v" "vn_routing v' = vn_routing v" "\<And>x. vn_heap v x \<noteq> None \<Longrightarrow> vn_heap v' x \<noteq> None" "vn_heap v' h \<noteq> None"
      "vn_peers v' = (let c1 = (if np_IPv4 p \<noteq> '''' then Put c1 (np_IPv4 p) h else c1) in if np_IPv6 p \<noteq> '''' then Put c1 (np_IPv6 p) h else c1)"
      by (auto simp: LabelPeer_def f Let_def)
    have "all_entries ?Q c1" using assms(1) c1(2) v'(1,3) by (simp add: nic_ok_def all_entries_def)
    moreover have "?Q h" using h v'(1,4) by simp
    ultimately show ?thesis
      using assms(1) c1 v'(2) unfolding nic_ok_entries v'(5) by (simp add: Let_def Put_ok all_entries_Put)
  qed
qed

lemma route_ok: "nic_ok v \<Longrightarrow> nic_ok (fst (AddRoute il dst via v))" "nic_ok v \<Longrightarrow> nic_ok (fst (DelRoute il dst via v))"
  by (simp_all add: nic_ok_def AddRoute_def DelRoute_def Put_ok)

lemma peer_at_value: "nic_ok v \<Longrightarrow> snd (peer_at ip v) = Option.bind (map_of (contents (vn_peers v)) ip) (vn_heap v)"
  by (simp add: peer_at_def nic_ok_def Get_value case_prod_unfold Let_def)

lemma peer_at_keeps:
  assumes "nic_ok v"
  shows "vn_heap (fst (peer_at ip v)) = vn_heap v" "vn_routing (fst (peer_at ip v)) = vn_routing v"
    "vn_next (fst (peer_at ip v)) = vn_next v" "map_of (contents (vn_peers (fst (peer_at ip v)))) = map_of (contents (vn_peers v))"
    "nic_ok (fst (peer_at ip v))"
proof -
  have c: "cache_ok (vn_peers v)" using assms by (simp add: nic_ok_def)
  show 1: "vn_heap (fst (peer_at ip v)) = vn_heap v" "vn_routing (fst (peer_at ip v)) = vn_routing v"
    "vn_next (fst (peer_at ip v)) = vn_next v" by (simp_all add: peer_at_def case_prod_unfold Let_def)
  show 2: "map_of (contents (vn_peers (fst (peer_at ip v)))) = map_of (contents (vn_peers v))"
    using map_of_recent [OF contents_distinct [OF c], of ip] by (auto simp: peer_at_def case_prod_unfold Let_def Get_contents [OF c])
  have "cache_ok (vn_peers (fst (peer_at ip v)))" "capacity (vn_peers (fst (peer_at ip v))) = capacity (vn_peers v)"
    using Get_ok [OF c, of ip] by (simp_all add: peer_at_def case_prod_unfold Let_def)
  with assms 1 2 show "nic_ok (fst (peer_at ip v))" by (simp add: nic_ok_def)
qed

text \<open>The answer of \<open>GetPeer\<close>.\<close>
lemma GetPeer_value:
  assumes "nic_ok v"
  shows "snd (GetPeer il order ip v) =
    (case Option.bind (map_of (contents (vn_peers v)) ip) (vn_heap v) of
       Some p \<Rightarrow> Some (np_Addr p)
     | None \<Rightarrow>
         (case find (\<lambda>k. map_of (contents (vn_routing v)) k \<noteq> None \<and> route_covers il (il_ParseIP il ip) k) order of
            None \<Rightarrow> None
          | Some k \<Rightarrow>
              (let via = the (map_of (contents (vn_routing v)) k) in
               if via = '''' then None else map_option np_Addr (Option.bind (map_of (contents (vn_peers v)) via) (vn_heap v)))))"
    and "nic_ok (fst (GetPeer il order ip v))"
proof -
  let ?v1 = "fst (peer_at ip v)" and ?P = "\<lambda>k (_ :: string). route_covers il (il_ParseIP il ip) k"
  note k1 = peer_at_keeps [OF assms, of ip]
  have rt: "cache_ok (vn_routing v)" using assms by (simp add: nic_ok_def)
  obtain rt' found where f: "Find order ?P (vn_routing v) = (rt', found)" by fastforce
  have rt': "cache_ok rt'" using Find_keeps(1) [OF rt, of order ?P] f by simp
  have v2: "nic_ok (?v1\<lparr>vn_routing := rt'\<rparr>)" using k1(5) rt' by (simp add: nic_ok_def)
  have fnd: "found = (case find (\<lambda>k. map_of (contents (vn_routing v)) k \<noteq> None \<and> route_covers il (il_ParseIP il ip) k) order of
      None \<Rightarrow> None | Some k \<Rightarrow> Some (k, the (map_of (contents (vn_routing v)) k)))"
  proof -
    have "(\<lambda>k. case map_of (contents (vn_routing v)) k of None \<Rightarrow> False | Some x \<Rightarrow> ?P k x) =
        (\<lambda>k. map_of (contents (vn_routing v)) k \<noteq> None \<and> route_covers il (il_ParseIP il ip) k)"
      by (auto split: option.splits)
    with Find_first [OF rt, of order ?P] f show ?thesis by simp
  qed
  show "nic_ok (fst (GetPeer il order ip v))"
    using k1(5) peer_at_keeps(5) [OF v2] f k1(2)
    by (auto simp: GetPeer_def case_prod_unfold Let_def split: option.splits)
  show "snd (GetPeer il order ip v) =
    (case Option.bind (map_of (contents (vn_peers v)) ip) (vn_heap v) of
       Some p \<Rightarrow> Some (np_Addr p)
     | None \<Rightarrow>
         (case find (\<lambda>k. map_of (contents (vn_routing v)) k \<noteq> None \<and> route_covers il (il_ParseIP il ip) k) order of
            None \<Rightarrow> None
          | Some k \<Rightarrow>
              (let via = the (map_of (contents (vn_routing v)) k) in
               if via = '''' then None else map_option np_Addr (Option.bind (map_of (contents (vn_peers v)) via) (vn_heap v)))))"
    using peer_at_value [OF assms, of ip] f k1(1,2,4) peer_at_value [OF v2] fnd
    by (cases "snd (peer_at ip v)") (auto simp: GetPeer_def case_prod_unfold Let_def split: option.splits)
qed

inductive nic_reach :: "VirtualNIC \<Rightarrow> bool" where
  start: "nic_reach vn_init"
| get: "nic_reach v \<Longrightarrow> nic_reach (fst (GetPeer il order ip v))"
| add: "nic_reach v \<Longrightarrow> nic_reach (AddPeer p v)"
| remove: "nic_reach v \<Longrightarrow> nic_reach (RemovePeer order a v)"
| label: "nic_reach v \<Longrightarrow> LabelPeer order a kv v = Some v' \<Longrightarrow> nic_reach v'"
| route: "nic_reach v \<Longrightarrow> nic_reach (fst (AddRoute il dst via v))"
| unroute: "nic_reach v \<Longrightarrow> nic_reach (fst (DelRoute il dst via v))"

lemma nic_reach_ok: "nic_reach v \<Longrightarrow> nic_ok v"
  by (induction rule: nic_reach.induct)
    (simp_all add: vn_init_ok GetPeer_value AddPeer_ok RemovePeer_ok LabelPeer_ok route_ok)

lemma insert_recent_head:
  "j \<noteq> k \<Longrightarrow> 2 \<le> n \<Longrightarrow> map_of (insert_recent n k x ((j, y) # r)) j = Some y"
  by (auto simp: insert_recent_def)

lemma AddPeer_lookup:
  assumes "nic_ok v" and "ip \<noteq> ''''" and "ip = np_IPv4 p \<or> ip = np_IPv6 p"
  shows "map_of (contents (vn_peers (AddPeer p v))) ip = Some (vn_next v)"
proof -
  have ok: "cache_ok (vn_peers v)" "capacity (vn_peers v) = 1024" using assms(1) by (simp_all add: nic_ok_def)
  define c1 where "c1 = (if np_IPv4 p \<noteq> '''' then Put (vn_peers v) (np_IPv4 p) (vn_next v) else vn_peers v)"
  have c1: "cache_ok c1" "capacity c1 = 1024" using ok by (simp_all add: c1_def Put_ok)
  have put: "map_of (contents (Put c k x)) k = Some x" if "cache_ok c" for c and k :: string and x :: nat
    using that by (simp add: Put_contents insert_recent_def)
  have new: "vn_peers (AddPeer p v) = (if np_IPv6 p \<noteq> '''' then Put c1 (np_IPv6 p) (vn_next v) else c1)"
    by (simp add: AddPeer_def c1_def Let_def)
  show ?thesis
  proof (cases "ip = np_IPv6 p")
    case True
    with assms(2) put [OF c1(1)] show ?thesis by (simp add: new)
  next
    case False
    with assms(3) have v4: "ip = np_IPv4 p" by simp
    have at: "contents c1 = (ip, vn_next v) # tl (contents c1)"
      using v4 assms(2) ok(1) by (simp add: c1_def Put_contents insert_recent_def)
    show ?thesis
    proof (cases "np_IPv6 p = ''''")
      case True
      with at show ?thesis by (simp add: new) (metis map_of_Cons_code(2))
    next
      case six: False
      have "2 \<le> cap_of c1" using c1(2) by (simp add: cap_of_def)
      from insert_recent_head [OF False this, of "vn_next v" "vn_next v" "tl (contents c1)"] at
      have "map_of (insert_recent (cap_of c1) (np_IPv6 p) (vn_next v) (contents c1)) ip = Some (vn_next v)" by simp
      with six show ?thesis by (simp add: new Put_contents [OF c1(1)])
    qed
  qed
qed

text \<open>A new peer is found at both its addresses.\<close>
lemma AddPeer_GetPeer:
  assumes "nic_ok v" and "ip \<noteq> ''''" and "ip = np_IPv4 p \<or> ip = np_IPv6 p"
  shows "snd (GetPeer il order ip (AddPeer p v)) = Some (np_Addr p)"
proof -
  have "vn_heap (AddPeer p v) (vn_next v) = Some p" by (simp add: AddPeer_def Let_def)
  with AddPeer_lookup [OF assms] show ?thesis by (simp add: GetPeer_value [OF AddPeer_ok [OF assms(1)]])
qed

section \<open>Properties\<close>

definition known :: "VirtualNIC \<Rightarrow> PeerID \<Rightarrow> bool" where
  "known v addr \<longleftrightarrow> (\<exists>k h. map_of (contents (vn_peers v)) k = Some h \<and> has_addr v addr h)"

lemma find_exists: "(\<exists>x\<in>set xs. P x) \<Longrightarrow> \<exists>x. find P xs = Some x \<and> x \<in> set xs \<and> P x"
  by (induction xs) auto

text \<open>An iteration that visits every key finds a matching entry when there is one.\<close>
lemma Find_complete:
  assumes "cache_ok c" and "map_of (contents c) k = Some x" and "P k x" and "k \<in> set ks"
  shows "\<exists>k' x'. snd (Find ks P c) = Some (k', x') \<and> map_of (contents c) k' = Some x' \<and> P k' x'"
proof -
  let ?p = "\<lambda>k. case map_of (contents c) k of None \<Rightarrow> False | Some x \<Rightarrow> P k x"
  have "\<exists>k\<in>set ks. ?p k" using assms(2-4) by (intro bexI [of _ k]) auto
  from find_exists [OF this] obtain k' where k': "find ?p ks = Some k'" "?p k'" by blast
  then show ?thesis by (auto simp: Find_first [OF assms(1)] split: option.splits)
qed

text \<open>Peers of the interface: in every state that operations on it can produce, a peer that is added is
  found at both its addresses whatever the routes are, and removing it, when it is the only one with its
  node address, leaves no entry for that address, whatever order the cache iterates in.\<close>
theorem nic_add_remove_peer:
  assumes "nic_reach v" and "ip \<noteq> ''''" and "ip = np_IPv4 p \<or> ip = np_IPv6 p"
  shows "snd (GetPeer il order ip (AddPeer p v)) = Some (np_Addr p) \<and>
    (\<not> known v (np_Addr p) \<longrightarrow> fst ` set (contents (vn_peers (AddPeer p v))) \<subseteq> set order \<longrightarrow>
      \<not> known (RemovePeer order (np_Addr p) (AddPeer p v)) (np_Addr p))"
proof (intro conjI impI)
  have ok: "nic_ok v" and ok': "nic_ok (AddPeer p v)" using nic_reach_ok assms(1) nic_reach.add by blast+
  have l: "map_of (contents (vn_peers (AddPeer p v))) ip = Some (vn_next v)" by (rule AddPeer_lookup [OF ok assms(2,3)])
  have h: "vn_heap (AddPeer p v) (vn_next v) = Some p" by (simp add: AddPeer_def Let_def)
  show "snd (GetPeer il order ip (AddPeer p v)) = Some (np_Addr p)" by (rule AddPeer_GetPeer [OF ok assms(2,3)])
  assume new: "\<not> known v (np_Addr p)" and all: "fst ` set (contents (vn_peers (AddPeer p v))) \<subseteq> set order"
  let ?v = "AddPeer p v" and ?a = "np_Addr p"
  have c: "cache_ok (vn_peers v)" "cache_ok (vn_peers ?v)" using ok ok' by (simp_all add: nic_ok_def)
  have only: "x = vn_next v \<and> (k = np_IPv4 p \<or> k = np_IPv6 p)" if k: "map_of (contents (vn_peers ?v)) k = Some x" and a: "has_addr ?v ?a x" for k x
  proof -
    have old: "\<not> (map_of (contents (vn_peers v)) k = Some x)"
    proof
      assume o: "map_of (contents (vn_peers v)) k = Some x"
      then have "x \<noteq> vn_next v" using ok by (auto simp: nic_ok_def)
      then have "has_addr v ?a x" using a by (auto simp: has_addr_def AddPeer_def Let_def split: option.splits)
      with o new show False by (auto simp: known_def)
    qed
    let ?c1 = "if np_IPv4 p \<noteq> '''' then Put (vn_peers v) (np_IPv4 p) (vn_next v) else vn_peers v"
    have c1: "cache_ok ?c1" using c by (simp add: Put_ok)
    have "map_of (contents (if np_IPv6 p \<noteq> '''' then Put ?c1 (np_IPv6 p) (vn_next v) else ?c1)) k = Some x"
      using k by (simp add: AddPeer_def Let_def)
    then have "k = np_IPv6 p \<and> x = vn_next v \<or> map_of (contents ?c1) k = Some x"
      using Put_lookup [OF c1, of "np_IPv6 p" "vn_next v" k x] by (auto split: if_splits)
    moreover have "map_of (contents ?c1) k = Some x \<Longrightarrow> k = np_IPv4 p \<and> x = vn_next v"
      using Put_lookup [OF c(1), of "np_IPv4 p" "vn_next v" k x] old by (auto split: if_splits)
    ultimately show ?thesis by blast
  qed
  have "ip \<in> set order" using l all by (force dest: map_of_SomeD)
  from Find_complete [OF c(2) l _ this, of "\<lambda>_ h. has_addr ?v ?a h"] h obtain k' x' where
    f: "snd (Find order (\<lambda>_ h. has_addr ?v ?a h) (vn_peers ?v)) = Some (k', x')" "map_of (contents (vn_peers ?v)) k' = Some x'" "has_addr ?v ?a x'"
    by (auto simp: has_addr_def)
  from only [OF f(2,3)] have x': "x' = vn_next v" by simp
  obtain c1 where c1: "Find order (\<lambda>_ h. has_addr ?v ?a h) (vn_peers ?v) = (c1, Some (k', vn_next v))"
    using f(1) x' by (cases "Find order (\<lambda>_ h. has_addr ?v ?a h) (vn_peers ?v)") auto
  have c1': "cache_ok c1" "map_of (contents c1) = map_of (contents (vn_peers ?v))"
    using Find_keeps [OF c(2), of order "\<lambda>_ h. has_addr ?v ?a h"] c1 by simp_all
  have r: "RemovePeer order ?a ?v = ?v\<lparr>vn_peers := Del (Del c1 (np_IPv4 p)) (np_IPv6 p)\<rparr>"
    using c1 h by (simp add: RemovePeer_def)
  show "\<not> known (RemovePeer order ?a ?v) ?a"
  proof
    assume "known (RemovePeer order ?a ?v) ?a"
    then obtain k x where kx: "map_of (contents (Del (Del c1 (np_IPv4 p)) (np_IPv6 p))) k = Some x" "has_addr ?v ?a x"
      by (auto simp: known_def r has_addr_def)
    then have "k \<noteq> np_IPv4 p" "k \<noteq> np_IPv6 p" "map_of (contents (vn_peers ?v)) k = Some x"
      using c1' by (auto simp: Del_lookup Del_cache_ok split: if_splits)
    with only kx(2) show False by blast
  qed
qed

definition demo_nic_peer :: nic_Peer where
  "demo_nic_peer = \<lparr>np_Addr = [1], np_IPv4 = ''10.0.0.1'', np_IPv6 = '''', np_Meta = None\<rparr>"

definition demo_il :: ip_lib where
  "demo_il = \<lparr>il_ParseIP = (\<lambda>s. if s = ''10.1.2.3'' then [10, 1, 2, 3] else []),
     il_ParseCIDR = (\<lambda>s. if s = ''10.0.0.0/8'' then Some \<lparr>n_ip = [10, 0, 0, 0], n_mask = [255, 0, 0, 0]\<rparr>
       else if s = ''10.1.0.0/16'' then Some \<lparr>n_ip = [10, 1, 0, 0], n_mask = [255, 255, 0, 0]\<rparr> else None),
     il_String = (\<lambda>i. ''10.0.0.1''), il_CIDR = (\<lambda>n. if n_mask n = [255, 0, 0, 0] then ''10.0.0.0/8'' else ''10.1.0.0/16'')\<rparr>"

theorem nic_add_remove_peer_witness:
  "snd (GetPeer demo_il [] ''10.0.0.1'' (AddPeer demo_nic_peer vn_init)) = Some [1] \<and>
   \<not> known (RemovePeer [''10.0.0.1''] [1] (AddPeer demo_nic_peer vn_init)) [1]"
proof -
  have k: "\<not> known vn_init [1]" by (simp add: known_def has_addr_def vn_init_def)
  have e: "contents (the (New 1024) :: (string, nat) Cache) = []" using New_ok [of 1024] by (simp add: New_def contents_def)
  have "cache_ok (the (New 1024) :: (string, nat) Cache)" using vn_init_ok by (simp add: nic_ok_def vn_init_def)
  then have "contents (vn_peers (AddPeer demo_nic_peer vn_init)) = [(''10.0.0.1'', 0)]"
    by (simp add: AddPeer_def demo_nic_peer_def vn_init_def Put_contents insert_recent_def e cap_of_def)
  with nic_add_remove_peer [OF nic_reach.start, of "''10.0.0.1''" demo_nic_peer demo_il "[]"]
    nic_add_remove_peer [OF nic_reach.start, of "''10.0.0.1''" demo_nic_peer demo_il "[''10.0.0.1'']"] k
  show ?thesis by (simp add: demo_nic_peer_def)
qed

definition covering :: "ip_lib \<Rightarrow> string \<Rightarrow> VirtualNIC \<Rightarrow> string set" where
  "covering il ip v = {k \<in> fst ` set (contents (vn_routing v)). route_covers il (il_ParseIP il ip) k}"

lemma in_keys: "k \<in> fst ` set xs \<longleftrightarrow> map_of xs k \<noteq> None"
  by (metis map_of_eq_None_iff)

text \<open>Routes: an address that is no peer's own is sent to the peer that is the gateway of the only route
  covering it, and nowhere when no route covers it or its only route was deleted. When several routes
  cover it, every one of them can decide, whatever its prefix length, because the cache iterates in
  the order of a map.\<close>
theorem nic_routing:
  assumes "nic_reach v" and "map_of (contents (vn_peers v)) ip = None"
  shows "(covering il ip v = {} \<longrightarrow> snd (GetPeer il order ip v) = None) \<and>
    (\<forall>k\<in>covering il ip v. \<exists>order. distinct order \<and> set order = fst ` set (contents (vn_routing v)) \<and>
       snd (GetPeer il order ip v) =
         (let via = the (map_of (contents (vn_routing v)) k) in
          if via = '''' then None else map_option np_Addr (Option.bind (map_of (contents (vn_peers v)) via) (vn_heap v)))) \<and>
    (covering il ip v = {k} \<longrightarrow> set order = fst ` set (contents (vn_routing v)) \<longrightarrow>
       snd (GetPeer il order ip v) =
         (let via = the (map_of (contents (vn_routing v)) k) in
          if via = '''' then None else map_option np_Addr (Option.bind (map_of (contents (vn_peers v)) via) (vn_heap v))))"
proof -
  let ?P = "\<lambda>k. map_of (contents (vn_routing v)) k \<noteq> None \<and> route_covers il (il_ParseIP il ip) k"
  let ?res = "\<lambda>k. let via = the (map_of (contents (vn_routing v)) k) in
      if via = '''' then None else map_option np_Addr (Option.bind (map_of (contents (vn_peers v)) via) (vn_heap v))"
  have ok: "nic_ok v" by (rule nic_reach_ok [OF assms(1)])
  have val: "snd (GetPeer il order ip v) = (case find ?P order of None \<Rightarrow> None | Some k \<Rightarrow> ?res k)" for order
    by (simp add: GetPeer_value(1) [OF ok] assms(2))
  have P: "?P k \<longleftrightarrow> k \<in> covering il ip v" for k by (simp add: covering_def in_keys)
  show ?thesis
  proof (intro conjI ballI impI)
    assume "covering il ip v = {}"
    then have "find ?P order = None" unfolding P by (simp add: find_None_iff)
    then show "snd (GetPeer il order ip v) = None" by (simp add: val)
  next
    fix k assume k: "k \<in> covering il ip v"
    let ?rest = "remove1 k (map fst (contents (vn_routing v)))"
    have d: "distinct (map fst (contents (vn_routing v)))" using ok by (simp add: nic_ok_def contents_distinct)
    have kin: "k \<in> set (map fst (contents (vn_routing v)))" using k by (auto simp: covering_def)
    have "distinct (k # ?rest)" "set (k # ?rest) = fst ` set (contents (vn_routing v))"
      using d kin by (auto simp: set_remove1_eq)
    moreover have "find ?P (k # ?rest) = Some k" using k P by simp
    ultimately show "\<exists>order. distinct order \<and> set order = fst ` set (contents (vn_routing v)) \<and> snd (GetPeer il order ip v) = ?res k"
      by (intro exI [of _ "k # ?rest"]) (simp add: val del: find.simps)
  next
    assume c: "covering il ip v = {k}" and o: "set order = fst ` set (contents (vn_routing v))"
    have "k \<in> set order" using c o by (auto simp: covering_def)
    with c P have "\<exists>x\<in>set order. ?P x" by blast
    from find_exists [OF this] obtain x where "find ?P order = Some x" "?P x" by blast
    with c P have "find ?P order = Some k" by (metis singletonD)
    then show "snd (GetPeer il order ip v) = ?res k" by (simp add: val)
  qed
qed

definition demo_nic :: VirtualNIC where
  "demo_nic = fst (DelRoute demo_il \<lparr>n_ip = [10, 1, 0, 0], n_mask = [255, 255, 0, 0]\<rparr> [10, 0, 0, 1]
     (fst (AddRoute demo_il \<lparr>n_ip = [10, 0, 0, 0], n_mask = [255, 0, 0, 0]\<rparr> [10, 0, 0, 1] (AddPeer demo_nic_peer vn_init))))"

lemma New_contents: "0 < n \<Longrightarrow> contents (the (New n)) = []" "0 < n \<Longrightarrow> cache_ok (the (New n))" "0 < n \<Longrightarrow> cap_of (the (New n)) = nat n"
  by (auto simp: New_def contents_def cache_ok_def cap_of_def)

lemma cap_Put: "cache_ok c \<Longrightarrow> cap_of (Put c k x) = cap_of c"
  by (simp add: cap_of_def Put_ok)

lemma demo_nic_contents:
  "contents (vn_routing demo_nic) = [(''10.1.0.0/16'', ''''), (''10.0.0.0/8'', ''10.0.0.1'')]"
  "contents (vn_peers demo_nic) = [(''10.0.0.1'', 0)]" "vn_heap demo_nic 0 = Some demo_nic_peer" "nic_reach demo_nic"
proof -
  have u: "\<not> IsUnspecified [10, 0, 0, 1]" by (auto simp: IsUnspecified_def ip_equal_def v4_in_6_def dest: arg_cong [where f = last])
  have v: "demo_nic = \<lparr>vn_routing = Put (Put (the (New 512)) ''10.0.0.0/8'' ''10.0.0.1'') ''10.1.0.0/16'' '''',
      vn_peers = Put (the (New 1024)) ''10.0.0.1'' 0, vn_heap = [0 \<mapsto> demo_nic_peer], vn_next = 1\<rparr>"
    using u by (simp add: demo_nic_def AddRoute_def DelRoute_def AddPeer_def vn_init_def demo_nic_peer_def demo_il_def Let_def)
  have r1: "contents (Put (the (New 512)) ''10.0.0.0/8'' ''10.0.0.1'') = [(''10.0.0.0/8'', ''10.0.0.1'')]"
    by (simp add: Put_contents New_contents insert_recent_def)
  show "contents (vn_routing demo_nic) = [(''10.1.0.0/16'', ''''), (''10.0.0.0/8'', ''10.0.0.1'')]"
    unfolding v by (simp add: Put_contents [OF conjunct1 [OF Put_ok]] r1 cap_Put New_contents insert_recent_def)
  show "contents (vn_peers demo_nic) = [(''10.0.0.1'', 0)]" unfolding v by (simp add: Put_contents New_contents insert_recent_def)
  show "vn_heap demo_nic 0 = Some demo_nic_peer" unfolding v by simp
  show "nic_reach demo_nic" unfolding demo_nic_def by (intro nic_reach.unroute nic_reach.route nic_reach.add nic_reach.start)
qed

theorem nic_routing_witness:
  "\<exists>o1 o2. set o1 = set o2 \<and> snd (GetPeer demo_il o1 ''10.1.2.3'' demo_nic) = None \<and> snd (GetPeer demo_il o2 ''10.1.2.3'' demo_nic) = Some [1]"
proof -
  have c: "''10.1.0.0/16'' \<in> covering demo_il ''10.1.2.3'' demo_nic" "''10.0.0.0/8'' \<in> covering demo_il ''10.1.2.3'' demo_nic"
    by (simp_all add: covering_def demo_nic_contents route_covers_def demo_il_def net_contains_def networkNumberAndMask_def To4_def upt_rec)
  have n: "map_of (contents (vn_peers demo_nic)) ''10.1.2.3'' = None" by (simp add: demo_nic_contents)
  note r = bspec [OF conjunct1 [OF conjunct2 [OF nic_routing [OF demo_nic_contents(4) n, of demo_il "[]" undefined]]]]
  from r [OF c(1)] obtain o1 where o1: "set o1 = fst ` set (contents (vn_routing demo_nic))"
    "snd (GetPeer demo_il o1 ''10.1.2.3'' demo_nic) = None" by (auto simp: demo_nic_contents(1) Let_def)
  from r [OF c(2)] obtain o2 where o2: "set o2 = fst ` set (contents (vn_routing demo_nic))"
    "snd (GetPeer demo_il o2 ''10.1.2.3'' demo_nic) = Some (np_Addr demo_nic_peer)"
    by (auto simp: demo_nic_contents(1-3) Let_def)
  from o1 o2 show ?thesis by (intro exI [of _ o1] exI [of _ o2]) (simp add: demo_nic_peer_def)
qed

text \<open>Packets of the pool: whatever was done with a packet before it was put back, the packet that is got
  for some data holds exactly the data, setting a header that fits keeps them and puts the header in
  front of the room, and its version is the first half byte, except that a packet without data
  panics.\<close>
theorem packet_pool_clean:
  assumes "packet_reach r"
  shows "\<exists>p. GetPacket mtu (Some (pool_Put r)) data = Some p \<and> AsBytes p = Some data \<and>
    Ver p = (case data of [] \<Rightarrow> None | b # _ \<Rightarrow> Some (drop_bit 4 b)) \<and>
    (\<forall>h. SetHeader h p = None \<longleftrightarrow> pk_offset p < length h) \<and>
    (\<forall>h q. SetHeader h p = Some q \<longrightarrow> AsBytes q = Some data \<and>
       (\<exists>gap. Bytes 0 q = Some (h @ gap @ data) \<and> length h + length gap = pk_offset q))"
proof -
  let ?p = "Packet_Write data (pool_Put r)"
  have r: "pk_offset r \<le> length (pk_buf r)" using packet_reach_ok [OF assms] by (simp add: packet_ok_def)
  have "GetPacket mtu (Some (pool_Put r)) data = Some ?p" by (simp add: GetPacket_def pool_Get_def)
  moreover have "AsBytes ?p = Some data" using r by (simp add: AsBytes_def Packet_Write_def pool_Put_def Packet_Reset_def)
  moreover from this have "Ver ?p = (case data of [] \<Rightarrow> None | b # _ \<Rightarrow> Some (drop_bit 4 b))"
    by (simp add: Ver_def lindex_def split: list.split)
  moreover have "(\<forall>h. SetHeader h ?p = None \<longleftrightarrow> pk_offset ?p < length h)" by (simp add: SetHeader_def)
  moreover have "AsBytes q = Some data \<and> (\<exists>gap. Bytes 0 q = Some (h @ gap @ data) \<and> length h + length gap = pk_offset q)"
    if "SetHeader h ?p = Some q" for h q
  proof -
    have h: "length h \<le> pk_offset r" and q: "q = ?p\<lparr>pk_buf := h @ drop (length h) (take (pk_offset r) (pk_buf r)) @ data\<rparr>"
      using that r by (auto simp: SetHeader_def Packet_Write_def pool_Put_def Packet_Reset_def split: if_splits)
    then show ?thesis using r
      by (auto simp: AsBytes_def Bytes_def Packet_Write_def pool_Put_def Packet_Reset_def intro!: exI [of _ "drop (length h) (take (pk_offset r) (pk_buf r))"])
  qed
  ultimately show ?thesis by blast
qed

theorem packet_pool_clean_witness:
  "\<exists>p. GetPacket 1428 (Some (pool_Put (Packet_Write [1, 2] \<lparr>pk_buf = replicate 16 0, pk_offset = 16\<rparr>))) [0x45, 9] = Some p \<and> AsBytes p = Some [0x45, 9] \<and> Ver p = Some 4"
proof -
  have "packet_reach (Packet_Write [1, 2] \<lparr>pk_buf = replicate 16 0, pk_offset = 16\<rparr>)"
    by (intro packet_reach.append packet_reach.new [of 16 1444]) (simp add: NewPacket_def)
  from packet_pool_clean [OF this, of 1428 "[0x45, 9]"] show ?thesis by auto
qed

text \<open>Labelling a peer that was added without metadata panics.\<close>
lemma LabelPeer_nil_meta:
  assumes "nic_ok v" and "map_of (contents (vn_peers v)) k = Some h" and "k \<in> set order"
    and "\<forall>j x. map_of (contents (vn_peers v)) j = Some x \<longrightarrow> has_addr v a x \<longrightarrow> map_option np_Meta (vn_heap v x) = Some None"
    and "has_addr v a h"
  shows "LabelPeer order a kv v = None"
proof -
  have c: "cache_ok (vn_peers v)" using assms(1) by (simp add: nic_ok_def)
  from Find_complete [OF c assms(2) _ assms(3), of "\<lambda>_ h. has_addr v a h"] assms(5) obtain k' x' where
    f: "snd (Find order (\<lambda>_ h. has_addr v a h) (vn_peers v)) = Some (k', x')" "map_of (contents (vn_peers v)) k' = Some x'" "has_addr v a x'" by auto
  with assms(4) have "map_option np_Meta (vn_heap v x') = Some None" by blast
  with f(1) show ?thesis by (auto simp: LabelPeer_def split: prod.splits option.splits)
qed

end
