(* ===== verification/Vpn.thy ===== *)
theory Vpn
  imports Nic
begin

text \<open>
  The packet loops of the VPN (\<open>vpn/vpn.go\<close>): handlers, packets from the interface to the peers and
  back, and route updates. Each loop body is an operation on one packet; the channels between the
  loops are its events. Parsing of IP headers, the ICMP answer and the addresses of the host are
  arguments.
\<close>

type_synonym handler = "Packet \<Rightarrow> Packet option"

record vpn_Config =
  vc_MTU :: nat
  vc_InboundHandlers :: "handler list"
  vc_OutboundHandlers :: "handler list"

record vpn_env =
  ve_il :: ip_lib
  ve_order :: "string list"
  ve_pooled :: "Packet option"
  ve_ParseHeader4 :: "bytes \<Rightarrow> (IP \<times> IP) option"
  ve_ParseHeader6 :: "bytes \<Rightarrow> (IP \<times> IP) option"
  ve_Show4 :: string
  ve_Show6 :: string
  ve_ICMPHostUnreachable :: "IP \<Rightarrow> IP \<Rightarrow> bytes \<Rightarrow> bytes"

datatype vpn_event = Inbound Packet | SendTo PeerID bytes | NicWrite Packet

text \<open>The first handler that returns nil drops the packet.\<close>
fun run_handlers :: "handler list \<Rightarrow> Packet \<Rightarrow> Packet option" where
  "run_handlers [] pkt = Some pkt"
| "run_handlers (h # hs) pkt = (case h pkt of None \<Rightarrow> None | Some pkt' \<Rightarrow> run_handlers hs pkt')"

text \<open>\<open>SetPacketPool\<close> happens only for a configured MTU; the default pool has 1428.\<close>
definition vpn_pool_MTU :: "vpn_Config \<Rightarrow> nat" where
  "vpn_pool_MTU cfg = (if 0 < vc_MTU cfg then vc_MTU cfg else 1428)"

definition nicWrite :: "vpn_Config \<Rightarrow> Packet \<Rightarrow> vpn_event list" where
  "nicWrite cfg pkt = (case run_handlers (vc_InboundHandlers cfg) pkt of None \<Rightarrow> [] | Some p \<Rightarrow> [NicWrite p])"

definition read_buffer :: "vpn_Config \<Rightarrow> nat" where
  "read_buffer cfg = (if vc_MTU cfg \<noteq> 0 then vc_MTU cfg else 65536 - 8 - 40 - 40) + 40"

text \<open>A datagram that does not fit into the buffer is cut.\<close>
definition packetConnRead :: "vpn_Config \<Rightarrow> vpn_env \<Rightarrow> bytes \<Rightarrow> vpn_event list option" where
  "packetConnRead cfg e data =
     map_option (\<lambda>p. [Inbound p]) (GetPacket (vpn_pool_MTU cfg) (ve_pooled e) (take (read_buffer cfg) data))"

definition sendPacketToPeer :: "vpn_Config \<Rightarrow> vpn_env \<Rightarrow> Packet \<Rightarrow> IP \<Rightarrow> IP \<Rightarrow> VirtualNIC \<Rightarrow> (VirtualNIC \<times> vpn_event list) option" where
  "sendPacketToPeer cfg e packet srcIP dstIP v =
     (if IsMulticast dstIP then Some (v, [])
      else let (v1, r) = GetPeer (ve_il e) (ve_order e) (il_String (ve_il e) dstIP) v in do {
        b \<leftarrow> AsBytes packet;
        (case r of
           Some peer \<Rightarrow> Some (v1, [SendTo peer b])
         | None \<Rightarrow> do {
             p \<leftarrow> GetPacket (vpn_pool_MTU cfg) (ve_pooled e) (ve_ICMPHostUnreachable e dstIP srcIP b);
             Some (v1, [Inbound p]) }) })"

text \<open>The part for one IP version.\<close>
definition dispatch :: "vpn_Config \<Rightarrow> vpn_env \<Rightarrow> (IP \<times> IP) option \<Rightarrow> string \<Rightarrow> Packet \<Rightarrow> VirtualNIC \<Rightarrow> (VirtualNIC \<times> vpn_event list) option" where
  "dispatch cfg e parsed self packet v =
     (case parsed of
        None \<Rightarrow> None
      | Some (src, dst) \<Rightarrow>
          if il_String (ve_il e) dst = self then Some (v, [Inbound packet]) else sendPacketToPeer cfg e packet src dst v)"

text \<open>One packet of the outbound channel. A version other than 4 and 6 is dropped.\<close>
definition packetConnWrite :: "vpn_Config \<Rightarrow> vpn_env \<Rightarrow> Packet \<Rightarrow> VirtualNIC \<Rightarrow> (VirtualNIC \<times> vpn_event list) option" where
  "packetConnWrite cfg e out v =
     (case run_handlers (vc_OutboundHandlers cfg) out of
        None \<Rightarrow> Some (v, [])
      | Some packet \<Rightarrow> do {
          pkt \<leftarrow> AsBytes packet;
          ver \<leftarrow> Ver packet;
          (if ver = 4 then dispatch cfg e (ve_ParseHeader4 e pkt) (ve_Show4 e) packet v
           else if ver = 6 then dispatch cfg e (ve_ParseHeader6 e pkt) (ve_Show6 e) packet v
           else Some (v, [])) })"

text \<open>One system route change: the new state and whether the callback runs.\<close>
definition routingTableUpdate :: "ip_lib \<Rightarrow> bool \<Rightarrow> IPNet \<Rightarrow> IP \<Rightarrow> VirtualNIC \<Rightarrow> VirtualNIC \<times> bool" where
  "routingTableUpdate il new dst via v = (if new then AddRoute il dst via v else DelRoute il dst via v)"

section \<open>Lemmas\<close>

definition vpn_pool_ok :: "vpn_env \<Rightarrow> bool" where
  "vpn_pool_ok e \<longleftrightarrow> (case ve_pooled e of None \<Rightarrow> True | Some q \<Rightarrow> \<exists>p. packet_ok p \<and> q = pool_Put p)"

lemma Ver_data: "AsBytes p = Some b \<Longrightarrow> Ver p = (case b of [] \<Rightarrow> None | x # _ \<Rightarrow> Some (drop_bit 4 x))"
  by (simp add: Ver_def lindex_def split: list.split)

lemma sendPacketToPeer_result:
  assumes "vpn_pool_ok e" and "AsBytes p = Some b"
  shows "\<exists>v' ev. sendPacketToPeer cfg e p src dst v = Some (v', ev) \<and>
    (if IsMulticast dst then ev = []
     else case snd (GetPeer (ve_il e) (ve_order e) (il_String (ve_il e) dst) v) of
       Some peer \<Rightarrow> ev = [SendTo peer b]
     | None \<Rightarrow> \<exists>q. ev = [Inbound q] \<and> AsBytes q = Some (ve_ICMPHostUnreachable e dst src b))"
proof -
  from GetPacket_bytes [of "ve_pooled e" "vpn_pool_MTU cfg" "ve_ICMPHostUnreachable e dst src b"] assms(1)
  obtain q where "GetPacket (vpn_pool_MTU cfg) (ve_pooled e) (ve_ICMPHostUnreachable e dst src b) = Some q"
    "AsBytes q = Some (ve_ICMPHostUnreachable e dst src b)" by (auto simp: vpn_pool_ok_def)
  with assms(2) show ?thesis
    by (auto simp: sendPacketToPeer_def case_prod_unfold Let_def split: option.splits)
qed

section \<open>Properties\<close>

text \<open>C24. Outbound packets: an IPv4 packet that the handlers let through goes back to the interface when it
  is addressed to the host, nowhere when its destination is multicast, as its exact bytes to the peer
  that owns or routes the destination, and otherwise the sender gets the ICMP answer for it, from the
  destination to the source.\<close>
theorem vpn_outbound_dispatch:
  assumes "vpn_pool_ok e" and "run_handlers (vc_OutboundHandlers cfg) out = Some p" and "AsBytes p = Some b"
    and "Ver p = Some 4" and "ve_ParseHeader4 e b = Some (src, dst)"
  shows "\<exists>v' ev. packetConnWrite cfg e out v = Some (v', ev) \<and>
    (if il_String (ve_il e) dst = ve_Show4 e then ev = [Inbound p]
     else if IsMulticast dst then ev = []
     else case snd (GetPeer (ve_il e) (ve_order e) (il_String (ve_il e) dst) v) of
       Some peer \<Rightarrow> ev = [SendTo peer b]
     | None \<Rightarrow> \<exists>q. ev = [Inbound q] \<and> AsBytes q = Some (ve_ICMPHostUnreachable e dst src b))"
  using sendPacketToPeer_result [OF assms(1,3), of cfg src dst v] assms(2-5)
  by (auto simp: packetConnWrite_def dispatch_def)

definition demo_ve :: vpn_env where
  "demo_ve = \<lparr>ve_il = demo_il\<lparr>il_String := (\<lambda>_. ''10.0.0.1'')\<rparr>, ve_order = [], ve_pooled = None,
     ve_ParseHeader4 = (\<lambda>_. Some ([10, 0, 0, 2], [10, 0, 0, 1])), ve_ParseHeader6 = (\<lambda>_. None),
     ve_Show4 = ''10.0.0.2'', ve_Show6 = '''', ve_ICMPHostUnreachable = (\<lambda>_ _ _. [])\<rparr>"

definition demo_vpn_cfg :: vpn_Config where
  "demo_vpn_cfg = \<lparr>vc_MTU = 100, vc_InboundHandlers = [], vc_OutboundHandlers = []\<rparr>"

lemma demo_nic_GetPeer: "snd (GetPeer (ve_il demo_ve) (ve_order demo_ve) (il_String (ve_il demo_ve) dst) demo_nic) = Some [1]"
  by (simp add: GetPeer_value(1) [OF nic_reach_ok [OF demo_nic_contents(4)]] demo_nic_contents(2,3) demo_ve_def demo_nic_peer_def)

theorem vpn_outbound_dispatch_witness:
  "\<exists>v'. packetConnWrite demo_vpn_cfg demo_ve \<lparr>pk_buf = replicate 16 0 @ [0x45, 7], pk_offset = 16\<rparr> demo_nic = Some (v', [SendTo [1] [0x45, 7]])"
proof -
  let ?p = "\<lparr>pk_buf = replicate 16 0 @ [0x45, 7], pk_offset = 16\<rparr>"
  have a: "vpn_pool_ok demo_ve" "run_handlers (vc_OutboundHandlers demo_vpn_cfg) ?p = Some ?p" "AsBytes ?p = Some [0x45, 7]"
    "ve_ParseHeader4 demo_ve [0x45, 7] = Some ([10, 0, 0, 2], [10, 0, 0, 1])"
    by (simp_all add: vpn_pool_ok_def demo_ve_def demo_vpn_cfg_def AsBytes_def)
  have b: "Ver ?p = Some 4" using Ver_data [OF a(3)] by simp
  have n: "\<not> IsMulticast [10, 0, 0, 1]" by (simp add: IsMulticast_def To4_def)
  have s: "il_String (ve_il demo_ve) [10, 0, 0, 1] \<noteq> ve_Show4 demo_ve" by (simp add: demo_ve_def)
  from vpn_outbound_dispatch [OF a(1-3) b a(4), of demo_nic] s n demo_nic_GetPeer show ?thesis by auto
qed

text \<open>From interface to interface: the bytes that one side sends to a peer for an outbound packet come out
  at the peer's interface, through its inbound handlers when these let it through, as one packet with
  the same bytes, cut to the read buffer of the peer; a packet of at most its MTU and 40 bytes is
  unchanged.\<close>
theorem vpn_carries_packet:
  assumes "packetConnWrite cfg e out v = Some (v', [SendTo peer b])" and "vpn_pool_ok e'"
    and "\<And>p. run_handlers (vc_InboundHandlers cfg') p = Some p"
  shows "\<exists>p q. run_handlers (vc_OutboundHandlers cfg) out = Some p \<and> AsBytes p = Some b \<and>
    packetConnRead cfg' e' b = Some [Inbound q] \<and> nicWrite cfg' q = [NicWrite q] \<and>
    AsBytes q = Some (take (read_buffer cfg') b) \<and> (length b \<le> read_buffer cfg' \<longrightarrow> AsBytes q = Some b)"
proof -
  from assms(1) obtain p where p: "run_handlers (vc_OutboundHandlers cfg) out = Some p" "AsBytes p = Some b"
    by (fastforce simp: packetConnWrite_def dispatch_def sendPacketToPeer_def case_prod_unfold Let_def bind_eq_Some_conv
        split: option.splits if_splits prod.splits)
  from GetPacket_bytes [of "ve_pooled e'" "vpn_pool_MTU cfg'" "take (read_buffer cfg') b"] assms(2)
  obtain q where "GetPacket (vpn_pool_MTU cfg') (ve_pooled e') (take (read_buffer cfg') b) = Some q" "AsBytes q = Some (take (read_buffer cfg') b)"
    by (auto simp: vpn_pool_ok_def)
  with p assms(3) show ?thesis by (auto simp: packetConnRead_def nicWrite_def)
qed

theorem vpn_carries_packet_witness:
  "\<exists>q. packetConnRead demo_vpn_cfg demo_ve [0x45, 7] = Some [Inbound q] \<and> AsBytes q = Some [0x45, 7]"
proof -
  let ?p = "\<lparr>pk_buf = replicate 16 0 @ [0x45, 7], pk_offset = 16\<rparr>"
  have n: "\<not> IsMulticast [10, 0, 0, 1]" by (simp add: IsMulticast_def To4_def)
  have ab: "AsBytes ?p = Some [0x45, 7]" by (simp add: AsBytes_def)
  obtain v' where "packetConnWrite demo_vpn_cfg demo_ve ?p demo_nic = Some (v', [SendTo [1] [0x45, 7]])"
    using sendPacketToPeer_result [of demo_ve ?p "[0x45, 7]" demo_vpn_cfg "[10, 0, 0, 2]" "[10, 0, 0, 1]" demo_nic] n demo_nic_GetPeer ab Ver_data [OF ab]
    by (auto simp: packetConnWrite_def dispatch_def vpn_pool_ok_def demo_vpn_cfg_def demo_ve_def)
  from vpn_carries_packet [OF this, of demo_ve demo_vpn_cfg]
  show ?thesis by (auto simp: vpn_pool_ok_def demo_ve_def demo_vpn_cfg_def read_buffer_def)
qed

text \<open>Outbound packets that crash the process: an empty packet, and a packet of version 4 or 6 whose header
  does not parse, panic the write loop.\<close>
theorem vpn_malformed_panics:
  assumes "run_handlers (vc_OutboundHandlers cfg) out = Some p" and "AsBytes p = Some b"
    and "b = [] \<or> Ver p = Some 4 \<and> ve_ParseHeader4 e b = None \<or> Ver p = Some 6 \<and> ve_ParseHeader6 e b = None"
  shows "packetConnWrite cfg e out v = None"
  using assms Ver_data [OF assms(2)] by (auto simp: packetConnWrite_def dispatch_def)

theorem vpn_malformed_panics_witness:
  "packetConnWrite demo_vpn_cfg demo_ve \<lparr>pk_buf = replicate 16 0, pk_offset = 16\<rparr> demo_nic = None"
  by (rule vpn_malformed_panics [of _ _ "\<lparr>pk_buf = replicate 16 0, pk_offset = 16\<rparr>" "[]"]) (simp_all add: demo_vpn_cfg_def AsBytes_def)

end
