(* ===== verification/Stream_IO.thy ===== *)
theory Stream_IO
  imports Pg_Prelude
begin

text \<open>
  Byte streams as the handshakes use them: the bytes still to be read, after which the stream ends,
  and the bytes written. \<open>s_wr\<close> is the number of writes that still succeed, \<^const>\<open>None\<close> for all
  of them, so that the error paths of writes are paths of the model.
\<close>

record stream =
  s_in :: bytes
  s_out :: bytes
  s_wr :: "nat option"

datatype io_error = EOF | UnexpectedEOF | WriteError

text \<open>\<open>io.ReadFull\<close> of \<open>n\<close> bytes.\<close>
definition read_full :: "nat \<Rightarrow> stream \<Rightarrow> (io_error + bytes) \<times> stream" where
  "read_full n s =
     (if n \<le> length (s_in s) then (Inr (take n (s_in s)), s\<lparr>s_in := drop n (s_in s)\<rparr>)
      else (Inl (if s_in s = [] then EOF else UnexpectedEOF), s\<lparr>s_in := []\<rparr>))"

definition write_all :: "bytes \<Rightarrow> stream \<Rightarrow> (io_error + unit) \<times> stream" where
  "write_all b s =
     (case s_wr s of
        Some 0 \<Rightarrow> (Inl WriteError, s)
      | w \<Rightarrow> (Inr (), s\<lparr>s_out := s_out s @ b, s_wr := map_option (\<lambda>n. n - 1) w\<rparr>))"

definition stream_of_bytes :: "bytes \<Rightarrow> stream" where
  "stream_of_bytes b = \<lparr>s_in = b, s_out = [], s_wr = None\<rparr>"

lemma read_full_Inr: "read_full n s = (Inr x, s') \<Longrightarrow> length x = n \<and> s_in s = x @ s_in s'"
  by (auto simp: read_full_def split: if_splits)

lemma read_full_exact [simp]:
  "n = length b \<Longrightarrow> read_full n \<lparr>s_in = b @ r, s_out = w, s_wr = k\<rparr> = (Inr b, \<lparr>s_in = r, s_out = w, s_wr = k\<rparr>)"
  by (simp add: read_full_def)

lemma read_full_Cons [simp]:
  "read_full (Suc 0) \<lparr>s_in = b # r, s_out = w, s_wr = k\<rparr> = (Inr [b], \<lparr>s_in = r, s_out = w, s_wr = k\<rparr>)"
  "read_full 2 \<lparr>s_in = b # c # r, s_out = w, s_wr = k\<rparr> = (Inr [b, c], \<lparr>s_in = r, s_out = w, s_wr = k\<rparr>)"
  "read_full 3 \<lparr>s_in = b # c # d # r, s_out = w, s_wr = k\<rparr> = (Inr [b, c, d], \<lparr>s_in = r, s_out = w, s_wr = k\<rparr>)"
  by (simp_all add: read_full_def numeral_2_eq_2 numeral_3_eq_3)

lemma write_all_ok [simp]:
  "write_all b \<lparr>s_in = i, s_out = w, s_wr = None\<rparr> = (Inr (), \<lparr>s_in = i, s_out = w @ b, s_wr = None\<rparr>)"
  by (simp add: write_all_def)

end
