(* ===== verification/Socks5.thy ===== *)
theory Socks5
  imports Stream_IO Net_IP Net_Text
begin

text \<open>
  SOCKS version 5 (\<open>socks5/socks5.go\<close>): addresses, both handshakes over byte streams, and UDP
  packets. The text form of an IP address (\<open>net.IP.String\<close>, \<open>net.ParseIP\<close>) is an argument; the
  server's own address is given in its SOCKS form.
\<close>

section \<open>Addresses\<close>

definition AtypIPv4 :: u8 where "AtypIPv4 = 1"
definition AtypDomainName :: u8 where "AtypDomainName = 3"
definition AtypIPv6 :: u8 where "AtypIPv6 = 4"
definition CmdConnect :: u8 where "CmdConnect = 1"
definition CmdBind :: u8 where "CmdBind = 2"
definition CmdUDPAssociate :: u8 where "CmdUDPAssociate = 3"
definition MaxAddrLen :: nat where "MaxAddrLen = 1 + 1 + 255 + 2"

lemmas socks_consts = AtypIPv4_def AtypDomainName_def AtypIPv6_def CmdConnect_def CmdBind_def CmdUDPAssociate_def

datatype socks_error =
  Io io_error | ErrAuth | ErrAddressNotSupported | ErrCommandNotSupported | ErrVersion | ErrRejected
| ErrNeedAuth | ErrShortBuffer | ErrShortPacket | ErrReserved | ErrFragment | ErrUDPHeader | ErrInvalidAddr

definition SplitAddr :: "bytes \<Rightarrow> bytes option" where
  "SplitAddr b =
     (case b of
        [] \<Rightarrow> None
      | t # _ \<Rightarrow>
          (let n = (if t = AtypDomainName then (if length b < 2 then None else Some (1 + 1 + unat (b ! 1) + 2))
                    else if t = AtypIPv4 then Some (1 + 4 + 2)
                    else if t = AtypIPv6 then Some (1 + 16 + 2) else None)
           in case n of None \<Rightarrow> None
              | Some addrLen \<Rightarrow> if length b < addrLen then None else Some (take addrLen b)))"

text \<open>\<open>ReadAddr\<close> into a buffer of \<open>cap\<close> bytes.\<close>
definition ReadAddr :: "nat \<Rightarrow> stream \<Rightarrow> (socks_error + bytes) \<times> stream" where
  "ReadAddr cap s =
     (if cap < MaxAddrLen then (Inl ErrShortBuffer, s)
      else case read_full 1 s of
        (Inl e, s1) \<Rightarrow> (Inl (Io e), s1)
      | (Inr t, s1) \<Rightarrow>
          if t = [AtypDomainName] then
            (case read_full 1 s1 of
               (Inl e, s2) \<Rightarrow> (Inl (Io e), s2)
             | (Inr l, s2) \<Rightarrow>
                 (case read_full (unat (hd l) + 2) s2 of
                    (Inl e, s3) \<Rightarrow> (Inl (Io e), s3)
                  | (Inr r, s3) \<Rightarrow> (Inr (t @ l @ r), s3)))
          else if t = [AtypIPv4] then
            (case read_full 6 s1 of (Inl e, s2) \<Rightarrow> (Inl (Io e), s2) | (Inr r, s2) \<Rightarrow> (Inr (t @ r), s2))
          else if t = [AtypIPv6] then
            (case read_full 18 s1 of (Inl e, s2) \<Rightarrow> (Inl (Io e), s2) | (Inr r, s2) \<Rightarrow> (Inr (t @ r), s2))
          else (Inl ErrAddressNotSupported, s1))"

text \<open>\<open>Addr_UDPAddr\<close>: \<^const>\<open>None\<close> is a slice bound out of range; a nil result is \<open>Some None\<close>.\<close>
definition Addr_UDPAddr :: "bytes \<Rightarrow> (bytes \<times> u16) option option" where
  "Addr_UDPAddr a =
     (if a = [] then Some None
      else if hd a = AtypIPv4 then do {
        ip \<leftarrow> lrange a 1 5; p \<leftarrow> lrange a 5 7; v \<leftarrow> get_u16be p; Some (Some (ip, v)) }
      else if hd a = AtypIPv6 then do {
        ip \<leftarrow> lrange a 1 17; p \<leftarrow> lrange a 17 19; v \<leftarrow> get_u16be p; Some (Some (ip, v)) }
      else Some None)"

text \<open>\<open>netip.AddrPort\<close> to a SOCKS address: the zero address becomes the IPv6 zero address.\<close>
definition AddrFromStdAddrPort :: "ip_addr \<times> u16 \<Rightarrow> bytes" where
  "AddrFromStdAddrPort ap =
     (case fst ap of
        Addr4 b \<Rightarrow> [AtypIPv4] @ b @ put_u16be (snd ap)
      | Addr6 b \<Rightarrow> [AtypIPv6] @ b @ put_u16be (snd ap)
      | NoAddr \<Rightarrow> [AtypIPv6] @ replicate 16 0 @ put_u16be (snd ap))"

text \<open>Go strings are byte strings.\<close>
definition to_text :: "bytes \<Rightarrow> string" where
  "to_text = map (\<lambda>b. char_of (unat b))"

definition of_text :: "string \<Rightarrow> bytes" where
  "of_text = map (\<lambda>c. of_nat (of_char c))"

text \<open>\<open>Addr.String\<close>; the slice bounds and the indices are checked. An address of another type has
  no host and no port.\<close>
definition Addr_String :: "(IP \<Rightarrow> string) \<Rightarrow> bytes \<Rightarrow> string option" where
  "Addr_String ip_str a =
     (case a of
        [] \<Rightarrow> None
      | t # _ \<Rightarrow>
          if t = AtypDomainName then do {
            l \<leftarrow> lindex a 1; host \<leftarrow> lrange a 2 (2 + unat l); p \<leftarrow> lrange a (2 + unat l) (2 + unat l + 2); v \<leftarrow> get_u16be p;
            Some (JoinHostPort (to_text host) (Itoa (unat v))) }
          else if t = AtypIPv4 then do {
            ip \<leftarrow> lrange a 1 5; p \<leftarrow> lrange a 5 7; v \<leftarrow> get_u16be p; Some (JoinHostPort (ip_str ip) (Itoa (unat v))) }
          else if t = AtypIPv6 then do {
            ip \<leftarrow> lrange a 1 17; p \<leftarrow> lrange a 17 19; v \<leftarrow> get_u16be p; Some (JoinHostPort (ip_str ip) (Itoa (unat v))) }
          else Some (JoinHostPort '''' ''''))"

definition ParseAddr :: "(string \<Rightarrow> IP option) \<Rightarrow> string \<Rightarrow> bytes option" where
  "ParseAddr parse_ip s =
     (case SplitHostPort s of
        Inl _ \<Rightarrow> None
      | Inr (host, port) \<Rightarrow> do {
          addr \<leftarrow> (case parse_ip host of
                     Some ip \<Rightarrow> Some (case To4 ip of Some ip4 \<Rightarrow> AtypIPv4 # ip4 | None \<Rightarrow> AtypIPv6 # take 16 ip)
                   | None \<Rightarrow> if 255 < length host then None else Some (AtypDomainName # of_nat (length host) # of_text host));
          portnum \<leftarrow> ParseUint 16 port;
          Some (addr @ put_u16be (of_nat portnum)) })"

text \<open>\<open>ParseAddrToSocksAddr\<close>: UDP and TCP addresses with an IP are converted directly (the port is
  an \<open>int\<close>), others through their text.\<close>
definition ParseAddrToSocksAddr :: "(string \<Rightarrow> IP option) \<Rightarrow> IP option \<Rightarrow> int \<Rightarrow> string \<Rightarrow> bytes option" where
  "ParseAddrToSocksAddr parse_ip hostip port text =
     (case hostip of
        None \<Rightarrow> ParseAddr parse_ip text
      | Some ip \<Rightarrow>
          (case To4 ip of
             Some ip4 \<Rightarrow> Some ([AtypIPv4] @ ip4 @ put_u16be (word_of_int port))
           | None \<Rightarrow> Some ([AtypIPv6] @ take 16 (ip @ replicate 16 0) @ put_u16be (word_of_int port))))"

section \<open>Handshakes\<close>

type_synonym authenticator = "bytes \<Rightarrow> bytes \<Rightarrow> bool"

text \<open>The failed authentications answer with \<open>{1, 1}\<close>; the result of that write is ignored.\<close>
definition auth_fail :: "stream \<Rightarrow> (socks_error + unit) \<times> stream" where
  "auth_fail s = (Inl ErrAuth, snd (write_all [1, 1] s))"

definition server_auth :: "authenticator \<Rightarrow> stream \<Rightarrow> (socks_error + unit) \<times> stream" where
  "server_auth verify s0 =
     (case write_all [5, 2] s0 of
        (Inl e, s1) \<Rightarrow> (Inl (Io e), s1)
      | (Inr _, s1) \<Rightarrow>
          (case read_full 2 s1 of
             (Inl e, s2) \<Rightarrow> (Inl (Io e), s2)
           | (Inr header, s2) \<Rightarrow>
               (let userLen = unat (header ! 1) in
                if userLen = 0 then auth_fail s2
                else case read_full userLen s2 of
                  (Inl e, s3) \<Rightarrow> (Inl (Io e), s3)
                | (Inr user, s3) \<Rightarrow>
                    (case read_full 1 s3 of
                       (Inl e, s4) \<Rightarrow> (Inl (Io e), s4)
                     | (Inr h, s4) \<Rightarrow>
                         (let passLen = unat (hd h) in
                          if passLen = 0 then auth_fail s4
                          else case read_full passLen s4 of
                            (Inl e, s5) \<Rightarrow> (Inl (Io e), s5)
                          | (Inr pass, s5) \<Rightarrow>
                              if \<not> verify user pass then auth_fail s5
                              else (case write_all [1, 0] s5 of
                                      (Inl e, s6) \<Rightarrow> (Inl (Io e), s6)
                                    | (Inr _, s6) \<Rightarrow> (Inr (), s6)))))))"

definition server_method :: "authenticator option \<Rightarrow> stream \<Rightarrow> (socks_error + unit) \<times> stream" where
  "server_method auth s =
     (case auth of
        Some verify \<Rightarrow> server_auth verify s
      | None \<Rightarrow> (case write_all [5, 0] s of
                  (Inl e, s1) \<Rightarrow> (Inl (Io e), s1)
                | (Inr _, s1) \<Rightarrow> (Inr (), s1)))"

text \<open>\<open>ServerHandshake\<close>; \<open>localAddr\<close> is the parsed local address. On an error the code may also
  return the address and command it read; the model keeps the error.\<close>
definition ServerHandshake :: "authenticator option \<Rightarrow> bytes option \<Rightarrow> stream \<Rightarrow> (socks_error + bytes \<times> u8) \<times> stream" where
  "ServerHandshake auth localAddr s0 =
     (case read_full 2 s0 of
        (Inl e, s1) \<Rightarrow> (Inl (Io e), s1)
      | (Inr h, s1) \<Rightarrow>
          (case read_full (unat (h ! 1)) s1 of
             (Inl e, s2) \<Rightarrow> (Inl (Io e), s2)
           | (Inr _, s2) \<Rightarrow>
               (case server_method auth s2 of
                  (Inl e, s3) \<Rightarrow> (Inl e, s3)
                | (Inr _, s3) \<Rightarrow>
                    (case read_full 3 s3 of
                       (Inl e, s4) \<Rightarrow> (Inl (Io e), s4)
                     | (Inr r, s4) \<Rightarrow>
                         (case ReadAddr MaxAddrLen s4 of
                            (Inl e, s5) \<Rightarrow> (Inl e, s5)
                          | (Inr addr, s5) \<Rightarrow>
                              (let command = r ! 1 in
                               if command = CmdConnect \<or> command = CmdUDPAssociate then
                                 (case localAddr of
                                    None \<Rightarrow> (Inl ErrAddressNotSupported, s5)
                                  | Some la \<Rightarrow>
                                      (case write_all ([5, 0, 0] @ la) s5 of
                                         (Inl e, s6) \<Rightarrow> (Inl (Io e), s6)
                                       | (Inr _, s6) \<Rightarrow> (Inr (addr, command), s6)))
                               else (Inl ErrCommandNotSupported, s5)))))))"

definition client_auth :: "(bytes \<times> bytes) option \<Rightarrow> bytes \<Rightarrow> stream \<Rightarrow> (socks_error + unit) \<times> stream" where
  "client_auth user h s =
     (if h ! 0 \<noteq> 5 then (Inl ErrVersion, s)
      else if h ! 1 = 2 then
        (case user of
           None \<Rightarrow> (Inl ErrAuth, s)
         | Some (name, password) \<Rightarrow>
             (case write_all ([1] @ [of_nat (length name)] @ name @ [of_nat (length password)] @ password) s of
                (Inl e, s1) \<Rightarrow> (Inl (Io e), s1)
              | (Inr _, s1) \<Rightarrow>
                  (case read_full 2 s1 of
                     (Inl e, s2) \<Rightarrow> (Inl (Io e), s2)
                   | (Inr r, s2) \<Rightarrow> if r ! 1 \<noteq> 0 then (Inl ErrRejected, s2) else (Inr (), s2))))
      else if h ! 1 \<noteq> 0 then (Inl ErrNeedAuth, s)
      else (Inr (), s))"

definition ClientHandshake :: "bytes \<Rightarrow> u8 \<Rightarrow> (bytes \<times> bytes) option \<Rightarrow> stream \<Rightarrow> (socks_error + bytes) \<times> stream" where
  "ClientHandshake addr command user s0 =
     (case write_all (if user \<noteq> None then [5, 1, 2] else [5, 1, 0]) s0 of
        (Inl e, s1) \<Rightarrow> (Inl (Io e), s1)
      | (Inr _, s1) \<Rightarrow>
          (case read_full 2 s1 of
             (Inl e, s2) \<Rightarrow> (Inl (Io e), s2)
           | (Inr h, s2) \<Rightarrow>
               (case client_auth user h s2 of
                  (Inl e, s3) \<Rightarrow> (Inl e, s3)
                | (Inr _, s3) \<Rightarrow>
                    (case write_all ([5, command, 0] @ addr) s3 of
                       (Inl e, s4) \<Rightarrow> (Inl (Io e), s4)
                     | (Inr _, s4) \<Rightarrow>
                         (case read_full 3 s4 of
                            (Inl e, s5) \<Rightarrow> (Inl (Io e), s5)
                          | (Inr _, s5) \<Rightarrow> ReadAddr MaxAddrLen s5)))))"

section \<open>UDP packets\<close>

text \<open>The three results of \<open>DecodeUDPPacket\<close>.\<close>
definition DecodeUDPPacket :: "bytes \<Rightarrow> bytes option \<times> bytes \<times> socks_error option" where
  "DecodeUDPPacket packet =
     (if length packet < 5 then (None, [], Some ErrShortPacket)
      else if take 2 packet \<noteq> [0, 0] then (None, [], Some ErrReserved)
      else if packet ! 2 \<noteq> 0 then (None, [], Some ErrFragment)
      else let addr = SplitAddr (drop 3 packet) in
        (addr, drop (3 + (case addr of None \<Rightarrow> 0 | Some a \<Rightarrow> length a)) packet,
         if addr = None then Some ErrUDPHeader else None))"

definition EncodeUDPPacket :: "bytes option \<Rightarrow> bytes \<Rightarrow> socks_error + bytes" where
  "EncodeUDPPacket addr payload =
     (case addr of None \<Rightarrow> Inl ErrInvalidAddr | Some a \<Rightarrow> Inr ([0, 0, 0] @ a @ payload))"

section \<open>Lemmas\<close>

text \<open>A well-formed address is its own prefix.\<close>
definition addr_ok :: "bytes \<Rightarrow> bool" where
  "addr_ok a \<longleftrightarrow> SplitAddr a = Some a"

lemma addr_ok_simps [simp]:
  "addr_ok (AtypIPv4 # r) \<longleftrightarrow> length r = 6"
  "addr_ok (AtypIPv6 # r) \<longleftrightarrow> length r = 18"
  "addr_ok (AtypDomainName # l # r) \<longleftrightarrow> length r = unat l + 2"
  by (auto simp: addr_ok_def SplitAddr_def socks_consts dest: arg_cong [where f = length])

lemma addr_ok_cases:
  assumes "addr_ok a"
  obtains (v4) r where "a = AtypIPv4 # r" "length r = 6"
    | (v6) r where "a = AtypIPv6 # r" "length r = 18"
    | (name) l r where "a = AtypDomainName # l # r" "length r = unat l + 2"
proof -
  have "(\<exists>r. a = AtypIPv4 # r) \<or> (\<exists>r. a = AtypIPv6 # r) \<or> (\<exists>l r. a = AtypDomainName # l # r)"
    using assms by (cases a; cases "tl a") (auto simp: addr_ok_def SplitAddr_def Let_def split: if_splits)
  with assms that show ?thesis by auto
qed

lemma SplitAddr_append: "addr_ok a \<Longrightarrow> SplitAddr (a @ r) = Some a"
  by (erule addr_ok_cases) (simp_all add: SplitAddr_def socks_consts)

lemma ReadAddr_append:
  assumes "addr_ok a"
  shows "ReadAddr MaxAddrLen \<lparr>s_in = a @ r, s_out = w, s_wr = k\<rparr> = (Inr a, \<lparr>s_in = r, s_out = w, s_wr = k\<rparr>)"
  using assms
proof (cases rule: addr_ok_cases)
  case (name l x)
  then show ?thesis by (simp add: ReadAddr_def socks_consts)
qed (simp_all add: ReadAddr_def socks_consts)

lemma SplitAddr_ok:
  assumes "SplitAddr b = Some a"
  shows "addr_ok a \<and> (\<exists>r. b = a @ r)"
proof -
  consider r where "b = AtypIPv4 # r" "6 \<le> length r" "a = AtypIPv4 # take 6 r"
    | r where "b = AtypIPv6 # r" "18 \<le> length r" "a = AtypIPv6 # take 18 r"
    | l r where "b = AtypDomainName # l # r" "unat l + 2 \<le> length r" "a = AtypDomainName # l # take (unat l + 2) r"
    using assms by (cases b; cases "tl b") (auto simp: SplitAddr_def Let_def not_less split: if_splits)
  then show ?thesis
  proof cases
    case 1
    then have "b = a @ drop 6 r" "addr_ok a" by simp_all
    then show ?thesis by blast
  next
    case 2
    then have "b = a @ drop 18 r" "addr_ok a" by simp_all
    then show ?thesis by blast
  next
    case 3
    then have "b = a @ drop (unat l + 2) r" "addr_ok a" by simp_all
    then show ?thesis by blast
  qed
qed

lemma ReadAddr_ok:
  assumes "ReadAddr cap s = (Inr a, s')"
  shows "addr_ok a \<and> s_in s = a @ s_in s'"
proof -
  obtain t s1 where r1: "read_full 1 s = (Inr t, s1)"
    using assms by (auto simp: ReadAddr_def split: if_splits prod.splits sum.splits)
  note p1 = read_full_Inr [OF r1]
  consider "t = [AtypDomainName]" | "t = [AtypIPv4]" "t \<noteq> [AtypDomainName]" | "t = [AtypIPv6]" "t \<noteq> [AtypDomainName]" "t \<noteq> [AtypIPv4]"
    using assms r1 by (auto simp: ReadAddr_def split: if_splits)
  then show ?thesis
  proof cases
    case 1
    with assms r1 obtain l s2 r where r2: "read_full 1 s1 = (Inr l, s2)"
      and r3: "read_full (unat (hd l) + 2) s2 = (Inr r, s')" and a: "a = t @ l @ r"
      by (auto simp: ReadAddr_def split: if_splits prod.splits sum.splits)
    from read_full_Inr [OF r2] obtain x where "l = [x]" by (auto simp: length_Suc_conv)
    with p1 read_full_Inr [OF r2] read_full_Inr [OF r3] a 1 show ?thesis by simp
  next
    case 2
    with assms r1 obtain r where r2: "read_full 6 s1 = (Inr r, s')" and a: "a = t @ r"
      by (auto simp: ReadAddr_def split: if_splits prod.splits sum.splits)
    with p1 read_full_Inr [OF r2] 2 show ?thesis by simp
  next
    case 3
    with assms r1 obtain r where r2: "read_full 18 s1 = (Inr r, s')" and a: "a = t @ r"
      by (auto simp: ReadAddr_def split: if_splits prod.splits sum.splits)
    with p1 read_full_Inr [OF r2] 3 show ?thesis by simp
  qed
qed

section \<open>Properties\<close>

text \<open>The reader of a stream and the splitter of a packet agree on addresses: splitting a buffer
  succeeds exactly when reading the same bytes succeeds, with the same address and the rest left.\<close>
theorem ReadAddr_agrees_SplitAddr:
  "SplitAddr b = Some a \<longleftrightarrow> (\<exists>s'. ReadAddr MaxAddrLen (stream_of_bytes b) = (Inr a, s') \<and> b = a @ s_in s')"
proof
  assume "SplitAddr b = Some a"
  from SplitAddr_ok [OF this] obtain r where r: "addr_ok a" "b = a @ r" by blast
  have "ReadAddr MaxAddrLen (stream_of_bytes b) = (Inr a, \<lparr>s_in = r, s_out = [], s_wr = None\<rparr>)"
    unfolding stream_of_bytes_def r(2) by (rule ReadAddr_append [OF r(1)])
  with r show "\<exists>s'. ReadAddr MaxAddrLen (stream_of_bytes b) = (Inr a, s') \<and> b = a @ s_in s'" by auto
next
  assume "\<exists>s'. ReadAddr MaxAddrLen (stream_of_bytes b) = (Inr a, s') \<and> b = a @ s_in s'"
  then obtain s' where "ReadAddr MaxAddrLen (stream_of_bytes b) = (Inr a, s')" "b = a @ s_in s'" by blast
  with ReadAddr_ok SplitAddr_append show "SplitAddr b = Some a" by metis
qed

text \<open>Round trip of UDP packets: decoding an encoded packet gives the address and the payload.\<close>
theorem udp_packet_roundtrip:
  assumes "addr_ok a"
  shows "\<exists>pkt. EncodeUDPPacket (Some a) payload = Inr pkt \<and> DecodeUDPPacket pkt = (Some a, payload, None)"
proof -
  have "2 \<le> length a" using assms by (cases rule: addr_ok_cases) auto
  then show ?thesis
    using SplitAddr_append [OF assms, of payload] by (simp add: EncodeUDPPacket_def DecodeUDPPacket_def Let_def numeral_3_eq_3)
qed

theorem udp_packet_roundtrip_witness:
  "\<exists>pkt. EncodeUDPPacket (Some [1, 10, 0, 0, 1, 0, 53]) [7, 8] = Inr pkt \<and> DecodeUDPPacket pkt = (Some [1, 10, 0, 0, 1, 0, 53], [7, 8], None)"
  by (rule udp_packet_roundtrip) (simp add: addr_ok_def SplitAddr_def socks_consts)

lemma server_method_ok:
  assumes "auth = None \<or> (\<exists>f n p. auth = Some f \<and> user = Some (n, p) \<and> n \<noteq> [] \<and> p \<noteq> [] \<and> length n \<le> 255 \<and> length p \<le> 255 \<and> f n p)"
  shows "\<exists>cm sm. (\<forall>r w. server_method auth \<lparr>s_in = cm @ r, s_out = w, s_wr = None\<rparr> = (Inr (), \<lparr>s_in = r, s_out = w @ sm, s_wr = None\<rparr>)) \<and>
    (\<exists>m rest. sm = [5, m] @ rest \<and>
      (\<forall>r w. client_auth user [5, m] \<lparr>s_in = rest @ r, s_out = w, s_wr = None\<rparr> = (Inr (), \<lparr>s_in = r, s_out = w @ cm, s_wr = None\<rparr>)))"
proof (cases auth)
  case None
  show ?thesis
    by (rule exI [of _ "[]"], rule exI [of _ "[5, 0]"]) (simp add: None server_method_def client_auth_def)
next
  case (Some f)
  with assms obtain n p where u: "user = Some (n, p)" "n \<noteq> []" "p \<noteq> []" "length n \<le> 255" "length p \<le> 255" "f n p" by auto
  have l: "unat (of_nat (length n) :: u8) = length n" "unat (of_nat (length p) :: u8) = length p"
    using u by (simp_all add: unat_of_nat)
  let ?cm = "[1] @ [of_nat (length n)] @ n @ [of_nat (length p)] @ p"
  have "server_method auth \<lparr>s_in = ?cm @ r, s_out = w, s_wr = None\<rparr> = (Inr (), \<lparr>s_in = r, s_out = w @ [5, 2, 1, 0], s_wr = None\<rparr>)" for r w
    using u l by (simp add: Some server_method_def server_auth_def Let_def)
  moreover have "client_auth user [5, 2] \<lparr>s_in = [1, 0] @ r, s_out = w, s_wr = None\<rparr> = (Inr (), \<lparr>s_in = r, s_out = w @ ?cm, s_wr = None\<rparr>)" for r w
    using u by (simp add: client_auth_def)
  ultimately show ?thesis by (intro exI [of _ ?cm] exI [of _ "[5, 2, 1, 0]"]) (intro conjI exI [of _ 2] exI [of _ "[1, 0]"], auto)
qed

text \<open>The two handshakes complete each other: with valid addresses, a supported command and
  accepted credentials, what either side writes is what the other one reads; the server gets the
  client's address and command and the client the server's address, and neither reads beyond the
  handshake.\<close>
theorem socks5_handshakes_agree:
  assumes "addr_ok a" and "addr_ok la" and "command = CmdConnect \<or> command = CmdUDPAssociate"
    and "auth = None \<or> (\<exists>f n p. auth = Some f \<and> user = Some (n, p) \<and> n \<noteq> [] \<and> p \<noteq> [] \<and> length n \<le> 255 \<and> length p \<le> 255 \<and> f n p)"
  shows "\<exists>cs ss. \<forall>r.
    ClientHandshake a command user (stream_of_bytes (ss @ r)) = (Inr la, \<lparr>s_in = r, s_out = cs, s_wr = None\<rparr>) \<and>
    ServerHandshake auth (Some la) (stream_of_bytes (cs @ r)) = (Inr (a, command), \<lparr>s_in = r, s_out = ss, s_wr = None\<rparr>)"
proof -
  from server_method_ok [OF assms(4)] obtain cm m rest where
    srv: "\<And>r w. server_method auth \<lparr>s_in = cm @ r, s_out = w, s_wr = None\<rparr> = (Inr (), \<lparr>s_in = r, s_out = w @ [5, m] @ rest, s_wr = None\<rparr>)"
    and cl: "\<And>r w. client_auth user [5, m] \<lparr>s_in = rest @ r, s_out = w, s_wr = None\<rparr> = (Inr (), \<lparr>s_in = r, s_out = w @ cm, s_wr = None\<rparr>)"
    by blast
  let ?hello = "if user \<noteq> None then [5, 1, 2] else [5, 1, 0 :: u8]"
  let ?cs = "?hello @ cm @ [5, command, 0] @ a" and ?ss = "[5, m] @ rest @ [5, 0, 0] @ la"
  have "ClientHandshake a command user (stream_of_bytes (?ss @ r)) = (Inr la, \<lparr>s_in = r, s_out = ?cs, s_wr = None\<rparr>)" for r
    using cl [of "[5, 0, 0] @ la @ r" ?hello] ReadAddr_append [OF assms(2)]
    by (simp add: ClientHandshake_def stream_of_bytes_def)
  moreover have "ServerHandshake auth (Some la) (stream_of_bytes (?cs @ r)) = (Inr (a, command), \<lparr>s_in = r, s_out = ?ss, s_wr = None\<rparr>)" for r
  proof -
    have h: "read_full 2 (stream_of_bytes (?cs @ r)) = (Inr [5, 1], \<lparr>s_in = [if user \<noteq> None then 2 else 0] @ cm @ [5, command, 0] @ a @ r, s_out = [], s_wr = None\<rparr>)"
      by (simp add: stream_of_bytes_def)
    show ?thesis
      unfolding ServerHandshake_def h
      using srv [of "[5, command, 0] @ a @ r" "[]"] ReadAddr_append [OF assms(1)] assms(3) by (simp add: Let_def)
  qed
  ultimately show ?thesis by (intro exI [of _ ?cs] exI [of _ ?ss]) blast
qed

theorem socks5_handshakes_agree_witness:
  "\<exists>cs ss. \<forall>r.
    ClientHandshake [1, 10, 0, 0, 1, 0, 53] 1 (Some ([117], [112])) (stream_of_bytes (ss @ r)) = (Inr [1, 127, 0, 0, 1, 4, 56], \<lparr>s_in = r, s_out = cs, s_wr = None\<rparr>) \<and>
    ServerHandshake (Some (\<lambda>u p. u = [117] \<and> p = [112])) (Some [1, 127, 0, 0, 1, 4, 56]) (stream_of_bytes (cs @ r)) =
      (Inr ([1, 10, 0, 0, 1, 0, 53], 1), \<lparr>s_in = r, s_out = ss, s_wr = None\<rparr>)"
  by (rule socks5_handshakes_agree) (simp_all add: addr_ok_def SplitAddr_def socks_consts)

lemma ServerHandshake_verified:
  assumes "ServerHandshake (Some verify) la s = (Inr r, s')"
  shows "\<exists>user pass. user \<noteq> [] \<and> pass \<noteq> [] \<and> verify user pass"
proof -
  from assms obtain s2 s3 where "server_auth verify s2 = (Inr (), s3)"
    by (auto simp: ServerHandshake_def server_method_def split: prod.splits sum.splits)
  then obtain user pass n m s4 s5 s6 s7 where r: "read_full n s4 = (Inr user, s5)" "read_full m s6 = (Inr pass, s7)"
    and v: "0 < n" "0 < m" "verify user pass"
    unfolding server_auth_def auth_fail_def Let_def
    by (simp split: prod.splits sum.splits if_splits)
  from read_full_Inr [OF r(1)] read_full_Inr [OF r(2)] v have "user \<noteq> []" "pass \<noteq> []" by auto
  with v show ?thesis by blast
qed



section \<open>Text forms\<close>

lemma of_text_to_text [simp]: "of_text (to_text b) = b"
proof -
  have "of_nat (of_char (char_of (unat x) :: char)) = x" for x :: u8
    using unsigned_less [of x, where ?'a = nat] by simp
  then show ?thesis by (simp add: of_text_def to_text_def comp_def)
qed

lemma length_to_text [simp]: "length (to_text b) = length b"
  by (simp add: to_text_def)

lemma put_get_u16be: "put_u16be (ucast b OR push_bit 8 (ucast a)) = [a, b]" for a b :: u8
proof -
  have "\<not> bit b (8 + n)" for n using bit_imp_le_length [of b "8 + n"] by auto
  then show ?thesis by (auto simp: put_u16be_def bit_simps intro!: bit_word_eqI)
qed

lemma u16_of_two: "length p = 2 \<Longrightarrow> \<exists>v. get_u16be p = Some v \<and> p = put_u16be v"
  by (cases p; cases "tl p") (auto simp: put_get_u16be)

text \<open>Documented behaviour of \<open>net.IP.String\<close> and \<open>net.ParseIP\<close> for one address: the text has no
  brackets and parses to the sixteen-byte form.\<close>
definition ip_text_ok :: "(IP \<Rightarrow> string) \<Rightarrow> (string \<Rightarrow> IP option) \<Rightarrow> IP \<Rightarrow> bool" where
  "ip_text_ok ip_str parse_ip ip \<longleftrightarrow> unbracketed (ip_str ip) \<and> parse_ip (ip_str ip) = To16 ip"

text \<open>The text of an address is unambiguous: an IPv4 address, an IPv6 address that is not an IPv4 one
  in disguise, or a domain name without brackets that is not the text of an IP address.\<close>
definition addr_text_ok :: "(IP \<Rightarrow> string) \<Rightarrow> (string \<Rightarrow> IP option) \<Rightarrow> bytes \<Rightarrow> bool" where
  "addr_text_ok ip_str parse_ip a \<longleftrightarrow> addr_ok a \<and>
     (if hd a = AtypDomainName then unbracketed (to_text (take (length a - 4) (drop 2 a))) \<and> parse_ip (to_text (take (length a - 4) (drop 2 a))) = None
      else ip_text_ok ip_str parse_ip (take (length a - 3) (drop 1 a)) \<and> (hd a = AtypIPv6 \<longrightarrow> To4 (take 16 (drop 1 a)) = None))"

lemma ParseAddr_JoinHostPort:
  assumes "unbracketed host"
  shows "ParseAddr parse_ip (JoinHostPort host (Itoa (unat (v :: u16)))) =
    (case parse_ip host of
       Some ip \<Rightarrow> Some ((case To4 ip of Some ip4 \<Rightarrow> AtypIPv4 # ip4 | None \<Rightarrow> AtypIPv6 # take 16 ip) @ put_u16be v)
     | None \<Rightarrow> if 255 < length host then None else Some (AtypDomainName # of_nat (length host) # of_text host @ put_u16be v))"
proof -
  have "unat v < 2 ^ 16" using unsigned_less [of v, where ?'a = nat] by simp
  then show ?thesis
    using SplitHostPort_JoinHostPort [OF assms Itoa_unbracketed Itoa_no_colon]
    by (simp add: ParseAddr_def split: option.splits)
qed

lemma ip_addr_text:
  assumes "t = AtypIPv4 \<and> length ip = 4 \<or> t = AtypIPv6 \<and> length ip = 16 \<and> To4 ip = None" and "ip_text_ok ip_str parse_ip ip"
    and "length p = 2"
  shows "\<exists>s. Addr_String ip_str (t # ip @ p) = Some s \<and> ParseAddr parse_ip s = Some (t # ip @ p)"
proof -
  from u16_of_two [OF assms(3)] obtain v where v: "get_u16be p = Some v" "p = put_u16be v" by blast
  have t: "t \<noteq> AtypDomainName" "t = AtypIPv6 \<Longrightarrow> t \<noteq> AtypIPv4" using assms(1) by (auto simp: socks_consts)
  have "Addr_String ip_str (t # ip @ p) = Some (JoinHostPort (ip_str ip) (Itoa (unat v)))"
    using assms(1,3) v(1) t by (auto simp: Addr_String_def lrange_def)
  moreover have "To4 (v4_in_6 @ ip) = Some ip" if "length ip = 4" using that by (simp add: To4_def)
  ultimately show ?thesis
    using assms ParseAddr_JoinHostPort [of "ip_str ip" parse_ip v] v(2)
    by (auto simp: ip_text_ok_def To16_def split: option.splits)
qed

text \<open>Text round trip: parsing the text of an address gives the address back, whichever its type.\<close>
theorem socks_addr_text_roundtrip:
  assumes "addr_text_ok ip_str parse_ip a"
  shows "\<exists>s. Addr_String ip_str a = Some s \<and> ParseAddr parse_ip s = Some a"
proof -
  have ok: "addr_ok a" using assms by (simp add: addr_text_ok_def)
  then show ?thesis
  proof (cases rule: addr_ok_cases)
    case (v4 r)
    then show ?thesis
      using assms ip_addr_text [of AtypIPv4 "take 4 r" ip_str parse_ip "drop 4 r"] by (simp add: addr_text_ok_def socks_consts)
  next
    case (v6 r)
    then show ?thesis
      using assms ip_addr_text [of AtypIPv6 "take 16 r" ip_str parse_ip "drop 16 r"] by (simp add: addr_text_ok_def socks_consts)
  next
    case (name l r)
    define h p where "h = take (unat l) r" and "p = drop (unat l) r"
    have r: "r = h @ p" "length h = unat l" "length p = 2" using name(2) by (simp_all add: h_def p_def)
    from u16_of_two [OF r(3)] obtain v where v: "get_u16be p = Some v" "p = put_u16be v" by blast
    have "Addr_String ip_str a = Some (JoinHostPort (to_text h) (Itoa (unat v)))"
      using r v(1) by (simp add: name(1) Addr_String_def lindex_def lrange_def)
    moreover have "unbracketed (to_text h)" "parse_ip (to_text h) = None"
      using assms r by (simp_all add: name(1) addr_text_ok_def)
    moreover have "unat l \<le> 255" using unsigned_less [of l, where ?'a = nat] by simp
    ultimately show ?thesis
      using ParseAddr_JoinHostPort [of "to_text h" parse_ip v] r v(2) by (simp add: name(1))
  qed
qed

theorem socks_addr_text_roundtrip_witness:
  "\<exists>s. Addr_String (\<lambda>_. ''10.0.0.1'') [1, 10, 0, 0, 1, 0, 53] = Some s \<and>
    ParseAddr (\<lambda>_. Some (v4_in_6 @ [10, 0, 0, 1])) s = Some [1, 10, 0, 0, 1, 0, 53]"
  by (rule socks_addr_text_roundtrip)
    (simp add: addr_text_ok_def addr_ok_def SplitAddr_def socks_consts ip_text_ok_def To16_def unbracketed_def)

end
