(* ===== verification/Rootless.thy ===== *)
theory Rootless
  imports Socks5 Ws
begin

text \<open>
  The rootless side of the VPN client (\<open>cmd/pgcli/vpn/rootless/proxy.go\<close>, \<open>forward.go\<close>): the
  connection with bytes read ahead, the UDP connection of a SOCKS5 association, the proxy server for
  SOCKS5 and HTTP, port forwards, and the relay between two connections. Dialling through the card,
  listening on it, \<open>http.ReadRequest\<close> and \<open>url.Parse\<close> are arguments.
\<close>

section \<open>A connection with bytes read ahead\<close>

record 's peekConn =
  pk_conn :: 's
  pk_peek :: "bytes option"

text \<open>\<open>rd\<close> reads the connection underneath; \<^const>\<open>None\<close> is its end.\<close>
definition peekConn_Read :: "(nat \<Rightarrow> 's \<Rightarrow> (bytes \<times> 's) option) \<Rightarrow> nat \<Rightarrow> 's peekConn \<Rightarrow> (bytes \<times> 's peekConn) option" where
  "peekConn_Read rd n c =
     (case pk_peek c of
        Some p \<Rightarrow> Some (take n p, c\<lparr>pk_peek := if n < length p then Some (drop n p) else None\<rparr>)
      | None \<Rightarrow> map_option (\<lambda>(b, s). (b, c\<lparr>pk_conn := s\<rparr>)) (rd n (pk_conn c)))"

definition peek_pending :: "('s \<Rightarrow> bytes) \<Rightarrow> 's peekConn \<Rightarrow> bytes" where
  "peek_pending pending c = (case pk_peek c of None \<Rightarrow> [] | Some p \<Rightarrow> p) @ pending (pk_conn c)"

text \<open>Reading ahead is invisible: the connection promises what the one underneath promises, with the
  bytes read ahead in front.\<close>
context message_reader
begin

lemma peek_reader: "message_reader (peekConn_Read rd) (peek_pending pending)"
proof
  fix n s b s' assume r: "peekConn_Read rd n s = Some (b, s')"
  show "peek_pending pending s = b @ peek_pending pending s' \<and> length b \<le> n"
  proof (cases "pk_peek s")
    case None
    with r obtain t where t: "rd n (pk_conn s) = Some (b, t)" "s' = s\<lparr>pk_conn := t\<rparr>"
      by (auto simp: peekConn_Read_def)
    from rd_step [OF t(1)] t(2) None show ?thesis by (simp add: peek_pending_def)
  next
    case (Some p)
    with r show ?thesis by (auto simp: peekConn_Read_def peek_pending_def)
  qed
next
  fix n s assume "peekConn_Read rd n s = None"
  then have "pk_peek s = None" "rd n (pk_conn s) = None"
    by (auto simp: peekConn_Read_def split: option.splits)
  with rd_blocks show "peek_pending pending s = []" by (auto simp: peek_pending_def)
qed

end

text \<open>A stream as a connection: a read takes what fits.\<close>
definition stream_rd :: "nat \<Rightarrow> stream \<Rightarrow> (bytes \<times> stream) option" where
  "stream_rd n s = (if s_in s = [] then None else Some (take n (s_in s), s\<lparr>s_in := drop n (s_in s)\<rparr>))"

interpretation plain_conn: message_reader stream_rd s_in
  by unfold_locales (auto simp: stream_rd_def split: if_splits)

interpretation peeked: message_reader "peekConn_Read stream_rd" "peek_pending s_in"
  by (rule plain_conn.peek_reader)

section \<open>The UDP connection of an association\<close>

text \<open>The packets of the connection, in both directions. \<open>su_Addr\<close> is a slice of the read buffer: its
  offset and length.\<close>
record Socks5UDPConn =
  su_in :: "bytes list"
  su_out :: "bytes list"
  su_Addr :: "(nat \<times> nat) option"
  su_readBuf :: bytes
  su_peekPacket :: "bytes option"

datatype proxy_error = ConnClosed | SocksErr socks_error | BadRequest | InvalidUser | WriteFailed | DialFailed

definition su_new :: "bytes list \<Rightarrow> Socks5UDPConn" where
  "su_new pkts = \<lparr>su_in = pkts, su_out = [], su_Addr = None, su_readBuf = replicate 65535 0, su_peekPacket = None\<rparr>"

text \<open>\<open>c.Conn.Read(c.readBuf)\<close>\<close>
definition read_packet :: "Socks5UDPConn \<Rightarrow> (bytes \<times> Socks5UDPConn) option" where
  "read_packet c =
     (case su_in c of
        [] \<Rightarrow> None
      | p # ps \<Rightarrow> (let b = take 65535 p in Some (b, c\<lparr>su_in := ps, su_readBuf := b @ drop (length b) (su_readBuf c)\<rparr>)))"

definition current_Addr :: "Socks5UDPConn \<Rightarrow> bytes option" where
  "current_Addr c = map_option (\<lambda>(i, n). take n (drop i (su_readBuf c))) (su_Addr c)"

definition peekTarget :: "Socks5UDPConn \<Rightarrow> Socks5UDPConn \<times> (proxy_error + bytes)" where
  "peekTarget c =
     (case read_packet c of
        None \<Rightarrow> (c, Inl ConnClosed)
      | Some (b, c1) \<Rightarrow>
          (let c2 = c1\<lparr>su_peekPacket := Some b\<rparr> in
           case DecodeUDPPacket b of
             (_, _, Some e) \<Rightarrow> (c2, Inl (SocksErr e))
           | (addr, _, None) \<Rightarrow>
               (c2\<lparr>su_Addr := map_option (\<lambda>a. (3, length a)) addr\<rparr>, Inr (case addr of None \<Rightarrow> [] | Some a \<Rightarrow> a))))"

definition su_Read :: "nat \<Rightarrow> Socks5UDPConn \<Rightarrow> Socks5UDPConn \<times> (proxy_error + bytes)" where
  "su_Read n c =
     (case (case su_peekPacket c of Some p \<Rightarrow> Some (p, c) | None \<Rightarrow> read_packet c) of
        None \<Rightarrow> (c, Inl ConnClosed)
      | Some (pkt, c1) \<Rightarrow>
          (let c2 = c1\<lparr>su_peekPacket := None\<rparr> in
           case DecodeUDPPacket pkt of
             (_, _, Some e) \<Rightarrow> (c2, Inl (SocksErr e))
           | (_, b, None) \<Rightarrow> (c2, Inr (take n b))))"

definition su_Write :: "bytes \<Rightarrow> Socks5UDPConn \<Rightarrow> Socks5UDPConn \<times> (proxy_error + nat)" where
  "su_Write p c =
     (case EncodeUDPPacket (current_Addr c) p of
        Inl e \<Rightarrow> (c, Inl (SocksErr e))
      | Inr b \<Rightarrow> (c\<lparr>su_out := su_out c @ [b]\<rparr>, Inr (length p)))"

section \<open>The proxy server\<close>

record ProxyConfig =
  px_Listen :: string
  px_Users :: "bytes list"

definition Verify :: "ProxyConfig \<Rightarrow> bytes \<Rightarrow> bytes \<Rightarrow> bool" where
  "Verify cfg user password \<longleftrightarrow> px_Users cfg = [] \<or> user @ [58] @ password \<in> set (px_Users cfg)"

text \<open>What a handler does to the outside: a dial, a response to the client, and the relay between the
  client (with bytes read ahead) and the target.\<close>
datatype proxy_event = Dial string string | Respond nat | Relayed bytes string | Discard

text \<open>\<open>proxy\<close>; \<open>reach\<close> tells whether the card reaches the target.\<close>
definition proxy :: "(string \<Rightarrow> string \<Rightarrow> bool) \<Rightarrow> string \<Rightarrow> bytes \<Rightarrow> string \<Rightarrow> proxy_event list \<times> proxy_error option" where
  "proxy reach network peek addr =
     (if reach network addr then ([Dial network addr, Relayed peek addr], None) else ([Dial network addr], Some DialFailed))"

text \<open>\<^const>\<open>None\<close> is a panic of \<open>Addr.String\<close>.\<close>
definition serveSOCKS5 :: "(string \<Rightarrow> string \<Rightarrow> bool) \<Rightarrow> (IP \<Rightarrow> string) \<Rightarrow> ProxyConfig \<Rightarrow> bytes option \<Rightarrow> stream
    \<Rightarrow> (proxy_event list \<times> proxy_error option) option" where
  "serveSOCKS5 reach ip_str cfg la s =
     (case ServerHandshake (if px_Users cfg = [] then None else Some (Verify cfg)) la s of
        (Inl e, _) \<Rightarrow> Some ([], Some (SocksErr e))
      | (Inr (addr, cmd), _) \<Rightarrow>
          if cmd = CmdConnect then map_option (proxy reach ''tcp'' []) (Addr_String ip_str addr)
          else if cmd = CmdUDPAssociate then Some ([Discard], None)
          else Some ([], None))"

text \<open>A parsed request: \<open>hr_auth\<close> are the credentials of its \<open>Proxy-Authorization\<close> header, absent
  when there is none or it does not parse; \<open>hr_wire\<close> is the request as it is sent on.\<close>
record http_request =
  hr_Method :: string
  hr_Host :: string
  hr_auth :: "(bytes \<times> bytes) option"
  hr_wire :: bytes

definition http_target :: "string \<Rightarrow> string" where
  "http_target host = (case SplitHostPort host of Inl _ \<Rightarrow> host @ '':80'' | Inr _ \<Rightarrow> host)"

text \<open>\<open>write_ok\<close>: whether the established-response can be written.\<close>
definition serveHTTP :: "(string \<Rightarrow> string \<Rightarrow> bool) \<Rightarrow> bool \<Rightarrow> ProxyConfig \<Rightarrow> http_request option \<Rightarrow> proxy_event list \<times> proxy_error option" where
  "serveHTTP reach write_ok cfg request =
     (case request of
        None \<Rightarrow> ([], Some BadRequest)
      | Some r \<Rightarrow>
          (let host = http_target (hr_Host r) in
           if (case hr_auth r of None \<Rightarrow> False | Some (user, pass) \<Rightarrow> \<not> Verify cfg user pass)
           then ([Respond 407], Some InvalidUser)
           else if hr_Method r = ''CONNECT'' then
             (if \<not> write_ok then ([], Some WriteFailed)
              else case proxy reach ''tcp'' [] host of
                (ev, None) \<Rightarrow> (Respond 200 # ev, None)
              | (ev, Some e) \<Rightarrow> (Respond 200 # ev @ [Respond 500], Some e))
           else case proxy reach ''tcp'' (hr_wire r) host of
             (ev, None) \<Rightarrow> (ev, None)
           | (ev, Some e) \<Rightarrow> (ev @ [Respond 500], Some e)))"

text \<open>One connection of \<open>readTCP\<close>: the first byte decides the protocol and is given back.\<close>
definition serve_tcp :: "(string \<Rightarrow> string \<Rightarrow> bool) \<Rightarrow> (IP \<Rightarrow> string) \<Rightarrow> (stream \<Rightarrow> http_request option) \<Rightarrow> bool \<Rightarrow> ProxyConfig \<Rightarrow> bytes option
    \<Rightarrow> stream \<Rightarrow> (proxy_event list \<times> proxy_error option) option" where
  "serve_tcp reach ip_str read_request write_ok cfg la s =
     (case s_in s of
        [] \<Rightarrow> Some ([], None)
      | b # _ \<Rightarrow> if b = 5 then serveSOCKS5 reach ip_str cfg la s else Some (serveHTTP reach write_ok cfg (read_request s)))"

text \<open>One association of \<open>readUDP\<close>: the target of its first packet.\<close>
definition serve_udp :: "(string \<Rightarrow> string \<Rightarrow> bool) \<Rightarrow> (IP \<Rightarrow> string) \<Rightarrow> Socks5UDPConn \<Rightarrow> (Socks5UDPConn \<times> proxy_event list \<times> proxy_error option) option" where
  "serve_udp reach ip_str c =
     (case peekTarget c of
        (c1, Inl e) \<Rightarrow> Some (c1, [], Some e)
      | (c1, Inr addr) \<Rightarrow> map_option (\<lambda>t. (c1, proxy reach ''udp'' [] t)) (Addr_String ip_str addr))"

section \<open>Relay and port forwards\<close>

text \<open>What is still to be read from each side and what was written to it.\<close>
record relay_state =
  rl_in1 :: bytes
  rl_in2 :: bytes
  rl_out1 :: bytes
  rl_out2 :: bytes
  rl_closed :: bool

definition relay_init :: "bytes \<Rightarrow> bytes \<Rightarrow> relay_state" where
  "relay_init i1 i2 = \<lparr>rl_in1 = i1, rl_in2 = i2, rl_out1 = [], rl_out2 = [], rl_closed = False\<rparr>"

text \<open>Both directions copy; when the first side has ended, both connections are closed.\<close>
inductive relay_step :: "relay_state \<Rightarrow> relay_state \<Rightarrow> bool" where
  copy12: "\<not> rl_closed r \<Longrightarrow> rl_in1 r = b @ rest \<Longrightarrow> b \<noteq> [] \<Longrightarrow> relay_step r (r\<lparr>rl_in1 := rest, rl_out2 := rl_out2 r @ b\<rparr>)"
| copy21: "\<not> rl_closed r \<Longrightarrow> rl_in2 r = b @ rest \<Longrightarrow> b \<noteq> [] \<Longrightarrow> relay_step r (r\<lparr>rl_in2 := rest, rl_out1 := rl_out1 r @ b\<rparr>)"
| ended: "\<not> rl_closed r \<Longrightarrow> rl_in1 r = [] \<Longrightarrow> relay_step r (r\<lparr>rl_closed := True\<rparr>)"

text \<open>\<open>strconv.ParseInt(port, 10, 64)\<close> with its error dropped, and the conversion to a port.\<close>
definition ParseInt_value :: "string \<Rightarrow> int" where
  "ParseInt_value s =
     (let (neg, d) = (case s of CHR ''-'' # r \<Rightarrow> (True, r) | CHR ''+'' # r \<Rightarrow> (False, r) | _ \<Rightarrow> (False, s));
          n = (if d = [] then 0 else case parse_uint 0 d of None \<Rightarrow> 0 | Some m \<Rightarrow> int m)
      in if neg then max (- (2 ^ 63)) (- n) else min (2 ^ 63 - 1) n)"

definition forward_port :: "string \<Rightarrow> u16" where
  "forward_port port = word_of_int (ParseInt_value port)"

datatype forward_error = ParseForward host_error | ListenFailed

text \<open>\<open>ForwardEngine.Start\<close>: the listeners (scheme, port, backend) in the order of the forwards, or an
  error with the listeners that are closed again. A forward that is no URL is skipped.\<close>
fun start_forwards :: "(string \<Rightarrow> (string \<times> string) option) \<Rightarrow> (string \<Rightarrow> u16 \<Rightarrow> bool) \<Rightarrow> string list \<Rightarrow> (string \<times> u16 \<times> string) list
    \<Rightarrow> (forward_error \<times> (string \<times> u16 \<times> string) list) + (string \<times> u16 \<times> string) list" where
  "start_forwards parse_url listen [] ls = Inr ls"
| "start_forwards parse_url listen (f # fs) ls =
     (case parse_url f of
        None \<Rightarrow> start_forwards parse_url listen fs ls
      | Some (scheme, host) \<Rightarrow>
          (case SplitHostPort host of
             Inl e \<Rightarrow> Inl (ParseForward e, ls)
           | Inr (_, port) \<Rightarrow>
               if listen scheme (forward_port port)
               then start_forwards parse_url listen fs (ls @ [(scheme, forward_port port, host)])
               else Inl (ListenFailed, ls)))"

lemma ParseInt_value_Itoa: "int n < 2 ^ 63 \<Longrightarrow> ParseInt_value (Itoa n) = int n"
proof -
  assume n: "int n < 2 ^ 63"
  have "digit (CHR ''-'') = None" "digit (CHR ''+'') = None" by (simp_all add: digit_def)
  with Itoa_digits [of _ n] Itoa_not_Nil [of n] have "\<exists>c r. Itoa n = c # r \<and> c \<noteq> CHR ''-'' \<and> c \<noteq> CHR ''+''"
    by (metis list.exhaust list.set_intros(1))
  then obtain c r where c: "Itoa n = c # r" "c \<noteq> CHR ''-''" "c \<noteq> CHR ''+''" by blast
  then have "(case Itoa n of CHR ''-'' # r \<Rightarrow> (True, r) | CHR ''+'' # r \<Rightarrow> (False, r) | _ \<Rightarrow> (False, Itoa n)) = (False, Itoa n)"
    by (auto split: char.splits bool.splits)
  with n show ?thesis by (simp add: ParseInt_value_def)
qed

section \<open>Properties\<close>

text \<open>Reading ahead is invisible: whatever the sizes of the reads, a connection that was sniffed
  delivers the bytes read ahead and then those of the connection, none lost or repeated.\<close>
theorem peek_conn_transparent:
  assumes "peeked.read_sizes ns \<lparr>pk_conn = s, pk_peek = Some p\<rparr> = (out, c)"
  shows "p @ s_in s = out @ (case pk_peek c of None \<Rightarrow> [] | Some q \<Rightarrow> q) @ s_in (pk_conn c)"
  using peeked.read_sizes_exact [OF assms] by (simp add: peek_pending_def)

theorem peek_conn_transparent_witness:
  "\<exists>c :: stream peekConn. [5] @ s_in (stream_of_bytes [1, 2, 3]) = [5, 1, 2] @ (case pk_peek c of None \<Rightarrow> [] | Some q \<Rightarrow> q) @ s_in (pk_conn c)"
proof -
  have "peeked.read_sizes [4, 2] \<lparr>pk_conn = stream_of_bytes [1, 2, 3], pk_peek = Some [5]\<rparr> =
      ([5, 1, 2], \<lparr>pk_conn = \<lparr>s_in = [3], s_out = [], s_wr = None\<rparr>, pk_peek = None\<rparr>)"
    by (simp add: peekConn_Read_def stream_rd_def stream_of_bytes_def)
  from peek_conn_transparent [OF this] show ?thesis by (rule exI)
qed



text \<open>One target per association: after the first packet is peeked, the first read gives its
  payload and replies carry its target; but the target is a slice of the read buffer, so after a
  second packet to another target of the same size the replies carry that one, although the
  association still belongs to the first.\<close>
theorem socks5_udp_reply_target:
  assumes "addr_ok a" and "addr_ok a'" and "length a' = length a" and "length ([0, 0, 0] @ a @ d) \<le> 65535" and "length ([0, 0, 0] @ a' @ d') \<le> 65535"
    and "length d \<le> n" and "length d' \<le> n"
  shows "\<exists>c1 c2 c3. peekTarget (su_new [[0, 0, 0] @ a @ d, [0, 0, 0] @ a' @ d']) = (c1, Inr a) \<and> su_Read n c1 = (c2, Inr d) \<and>
    su_out (fst (su_Write q c2)) = [[0, 0, 0] @ a @ q] \<and>
    su_Read n c2 = (c3, Inr d') \<and> su_out (fst (su_Write q c3)) = [[0, 0, 0] @ a' @ q]"
proof -
  have dec: "DecodeUDPPacket ([0, 0, 0] @ b @ x) = (Some b, x, None)" if "addr_ok b" for b x
  proof -
    have "2 \<le> length b" using that by (cases rule: addr_ok_cases) auto
    then show ?thesis using SplitAddr_append [OF that, of x] by (simp add: DecodeUDPPacket_def Let_def numeral_3_eq_3)
  qed
  let ?p = "[0, 0, 0] @ a @ d" and ?p' = "[0, 0, 0] @ a' @ d'"
  let ?b1 = "?p @ drop (length ?p) (replicate 65535 0)"
  let ?b2 = "?p' @ drop (length ?p') ?b1"
  let ?c = "\<lambda>ps b k. \<lparr>su_in = ps, su_out = [], su_Addr = Some (3, length a), su_readBuf = b, su_peekPacket = k\<rparr>"
  have t: "take 65535 ?p = ?p" "take 65535 ?p' = ?p'" using assms(4,5) by auto
  have "peekTarget (su_new [?p, ?p']) = (?c [?p'] ?b1 (Some ?p), Inr a)"
    unfolding peekTarget_def read_packet_def su_new_def Let_def
    by (simp only: Socks5UDPConn.simps list.case option.case prod.case t dec [OF assms(1)] option.map)
  moreover have "su_Read n (?c [?p'] ?b1 (Some ?p)) = (?c [?p'] ?b1 None, Inr d)"
    unfolding su_Read_def Let_def using assms(6)
    by (simp only: Socks5UDPConn.simps option.case prod.case dec [OF assms(1)] take_all)
  moreover have "su_Read n (?c [?p'] ?b1 None) = (?c [] ?b2 None, Inr d')"
    unfolding su_Read_def read_packet_def Let_def using assms(7)
    by (simp only: Socks5UDPConn.simps list.case option.case prod.case t dec [OF assms(2)] take_all)
  moreover have "su_out (fst (su_Write q (?c ps b k))) = [[0, 0, 0] @ take (length a) (drop 3 b) @ q]" for ps b k
    by (simp add: su_Write_def current_Addr_def EncodeUDPPacket_def)
  moreover have "take (length a) (drop 3 ?b1) = a" "take (length a) (drop 3 ?b2) = a'"
    using assms(3) by simp_all
  ultimately show ?thesis by metis
qed

theorem socks5_udp_reply_target_witness:
  "\<exists>c1 c2 c3. peekTarget (su_new [[0, 0, 0] @ [1, 10, 0, 0, 1, 0, 53] @ [7], [0, 0, 0] @ [1, 10, 0, 0, 2, 0, 53] @ [8]]) = (c1, Inr [1, 10, 0, 0, 1, 0, 53]) \<and>
    su_Read 9 c1 = (c2, Inr [7]) \<and> su_out (fst (su_Write [9] c2)) = [[0, 0, 0] @ [1, 10, 0, 0, 1, 0, 53] @ [9]] \<and>
    su_Read 9 c2 = (c3, Inr [8]) \<and> su_out (fst (su_Write [9] c3)) = [[0, 0, 0] @ [1, 10, 0, 0, 2, 0, 53] @ [9]]"
  by (rule socks5_udp_reply_target) (simp_all add: addr_ok_def SplitAddr_def socks_consts)

lemma relay_steps_keep:
  assumes "relay_step\<^sup>*\<^sup>* r r'"
  shows "rl_out2 r' @ rl_in1 r' = rl_out2 r @ rl_in1 r \<and> rl_out1 r' @ rl_in2 r' = rl_out1 r @ rl_in2 r \<and>
    (rl_closed r' \<longrightarrow> rl_closed r \<or> rl_in1 r' = [])"
  using assms by (induction rule: rtranclp_induct) (auto elim!: relay_step.cases)

text \<open>Forwards open in order: when every forward is a URL with a host and a port below 65536 and
  the card can listen, each gets a listener on its own port; a larger port silently wraps.\<close>
theorem forwards_listen:
  assumes "\<forall>f\<in>set fs. \<exists>scheme host n. parse_url f = Some (scheme, JoinHostPort host (Itoa n)) \<and> unbracketed host \<and> int n < 2 ^ 63 \<and> listen scheme (of_nat n)"
  shows "\<exists>ls'. start_forwards parse_url listen fs ls = Inr (ls @ ls') \<and>
    list_all2 (\<lambda>f (scheme, port, hp). parse_url f = Some (scheme, hp) \<and> (\<exists>host n. hp = JoinHostPort host (Itoa n) \<and> port = of_nat n)) fs ls'"
  using assms
proof (induction fs arbitrary: ls)
  case (Cons f fs)
  then obtain scheme host n where f: "parse_url f = Some (scheme, JoinHostPort host (Itoa n))" "unbracketed host" "int n < 2 ^ 63" "listen scheme (of_nat n)"
    by auto
  have p: "forward_port (Itoa n) = of_nat n" by (simp add: forward_port_def ParseInt_value_Itoa [OF f(3)])
  let ?l = "(scheme, of_nat n, JoinHostPort host (Itoa n))"
  have "start_forwards parse_url listen (f # fs) ls = start_forwards parse_url listen fs (ls @ [?l])"
    using f p SplitHostPort_JoinHostPort [OF f(2) Itoa_unbracketed Itoa_no_colon] by simp
  moreover from Cons obtain ls' where "start_forwards parse_url listen fs (ls @ [?l]) = Inr ((ls @ [?l]) @ ls')"
    "list_all2 (\<lambda>f (scheme, port, hp). parse_url f = Some (scheme, hp) \<and> (\<exists>host n. hp = JoinHostPort host (Itoa n) \<and> port = of_nat n)) fs ls'"
    by fastforce
  ultimately show ?case using f(1) by (intro exI [of _ "?l # ls'"]) auto
qed simp

text \<open>The relay forwards exactly: whatever the interleaving, each side has been written a prefix
  of what the other one sent, and when the relay closes, all that the client sent has reached the
  target. But a client that has finished sending can lose the whole answer: a run exists that
  closes with nothing of it delivered.\<close>
theorem relay_forwards:
  "(relay_step\<^sup>*\<^sup>* (relay_init i1 i2) r \<longrightarrow>
     rl_out2 r @ rl_in1 r = i1 \<and> rl_out1 r @ rl_in2 r = i2 \<and> (rl_closed r \<longrightarrow> rl_out2 r = i1)) \<and>
   (\<exists>r. relay_step\<^sup>*\<^sup>* (relay_init i1 i2) r \<and> rl_closed r \<and> rl_out1 r = [])"
proof (intro conjI impI)
  let ?m = "(relay_init i1 i2)\<lparr>rl_in1 := [], rl_out2 := i1\<rparr>"
  have "relay_step\<^sup>*\<^sup>* (relay_init i1 i2) ?m"
  proof (cases "i1 = []")
    case False
    then have "relay_step (relay_init i1 i2) ((relay_init i1 i2)\<lparr>rl_in1 := [], rl_out2 := rl_out2 (relay_init i1 i2) @ i1\<rparr>)"
      by (intro relay_step.copy12) (simp_all add: relay_init_def)
    then show ?thesis by (simp add: relay_init_def)
  qed (simp add: relay_init_def)
  moreover have "relay_step ?m (?m\<lparr>rl_closed := True\<rparr>)" by (rule relay_step.ended) (simp_all add: relay_init_def)
  ultimately have "relay_step\<^sup>*\<^sup>* (relay_init i1 i2) (?m\<lparr>rl_closed := True\<rparr>)" by simp
  then show "\<exists>r. relay_step\<^sup>*\<^sup>* (relay_init i1 i2) r \<and> rl_closed r \<and> rl_out1 r = []"
    by (intro exI [of _ "?m\<lparr>rl_closed := True\<rparr>"]) (simp add: relay_init_def)
qed (use relay_steps_keep [of "relay_init i1 i2" r] in \<open>auto simp: relay_init_def\<close>)

theorem relay_forwards_witness:
  "\<exists>r. relay_step\<^sup>*\<^sup>* (relay_init [1] [2, 3]) r \<and> rl_closed r \<and> rl_out2 r = [1] \<and> rl_out1 r = []"
  using relay_forwards [of "[1]" "[2, 3]"] by blast

end
