(* ===== verification/Vpn_Node.thy ===== *)
theory Vpn_Node
  imports P2p_Correct Vpn Rootless
begin

text \<open>
  The VPN node (\<open>cmd/pgcli/vpn/vpn.go\<close>, \<open>disco/server.go\<close>): its configuration from the parsed flags,
  the options it listens with, the store of its network secret, and the wiring of the packet
  connection to the interface. Files, JSON, the login at the map server, the parsing of prefixes and
  URLs, and the clock are arguments.
\<close>

section \<open>Configuration\<close>

record vnode_Config =
  vg_IPv4 :: string
  vg_IPv6 :: string
  vg_MTU :: int
  vg_Name :: string
  vg_Proxy :: ProxyConfig
  vg_Disco :: DiscoConfig
  vg_IgnoredInterfaces :: "string list"
  vg_UDPPort :: int
  vg_PrivateKey :: bytes
  vg_Secret :: string
  vg_SecretFile :: string
  vg_Server :: string
  vg_AuthQR :: bool
  vg_Mode :: string
  vg_Forwards :: "string list"
  vg_Labels :: "string list"
  vg_QueryPeers :: bool
  vg_QueryNodeInfo :: bool

text \<open>The flags that are not fields of the configuration.\<close>
record node_flags =
  nf_forcePeerRelay :: bool
  nf_forceServerRelay :: bool
  nf_cryptoAlgo :: string

text \<open>The defaults of the flags; \<open>tun\<close> is the name of the interface for the system and \<open>env\<close> the
  value of \<open>PG_SERVER\<close>.\<close>
definition default_flags :: "string \<Rightarrow> string \<Rightarrow> vnode_Config \<times> node_flags" where
  "default_flags tun env =
     (\<lparr>vg_IPv4 = '''', vg_IPv6 = '''', vg_MTU = 1371, vg_Name = tun, vg_Proxy = \<lparr>px_Listen = '''', px_Users = []\<rparr>,
       vg_Disco = \<lparr>PortScanOffset = -1000, PortScanCount = 3000, PortScanDuration = 6 * second, ChallengesRetry = 5,
         ChallengesInitialInterval = 200000000, ChallengesBackoffRate = 165 / 100\<rparr>,
       vg_IgnoredInterfaces = [], vg_UDPPort = 29877, vg_PrivateKey = [], vg_Secret = '''', vg_SecretFile = '''', vg_Server = env,
       vg_AuthQR = False, vg_Mode = MODE_DEFAULT, vg_Forwards = [], vg_Labels = [], vg_QueryPeers = False, vg_QueryNodeInfo = False\<rparr>,
      \<lparr>nf_forcePeerRelay = False, nf_forceServerRelay = False, nf_cryptoAlgo = ''chacha20poly1305''\<rparr>)"

datatype node_error = ServerNotSet | AddressRequired | BadPrefix | BadURL | UnsupportedScheme | StoreRequired
| OpenFailed | DecodeFailed | CreateFailed | EncodeFailed | NoCurrentUser | LoginFailed

datatype symm_algo = ChaCha | AESCBC_algo

text \<open>\<open>createConfig\<close> after the flags are parsed: the configuration, the algorithm that becomes the default,
  and the error. A query ends before anything is checked.\<close>
definition createConfig :: "vnode_Config \<Rightarrow> node_flags \<Rightarrow> vnode_Config \<times> symm_algo option \<times> node_error option" where
  "createConfig cfg f =
     (if vg_QueryPeers cfg \<or> vg_QueryNodeInfo cfg then (cfg, None, None)
      else let algo = (if nf_cryptoAlgo f = ''chacha20poly1305'' then Some ChaCha
                       else if nf_cryptoAlgo f = ''aescbc'' then Some AESCBC_algo else None) in
        if vg_Server cfg = '''' then (cfg, algo, Some ServerNotSet)
        else if vg_IPv4 cfg = '''' \<and> vg_IPv6 cfg = '''' then (cfg, algo, Some AddressRequired)
        else let cfg1 = (if nf_forcePeerRelay f then cfg\<lparr>vg_Mode := MODE_FORCE_PEER_RELAY\<rparr> else cfg);
                 cfg2 = (if nf_forceServerRelay f \<and> \<not> nf_forcePeerRelay f then cfg1\<lparr>vg_Mode := MODE_FORCE_RELAY\<rparr> else cfg1)
             in (cfg2, algo, None))"

text \<open>The card of \<open>Run\<close>.\<close>
definition rootlessMode :: "vnode_Config \<Rightarrow> bool" where
  "rootlessMode cfg \<longleftrightarrow> vg_Forwards cfg \<noteq> [] \<or> px_Listen (vg_Proxy cfg) \<noteq> ''''"

section \<open>Secret store\<close>

text \<open>\<open>SecretFile\<close> over the content of its file, absent when there is none. \<open>enc\<close> and \<open>dec\<close> are the JSON
  codec; \<open>writable\<close> and \<open>readable\<close> are the permissions.\<close>
record secret_env =
  se_enc :: "NetworkSecret \<Rightarrow> bytes option"
  se_dec :: "bytes \<Rightarrow> NetworkSecret option"
  se_readable :: bool
  se_writable :: bool

definition file_NetworkSecret :: "secret_env \<Rightarrow> bytes option \<Rightarrow> node_error + NetworkSecret" where
  "file_NetworkSecret e file =
     (case file of
        None \<Rightarrow> Inl OpenFailed
      | Some b \<Rightarrow> if \<not> se_readable e then Inl OpenFailed
                  else (case se_dec e b of None \<Rightarrow> Inl DecodeFailed | Some s \<Rightarrow> Inr s))"

text \<open>The file is emptied before the secret is encoded.\<close>
definition file_UpdateNetworkSecret :: "secret_env \<Rightarrow> NetworkSecret \<Rightarrow> bytes option \<Rightarrow> bytes option \<times> node_error option" where
  "file_UpdateNetworkSecret e secret file =
     (if \<not> se_writable e then (file, Some CreateFailed)
      else case se_enc e secret of None \<Rightarrow> (Some [], Some EncodeFailed) | Some b \<Rightarrow> (Some b, None))"

datatype secret_store = Static NetworkSecret | SecretFile string

text \<open>\<open>loginIfNecessary\<close>: the store, the content of the file at its path afterwards. \<open>home\<close> is the home
  directory, \<open>login\<close> the secret that the login at the server gives.\<close>
definition loginIfNecessary :: "secret_env \<Rightarrow> string option \<Rightarrow> NetworkSecret option \<Rightarrow> int \<Rightarrow> vnode_Config \<Rightarrow> (string \<Rightarrow> bytes option)
    \<Rightarrow> (node_error + secret_store) \<times> (string \<Rightarrow> bytes option)" where
  "loginIfNecessary e home login now cfg files =
     (if vg_Secret cfg \<noteq> '''' then (Inr (Static \<lparr>ns_Secret = vg_Secret cfg, ns_Network = '''', ns_Expire = 0\<rparr>), files)
      else if vg_SecretFile cfg = '''' \<and> home = None then (Inl NoCurrentUser, files)
      else let path = (if vg_SecretFile cfg = '''' then the home @ ''/.peerguard_network_secret.json'' else vg_SecretFile cfg);
               newFileStore =
                 (case login of
                    None \<Rightarrow> (Inl LoginFailed, files)
                  | Some joined \<Rightarrow>
                      (case file_UpdateNetworkSecret e joined (files path) of
                         (c, Some err) \<Rightarrow> (Inl err, files(path := c))
                       | (c, None) \<Rightarrow> (Inr (SecretFile path), files(path := c))))
        in if files path = None then newFileStore
           else case file_NetworkSecret e (files path) of
             Inl err \<Rightarrow> (Inl err, files)
           | Inr secret \<Rightarrow> if Expired secret now then newFileStore else (Inr (SecretFile path), files))"

text \<open>What the store answers.\<close>
definition store_secret_of :: "secret_env \<Rightarrow> (string \<Rightarrow> bytes option) \<Rightarrow> secret_store \<Rightarrow> node_error + NetworkSecret" where
  "store_secret_of e files st = (case st of Static s \<Rightarrow> Inr s | SecretFile path \<Rightarrow> file_NetworkSecret e (files path))"

text \<open>\<open>NewServer\<close>; \<open>scheme\<close> is the scheme of the parsed URL.\<close>
definition NewServer :: "(string \<Rightarrow> string option) \<Rightarrow> string \<Rightarrow> secret_store option \<Rightarrow> node_error + string \<times> secret_store" where
  "NewServer scheme url store =
     (case store of
        None \<Rightarrow> Inl StoreRequired
      | Some st \<Rightarrow>
          (case scheme url of
             None \<Rightarrow> Inl BadURL
           | Some s \<Rightarrow> if s \<in> set [''https'', ''wss'', ''http'', ''ws''] then Inr (url, st) else Inl UnsupportedScheme))"

section \<open>Options\<close>

text \<open>What \<open>listenPacketConn\<close> takes from its surroundings: the host and the clock, the prefixes with their
  address, the options of the key, given the key or generating one.\<close>
record 'e listen_env =
  le_Version :: string
  le_hostname :: string
  le_unix :: nat
  le_ParsePrefix :: "string \<Rightarrow> string option"
  le_curve :: curve
  le_algo :: "(PeerID \<Rightarrow> bytes option) \<Rightarrow> 'e SymmAlgo"
  le_generated :: "bytes option"

definition alias_options :: "'e listen_env \<Rightarrow> (string \<Rightarrow> 'e p2p_Option) \<Rightarrow> string \<Rightarrow> 'e p2p_Option list option" where
  "alias_options e alias prefix =
     (if prefix = '''' then Some []
      else case le_ParsePrefix e prefix of None \<Rightarrow> None | Some addr \<Rightarrow> Some [alias addr])"

definition listen_options :: "'e listen_env \<Rightarrow> vnode_Config \<Rightarrow> 'e p2p_Option list option" where
  "listen_options e cfg = do {
     v4 \<leftarrow> alias_options e PeerAlias1 (vg_IPv4 cfg);
     v6 \<leftarrow> alias_options e PeerAlias2 (vg_IPv6 cfg);
     Some ([PeerMetaOption ''version'' (le_Version e), PeerMetaOption ''name'' (le_hostname e), PeerMetaOption ''st'' (Itoa (le_unix e)),
            KeepAlivePeriod (6 * second)] @
           map (PeerMetaOption ''label'') (vg_Labels cfg) @
           (if 0 < vg_UDPPort cfg then [ListenUDPPort (vg_UDPPort cfg)] else []) @ v4 @ v6 @
           [if vg_PrivateKey cfg \<noteq> [] then ListenPeerCurve25519 (le_curve e) (le_algo e) (vg_PrivateKey cfg)
            else ListenPeerSecure (le_curve e) (le_algo e) (le_generated e)]) }"

text \<open>The addresses and interfaces that discovery ignores: those of the VPN itself and of other tunnels.\<close>
definition ignore_own :: "(string \<Rightarrow> IPNet option) \<Rightarrow> vnode_Config \<Rightarrow> local_cfg \<Rightarrow> local_cfg" where
  "ignore_own parse cfg g =
     (let g1 = SetIgnoredLocalInterfaceNamePrefixs (vg_IgnoredInterfaces cfg @ [''pg'', ''wg'', ''veth'', ''docker'', ''nerdctl'', ''tailscale'']) g;
          g2 = (if vg_IPv4 cfg \<noteq> '''' then AddIgnoredLocalCIDRs parse [vg_IPv4 cfg] g1 else g1)
      in if vg_IPv6 cfg \<noteq> '''' then AddIgnoredLocalCIDRs parse [vg_IPv6 cfg] g2 else g2)"

section \<open>Wiring\<close>

definition onPeerUp :: "PeerID \<Rightarrow> url_values \<Rightarrow> VirtualNIC \<Rightarrow> VirtualNIC" where
  "onPeerUp i m v =
     AddPeer \<lparr>np_Addr = i, np_IPv4 = first_value m ''alias1'', np_IPv6 = first_value m ''alias2'', np_Meta = Some m\<rparr> v"

definition onPeerLeave :: "string list \<Rightarrow> PeerID \<Rightarrow> VirtualNIC \<Rightarrow> VirtualNIC option" where
  "onPeerLeave order i v = LabelPeer order i ''node.off'' v"

text \<open>The callbacks that handling an event starts.\<close>
fun node_actions :: "string list \<Rightarrow> p2p_action list \<Rightarrow> VirtualNIC \<Rightarrow> VirtualNIC option" where
  "node_actions order [] v = Some v"
| "node_actions order (a # as) v =
     Option.bind (case a of OnPeer i m \<Rightarrow> Some (onPeerUp i m v) | OnPeerLeave i \<Rightarrow> onPeerLeave order i v | _ \<Rightarrow> Some v)
       (node_actions order as)"

section \<open>Lemmas\<close>

lemma apply_options_snoc: "apply_options (os @ [opt]) c = Option.bind (apply_options os c) opt"
  by (induction os arbitrary: c) (auto split: option.splits)

text \<open>Options that only set metadata, ports and periods.\<close>
definition plain_option :: "'e p2p_Option \<Rightarrow> bool" where
  "plain_option opt \<longleftrightarrow> (\<forall>c. \<exists>c'. opt c = Some c' \<and> po_SymmAlgo c' = po_SymmAlgo c)"

lemma plain_options:
  "plain_option (PeerMetaOption k x)" "plain_option (KeepAlivePeriod p)" "plain_option (ListenUDPPort n)"
  "plain_option (PeerAlias1 a)" "plain_option (PeerAlias2 a)"
  by (simp_all add: plain_option_def PeerMetaOption_def KeepAlivePeriod_def ListenUDPPort_def PeerAlias1_def PeerAlias2_def)

lemma apply_plain: "list_all plain_option os \<Longrightarrow> \<exists>c'. apply_options os c = Some c' \<and> po_SymmAlgo c' = po_SymmAlgo c"
proof (induction os arbitrary: c)
  case (Cons opt os)
  then obtain c1 where "opt c = Some c1" "po_SymmAlgo c1 = po_SymmAlgo c" by (auto simp: plain_option_def)
  with Cons.IH [of c1] Cons.prems show ?case by auto
qed simp

lemma announced_peer:
  assumes "nic_ok v" and "ip \<noteq> ''''" and "ip = first_value meta ''alias1'' \<or> ip = first_value meta ''alias2''"
    and "handleEvent code (Some (WPeer op i meta)) c = (c', acts)"
  shows "\<exists>v'. node_actions order acts v = Some v' \<and> nic_ok v' \<and> snd (GetPeer il order' ip v') = Some i"
proof -
  have "node_actions order acts v = Some (onPeerUp i meta v)" using assms(4) by (auto simp: handleEvent_def)
  with AddPeer_GetPeer [OF assms(1,2), of "\<lparr>np_Addr = i, np_IPv4 = first_value meta ''alias1'', np_IPv6 = first_value meta ''alias2'', np_Meta = Some meta\<rparr>"]
    assms(3) AddPeer_ok [OF assms(1)]
  show ?thesis by (auto simp: onPeerUp_def)
qed

lemma outbound_to_peer:
  assumes "vpn_pool_ok e" and "run_handlers (vc_OutboundHandlers cfg) out = Some p" and "AsBytes p = Some b"
    and "Ver p = Some 4" and "ve_ParseHeader4 e b = Some (src, dst)" and "il_String (ve_il e) dst \<noteq> ve_Show4 e" and "\<not> IsMulticast dst"
    and "snd (GetPeer (ve_il e) (ve_order e) (il_String (ve_il e) dst) v) = Some peer"
  shows "\<exists>v'. packetConnWrite cfg e out v = Some (v', [SendTo peer b])"
  using sendPacketToPeer_result [OF assms(1,3), of cfg src dst v] assms(2-8) by (auto simp: packetConnWrite_def dispatch_def)

section \<open>Properties\<close>

text \<open>C3. The whole path of a packet: when the map server has announced a peer to a node, an IPv4 packet
  that leaves the node's interface for an address of the peer is encrypted, passes the server, and
  is written to the interface of the peer with the same bytes, when both nodes use the server, have
  ciphers that belong together, and the packet fits into the read buffer of the peer.\<close>
theorem vpn_end_to_end:
  assumes "handleEvent code (Some (WPeer op B meta)) c0 = (ca, acts)" and "nic_reach v"
    and "il_String (ve_il eA) dst = first_value meta ''alias1'' \<or> il_String (ve_il eA) dst = first_value meta ''alias2''"
    and "il_String (ve_il eA) dst \<noteq> ''''" and "il_String (ve_il eA) dst \<noteq> ve_Show4 eA" and "\<not> IsMulticast dst"
    and "vpn_pool_ok eA" and "run_handlers (vc_OutboundHandlers cfgA) out = Some p" and "AsBytes p = Some b"
    and "Ver p = Some 4" and "ve_ParseHeader4 eA b = Some (src, dst)"
    and "pm_peers pm h = Some a" and "getPeer (network_of a) B pm = Some t" and "t \<noteq> h"
    and "pm_peers pm t = Some q" and "pc_conn q" and "pc_open q" and "length (pc_id a) \<le> 253" and "length B \<le> 253"
    and "\<not> pn_closed ca" and "pn_mode ca = MODE_FORCE_RELAY" and "ws_raw (pn_ws ca)" and "ws_nonce (pn_ws ca) = pc_nonce a"
    and "ws_nonce (pn_ws cb) = pc_nonce q" and "algs_match (pn_SymmAlgo ca) (pn_SymmAlgo cb) (pc_id a) B"
    and "vpn_pool_ok eB" and "\<And>x. run_handlers (vc_InboundHandlers cfgB) x = Some x" and "length b \<le> read_buffer cfgB"
  shows "\<exists>v' v'' w w' pm' wb x n y.
    node_actions order acts v = Some v' \<and> packetConnWrite cfgA eA out v' = Some (v'', [SendTo B b]) \<and>
    p2p_WriteTo str locked now b (Some B) ca = Some (ca, [PWs w], Inr n) \<and>
    readMessage e now' h (GSlice w sp) pm = Some (pm', [PmSend t w']) \<and>
    ws_recv parse resolve unjson now'' (GSlice w' sp') (pn_ws cb) = Some (wb, [WDatagram (pc_id a) x]) \<and>
    ReadFrom (read_buffer cfgB) (FromWs (Some \<lparr>dg_PeerID = pc_id a, dg_Data = x\<rparr>)) (cb\<lparr>pn_ws := wb\<rparr>) = Inr (b, pc_id a) \<and>
    packetConnRead cfgB eB b = Some [Inbound y] \<and> nicWrite cfgB y = [NicWrite y] \<and> AsBytes y = Some b"
proof -
  obtain v' where v': "node_actions order acts v = Some v'"
    "snd (GetPeer (ve_il eA) (ve_order eA) (il_String (ve_il eA) dst) v') = Some B"
    using announced_peer [OF nic_reach_ok [OF assms(2)] assms(4,3,1)] by blast
  from outbound_to_peer [OF assms(7-11,5,6) v'(2)]
  obtain v'' where v'': "packetConnWrite cfgA eA out v' = Some (v'', [SendTo B b])" by blast
  from server_path [OF assms(12-25), of str locked now b e now' sp parse resolve unjson now'' sp' "read_buffer cfgB"]
  obtain w w' pm' wb x n where path: "p2p_WriteTo str locked now b (Some B) ca = Some (ca, [PWs w], Inr n)"
    "readMessage e now' h (GSlice w sp) pm = Some (pm', [PmSend t w'])"
    "ws_recv parse resolve unjson now'' (GSlice w' sp') (pn_ws cb) = Some (wb, [WDatagram (pc_id a) x])"
    "ReadFrom (read_buffer cfgB) (FromWs (Some \<lparr>dg_PeerID = pc_id a, dg_Data = x\<rparr>)) (cb\<lparr>pn_ws := wb\<rparr>) = Inr (take (read_buffer cfgB) b, pc_id a)"
    by blast
  obtain y where "GetPacket (vpn_pool_MTU cfgB) (ve_pooled eB) b = Some y" "AsBytes y = Some b"
    using GetPacket_bytes [of "ve_pooled eB" "vpn_pool_MTU cfgB" b] assms(26) by (auto simp: vpn_pool_ok_def)
  then have "packetConnRead cfgB eB b = Some [Inbound y]" "nicWrite cfgB y = [NicWrite y]" "AsBytes y = Some b"
    using assms(27,28) by (simp_all add: packetConnRead_def nicWrite_def)
  with v'(1) v'' path assms(28) show ?thesis by (metis take_all)
qed

theorem vpn_end_to_end_witness:
  "\<exists>v' v'' w w' pm' x n y ca. node_actions [] [OnPeer [2] [''alias1'' \<mapsto> [''10.0.0.1'']]] vn_init = Some v' \<and>
    packetConnWrite demo_vpn_cfg demo_ve \<lparr>pk_buf = replicate 16 0 @ [0x45, 7], pk_offset = 16\<rparr> v' = Some (v'', [SendTo [2] [0x45, 7]]) \<and>
    p2p_WriteTo (\<lambda>_. ''x'') True 0 [0x45, 7] (Some [2]) ca = Some (ca :: unit PacketConn, [PWs w], Inr n) \<and>
    readMessage demo_env 0 0 (GSlice w []) demo_pm = Some (pm', [PmSend 1 w']) \<and>
    packetConnRead demo_vpn_cfg demo_ve [0x45, 7] = Some [Inbound y] \<and> AsBytes y = Some [0x45, 7]"
proof -
  let ?meta = "[''alias1'' \<mapsto> [''10.0.0.1'']]" and ?out = "\<lparr>pk_buf = replicate 16 0 @ [0x45, 7], pk_offset = 16\<rparr>"
  let ?ca = "(demo_node [1] 5)\<lparr>pn_peerMap := Put (pn_peerMap (demo_node [1] 5)) [2] ?meta\<rparr>"
  have h: "handleEvent CONTROL_UPDATE_META (Some (WPeer CONTROL_UPDATE_META [2] ?meta)) (demo_node [1] 5) = (?ca, [OnPeer [2] ?meta])"
    by (simp add: handleEvent_def control_codes)
  have ab: "AsBytes ?out = Some [0x45, 7]" by (simp add: AsBytes_def)
  have ver: "Ver ?out = Some 4" using Ver_data [OF ab] by simp
  have ve: "il_String (ve_il demo_ve) [10, 0, 0, 1] = ''10.0.0.1''" "ve_Show4 demo_ve = ''10.0.0.2''" "vpn_pool_ok demo_ve"
    "ve_ParseHeader4 demo_ve [0x45, 7] = Some ([10, 0, 0, 2], [10, 0, 0, 1])"
    "run_handlers (vc_OutboundHandlers demo_vpn_cfg) ?out = Some ?out" "\<And>x. run_handlers (vc_InboundHandlers demo_vpn_cfg) x = Some x"
    by (simp_all add: demo_ve_def vpn_pool_ok_def demo_vpn_cfg_def)
  have n: "\<not> IsMulticast [10, 0, 0, 1]" by (simp add: IsMulticast_def To4_def)
  have al: "algs_match (pn_SymmAlgo ?ca) (pn_SymmAlgo (demo_node [2] 6)) (pc_id (demo_peer [1] 5)) [2]" by (simp add: flip_match)
  have rb: "length ([0x45, 7] :: bytes) \<le> read_buffer demo_vpn_cfg" by (simp add: read_buffer_def demo_vpn_cfg_def)
  from vpn_end_to_end [OF h nic_reach.start _ _ _ n ve(3,5) ab ver ve(4) demo_server(1,3) _ demo_server(2) _ _ _ _ _ _ _ _ _ al ve(3,6) rb,
      of "[]" "\<lambda>_. ''x''" True 0 demo_env 0 "[]" "\<lambda>_. Map.empty" "\<lambda>_. None" "\<lambda>_. None" 0 "[]"] ve(1,2)
  show ?thesis by (simp add: first_value_def values_of_def) blast
qed

text \<open>C25. A VPN node is never in the clear: whatever its configuration, when its options are accepted a cipher
  is set, its id is the public key of its private key, and a configured key is the one that is used.\<close>
theorem node_always_encrypts:
  assumes "listen_options e cfg = Some opts" and "apply_options opts (default_config rid) = Some c"
  shows "\<exists>priv. po_SymmAlgo c = Some (le_algo e (shared_key (le_curve e) priv)) \<and>
    pr_ID (po_PeerInfo c) = b58_Encode (le_curve e) (cv_pub (le_curve e) priv) \<and>
    (vg_PrivateKey cfg \<noteq> [] \<longrightarrow> cv_private (le_curve e) (b58_Decode (le_curve e) (vg_PrivateKey cfg)) = Some priv)"
proof -
  let ?key = "if vg_PrivateKey cfg \<noteq> [] then ListenPeerCurve25519 (le_curve e) (le_algo e) (vg_PrivateKey cfg)
    else ListenPeerSecure (le_curve e) (le_algo e) (le_generated e)"
  obtain v4 v6 where v: "alias_options e PeerAlias1 (vg_IPv4 cfg) = Some v4" "alias_options e PeerAlias2 (vg_IPv6 cfg) = Some v6"
    and opts: "opts = ([PeerMetaOption ''version'' (le_Version e), PeerMetaOption ''name'' (le_hostname e), PeerMetaOption ''st'' (Itoa (le_unix e)),
            KeepAlivePeriod (6 * second)] @ map (PeerMetaOption ''label'') (vg_Labels cfg) @
           (if 0 < vg_UDPPort cfg then [ListenUDPPort (vg_UDPPort cfg)] else []) @ v4 @ v6) @ [?key]"
    using assms(1) by (auto simp: listen_options_def bind_eq_Some_conv)
  let ?plain = "[PeerMetaOption ''version'' (le_Version e), PeerMetaOption ''name'' (le_hostname e), PeerMetaOption ''st'' (Itoa (le_unix e)),
            KeepAlivePeriod (6 * second)] @ map (PeerMetaOption ''label'') (vg_Labels cfg) @
           (if 0 < vg_UDPPort cfg then [ListenUDPPort (vg_UDPPort cfg)] else []) @ v4 @ v6"
  have "list_all plain_option ?plain"
    using v by (auto simp: plain_options list_all_iff alias_options_def split: if_splits option.splits)
  from apply_plain [OF this] obtain c1 where c1: "apply_options ?plain (default_config rid) = Some c1" "po_SymmAlgo c1 = po_SymmAlgo (default_config rid)"
    by blast
  have "?key c1 = Some c" using assms(2) unfolding opts apply_options_snoc c1(1) by simp
  moreover have "po_SymmAlgo c1 = None" using c1(2) by (simp add: default_config_def)
  ultimately show ?thesis
    by (auto simp: ListenPeerCurve25519_def ListenPeerSecure_def split: if_splits option.splits)
qed

definition demo_listen :: "unit listen_env" where
  "demo_listen = \<lparr>le_Version = ''v'', le_hostname = ''h'', le_unix = 7, le_ParsePrefix = (\<lambda>p. Some ''10.0.0.2''),
     le_curve = \<lparr>cv_private = Some, cv_public = Some, cv_pub = rev, cv_ECDH = (\<lambda>_ _. Some []), b58_Encode = (\<lambda>x. x), b58_Decode = (\<lambda>x. x)\<rparr>,
     le_algo = (\<lambda>_. flip_alg), le_generated = Some [3, 4]\<rparr>"

theorem node_always_encrypts_witness:
  "\<exists>opts c. listen_options demo_listen (fst (default_flags ''pg0'' ''wss://m'')\<lparr>vg_IPv4 := ''10.0.0.2/24'', vg_PrivateKey := [1, 2]\<rparr>) = Some opts \<and>
    apply_options opts (default_config [9]) = Some c \<and> po_SymmAlgo c = Some flip_alg \<and> pr_ID (po_PeerInfo c) = [2, 1]"
proof -
  let ?cfg = "fst (default_flags ''pg0'' ''wss://m'')\<lparr>vg_IPv4 := ''10.0.0.2/24'', vg_PrivateKey := [1, 2]\<rparr>"
  obtain opts c where o: "listen_options demo_listen ?cfg = Some opts" "apply_options opts (default_config [9]) = Some c"
    by (simp add: listen_options_def alias_options_def default_flags_def demo_listen_def PeerMetaOption_def KeepAlivePeriod_def
        ListenUDPPort_def PeerAlias1_def ListenPeerCurve25519_def default_config_def)
  from node_always_encrypts [OF this] have "po_SymmAlgo c = Some flip_alg" "pr_ID (po_PeerInfo c) = [2, 1]"
    by (auto simp: demo_listen_def default_flags_def)
  with o show ?thesis by blast
qed

text \<open>C29. The secret of a node is valid: when the login succeeds with a secret file, the file holds a secret
  that has not expired or the one that the server has just issued; a valid file is left alone, and an
  error never touches another file.\<close>
theorem login_secret_valid:
  assumes "loginIfNecessary e home login now cfg files = (Inr (SecretFile path), files')"
    and "\<And>s b. se_enc e s = Some b \<Longrightarrow> se_dec e b = Some s" and "se_readable e"
  shows "\<exists>s. store_secret_of e files' (SecretFile path) = Inr s \<and> (\<not> Expired s now \<or> login = Some s) \<and>
    (files' = files \<or> login = Some s) \<and> (\<forall>other. other \<noteq> path \<longrightarrow> files' other = files other)"
proof -
  define pth where "pth = (if vg_SecretFile cfg = '''' then the home @ ''/.peerguard_network_secret.json'' else vg_SecretFile cfg)"
  define nfs where "nfs = (case login of None \<Rightarrow> (Inl LoginFailed, files)
    | Some joined \<Rightarrow> (case file_UpdateNetworkSecret e joined (files pth) of
        (c, Some err) \<Rightarrow> (Inl err, files(pth := c)) | (c, None) \<Rightarrow> (Inr (SecretFile pth), files(pth := c))))"
  have new: ?thesis if "nfs = (Inr (SecretFile path), files')"
  proof -
    from that obtain s b where s: "login = Some s" "se_enc e s = Some b" "path = pth" "files' = files(pth := Some b)"
      by (auto simp: nfs_def file_UpdateNetworkSecret_def split: option.splits if_splits)
    with assms(2) [OF s(2)] assms(3) show ?thesis by (simp add: store_secret_of_def file_NetworkSecret_def)
  qed
  have "nfs = (Inr (SecretFile path), files') \<or>
      (path = pth \<and> files' = files \<and> (\<exists>s. file_NetworkSecret e (files pth) = Inr s \<and> \<not> Expired s now))"
    using assms(1) unfolding loginIfNecessary_def Let_def pth_def [symmetric] nfs_def [symmetric]
    by (auto split: if_splits sum.splits)
  with new show ?thesis by (auto simp: store_secret_of_def)
qed

definition demo_secret :: "int \<Rightarrow> NetworkSecret" where
  "demo_secret t = \<lparr>ns_Secret = ''s'', ns_Network = ''n'', ns_Expire = t\<rparr>"

text \<open>A codec for the secrets of the demonstration: one byte for the expiry.\<close>
definition demo_codec :: secret_env where
  "demo_codec = \<lparr>se_enc = (\<lambda>s. if s = demo_secret 100 then Some [1] else None),
     se_dec = (\<lambda>b. if b = [1] then Some (demo_secret 100) else if b = [0] then Some (demo_secret 0) else None), se_readable = True, se_writable = True\<rparr>"

theorem login_secret_valid_witness:
  "\<exists>files'. loginIfNecessary demo_codec None (Some (demo_secret 100)) 50 (fst (default_flags '''' '''')\<lparr>vg_SecretFile := ''f''\<rparr>) [''f'' \<mapsto> [0]] =
      (Inr (SecretFile ''f''), files') \<and> store_secret_of demo_codec files' (SecretFile ''f'') = Inr (demo_secret 100)"
proof -
  let ?cfg = "fst (default_flags '''' '''')\<lparr>vg_SecretFile := ''f''\<rparr>" and ?files = "[''f'' \<mapsto> [0]]"
  obtain files' where l: "loginIfNecessary demo_codec None (Some (demo_secret 100)) 50 ?cfg ?files = (Inr (SecretFile ''f''), files')"
    by (simp add: loginIfNecessary_def default_flags_def file_NetworkSecret_def file_UpdateNetworkSecret_def demo_codec_def demo_secret_def Expired_def Let_def)
  moreover have "\<And>s b. se_enc demo_codec s = Some b \<Longrightarrow> se_dec demo_codec b = Some s" "se_readable demo_codec"
    by (auto simp: demo_codec_def split: if_splits)
  from login_secret_valid [OF l this] obtain s where s: "store_secret_of demo_codec files' (SecretFile ''f'') = Inr s"
    "\<not> Expired s 50 \<or> demo_secret 100 = s" by auto
  then have "s = demo_secret 100"
    by (auto simp: store_secret_of_def file_NetworkSecret_def demo_codec_def Expired_def demo_secret_def split: option.splits if_splits)
  with l s show ?thesis by blast
qed

text \<open>The accepted configurations: without a query, the configuration is accepted exactly when a server
  and an address are given; then forcing relays through peers wins over forcing the server, and an
  unknown cipher leaves the default one.\<close>
theorem createConfig_accepts:
  assumes "\<not> vg_QueryPeers cfg" and "\<not> vg_QueryNodeInfo cfg" and "createConfig cfg f = (cfg', algo, err)"
  shows "(err = None \<longleftrightarrow> vg_Server cfg \<noteq> '''' \<and> (vg_IPv4 cfg \<noteq> '''' \<or> vg_IPv6 cfg \<noteq> '''')) \<and>
    (err = None \<longrightarrow> vg_Mode cfg' =
      (if nf_forcePeerRelay f then MODE_FORCE_PEER_RELAY else if nf_forceServerRelay f then MODE_FORCE_RELAY else vg_Mode cfg)) \<and>
    (algo = None \<longleftrightarrow> nf_cryptoAlgo f \<noteq> ''chacha20poly1305'' \<and> nf_cryptoAlgo f \<noteq> ''aescbc'')"
  using assms by (auto simp: createConfig_def Let_def split: if_splits)

theorem createConfig_accepts_witness:
  "\<exists>cfg' algo. createConfig (fst (default_flags ''pg0'' ''wss://m'')\<lparr>vg_IPv4 := ''10.0.0.2/24''\<rparr>)
      \<lparr>nf_forcePeerRelay = True, nf_forceServerRelay = True, nf_cryptoAlgo = ''rot13''\<rparr> = (cfg', algo, None) \<and>
    vg_Mode cfg' = MODE_FORCE_PEER_RELAY \<and> algo = None"
proof -
  let ?cfg = "fst (default_flags ''pg0'' ''wss://m'')\<lparr>vg_IPv4 := ''10.0.0.2/24''\<rparr>"
  let ?f = "\<lparr>nf_forcePeerRelay = True, nf_forceServerRelay = True, nf_cryptoAlgo = ''rot13''\<rparr>"
  obtain cfg' algo err where c: "createConfig ?cfg ?f = (cfg', algo, err)" by (metis prod_cases3)
  have "\<not> vg_QueryPeers ?cfg" "\<not> vg_QueryNodeInfo ?cfg" "vg_Server ?cfg \<noteq> ''''" "vg_IPv4 ?cfg \<noteq> ''''" by (simp_all add: default_flags_def)
  with createConfig_accepts [OF _ _ c] have "err = None" "vg_Mode cfg' = MODE_FORCE_PEER_RELAY" "algo = None" by simp_all
  with c show ?thesis by simp
qed

end
