(* ===== verification/Flags.thy ===== *)
theory Flags
  imports Vpn_Node
begin

text \<open>
  Command lines: the parsing of flags as the commands use it (package \<open>flag\<close> of the standard library), the flags
  of the VPN command (\<open>createConfig\<close> of \<open>cmd/pgcli/vpn/vpn.go\<close>), and the choice of the command
  (\<open>cmd/pgcli/main.go\<close>). \<^const>\<open>None\<close>: the process ends with the usage text or an error.
\<close>

section \<open>Parsing flags\<close>

text \<open>A flag with the function that sets it, which refuses some values; one of the first kind needs no value.\<close>
datatype 'c flag = BoolFlag "string \<Rightarrow> 'c \<Rightarrow> 'c option" | ValueFlag "string \<Rightarrow> 'c \<Rightarrow> 'c option"

text \<open>A name up to the first equals sign, which is not its first character.\<close>
definition flag_name :: "string \<Rightarrow> string" where
  "flag_name s = take 1 s @ takeWhile (\<lambda>c. c \<noteq> CHR ''='') (drop 1 s)"

definition flag_value :: "string \<Rightarrow> string option" where
  "flag_value s = (case dropWhile (\<lambda>c. c \<noteq> CHR ''='') (drop 1 s) of [] \<Rightarrow> None | _ # v \<Rightarrow> Some v)"

text \<open>\<open>FlagSet.Parse\<close>: the settings in order, and the arguments after the flags.\<close>
fun flag_Parse :: "(string \<Rightarrow> 'c flag option) \<Rightarrow> string list \<Rightarrow> 'c \<Rightarrow> ('c \<times> string list) option" where
  "flag_Parse fs [] c = Some (c, [])"
| "flag_Parse fs (s # args) c =
     (if length s < 2 \<or> s ! 0 \<noteq> CHR ''-'' then Some (c, s # args)
      else if s = ''--'' then Some (c, args)
      else let t = (if s ! 1 = CHR ''-'' then drop 2 s else drop 1 s) in
        if t ! 0 \<in> {CHR ''-'', CHR ''=''} then None
        else case fs (flag_name t) of
          None \<Rightarrow> None
        | Some (BoolFlag upd) \<Rightarrow>
            (case upd (case flag_value t of None \<Rightarrow> ''true'' | Some v \<Rightarrow> v) c of None \<Rightarrow> None | Some c1 \<Rightarrow> flag_Parse fs args c1)
        | Some (ValueFlag upd) \<Rightarrow>
            (case flag_value t of
               Some v \<Rightarrow> (case upd v c of None \<Rightarrow> None | Some c1 \<Rightarrow> flag_Parse fs args c1)
             | None \<Rightarrow>
                 (case args of
                    [] \<Rightarrow> None
                  | v # args1 \<Rightarrow> (case upd v c of None \<Rightarrow> None | Some c1 \<Rightarrow> flag_Parse fs args1 c1))))"

text \<open>\<open>strconv.ParseBool\<close>\<close>
definition ParseBool :: "string \<Rightarrow> bool option" where
  "ParseBool s =
     (if s \<in> {''1'', ''t'', ''T'', ''TRUE'', ''true'', ''True''} then Some True
      else if s \<in> {''0'', ''f'', ''F'', ''FALSE'', ''false'', ''False''} then Some False else None)"

text \<open>Flags that set a part of the state, and the flag that prints the version and exits.\<close>
definition string_flag :: "(string \<Rightarrow> 'c \<Rightarrow> 'c) \<Rightarrow> 'c flag" where
  "string_flag upd = ValueFlag (\<lambda>v c. Some (upd v c))"

definition parsed_flag :: "(string \<Rightarrow> 'a option) \<Rightarrow> ('a \<Rightarrow> 'c \<Rightarrow> 'c) \<Rightarrow> 'c flag" where
  "parsed_flag parse upd = ValueFlag (\<lambda>v c. map_option (\<lambda>x. upd x c) (parse v))"

definition bool_flag :: "(bool \<Rightarrow> 'c \<Rightarrow> 'c) \<Rightarrow> 'c flag" where
  "bool_flag upd = BoolFlag (\<lambda>v c. map_option (\<lambda>x. upd x c) (ParseBool v))"

definition version_flag :: "'c flag" where
  "version_flag = BoolFlag (\<lambda>_ _. None)"

section \<open>The flags of the VPN\<close>

text \<open>The parsers of the standard library for integers, durations and floating-point numbers, and of the key.\<close>
record num_env =
  nu_int :: "string \<Rightarrow> int option"
  nu_duration :: "string \<Rightarrow> int option"
  nu_float :: "string \<Rightarrow> rat option"
  nu_key :: "string \<Rightarrow> bytes"

text \<open>The configuration, the flags that are not part of it, and the log level.\<close>
type_synonym vpn_args = "vnode_Config \<times> node_flags \<times> int"

definition on_cfg :: "(vnode_Config \<Rightarrow> vnode_Config) \<Rightarrow> vpn_args \<Rightarrow> vpn_args" where
  "on_cfg f a = (case a of (cfg, r) \<Rightarrow> (f cfg, r))"

definition on_flags :: "(node_flags \<Rightarrow> node_flags) \<Rightarrow> vpn_args \<Rightarrow> vpn_args" where
  "on_flags f a = (case a of (cfg, nf, l) \<Rightarrow> (cfg, f nf, l))"

definition disco_flags :: "num_env \<Rightarrow> string \<Rightarrow> vpn_args flag option" where
  "disco_flags nu = map_of [
     (''disco-port-scan-offset'', parsed_flag (nu_int nu) (\<lambda>x. on_cfg (\<lambda>c. c\<lparr>vg_Disco := (vg_Disco c)\<lparr>PortScanOffset := x\<rparr>\<rparr>))),
     (''disco-port-scan-count'', parsed_flag (nu_int nu) (\<lambda>x. on_cfg (\<lambda>c. c\<lparr>vg_Disco := (vg_Disco c)\<lparr>PortScanCount := x\<rparr>\<rparr>))),
     (''disco-port-scan-duration'', parsed_flag (nu_duration nu) (\<lambda>x. on_cfg (\<lambda>c. c\<lparr>vg_Disco := (vg_Disco c)\<lparr>PortScanDuration := x\<rparr>\<rparr>))),
     (''disco-challenges-retry'', parsed_flag (nu_int nu) (\<lambda>x. on_cfg (\<lambda>c. c\<lparr>vg_Disco := (vg_Disco c)\<lparr>ChallengesRetry := x\<rparr>\<rparr>))),
     (''disco-challenges-initial-interval'', parsed_flag (nu_duration nu) (\<lambda>x. on_cfg (\<lambda>c. c\<lparr>vg_Disco := (vg_Disco c)\<lparr>ChallengesInitialInterval := x\<rparr>\<rparr>))),
     (''disco-challenges-backoff-rate'', parsed_flag (nu_float nu) (\<lambda>x. on_cfg (\<lambda>c. c\<lparr>vg_Disco := (vg_Disco c)\<lparr>ChallengesBackoffRate := x\<rparr>\<rparr>))),
     (''disco-ignored-interface'', string_flag (\<lambda>x. on_cfg (\<lambda>c. c\<lparr>vg_IgnoredInterfaces := vg_IgnoredInterfaces c @ [x]\<rparr>)))]"

definition nic_flags :: "num_env \<Rightarrow> string \<Rightarrow> vpn_args flag option" where
  "nic_flags nu =
     (let ipv4 = string_flag (\<lambda>x. on_cfg (\<lambda>c. c\<lparr>vg_IPv4 := x\<rparr>)); ipv6 = string_flag (\<lambda>x. on_cfg (\<lambda>c. c\<lparr>vg_IPv6 := x\<rparr>)) in map_of [
     (''ipv4'', ipv4), (''4'', ipv4), (''ipv6'', ipv6), (''6'', ipv6),
     (''mtu'', parsed_flag (nu_int nu) (\<lambda>x. on_cfg (\<lambda>c. c\<lparr>vg_MTU := x\<rparr>))),
     (''tun'', string_flag (\<lambda>x. on_cfg (\<lambda>c. c\<lparr>vg_Name := x\<rparr>))),
     (''forward'', string_flag (\<lambda>x. on_cfg (\<lambda>c. c\<lparr>vg_Forwards := vg_Forwards c @ [x]\<rparr>))),
     (''proxy-listen'', string_flag (\<lambda>x. on_cfg (\<lambda>c. c\<lparr>vg_Proxy := (vg_Proxy c)\<lparr>px_Listen := x\<rparr>\<rparr>))),
     (''proxy-user'', string_flag (\<lambda>x. on_cfg (\<lambda>c. c\<lparr>vg_Proxy := (vg_Proxy c)\<lparr>px_Users := px_Users (vg_Proxy c) @ [map of_char x]\<rparr>\<rparr>)))])"

definition node_flags_of :: "num_env \<Rightarrow> string \<Rightarrow> vpn_args flag option" where
  "node_flags_of nu =
     (let file = string_flag (\<lambda>x. on_cfg (\<lambda>c. c\<lparr>vg_SecretFile := x\<rparr>)); server = string_flag (\<lambda>x. on_cfg (\<lambda>c. c\<lparr>vg_Server := x\<rparr>));
          label = string_flag (\<lambda>x. on_cfg (\<lambda>c. c\<lparr>vg_Labels := vg_Labels c @ [x]\<rparr>)) in map_of [
     (''key'', string_flag (\<lambda>x. on_cfg (\<lambda>c. c\<lparr>vg_PrivateKey := nu_key nu x\<rparr>))),
     (''secret'', string_flag (\<lambda>x. on_cfg (\<lambda>c. c\<lparr>vg_Secret := x\<rparr>))),
     (''secret-file'', file), (''f'', file),
     (''auth-qr'', bool_flag (\<lambda>x. on_cfg (\<lambda>c. c\<lparr>vg_AuthQR := x\<rparr>))),
     (''server'', server), (''s'', server),
     (''peers'', bool_flag (\<lambda>x. on_cfg (\<lambda>c. c\<lparr>vg_QueryPeers := x\<rparr>))),
     (''nodeinfo'', bool_flag (\<lambda>x. on_cfg (\<lambda>c. c\<lparr>vg_QueryNodeInfo := x\<rparr>))),
     (''udp-crypto'', string_flag (\<lambda>x. on_flags (\<lambda>f. f\<lparr>nf_cryptoAlgo := x\<rparr>))),
     (''udp-port'', parsed_flag (nu_int nu) (\<lambda>x. on_cfg (\<lambda>c. c\<lparr>vg_UDPPort := x\<rparr>))),
     (''force-peer-relay'', bool_flag (\<lambda>x. on_flags (\<lambda>f. f\<lparr>nf_forcePeerRelay := x\<rparr>))),
     (''force-server-relay'', bool_flag (\<lambda>x. on_flags (\<lambda>f. f\<lparr>nf_forceServerRelay := x\<rparr>))),
     (''label'', label), (''l'', label)])"

definition log_flags :: "num_env \<Rightarrow> string \<Rightarrow> vpn_args flag option" where
  "log_flags nu =
     (let level = parsed_flag (nu_int nu) (\<lambda>x (cfg, nf, l). (cfg, nf, x)) in
      map_of [(''v'', version_flag), (''version'', version_flag), (''loglevel'', level), (''V'', level)])"

definition vpn_flags :: "num_env \<Rightarrow> string \<Rightarrow> vpn_args flag option" where
  "vpn_flags nu = disco_flags nu ++ nic_flags nu ++ node_flags_of nu ++ log_flags nu"

text \<open>What the VPN command does with its arguments; \<open>tun\<close> and \<open>env\<close> as in the defaults.\<close>
datatype vpn_call = VExit | VError node_error | VPrintPeers | VPrintNodeInfo | VServe vnode_Config "symm_algo option"

definition vpn_Run_args :: "num_env \<Rightarrow> string \<Rightarrow> string \<Rightarrow> string list \<Rightarrow> vpn_call" where
  "vpn_Run_args nu tun env args =
     (case flag_Parse (vpn_flags nu) args (fst (default_flags tun env), snd (default_flags tun env), 0) of
        None \<Rightarrow> VExit
      | Some ((cfg, nf, _), _) \<Rightarrow>
          (case createConfig cfg nf of
             (_, _, Some e) \<Rightarrow> VError e
           | (cfg1, algo, None) \<Rightarrow>
               if vg_QueryPeers cfg1 then VPrintPeers else if vg_QueryNodeInfo cfg1 then VPrintNodeInfo else VServe cfg1 algo))"

section \<open>The choice of the command\<close>

datatype pgcli_call = CExit | CUsage | CAdmin "string list" | CCurve25519 | CDownload "string list" | CShare "string list" | CVPN "string list"

text \<open>The global flags; the state is the log level.\<close>
definition global_flags :: "num_env \<Rightarrow> string \<Rightarrow> int flag option" where
  "global_flags nu = map_of [(''loglevel'', parsed_flag (nu_int nu) (\<lambda>x _. x)), (''v'', version_flag), (''version'', version_flag)]"

text \<open>\<open>main\<close> and \<open>run\<close>: \<open>base\<close> is the name of the binary. The VPN gets the arguments of the process without
  the first one, the other commands those after their name.\<close>
definition pgcli_main :: "num_env \<Rightarrow> string \<Rightarrow> string list \<Rightarrow> pgcli_call" where
  "pgcli_main nu base args =
     (if base = ''pgvpn'' then CVPN args
      else case flag_Parse (global_flags nu) args 0 of
        None \<Rightarrow> CExit
      | Some (_, []) \<Rightarrow> CUsage
      | Some (_, cmd # rest) \<Rightarrow>
          if cmd = ''admin'' then CAdmin rest else if cmd = ''curve25519'' then CCurve25519
          else if cmd = ''download'' then CDownload rest else if cmd = ''share'' then CShare rest
          else if cmd = ''vpn'' then CVPN (drop 1 args) else CUsage)"

section \<open>Lemmas\<close>

text \<open>A setting as an argument, and settings applied in order.\<close>
definition render :: "string \<times> string \<Rightarrow> string" where
  "render a = ''--'' @ fst a @ ''='' @ snd a"

definition set_flag :: "(string \<Rightarrow> 'c flag option) \<Rightarrow> string \<times> string \<Rightarrow> 'c \<Rightarrow> 'c option" where
  "set_flag fs a c = (case fs (fst a) of None \<Rightarrow> None | Some (BoolFlag upd) \<Rightarrow> upd (snd a) c | Some (ValueFlag upd) \<Rightarrow> upd (snd a) c)"

fun set_flags :: "(string \<Rightarrow> 'c flag option) \<Rightarrow> (string \<times> string) list \<Rightarrow> 'c \<Rightarrow> 'c option" where
  "set_flags fs [] c = Some c"
| "set_flags fs (a # as) c = (case set_flag fs a c of None \<Rightarrow> None | Some c1 \<Rightarrow> set_flags fs as c1)"

definition flag_name_ok :: "string \<Rightarrow> bool" where
  "flag_name_ok n \<longleftrightarrow> n \<noteq> [] \<and> hd n \<noteq> CHR ''-'' \<and> CHR ''='' \<notin> set n"

definition no_flag :: "string list \<Rightarrow> bool" where
  "no_flag args \<longleftrightarrow> (case args of [] \<Rightarrow> True | s # _ \<Rightarrow> length s < 2 \<or> s ! 0 \<noteq> CHR ''-'')"

lemma up_to_equals:
  "CHR ''='' \<notin> set m \<Longrightarrow> takeWhile (\<lambda>c. c \<noteq> CHR ''='') (m @ CHR ''='' # v) = m \<and>
    dropWhile (\<lambda>c. c \<noteq> CHR ''='') (m @ CHR ''='' # v) = CHR ''='' # v"
  by (induction m) auto

lemma flag_split:
  assumes "flag_name_ok n"
  shows "flag_name (n @ CHR ''='' # v) = n" "flag_value (n @ CHR ''='' # v) = Some v"
proof -
  obtain a m where n: "n = a # m" "CHR ''='' \<notin> set m" using assms by (cases n) (auto simp: flag_name_ok_def)
  then show "flag_name (n @ CHR ''='' # v) = n" "flag_value (n @ CHR ''='' # v) = Some v"
    using up_to_equals [OF n(2), of v] by (simp_all add: flag_name_def flag_value_def)
qed

lemma flag_Parse_stop: "no_flag args \<Longrightarrow> flag_Parse fs args c = Some (c, args)"
  by (cases args) (simp_all add: no_flag_def)

lemma flag_Parse_setting:
  assumes "flag_name_ok n" and "s = ''--'' @ n @ ''='' @ v \<or> s = ''-'' @ n @ ''='' @ v"
  shows "flag_Parse fs (s # args) c = Option.bind (set_flag fs (n, v) c) (flag_Parse fs args)"
proof -
  obtain a m where n: "n = a # m" "a \<noteq> CHR ''-''" "a \<noteq> CHR ''=''" using assms(1) by (cases n) (auto simp: flag_name_ok_def)
  have t: "(if s ! 1 = CHR ''-'' then drop 2 s else drop 1 s) = n @ CHR ''='' # v" "s ! 0 = CHR ''-''" "\<not> length s < 2" "s \<noteq> ''--''"
    using assms(2) n by auto
  show ?thesis
    unfolding flag_Parse.simps(2) t(1) Let_def flag_split [OF assms(1)] set_flag_def
    using t(2-4) n by (auto split: option.splits flag.splits)
qed

lemma flag_Parse_settings:
  "list_all (\<lambda>a. flag_name_ok (fst a)) asg \<Longrightarrow> no_flag rest \<Longrightarrow>
    flag_Parse fs (map render asg @ rest) c = map_option (\<lambda>c1. (c1, rest)) (set_flags fs asg c)"
proof (induction asg arbitrary: c)
  case Nil
  then show ?case by (simp add: flag_Parse_stop)
next
  case (Cons a as)
  obtain n v where a: "a = (n, v)" by fastforce
  have "flag_Parse fs (render a # map render as @ rest) c = Option.bind (set_flag fs (n, v) c) (flag_Parse fs (map render as @ rest))"
    by (rule flag_Parse_setting) (use Cons.prems a in \<open>simp_all add: render_def\<close>)
  with Cons a show ?case by (cases "set_flag fs (n, v) c") (simp_all del: flag_Parse.simps(2))
qed

lemma log_level_flag:
  "global_flags nu ''loglevel'' = Some (parsed_flag (nu_int nu) (\<lambda>x _. x))"
  "vpn_flags nu ''loglevel'' = Some (parsed_flag (nu_int nu) (\<lambda>x (cfg, nf, l). (cfg, nf, x)))"
  by (simp_all add: global_flags_def vpn_flags_def log_flags_def map_add_def Let_def)

text \<open>Log levels in front of a word that is no flag.\<close>
lemma global_levels:
  "list_all (\<lambda>v. nu_int nu v \<noteq> None) vs \<Longrightarrow> no_flag rest \<Longrightarrow>
    \<exists>l. flag_Parse (global_flags nu) (map (\<lambda>v. ''-loglevel='' @ v) vs @ rest) k = Some (l, rest)"
proof (induction vs arbitrary: k)
  case (Cons v vs)
  have "flag_Parse (global_flags nu) ((''-loglevel='' @ v) # map (\<lambda>v. ''-loglevel='' @ v) vs @ rest) k =
      Option.bind (set_flag (global_flags nu) (''loglevel'', v) k) (flag_Parse (global_flags nu) (map (\<lambda>v. ''-loglevel='' @ v) vs @ rest))"
    by (rule flag_Parse_setting) (simp_all add: flag_name_ok_def)
  with Cons show ?case by (auto simp: set_flag_def log_level_flag parsed_flag_def simp del: flag_Parse.simps(2))
qed (simp add: flag_Parse_stop)

lemma vpn_levels:
  "list_all (\<lambda>v. nu_int nu v \<noteq> None) vs \<Longrightarrow> no_flag rest \<Longrightarrow>
    \<exists>l. flag_Parse (vpn_flags nu) (map (\<lambda>v. ''-loglevel='' @ v) vs @ rest) (cfg, nf, k) = Some ((cfg, nf, l), rest)"
proof (induction vs arbitrary: k)
  case (Cons v vs)
  have "flag_Parse (vpn_flags nu) ((''-loglevel='' @ v) # map (\<lambda>v. ''-loglevel='' @ v) vs @ rest) (cfg, nf, k) =
      Option.bind (set_flag (vpn_flags nu) (''loglevel'', v) (cfg, nf, k)) (flag_Parse (vpn_flags nu) (map (\<lambda>v. ''-loglevel='' @ v) vs @ rest))"
    by (rule flag_Parse_setting) (simp_all add: flag_name_ok_def)
  with Cons show ?case by (auto simp: set_flag_def log_level_flag parsed_flag_def simp del: flag_Parse.simps(2))
qed (simp add: flag_Parse_stop)

section \<open>Properties\<close>

text \<open>Settings that are written as \<open>--name=value\<close> are read back: parsing them, followed by arguments that are no
  flags, applies exactly the settings in their order and leaves the other arguments; a setting that
  is unknown or whose value is refused ends the process.\<close>
theorem flags_read_back:
  assumes "list_all (\<lambda>a. flag_name_ok (fst a)) asg" and "no_flag rest"
  shows "flag_Parse fs (map render asg @ rest) c = map_option (\<lambda>c1. (c1, rest)) (set_flags fs asg c)"
  by (rule flag_Parse_settings [OF assms])

definition demo_nu :: num_env where
  "demo_nu = \<lparr>nu_int = (\<lambda>s. map_option int (ParseUint 63 s)), nu_duration = (\<lambda>_. None), nu_float = (\<lambda>_. None), nu_key = map of_char\<rparr>"

lemma demo_flags:
  "vpn_flags nu ''s'' = Some (string_flag (\<lambda>x. on_cfg (\<lambda>c. c\<lparr>vg_Server := x\<rparr>)))"
  "vpn_flags nu ''4'' = Some (string_flag (\<lambda>x. on_cfg (\<lambda>c. c\<lparr>vg_IPv4 := x\<rparr>)))"
  by (simp_all add: vpn_flags_def log_flags_def node_flags_of_def nic_flags_def map_add_def Let_def)

theorem flags_read_back_witness:
  "flag_Parse (vpn_flags demo_nu) [''--s=wss://m'', ''--4=10.0.0.2/24'', ''x''] (fst (default_flags ''pg0'' ''''), snd (default_flags ''pg0'' ''''), 0) =
    Some (((fst (default_flags ''pg0'' ''''))\<lparr>vg_Server := ''wss://m'', vg_IPv4 := ''10.0.0.2/24''\<rparr>, snd (default_flags ''pg0'' ''''), 0), [''x''])"
  using flags_read_back [of "[(''s'', ''wss://m''), (''4'', ''10.0.0.2/24'')]" "[''x'']" "vpn_flags demo_nu"
      "(fst (default_flags ''pg0'' ''''), snd (default_flags ''pg0'' ''''), 0)"]
  by (simp add: flag_name_ok_def no_flag_def render_def set_flag_def demo_flags string_flag_def on_cfg_def del: flag_Parse.simps)

text \<open>Log levels in front of the VPN command: without them it gets the arguments after its name; with one or more of
  them it is started with an argument list that it takes for positional, so that all its settings are ignored,
  and it behaves as without any arguments.\<close>
theorem global_flags_hide_arguments:
  assumes "list_all (\<lambda>v. nu_int nu v \<noteq> None) vs" and "base \<noteq> ''pgvpn''"
  shows "\<exists>args. pgcli_main nu base (map (\<lambda>v. ''-loglevel='' @ v) vs @ ''vpn'' # own) = CVPN args \<and>
    vpn_Run_args nu tun env args = vpn_Run_args nu tun env (if vs = [] then own else [])"
proof -
  let ?r = "''vpn'' # own"
  have n: "no_flag ?r" by (simp add: no_flag_def)
  from global_levels [OF assms(1) n, of 0] obtain l where
    "flag_Parse (global_flags nu) (map (\<lambda>v. ''-loglevel='' @ v) vs @ ?r) 0 = Some (l, ?r)" by blast
  then have c: "pgcli_main nu base (map (\<lambda>v. ''-loglevel='' @ v) vs @ ?r) = CVPN (drop 1 (map (\<lambda>v. ''-loglevel='' @ v) vs @ ?r))"
    using assms(2) by (simp add: pgcli_main_def)
  show ?thesis
  proof (cases vs)
    case Nil
    with c show ?thesis by simp
  next
    case (Cons v ws)
    then have "list_all (\<lambda>v. nu_int nu v \<noteq> None) ws" using assms(1) by simp
    from vpn_levels [OF this n] obtain k where
      "flag_Parse (vpn_flags nu) (map (\<lambda>v. ''-loglevel='' @ v) ws @ ?r) (fst (default_flags tun env), snd (default_flags tun env), 0) =
        Some ((fst (default_flags tun env), snd (default_flags tun env), k), ?r)" by blast
    then have "vpn_Run_args nu tun env (map (\<lambda>v. ''-loglevel='' @ v) ws @ ?r) = vpn_Run_args nu tun env []"
      by (simp add: vpn_Run_args_def)
    with c Cons show ?thesis by simp
  qed
qed

theorem global_flags_hide_arguments_witness:
  "\<exists>args. pgcli_main demo_nu ''pgcli'' [''-loglevel=1'', ''vpn'', ''-s'', ''wss://m''] = CVPN args \<and>
    vpn_Run_args demo_nu ''pg0'' '''' args = VError ServerNotSet"
proof -
  have "list_all (\<lambda>v. nu_int demo_nu v \<noteq> None) [''1'']" by (simp add: demo_nu_def ParseUint_def digit_def)
  from global_flags_hide_arguments [OF this, of "''pgcli''" "[''-s'', ''wss://m'']" "''pg0''" "''''"] show ?thesis
    by (simp add: vpn_Run_args_def createConfig_def default_flags_def del: flag_Parse.simps(2))
qed

end
