(* ===== verification/Oidc.thy ===== *)
theory Oidc
  imports Peermap "HOL-Library.Multiset"
begin

text \<open>
  The login of a user at the map server (\<open>peermap/oidc/oidc.go\<close>, \<open>peermap/oidc/http.go\<close>,
  \<open>peermap/network/network.go\<close>). A client that wants to join picks a state, opens
  \<open>/oidc/secret?state=\<dots>\<close> and waits; the user signs in with an identity provider, whose redirect
  reaches \<open>Authority.ServeHTTP\<close> with a code and the state; the secret granted for the email is
  handed to the waiting request over the channel that the table \<open>notifyContext\<close> holds for the state.
  The identity provider (\<open>go-oidc\<close>, \<open>oauth2\<close>) is an argument. The requests run concurrently: they are
  the steps of a relation in which every request advances on its own. The read lock is held while a
  secret is being sent, so the table can only change when nobody is sending.
\<close>

section \<open>Providers\<close>

record OIDCProviderConfig =
  oi_Name :: string
  oi_Issuer :: string
  oi_Scopes :: "string list"
  oi_AuthURL :: string
  oi_TokenURL :: string
  oi_UserInfoURL :: string

record 'p OIDCProvider =
  op_standardOIDC :: bool
  op_provider :: 'p
  op_Scopes :: "string list"

text \<open>What the provider says of a user: the email, whether it is verified, and whether the claims parse.\<close>
record userinfo =
  ui_Email :: string
  ui_EmailVerified :: bool
  ui_claims :: bool

text \<open>Discovery of an issuer, a provider with fixed addresses, the exchange of a code for the user.\<close>
record 'p oidc_env =
  oe_NewProvider :: "string \<Rightarrow> 'p option"
  oe_fixed :: "string \<Rightarrow> string \<Rightarrow> string \<Rightarrow> 'p"
  oe_user :: "'p \<Rightarrow> string \<Rightarrow> userinfo option"

definition ProviderGoogle :: string where "ProviderGoogle = ''google''"
definition ProviderGithub :: string where "ProviderGithub = ''github''"

definition or_default :: "'a list \<Rightarrow> 'a list \<Rightarrow> 'a list" where
  "or_default v d = (if length v = 0 then d else v)"

definition usingWellKnownConfig :: "OIDCProviderConfig \<Rightarrow> OIDCProviderConfig" where
  "usingWellKnownConfig c =
     (if oi_Name c = ProviderGoogle then
        c\<lparr>oi_Issuer := or_default (oi_Issuer c) ''https://accounts.google.com'',
          oi_Scopes := or_default (oi_Scopes c) [''openid'', ''email'', ''profile'']\<rparr>
      else if oi_Name c = ProviderGithub then
        c\<lparr>oi_Scopes := or_default (oi_Scopes c) [''read:user'', ''user:email''],
          oi_AuthURL := or_default (oi_AuthURL c) ''https://github.com/login/oauth/authorize'',
          oi_TokenURL := or_default (oi_TokenURL c) ''https://github.com/login/oauth/access_token'',
          oi_UserInfoURL := or_default (oi_UserInfoURL c) ''https://api.github.com/user''\<rparr>
      else c)"

text \<open>\<open>AddProvider\<close>; \<^const>\<open>None\<close>: the discovery failed, and the table is as before.\<close>
definition AddProvider :: "'p oidc_env \<Rightarrow> OIDCProviderConfig \<Rightarrow> (string \<rightharpoonup> 'p OIDCProvider) \<Rightarrow> (string \<rightharpoonup> 'p OIDCProvider) option" where
  "AddProvider e cfg providers =
     (let c = usingWellKnownConfig cfg in
      (if 0 < length (oi_Issuer c) then
         map_option (\<lambda>p. providers(oi_Name c \<mapsto> \<lparr>op_standardOIDC = True, op_provider = p, op_Scopes = oi_Scopes c\<rparr>))
           (oe_NewProvider e (oi_Issuer c))
       else Some (providers(oi_Name c \<mapsto>
              \<lparr>op_standardOIDC = False, op_provider = oe_fixed e (oi_AuthURL c) (oi_TokenURL c) (oi_UserInfoURL c), op_Scopes = oi_Scopes c\<rparr>))))"

datatype oidc_error = ProviderError | EmailNotVerified

text \<open>\<open>UserInfo\<close> of a code: the email. Claims that do not parse are an error too.\<close>
definition UserInfo :: "'p oidc_env \<Rightarrow> 'p OIDCProvider \<Rightarrow> string \<Rightarrow> oidc_error + string" where
  "UserInfo e p code =
     (case oe_user e (op_provider p) code of
        None \<Rightarrow> Inl ProviderError
      | Some u \<Rightarrow>
          if op_standardOIDC p \<and> \<not> ui_EmailVerified u then Inl EmailNotVerified
          else if \<not> ui_claims u then Inl ProviderError
          else Inr (ui_Email u))"

section \<open>Requests\<close>

datatype oidc_reply = OIDC_BadRequest | OIDC_BadGateway | OIDC_ServerError | OIDC_Success

text \<open>\<open>Authority.ServeHTTP\<close> up to the notification: the secret granted for the email.\<close>
definition authorize :: "'p oidc_env \<Rightarrow> (string \<rightharpoonup> 'p OIDCProvider) \<Rightarrow> (string \<Rightarrow> string \<Rightarrow> NetworkSecret) \<Rightarrow> string \<Rightarrow> string \<Rightarrow> string \<Rightarrow> oidc_reply + NetworkSecret" where
  "authorize e providers grant name code state =
     (case providers name of
        None \<Rightarrow> Inl OIDC_BadRequest
      | Some provider \<Rightarrow>
          (case UserInfo e provider code of
             Inl _ \<Rightarrow> Inl OIDC_BadGateway
           | Inr email \<Rightarrow> if email = '''' then Inl OIDC_BadGateway else Inr (grant email state)))"

text \<open>Stages of \<open>OIDCSecret\<close>: about to enter the table, in the select, about to leave the table with or
  without a secret, finished. The channel is named by the number of its request.\<close>
datatype wait_stage = WEntering | WWaiting | WLeaving "NetworkSecret option" | WDone "NetworkSecret option"

record oidc_waiter =
  ow_state :: string
  ow_stage :: wait_stage

text \<open>Stages of \<open>NotifyToken\<close>: in the send with the read lock held, sent, refused (\<open>state not found\<close>).\<close>
datatype send_stage = Sending nat | Sent | NotFound

record oidc_sender =
  os_state :: string
  os_secret :: NetworkSecret
  os_stage :: send_stage

record oidc =
  oc_ctx :: "string \<rightharpoonup> nat"
  oc_waiters :: "oidc_waiter list"
  oc_senders :: "oidc_sender list"

definition oidc_start :: oidc where
  "oidc_start = \<lparr>oc_ctx = Map.empty, oc_waiters = [], oc_senders = []\<rparr>"

text \<open>No reader holds the lock of the table.\<close>
definition no_reader :: "oidc \<Rightarrow> bool" where
  "no_reader s \<longleftrightarrow> list_all (\<lambda>d. case os_stage d of Sending _ \<Rightarrow> False | _ \<Rightarrow> True) (oc_senders s)"

definition OIDCSecret_enter :: "string \<Rightarrow> oidc \<Rightarrow> oidc" where
  "OIDCSecret_enter state s =
     (if state = '''' then s else s\<lparr>oc_waiters := oc_waiters s @ [\<lparr>ow_state = state, ow_stage = WEntering\<rparr>]\<rparr>)"

definition set_stage :: "nat \<Rightarrow> wait_stage \<Rightarrow> oidc \<Rightarrow> oidc" where
  "set_stage h g s = s\<lparr>oc_waiters := (oc_waiters s)[h := (oc_waiters s ! h)\<lparr>ow_stage := g\<rparr>]\<rparr>"

definition OIDCSecret_register :: "nat \<Rightarrow> oidc \<Rightarrow> oidc" where
  "OIDCSecret_register h s = (set_stage h WWaiting s)\<lparr>oc_ctx := (oc_ctx s)(ow_state (oc_waiters s ! h) \<mapsto> h)\<rparr>"

definition OIDCSecret_leave :: "nat \<Rightarrow> NetworkSecret option \<Rightarrow> oidc \<Rightarrow> oidc" where
  "OIDCSecret_leave h r s = (set_stage h (WDone r) s)\<lparr>oc_ctx := (oc_ctx s)(ow_state (oc_waiters s ! h) := None)\<rparr>"

definition NotifyToken :: "string \<Rightarrow> NetworkSecret \<Rightarrow> oidc \<Rightarrow> oidc" where
  "NotifyToken state secret s =
     s\<lparr>oc_senders := oc_senders s @ [\<lparr>os_state = state, os_secret = secret,
        os_stage = (case oc_ctx s state of None \<Rightarrow> NotFound | Some ch \<Rightarrow> Sending ch)\<rparr>]\<rparr>"

text \<open>Sender \<open>n\<close> and the request \<open>h\<close> that receives from its channel meet.\<close>
definition hand_over :: "nat \<Rightarrow> nat \<Rightarrow> oidc \<Rightarrow> oidc" where
  "hand_over n h s =
     (set_stage h (WLeaving (Some (os_secret (oc_senders s ! n)))) s)\<lparr>oc_senders := (oc_senders s)[n := (oc_senders s ! n)\<lparr>os_stage := Sent\<rparr>]\<rparr>"

text \<open>\<open>login state secret\<close>: a request to \<open>Authority.ServeHTTP\<close> gets this secret for this state.\<close>
inductive oidc_step :: "(string \<Rightarrow> NetworkSecret \<Rightarrow> bool) \<Rightarrow> oidc \<Rightarrow> oidc \<Rightarrow> bool" for login where
  O_request: "oidc_step login s (OIDCSecret_enter state s)"
| O_register: "h < length (oc_waiters s) \<Longrightarrow> ow_stage (oc_waiters s ! h) = WEntering \<Longrightarrow> no_reader s \<Longrightarrow>
    oidc_step login s (OIDCSecret_register h s)"
| O_callback: "login state secret \<Longrightarrow> oidc_step login s (NotifyToken state secret s)"
| O_deliver: "n < length (oc_senders s) \<Longrightarrow> os_stage (oc_senders s ! n) = Sending h \<Longrightarrow> h < length (oc_waiters s) \<Longrightarrow>
    ow_stage (oc_waiters s ! h) = WWaiting \<Longrightarrow> oidc_step login s (hand_over n h s)"
| O_timeout: "h < length (oc_waiters s) \<Longrightarrow> ow_stage (oc_waiters s ! h) = WWaiting \<Longrightarrow> oidc_step login s (set_stage h (WLeaving None) s)"
| O_leave: "h < length (oc_waiters s) \<Longrightarrow> ow_stage (oc_waiters s ! h) = WLeaving r \<Longrightarrow> no_reader s \<Longrightarrow>
    oidc_step login s (OIDCSecret_leave h r s)"

text \<open>The answer of \<open>Authority.ServeHTTP\<close> after the notification; none while it is sending.\<close>
definition callback_reply :: "oidc_sender \<Rightarrow> oidc_reply option" where
  "callback_reply d = (case os_stage d of Sending _ \<Rightarrow> None | Sent \<Rightarrow> Some OIDC_Success | NotFound \<Rightarrow> Some OIDC_ServerError)"

text \<open>What a waiting request got.\<close>
definition received :: "oidc_waiter \<Rightarrow> NetworkSecret option" where
  "received w = (case ow_stage w of WLeaving r \<Rightarrow> r | WDone r \<Rightarrow> r | _ \<Rightarrow> None)"

definition delivered :: "oidc \<Rightarrow> (string \<times> NetworkSecret) list" where
  "delivered s = List.map_filter (\<lambda>w. map_option (Pair (ow_state w)) (received w)) (oc_waiters s)"

definition handed_over :: "oidc \<Rightarrow> (string \<times> NetworkSecret) list" where
  "handed_over s = map (\<lambda>d. (os_state d, os_secret d)) (filter (\<lambda>d. os_stage d = Sent) (oc_senders s))"

section \<open>Joining\<close>

text \<open>\<open>path.Clean\<close> on the elements of a path; the elements kept so far are in reverse.\<close>
fun clean_elem :: "bool \<Rightarrow> string list \<Rightarrow> string \<Rightarrow> string list" where
  "clean_elem rooted out e =
     (if e = '''' \<or> e = ''.'' then out
      else if e = ''..'' then
        (case out of
           x # r \<Rightarrow> if x = ''..'' then e # out else r
         | [] \<Rightarrow> if rooted then [] else [e])
      else e # out)"

fun slash_join :: "string list \<Rightarrow> string" where
  "slash_join [] = []"
| "slash_join [e] = e"
| "slash_join (e # es) = e @ ''/'' @ slash_join es"

definition path_Clean :: "string \<Rightarrow> string" where
  "path_Clean p =
     (if p = '''' then ''.''
      else let rooted = has_prefix p ''/'';
               s = (if rooted then ''/'' else '''') @ slash_join (rev (foldl (clean_elem rooted) [] (split_on (CHR ''/'') p)))
           in if s = '''' then ''.'' else s)"

definition path_Join :: "string \<Rightarrow> string \<Rightarrow> string" where
  "path_Join a b = (if a = '''' \<and> b = '''' then '''' else path_Clean (if a = '''' then b else a @ ''/'' @ b))"

record JoinIntent =
  ji_state :: string
  ji_authURL :: string
  ji_host :: string

text \<open>\<open>host\<close> is the host of the parsed address of the server, \<open>state\<close> the base58 text of twelve random bytes.\<close>
definition JoinOIDC :: "string \<Rightarrow> string option \<Rightarrow> string \<Rightarrow> JoinIntent option" where
  "JoinOIDC oidcProvider host state =
     map_option (\<lambda>ho. \<lparr>ji_state = state,
        ji_authURL = ''https://'' @ ho @ (if oidcProvider \<noteq> '''' then path_Join ''/oidc'' oidcProvider else ''/oidc''),
        ji_host = ho\<rparr>) host"

definition JoinIntent_AuthURL :: "JoinIntent \<Rightarrow> string" where
  "JoinIntent_AuthURL i = ji_authURL i @ ''?state='' @ ji_state i"

definition token_url :: "JoinIntent \<Rightarrow> string" where
  "token_url i = ''https://'' @ ji_host i @ ''/oidc/secret?state='' @ ji_state i"

text \<open>\<open>Wait\<close>: the response is its status and body; the body of an unfinished login is empty.\<close>
definition JoinIntent_Wait :: "(string \<Rightarrow> (nat \<times> bytes) option) \<Rightarrow> (bytes \<Rightarrow> NetworkSecret option) \<Rightarrow> JoinIntent \<Rightarrow> NetworkSecret option" where
  "JoinIntent_Wait get unjson i =
     (case get (token_url i) of
        None \<Rightarrow> None
      | Some (status, body) \<Rightarrow> if status \<noteq> 200 then None else unjson body)"


section \<open>The table of waiting requests\<close>

text \<open>A request that stands in the table or is being sent to waits or is on its way out, for the state
  under which it stands; what a request received was sent for its state, by a login; every secret that
  was sent arrived exactly once.\<close>
definition in_table :: "wait_stage \<Rightarrow> bool" where
  "in_table g \<longleftrightarrow> (case g of WWaiting \<Rightarrow> True | WLeaving _ \<Rightarrow> True | _ \<Rightarrow> False)"

definition waits_for :: "oidc \<Rightarrow> string \<Rightarrow> nat \<Rightarrow> bool" where
  "waits_for s state h \<longleftrightarrow> h < length (oc_waiters s) \<and> ow_state (oc_waiters s ! h) = state \<and> in_table (ow_stage (oc_waiters s ! h))"

definition oidc_ok :: "(string \<Rightarrow> NetworkSecret \<Rightarrow> bool) \<Rightarrow> oidc \<Rightarrow> bool" where
  "oidc_ok login s \<longleftrightarrow>
     (\<forall>state h. oc_ctx s state = Some h \<longrightarrow> waits_for s state h) \<and>
     (\<forall>d \<in> set (oc_senders s). login (os_state d) (os_secret d) \<and> (\<forall>h. os_stage d = Sending h \<longrightarrow> waits_for s (os_state d) h)) \<and>
     mset (delivered s) = mset (handed_over s)"

lemma oidc_okD:
  assumes "oidc_ok login s"
  shows "oc_ctx s state = Some h \<Longrightarrow> waits_for s state h"
    and "d \<in> set (oc_senders s) \<Longrightarrow> login (os_state d) (os_secret d)"
    and "d \<in> set (oc_senders s) \<Longrightarrow> os_stage d = Sending h \<Longrightarrow> waits_for s (os_state d) h"
    and "mset (delivered s) = mset (handed_over s)"
  using assms unfolding oidc_ok_def by blast+

text \<open>Replacing one element of a list that is filtered and mapped.\<close>
definition opt_mset :: "'a option \<Rightarrow> 'a multiset" where
  "opt_mset r = (case r of None \<Rightarrow> {#} | Some x \<Rightarrow> {#x#})"

lemma opt_mset_simps [simp]: "opt_mset None = {#}" "opt_mset (Some x) = {#x#}"
  by (simp_all add: opt_mset_def)

lemma mset_map_filter_Cons: "mset (List.map_filter f (x # xs)) = opt_mset (f x) + mset (List.map_filter f xs)"
  by (cases "f x") (simp_all add: List.map_filter_def)

lemma mset_map_filter_append: "mset (List.map_filter f (xs @ ys)) = mset (List.map_filter f xs) + mset (List.map_filter f ys)"
  by (simp add: List.map_filter_def)

lemma mset_map_filter_update:
  assumes "i < length xs"
  shows "mset (List.map_filter f (xs[i := v])) + opt_mset (f (xs ! i)) = mset (List.map_filter f xs) + opt_mset (f v)"
proof -
  have "mset (List.map_filter f xs) = mset (List.map_filter f (take i xs @ xs ! i # drop (Suc i) xs))"
    using id_take_nth_drop [OF assms] by simp
  then show ?thesis
    by (simp only: upd_conv_take_nth_drop [OF assms] mset_map_filter_append mset_map_filter_Cons ac_simps)
qed

lemma map_filter_if: "List.map_filter (\<lambda>x. if P x then Some (f x) else None) xs = map f (filter P xs)"
  by (induction xs) (simp_all add: List.map_filter_def)

lemma handed_over_filter:
  "handed_over s = List.map_filter (\<lambda>d. if os_stage d = Sent then Some (os_state d, os_secret d) else None) (oc_senders s)"
  by (simp add: handed_over_def map_filter_if)

lemma set_stage_simps [simp]:
  "oc_ctx (set_stage h g s) = oc_ctx s" "oc_senders (set_stage h g s) = oc_senders s"
  "length (oc_waiters (set_stage h g s)) = length (oc_waiters s)"
  "k < length (oc_waiters s) \<Longrightarrow> oc_waiters (set_stage h g s) ! k = (if k = h then (oc_waiters s ! h)\<lparr>ow_stage := g\<rparr> else oc_waiters s ! k)"
  by (simp_all add: set_stage_def nth_list_update)

lemma waits_for_set_stage:
  assumes "waits_for s state k" and "k \<noteq> h \<or> in_table g"
  shows "waits_for (set_stage h g s) state k"
  using assms by (auto simp: waits_for_def)

lemma waits_for_cong: "oc_waiters s = oc_waiters s' \<Longrightarrow> waits_for s = waits_for s'"
  by (simp add: waits_for_def fun_eq_iff)

lemma delivered_set_stage:
  assumes "h < length (oc_waiters s)"
  shows "mset (delivered (set_stage h g s)) + opt_mset (map_option (Pair (ow_state (oc_waiters s ! h))) (received (oc_waiters s ! h))) =
    mset (delivered s) + opt_mset (map_option (Pair (ow_state (oc_waiters s ! h))) (received ((oc_waiters s ! h)\<lparr>ow_stage := g\<rparr>)))"
  using mset_map_filter_update [OF assms, of "\<lambda>w. map_option (Pair (ow_state w)) (received w)" "(oc_waiters s ! h)\<lparr>ow_stage := g\<rparr>"]
  by (simp add: delivered_def set_stage_def)

text \<open>A stage that leaves what was received as it is.\<close>
lemma delivered_same:
  assumes "h < length (oc_waiters s)" and "received ((oc_waiters s ! h)\<lparr>ow_stage := g\<rparr>) = received (oc_waiters s ! h)"
  shows "mset (delivered (set_stage h g s)) = mset (delivered s)"
  using delivered_set_stage [OF assms(1), of g] assms(2) by simp

lemma delivered_cong: "oc_waiters s = oc_waiters s' \<Longrightarrow> delivered s = delivered s'"
  by (simp add: delivered_def)

lemma no_reader_Sending: "no_reader s \<Longrightarrow> d \<in> set (oc_senders s) \<Longrightarrow> os_stage d \<noteq> Sending h"
  by (auto simp: no_reader_def list_all_iff)

lemma oidc_step_ok: "oidc_step login s s' \<Longrightarrow> oidc_ok login s \<Longrightarrow> oidc_ok login s'"
proof (induction rule: oidc_step.induct)
  case (O_request s state)
  let ?s = "OIDCSecret_enter state s"
  have w: "waits_for s st h \<Longrightarrow> waits_for ?s st h" for st h
    by (auto simp: waits_for_def OIDCSecret_enter_def nth_append)
  have "delivered ?s = delivered s" "handed_over ?s = handed_over s"
    by (simp_all add: delivered_def handed_over_def OIDCSecret_enter_def List.map_filter_def received_def)
  moreover have "oc_ctx ?s = oc_ctx s" "oc_senders ?s = oc_senders s" by (simp_all add: OIDCSecret_enter_def)
  ultimately show ?case using O_request w unfolding oidc_ok_def by auto
next
  case (O_register h s)
  let ?s = "OIDCSecret_register h s"
  have w: "waits_for s st k \<Longrightarrow> waits_for ?s st k" for st k
    by (auto simp: waits_for_def OIDCSecret_register_def in_table_def)
  have h: "waits_for ?s (ow_state (oc_waiters s ! h)) h"
    using O_register by (simp add: waits_for_def OIDCSecret_register_def in_table_def)
  have "mset (delivered ?s) = mset (delivered s)"
    using delivered_same [of h s WWaiting] O_register by (simp add: OIDCSecret_register_def received_def delivered_def)
  moreover have "handed_over ?s = handed_over s" by (simp add: handed_over_def OIDCSecret_register_def)
  moreover have "oc_ctx ?s = (oc_ctx s)(ow_state (oc_waiters s ! h) \<mapsto> h)" "oc_senders ?s = oc_senders s" by (simp_all add: OIDCSecret_register_def)
  ultimately show ?case using O_register(4) w h unfolding oidc_ok_def by auto
next
  case (O_callback state secret s)
  let ?s = "NotifyToken state secret s"
  have "waits_for ?s = waits_for s" "delivered ?s = delivered s"
    by (rule waits_for_cong, simp add: NotifyToken_def) (rule delivered_cong, simp add: NotifyToken_def)
  moreover have "handed_over ?s = handed_over s" by (simp add: handed_over_def NotifyToken_def split: option.splits)
  ultimately show ?case using O_callback unfolding oidc_ok_def by (auto simp: NotifyToken_def split: option.splits)
next
  case (O_deliver n s h)
  let ?s = "hand_over n h s" and ?d = "oc_senders s ! n" and ?w = "oc_waiters s ! h"
  have w: "waits_for s st k \<Longrightarrow> waits_for ?s st k" for st k
    by (auto simp: waits_for_def hand_over_def in_table_def)
  have d: "?d \<in> set (oc_senders s)" using O_deliver(1) by simp
  have st: "os_state ?d = ow_state ?w"
    using oidc_okD(3) [OF O_deliver(5) d O_deliver(2)] by (simp add: waits_for_def)
  have "received ?w = None" using O_deliver(4) by (simp add: received_def)
  then have m: "mset (delivered ?s) = add_mset (ow_state ?w, os_secret ?d) (mset (delivered s))"
    using delivered_set_stage [OF O_deliver(3), of "WLeaving (Some (os_secret ?d))"]
    by (simp add: hand_over_def delivered_def received_def)
  have "mset (handed_over ?s) = add_mset (os_state ?d, os_secret ?d) (mset (handed_over s))"
    using mset_map_filter_update [OF O_deliver(1), of "\<lambda>d. if os_stage d = Sent then Some (os_state d, os_secret d) else None" "?d\<lparr>os_stage := Sent\<rparr>"] O_deliver(2)
    unfolding handed_over_filter by (simp add: hand_over_def)
  with m st oidc_okD(4) [OF O_deliver(5)] have "mset (delivered ?s) = mset (handed_over ?s)" by simp
  moreover have "login (os_state x) (os_secret x) \<and> (\<forall>k. os_stage x = Sending k \<longrightarrow> waits_for ?s (os_state x) k)"
    if "x \<in> set (oc_senders ?s)" for x
  proof -
    from that have "x \<in> insert (?d\<lparr>os_stage := Sent\<rparr>) (set (oc_senders s))"
      using set_update_subset_insert by (fastforce simp: hand_over_def)
    then show ?thesis using oidc_okD(2,3) [OF O_deliver(5)] d w by (cases "x = ?d\<lparr>os_stage := Sent\<rparr>") auto
  qed
  moreover have "oc_ctx ?s = oc_ctx s" by (simp add: hand_over_def)
  ultimately show ?case using oidc_okD(1) [OF O_deliver(5)] w unfolding oidc_ok_def by simp
next
  case (O_timeout h s)
  let ?s = "set_stage h (WLeaving None) s"
  have w: "waits_for s st k \<Longrightarrow> waits_for ?s st k" for st k
    by (rule waits_for_set_stage) (simp_all add: in_table_def)
  have "mset (delivered ?s) = mset (delivered s)"
    using delivered_same [of h s "WLeaving None"] O_timeout by (simp add: received_def)
  moreover have "handed_over ?s = handed_over s" by (simp add: handed_over_def)
  ultimately show ?case using O_timeout(3) w unfolding oidc_ok_def by auto
next
  case (O_leave h s r)
  let ?s = "OIDCSecret_leave h r s"
  have w: "waits_for s st k \<Longrightarrow> st \<noteq> ow_state (oc_waiters s ! h) \<Longrightarrow> waits_for ?s st k" for st k
    by (auto simp: waits_for_def OIDCSecret_leave_def)
  have "mset (delivered ?s) = mset (delivered s)"
    using delivered_same [of h s "WDone r"] O_leave by (simp add: OIDCSecret_leave_def received_def delivered_def)
  moreover have "handed_over ?s = handed_over s" by (simp add: handed_over_def OIDCSecret_leave_def)
  moreover have "oc_senders ?s = oc_senders s" "oc_ctx ?s = (oc_ctx s)(ow_state (oc_waiters s ! h) := None)" by (simp_all add: OIDCSecret_leave_def)
  ultimately show ?case using O_leave(4) w no_reader_Sending [OF O_leave(3)] unfolding oidc_ok_def by auto
qed

lemma oidc_start_ok: "oidc_ok login oidc_start"
  by (simp add: oidc_ok_def oidc_start_def delivered_def handed_over_def List.map_filter_def)

lemma oidc_reachable_ok: "(oidc_step login)\<^sup>*\<^sup>* oidc_start s \<Longrightarrow> oidc_ok login s"
  by (induction rule: rtranclp_induct) (auto intro: oidc_start_ok oidc_step_ok)

lemma received_delivered:
  "w \<in> set (oc_waiters s) \<Longrightarrow> received w = Some secret \<Longrightarrow> (ow_state w, secret) \<in> set (delivered s)"
  by (auto simp: delivered_def List.map_filter_def intro!: rev_image_eqI)

text \<open>What a request received was granted by a login with its state.\<close>
lemma received_login:
  assumes "oidc_ok login s" and "w \<in> set (oc_waiters s)" and "received w = Some secret"
  shows "login (ow_state w) secret"
proof -
  from received_delivered [OF assms(2,3)] oidc_okD(4) [OF assms(1)]
  have "(ow_state w, secret) \<in> set (handed_over s)" by (metis set_mset_mset)
  then show ?thesis using oidc_okD(2) [OF assms(1)] by (auto simp: handed_over_def)
qed

text \<open>A sender whose receiver has left the select keeps the read lock for ever.\<close>
definition jammed :: "nat \<Rightarrow> nat \<Rightarrow> oidc \<Rightarrow> bool" where
  "jammed n h s \<longleftrightarrow> n < length (oc_senders s) \<and> os_stage (oc_senders s ! n) = Sending h \<and>
     h < length (oc_waiters s) \<and> (case ow_stage (oc_waiters s ! h) of WLeaving _ \<Rightarrow> True | _ \<Rightarrow> False)"

lemma jammed_reader: "jammed n h s \<Longrightarrow> \<not> no_reader s"
  by (force simp: jammed_def no_reader_def list_all_iff dest: nth_mem)

text \<open>No request got into the table or out of it.\<close>
definition table_frozen :: "oidc \<Rightarrow> oidc \<Rightarrow> bool" where
  "table_frozen s s' \<longleftrightarrow> oc_ctx s' = oc_ctx s \<and> length (oc_waiters s) \<le> length (oc_waiters s') \<and>
    (\<forall>k < length (oc_waiters s). ow_stage (oc_waiters s ! k) = WEntering \<longrightarrow> ow_stage (oc_waiters s' ! k) = WEntering) \<and>
    (\<forall>k < length (oc_waiters s'). \<forall>r. ow_stage (oc_waiters s' ! k) = WDone r \<longrightarrow> k < length (oc_waiters s) \<and> ow_stage (oc_waiters s ! k) = WDone r)"

lemma table_frozen_refl [simp]: "table_frozen s s"
  by (simp add: table_frozen_def)

lemma table_frozen_trans: "table_frozen s s1 \<Longrightarrow> table_frozen s1 s2 \<Longrightarrow> table_frozen s s2"
  unfolding table_frozen_def by (metis order_trans order_less_le_trans)

lemma jammed_step:
  assumes "oidc_step login s s'" and "jammed n h s"
  shows "jammed n h s' \<and> table_frozen s s'"
  using assms
proof (induction rule: oidc_step.induct)
  case (O_request s state)
  then show ?case by (auto simp: jammed_def table_frozen_def OIDCSecret_enter_def nth_append less_Suc_eq)
next
  case (O_callback state secret s)
  then show ?case by (auto simp: jammed_def table_frozen_def NotifyToken_def nth_append)
next
  case (O_deliver m s k)
  then show ?case by (auto simp: jammed_def table_frozen_def hand_over_def nth_list_update split: wait_stage.splits if_splits)
next
  case (O_timeout k s)
  then show ?case by (auto simp: jammed_def table_frozen_def split: if_splits)
qed (use jammed_reader in blast)+

lemma jammed_steps:
  assumes "(oidc_step login)\<^sup>*\<^sup>* s s'" and "jammed n h s"
  shows "jammed n h s' \<and> table_frozen s s'"
  using assms by (induction rule: rtranclp_induct) (use jammed_step table_frozen_trans in \<open>simp, blast\<close>)

section \<open>The granted secret\<close>

text \<open>Some request to \<open>Authority.ServeHTTP\<close> is granted the secret for the state.\<close>
definition oidc_login :: "'p oidc_env \<Rightarrow> (string \<rightharpoonup> 'p OIDCProvider) \<Rightarrow> pm_env \<Rightarrow> PmConfig \<Rightarrow> string \<Rightarrow> NetworkSecret \<Rightarrow> bool" where
  "oidc_login oe providers e cfg state secret \<longleftrightarrow>
     (\<exists>name code rnd now pm. length rnd = 12 \<and> pm_cfg pm = cfg \<and> authorize oe providers (Grant e rnd now pm) name code state = Inr secret)"

lemma Grant_accepted:
  assumes "auth_env_ok (en_auth e)" and "length rnd = 12" and "now' < (now + cf_ValidityPeriod (pm_cfg pm)) div nano * nano"
  shows "ns_Network (Grant e rnd now pm network state) = network \<and>
    (\<exists>t. ParseSecret (en_auth e) now' (ns_Secret (Grant e rnd now pm network state)) = (t, None) \<and>
         js_Network t = network \<and> js_Admin t = (take 6 state = ''PG_ADM''))"
  using assms(3)
  by (cases "getNetwork network pm") (simp_all add: Grant_def generateSecret_def Let_def parse_generated [OF assms(1,2)])

lemma authorize_Inr:
  "authorize oe providers grant name code state = Inr secret \<longleftrightarrow>
     (\<exists>p u. providers name = Some p \<and> oe_user oe (op_provider p) code = Some u \<and> (op_standardOIDC p \<longrightarrow> ui_EmailVerified u) \<and>
        ui_claims u \<and> ui_Email u \<noteq> '''' \<and> secret = grant (ui_Email u) state)"
  by (auto simp: authorize_def UserInfo_def split: option.splits sum.splits if_splits)

text \<open>Two requests that wait, one login whose redirect arrives twice.\<close>
definition toy_oidc :: "unit oidc_env" where
  "toy_oidc = \<lparr>oe_NewProvider = (\<lambda>_. Some ()), oe_fixed = (\<lambda>_ _ _. ()),
     oe_user = (\<lambda>_ code. if code = ''c'' then Some \<lparr>ui_Email = ''u@x'', ui_EmailVerified = True, ui_claims = True\<rparr> else None)\<rparr>"

definition toy_providers :: "string \<rightharpoonup> unit OIDCProvider" where
  "toy_providers = [ProviderGoogle \<mapsto> \<lparr>op_standardOIDC = True, op_provider = (), op_Scopes = [''openid'']\<rparr>]"

section \<open>Properties\<close>

text \<open>C9. Login: the secrets that waiting requests received are exactly the secrets that were sent, each once
  and for its own state; a request that received a secret received one that was granted to the email
  which the identity provider vouched for (verified, for a standard provider) in a login with the same
  state, and the map server accepts it for the network of this email until it expires, as an
  administrator's exactly when the state begins with \<open>PG_ADM\<close>.\<close>
theorem oidc_login_end_to_end:
  assumes "auth_env_ok (en_auth e)" and "(oidc_step (oidc_login oe providers e cfg))\<^sup>*\<^sup>* oidc_start s"
  shows "mset (delivered s) = mset (handed_over s) \<and>
    (\<forall>w \<in> set (oc_waiters s). \<forall>secret. received w = Some secret \<longrightarrow>
      (\<exists>name p code u now. providers name = Some p \<and> oe_user oe (op_provider p) code = Some u \<and>
         (op_standardOIDC p \<longrightarrow> ui_EmailVerified u) \<and> ui_Email u \<noteq> '''' \<and>
         (\<forall>now' < (now + cf_ValidityPeriod cfg) div nano * nano.
            \<exists>t. ParseSecret (en_auth e) now' (ns_Secret secret) = (t, None) \<and>
                js_Network t = ui_Email u \<and> js_Admin t = (take 6 (ow_state w) = ''PG_ADM''))))"
proof (intro conjI ballI allI impI)
  note ok = oidc_reachable_ok [OF assms(2)]
  show "mset (delivered s) = mset (handed_over s)" by (rule oidc_okD(4) [OF ok])
  fix w secret assume "w \<in> set (oc_waiters s)" "received w = Some secret"
  from received_login [OF ok this] obtain name code rnd now pm where g: "length rnd = 12" "pm_cfg pm = cfg"
    "authorize oe providers (Grant e rnd now pm) name code (ow_state w) = Inr secret"
    unfolding oidc_login_def by blast
  from g(3) obtain p u where u: "providers name = Some p" "oe_user oe (op_provider p) code = Some u"
    "op_standardOIDC p \<longrightarrow> ui_EmailVerified u" "ui_Email u \<noteq> ''''" "secret = Grant e rnd now pm (ui_Email u) (ow_state w)"
    unfolding authorize_Inr by blast
  have "\<forall>now' < (now + cf_ValidityPeriod cfg) div nano * nano. \<exists>t. ParseSecret (en_auth e) now' (ns_Secret secret) = (t, None) \<and>
      js_Network t = ui_Email u \<and> js_Admin t = (take 6 (ow_state w) = ''PG_ADM'')"
    using Grant_accepted [OF assms(1) g(1)] g(2) u(5) by blast
  with u(1-4) show "\<exists>name p code u now. providers name = Some p \<and> oe_user oe (op_provider p) code = Some u \<and>
         (op_standardOIDC p \<longrightarrow> ui_EmailVerified u) \<and> ui_Email u \<noteq> '''' \<and>
         (\<forall>now' < (now + cf_ValidityPeriod cfg) div nano * nano.
            \<exists>t. ParseSecret (en_auth e) now' (ns_Secret secret) = (t, None) \<and>
                js_Network t = ui_Email u \<and> js_Admin t = (take 6 (ow_state w) = ''PG_ADM''))"
    by blast
qed

text \<open>A run of the table: one request with state \<open>s\<close>, two callbacks for it, one hand-over.\<close>
definition demo_waiting :: oidc where
  "demo_waiting = OIDCSecret_register 0 (OIDCSecret_enter ''s'' oidc_start)"

definition demo_twice :: "NetworkSecret \<Rightarrow> oidc" where
  "demo_twice secret = hand_over 0 0 (NotifyToken ''s'' secret (NotifyToken ''s'' secret demo_waiting))"

lemmas demo_oidc = demo_twice_def demo_waiting_def OIDCSecret_register_def OIDCSecret_enter_def NotifyToken_def hand_over_def
  set_stage_def oidc_start_def

lemma demo_waiting_reachable: "(oidc_step login)\<^sup>*\<^sup>* oidc_start demo_waiting"
proof -
  let ?s = "OIDCSecret_enter ''s'' oidc_start"
  have a: "oidc_step login oidc_start ?s" by (rule O_request)
  have b: "oidc_step login ?s (OIDCSecret_register 0 ?s)"
    by (rule O_register) (simp_all add: demo_oidc no_reader_def)
  show ?thesis unfolding demo_waiting_def by (rule rtranclp.rtrancl_into_rtrancl [where r = "oidc_step login", OF r_into_rtranclp [of "oidc_step login", OF a] b])
qed

lemma demo_twice_reachable:
  assumes "login ''s'' secret"
  shows "(oidc_step login)\<^sup>*\<^sup>* oidc_start (demo_twice secret)"
proof -
  let ?a = "NotifyToken ''s'' secret demo_waiting" and ?b = "NotifyToken ''s'' secret (NotifyToken ''s'' secret demo_waiting)"
  have ab: "oidc_step login demo_waiting ?a" "oidc_step login ?a ?b" by (rule O_callback [of login, OF assms])+
  have c: "oidc_step login ?b (demo_twice secret)" unfolding demo_twice_def
    by (rule O_deliver) (simp_all add: demo_oidc)
  note into = rtranclp.rtrancl_into_rtrancl [where r = "oidc_step login"]
  from into [OF into [OF into [OF demo_waiting_reachable ab(1)] ab(2)] c] show ?thesis .
qed

definition demo_oidc_env :: pm_env where
  "demo_oidc_env = \<lparr>en_auth = toy_env, en_encode = (\<lambda>_. []), en_parseQuery = (\<lambda>_. None), en_unjson = (\<lambda>_. None),
     en_str = (\<lambda>_. ''a''), en_json = (\<lambda>_. [])\<rparr>"

definition demo_oidc_cfg :: PmConfig where
  "demo_oidc_cfg = \<lparr>cf_Listen = ''l'', cf_SecretKey = ''k'', cf_STUNs = [], cf_PublicNetwork = '''', cf_RateLimiter = None,
     cf_RotationPeriod = nano, cf_ValidityPeriod = 2 * nano\<rparr>"

theorem oidc_login_end_to_end_witness:
  "\<exists>(s :: oidc) secret. received (oc_waiters s ! 0) = Some secret \<and>
     (\<exists>now. \<forall>now' < (now + 2 * nano) div nano * nano.
        \<exists>t. ParseSecret toy_env now' (ns_Secret secret) = (t, None) \<and> js_Network t = ''u@x'' \<and> \<not> js_Admin t)"
proof -
  let ?pm = "\<lparr>pm_networks = Map.empty, pm_index = Map.empty, pm_peers = Map.empty, pm_next = 0, pm_cfg = demo_oidc_cfg\<rparr>"
  let ?x = "Grant demo_oidc_env (replicate 12 7) 0 ?pm ''u@x'' ''s''" and ?l = "oidc_login toy_oidc toy_providers demo_oidc_env demo_oidc_cfg"
  have "authorize toy_oidc toy_providers (Grant demo_oidc_env (replicate 12 7) 0 ?pm) ProviderGoogle ''c'' ''s'' = Inr ?x"
    by (simp add: authorize_def toy_providers_def toy_oidc_def UserInfo_def)
  then have "?l ''s'' ?x" unfolding oidc_login_def
    by (intro exI [of _ ProviderGoogle] exI [of _ "''c''"] exI [of _ "replicate 12 7"] exI [of _ 0] exI [of _ ?pm]) simp
  note r = demo_twice_reachable [of ?l, OF this]
  have a: "auth_env_ok (en_auth demo_oidc_env)" by (simp add: demo_oidc_env_def toy_env_ok)
  let ?s = "demo_twice ?x"
  have w: "oc_waiters ?s ! 0 \<in> set (oc_waiters ?s)" "received (oc_waiters ?s ! 0) = Some ?x" "ow_state (oc_waiters ?s ! 0) = ''s''"
    by (simp_all add: demo_oidc received_def)
  let ?P = "\<lambda>u now. \<forall>now' < (now + cf_ValidityPeriod demo_oidc_cfg) div nano * nano.
      \<exists>t. ParseSecret (en_auth demo_oidc_env) now' (ns_Secret ?x) = (t, None) \<and> js_Network t = ui_Email u \<and>
          js_Admin t = (take 6 (ow_state (oc_waiters ?s ! 0)) = ''PG_ADM'')"
  have "\<exists>(p :: unit OIDCProvider) code u now. oe_user toy_oidc (op_provider p) code = Some u \<and> ?P u now"
    using oidc_login_end_to_end [OF a r, THEN conjunct2, rule_format, OF w(1,2)] by blast
  then obtain p :: "unit OIDCProvider" and code u now where u: "oe_user toy_oidc (op_provider p) code = Some u" and t: "?P u now"
    by blast
  from u have "ui_Email u = ''u@x''" by (auto simp: toy_oidc_def split: if_splits)
  then have "\<forall>now' < (now + 2 * nano) div nano * nano. \<exists>t. ParseSecret toy_env now' (ns_Secret ?x) = (t, None) \<and> js_Network t = ''u@x'' \<and> \<not> js_Admin t"
    using t w(3) by (simp add: demo_oidc_env_def demo_oidc_cfg_def)
  with w(2) show ?thesis by (intro exI [of _ ?s] exI [of _ ?x] conjI exI [of _ now])
qed

text \<open>A redirect that reaches the server twice jams the login: once a second secret is on its way to a request
  that has already left the select, the sender holds the read lock for ever, and from then on no request
  gets into the table or out of it, whatever else happens.\<close>
theorem oidc_replay_jams_login:
  assumes "(oidc_step login)\<^sup>*\<^sup>* s s'"
    and "n < length (oc_senders s)" and "os_stage (oc_senders s ! n) = Sending h"
    and "h < length (oc_waiters s)" and "ow_stage (oc_waiters s ! h) = WLeaving r"
  shows "os_stage (oc_senders s' ! n) = Sending h \<and> oc_ctx s' = oc_ctx s \<and> \<not> no_reader s' \<and>
    (\<forall>k < length (oc_waiters s). ow_stage (oc_waiters s ! k) = WEntering \<longrightarrow> ow_stage (oc_waiters s' ! k) = WEntering) \<and>
    (\<forall>k < length (oc_waiters s'). \<forall>r. ow_stage (oc_waiters s' ! k) = WDone r \<longrightarrow> k < length (oc_waiters s) \<and> ow_stage (oc_waiters s ! k) = WDone r)"
proof -
  have "jammed n h s" using assms(2-5) by (simp add: jammed_def)
  from jammed_steps [OF assms(1) this] jammed_reader [of n h s'] show ?thesis
    by (simp add: table_frozen_def jammed_def)
qed

theorem oidc_replay_jams_login_witness:
  "\<exists>s. (oidc_step (\<lambda>state _. state = ''s''))\<^sup>*\<^sup>* oidc_start s \<and> received (oc_waiters s ! 0) \<noteq> None \<and>
     (\<forall>s'. (oidc_step (\<lambda>state _. state = ''s''))\<^sup>*\<^sup>* s s' \<longrightarrow> os_stage (oc_senders s' ! 1) = Sending 0 \<and> oc_ctx s' = [''s'' \<mapsto> 0])"
proof -
  let ?l = "\<lambda>state (_ :: NetworkSecret). state = ''s''" and ?x = "\<lparr>ns_Secret = ''x'', ns_Network = ''n'', ns_Expire = 0\<rparr>"
  let ?s = "demo_twice ?x"
  have r: "(oidc_step ?l)\<^sup>*\<^sup>* oidc_start ?s" by (rule demo_twice_reachable) simp
  have s: "1 < length (oc_senders ?s)" "os_stage (oc_senders ?s ! 1) = Sending 0" "0 < length (oc_waiters ?s)"
    "ow_stage (oc_waiters ?s ! 0) = WLeaving (Some ?x)" "oc_ctx ?s = [''s'' \<mapsto> 0]"
    by (simp_all add: demo_oidc)
  have "received (oc_waiters ?s ! 0) \<noteq> None" using s(4) by (simp add: received_def)
  moreover have "os_stage (oc_senders s' ! 1) = Sending 0 \<and> oc_ctx s' = [''s'' \<mapsto> 0]" if "(oidc_step ?l)\<^sup>*\<^sup>* ?s s'" for s'
    using oidc_replay_jams_login [OF that s(1-4)] unfolding s(5) by blast
  ultimately show ?thesis using r by blast
qed

end
