(* ===== verification/Api.thy ===== *)
theory Api
  imports Oidc Peermap_Correct "HOL-Library.List_Lexorder"
begin

text \<open>
  The HTTP interface for users and administrators of the map server: \<open>peermap/api/api_v1.go\<close> with the
  peer list of \<open>peermap/peermap.go\<close>, and the client of the administration interface
  (\<open>peermap/exporter/client.go\<close>). A request is a token, a method and a path. Errors are JSON bodies with
  a code; \<^const>\<open>None\<close> is a panic of the handler.
\<close>

section \<open>The peers of a network\<close>

definition pg_scheme :: bytes where "pg_scheme = [112, 103, 58, 47, 47]"

definition peer_url :: "pm_env \<Rightarrow> peerConn \<Rightarrow> bytes" where
  "peer_url e p = pg_scheme @ pc_id p @ [63] @ en_encode e (pc_meta p)"

text \<open>The listed connections of a network.\<close>
definition listed_urls :: "pm_env \<Rightarrow> networkContext \<Rightarrow> PeerMap \<Rightarrow> bytes list" where
  "listed_urls e ctx pm = map (peer_url e) (List.map_filter (pm_peers pm) (map snd (nc_peers ctx)))"

text \<open>\<open>Peers\<close>: sorted by name. \<open>url_name\<close> parses an address and reads the name in its query; an address that
  does not parse panics as soon as there is one to compare it with.\<close>
definition pm_Peers :: "(bytes \<Rightarrow> bytes option) \<Rightarrow> pm_env \<Rightarrow> string \<Rightarrow> PeerMap \<Rightarrow> bytes list option" where
  "pm_Peers url_name e network pm =
     (case getNetwork network pm of
        None \<Rightarrow> Some []
      | Some ctx \<Rightarrow>
          (let peers = listed_urls e ctx pm in
           if 2 \<le> length peers \<and> \<not> list_all (\<lambda>s. url_name s \<noteq> None) peers then None
           else Some (sort_key (\<lambda>s. the (url_name s)) peers)))"

section \<open>Requests\<close>

datatype api_body =
    BError nat
  | BStuns "string list"
  | BPeers "bytes list"
  | BSecret string NetworkSecret
  | BServerInfo
  | BMux

definition auth_code :: "auth_error \<Rightarrow> nat" where
  "auth_code err = (case err of ErrInvalidToken \<Rightarrow> 9000 | ErrTokenExpired \<Rightarrow> 9001)"

definition handleQuerySTUNs :: "PmConfig \<Rightarrow> string list" where
  "handleQuerySTUNs cfg = map (\<lambda>stun. if str_contains stun ''://'' then stun else ''udp://'' @ stun) (cf_STUNs cfg)"

definition handleQueryPeers :: "(bytes \<Rightarrow> bytes option) \<Rightarrow> pm_env \<Rightarrow> PeerMap \<Rightarrow> JSONSecret \<Rightarrow> api_body option" where
  "handleQueryPeers url_name e pm secret = map_option BPeers (pm_Peers url_name e (js_Network secret) pm)"

definition handleDownloadSecret :: "pm_env \<Rightarrow> bytes \<Rightarrow> int \<Rightarrow> PeerMap \<Rightarrow> JSONSecret \<Rightarrow> api_body" where
  "handleDownloadSecret e rnd now pm secret =
     BSecret (js_Network secret @ ''_psns.json'') (Grant e rnd now pm (js_Network secret) '''')"

text \<open>The routes; whatever else the multiplexer answers is \<open>BMux\<close>.\<close>
definition api_route :: "(bytes \<Rightarrow> bytes option) \<Rightarrow> pm_env \<Rightarrow> bytes \<Rightarrow> int \<Rightarrow> PeerMap \<Rightarrow> JSONSecret \<Rightarrow> string \<Rightarrow> string \<Rightarrow> api_body option" where
  "api_route url_name e rnd now pm secret method path =
     (if method \<noteq> ''GET'' then Some BMux
      else if path = ''/api/v1/r8/stuns'' then Some (BStuns (handleQuerySTUNs (pm_cfg pm)))
      else if path = ''/api/v1/r5/peers'' then handleQueryPeers url_name e pm secret
      else if path = ''/api/v1/r5/psns.json'' then Some (handleDownloadSecret e rnd now pm secret)
      else if path = ''/api/v1/r5/server_info'' then Some BServerInfo
      else Some BMux)"

text \<open>\<open>ServeHTTP\<close>: the token of the header \<open>X-Set-Token\<close> if there is one, and the body. \<open>rnd\<close> and
  \<open>rnd'\<close> are the nonces of the two secrets it may generate.\<close>
definition api_ServeHTTP :: "(bytes \<Rightarrow> bytes option) \<Rightarrow> pm_env \<Rightarrow> bytes \<Rightarrow> bytes \<Rightarrow> int \<Rightarrow> PeerMap \<Rightarrow> string \<Rightarrow> string \<Rightarrow> string \<Rightarrow> (NetworkSecret option \<times> api_body) option" where
  "api_ServeHTTP url_name e rnd rnd' now pm token method path =
     (case ParseSecret (en_auth e) now token of
        (_, Some err) \<Rightarrow> Some (None, BError (auth_code err))
      | (secret, None) \<Rightarrow>
          if has_prefix path ''/api/v1/r5/'' \<and> \<not> js_Admin secret then Some (None, BError 10000)
          else let fresh = (if time_Unix (js_Deadline secret) - now < cf_ValidityPeriod (pm_cfg pm) - cf_RotationPeriod (pm_cfg pm)
                            then Some (Grant e rnd now pm (js_Network secret) (if js_Admin secret then ''PG_ADM'' else '''')) else None)
               in map_option (Pair fresh) (api_route url_name e rnd' now pm secret method path))"

section \<open>The client of the administration\<close>

text \<open>The scheme of the address of the server, as \<open>NewClient\<close> rewrites it.\<close>
definition http_scheme :: "string \<Rightarrow> string" where
  "http_scheme s = (if s = ''ws'' then ''http'' else if s = ''wss'' then ''https'' else s)"

definition networks_path :: "string \<Rightarrow> string" where "networks_path p = path_Join p ''/networks''"
definition peers_path :: "string \<Rightarrow> string" where "peers_path p = path_Join p ''/peers''"
definition meta_path :: "string \<Rightarrow> string \<Rightarrow> string" where
  "meta_path p network = path_Join p (''/networks/'' @ network @ ''/meta'')"

datatype client_error = ClientRequest | ClientStatus nat

text \<open>A request by path: no response, or a status and a body. \<open>decode\<close> is what the JSON decoder leaves in
  the variable; its error is dropped.\<close>
definition client_get :: "(string \<Rightarrow> (nat \<times> bytes) option) \<Rightarrow> (bytes \<Rightarrow> 'a) \<Rightarrow> string \<Rightarrow> client_error + 'a" where
  "client_get get decode path =
     (case get path of
        None \<Rightarrow> Inl ClientRequest
      | Some (status, body) \<Rightarrow> if status \<noteq> 200 then Inl (ClientStatus status) else Inr (decode body))"

definition Client_Networks :: "(string \<Rightarrow> (nat \<times> bytes) option) \<Rightarrow> (bytes \<Rightarrow> NetworkHead list) \<Rightarrow> string \<Rightarrow> client_error + NetworkHead list" where
  "Client_Networks get decode base = client_get get decode (networks_path base)"

definition Client_Peers :: "(string \<Rightarrow> (nat \<times> bytes) option) \<Rightarrow> (bytes \<Rightarrow> (string \<times> string \<times> bytes list) list) \<Rightarrow> string \<Rightarrow> client_error + (string \<times> string \<times> bytes list) list" where
  "Client_Peers get decode base = client_get get decode (peers_path base)"

definition Client_NetworkMeta :: "(string \<Rightarrow> (nat \<times> bytes) option) \<Rightarrow> (bytes \<Rightarrow> string \<times> string list) \<Rightarrow> string \<Rightarrow> string \<Rightarrow> client_error + (string \<times> string list)" where
  "Client_NetworkMeta get decode base network = client_get get decode (meta_path base network)"

text \<open>\<open>put\<close> sends a path and a body; the body of the response is not read.\<close>
definition Client_PutNetworkMeta :: "(string \<Rightarrow> bytes \<Rightarrow> nat option) \<Rightarrow> (string \<times> string list \<Rightarrow> bytes) \<Rightarrow> string \<Rightarrow> string \<Rightarrow> string \<times> string list \<Rightarrow> client_error + unit" where
  "Client_PutNetworkMeta put encode base network request =
     (case put (meta_path base network) (encode request) of
        None \<Rightarrow> Inl ClientRequest
      | Some status \<Rightarrow> if status \<noteq> 200 then Inl (ClientStatus status) else Inr ())"

text \<open>\<open>RoundTrip\<close>: a token that is good for ten seconds is added to the request.\<close>
definition RoundTrip :: "(bytes \<Rightarrow> bytes \<Rightarrow> bytes) \<Rightarrow> (bytes \<Rightarrow> string) \<Rightarrow> (int \<Rightarrow> bytes) \<Rightarrow> bytes option \<Rightarrow> int \<Rightarrow> AESCBC option \<Rightarrow> AESCBC option \<times> (token_error + string)" where
  "RoundTrip enc encode json iv now a = GenerateToken enc encode json iv a ((now + 10 * nano) div nano)"

section \<open>Lemmas\<close>

lemma pm_Peers_perm:
  assumes "pm_Peers url_name e network pm = Some ps" and "getNetwork network pm = Some ctx"
  shows "mset ps = mset (listed_urls e ctx pm)" and "sorted (map (\<lambda>s. the (url_name s)) ps)"
  using assms by (auto simp: pm_Peers_def Let_def split: if_splits)

lemma Grant_network: "ns_Network (Grant e rnd now pm network state) = network"
  by (simp add: Grant_def generateSecret_def Let_def split: option.splits)

text \<open>A body of a route.\<close>
lemma api_route_cases:
  assumes "api_route url_name e rnd now pm secret method path = Some body"
  shows "body = BPeers ps \<Longrightarrow> has_prefix path ''/api/v1/r5/'' \<and> pm_Peers url_name e (js_Network secret) pm = Some ps"
    and "body = BSecret f s \<Longrightarrow> has_prefix path ''/api/v1/r5/'' \<and> s = Grant e rnd now pm (js_Network secret) ''''"
  using assms by (auto simp: api_route_def handleQueryPeers_def handleDownloadSecret_def split: if_splits)

section \<open>Properties\<close>

text \<open>C27. The user interface: without a valid token there is an error and nothing else, and without an
  administrator's token the administrator's part is forbidden; a peer list is only given to an
  administrator and is a list, sorted by name, of exactly the peers of the network of the token; the
  secret it hands out is for this network and never an administrator's; and a renewed token is accepted
  until it expires, for the same network and with the same rights as the old one.\<close>
theorem api_respects_token:
  assumes "auth_env_ok (en_auth e)" and "length rnd = 12" and "length rnd' = 12"
    and "api_ServeHTTP url_name e rnd rnd' now pm token method path = Some (fresh, body)"
    and "ParseSecret (en_auth e) now token = (secret, err)"
  shows "(err \<noteq> None \<longrightarrow> fresh = None \<and> (\<exists>code. body = BError code)) \<and>
    (err = None \<and> has_prefix path ''/api/v1/r5/'' \<and> \<not> js_Admin secret \<longrightarrow> fresh = None \<and> body = BError 10000) \<and>
    (\<forall>ps. body = BPeers ps \<longrightarrow> err = None \<and> js_Admin secret \<and>
       (\<forall>ctx. getNetwork (js_Network secret) pm = Some ctx \<longrightarrow>
          mset ps = mset (listed_urls e ctx pm) \<and> sorted (map (\<lambda>s. the (url_name s)) ps))) \<and>
    (\<forall>f s. body = BSecret f s \<longrightarrow> err = None \<and> js_Admin secret \<and> ns_Network s = js_Network secret \<and>
       (\<forall>now' < (now + cf_ValidityPeriod (pm_cfg pm)) div nano * nano.
          \<exists>t. ParseSecret (en_auth e) now' (ns_Secret s) = (t, None) \<and> js_Network t = js_Network secret \<and> \<not> js_Admin t)) \<and>
    (\<forall>s. fresh = Some s \<longrightarrow> err = None \<and>
       (\<forall>now' < (now + cf_ValidityPeriod (pm_cfg pm)) div nano * nano.
          \<exists>t. ParseSecret (en_auth e) now' (ns_Secret s) = (t, None) \<and> js_Network t = js_Network secret \<and> js_Admin t = js_Admin secret))"
proof (cases err)
  case (Some x)
  with assms(4,5) show ?thesis by (auto simp: api_ServeHTTP_def)
next
  case None
  show ?thesis
  proof (cases "has_prefix path ''/api/v1/r5/'' \<and> \<not> js_Admin secret")
    case True
    with None assms(4,5) show ?thesis by (auto simp: api_ServeHTTP_def)
  next
    case False
    then have r: "api_route url_name e rnd' now pm secret method path = Some body"
      and f: "fresh = Some s \<Longrightarrow> s = Grant e rnd now pm (js_Network secret) (if js_Admin secret then ''PG_ADM'' else '''')" for s
      using None assms(4,5) by (auto simp: api_ServeHTTP_def Let_def split: if_splits)
    have ps: "js_Admin secret \<and> (\<forall>ctx. getNetwork (js_Network secret) pm = Some ctx \<longrightarrow>
        mset ps = mset (listed_urls e ctx pm) \<and> sorted (map (\<lambda>s. the (url_name s)) ps))" if "body = BPeers ps" for ps
      using api_route_cases(1) [OF r that] False pm_Peers_perm by blast
    have sec: "js_Admin secret \<and> ns_Network s = js_Network secret \<and>
       (\<forall>now' < (now + cf_ValidityPeriod (pm_cfg pm)) div nano * nano.
          \<exists>t. ParseSecret (en_auth e) now' (ns_Secret s) = (t, None) \<and> js_Network t = js_Network secret \<and> \<not> js_Admin t)"
      if "body = BSecret f s" for f s
      using api_route_cases(2) [OF r that] False Grant_network Grant_accepted [OF assms(1,3), of _ now pm "js_Network secret" "''''"] by fastforce
    have fr: "\<forall>now' < (now + cf_ValidityPeriod (pm_cfg pm)) div nano * nano.
          \<exists>t. ParseSecret (en_auth e) now' (ns_Secret s) = (t, None) \<and> js_Network t = js_Network secret \<and> js_Admin t = js_Admin secret"
      if "fresh = Some s" for s
      using f [OF that] Grant_accepted [OF assms(1,2), of _ now pm "js_Network secret"] by fastforce
    from ps sec fr None False show ?thesis by blast
  qed
qed

definition demo_token :: "bool \<Rightarrow> string" where
  "demo_token adm = GenerateSecretAdmin toy_env (replicate 12 7) 0 adm \<lparr>net_ID = ''n'', net_Alias = '''', net_Neighbors = []\<rparr> (2 * nano)"

theorem api_respects_token_witness:
  "\<exists>fresh. api_ServeHTTP Some demo_env (replicate 12 7) (replicate 12 8) 5 demo_pm (demo_token True) ''GET'' ''/api/v1/r5/peers'' =
       Some (fresh, BPeers [pg_scheme @ [1, 63], pg_scheme @ [2, 63]]) \<and> fresh \<noteq> None \<and>
     (\<forall>s. fresh = Some s \<longrightarrow> (\<exists>t. ParseSecret toy_env 7 (ns_Secret s) = (t, None) \<and> js_Network t = ''n'' \<and> js_Admin t))"
proof -
  have l: "length (replicate 12 (7 :: u8)) = 12" "length (replicate 12 (8 :: u8)) = 12" by simp_all
  have a: "auth_env_ok (en_auth demo_env)" by (simp add: demo_env_def toy_env_ok)
  let ?t = "\<lparr>js_Network = ''n'', js_Admin = True, js_Alias = '''', js_Neighbors = [], js_Deadline = 2\<rparr>"
  have p: "ParseSecret (en_auth demo_env) 5 (demo_token True) = (?t, None)"
    by (simp add: demo_env_def demo_token_def parse_generated [OF toy_env_ok l(1)] nano_def)
  have g: "getNetwork ''n'' demo_pm = Some ((newNetworkContext ''n'' 0)\<lparr>nc_peers := [([1], 0), ([2], 1)]\<rparr>)"
    by (simp add: getNetwork_def demo_pm_def)
  have "listed_urls demo_env ((newNetworkContext ''n'' 0)\<lparr>nc_peers := [([1], 0), ([2], 1)]\<rparr>) demo_pm = [pg_scheme @ [1, 63], pg_scheme @ [2, 63]]"
    by (simp add: listed_urls_def List.map_filter_def demo_pm_def peer_url_def demo_peer_def demo_env_def)
  then have ps: "pm_Peers Some demo_env ''n'' demo_pm = Some [pg_scheme @ [1, 63], pg_scheme @ [2, 63]]"
    by (simp add: pm_Peers_def g pg_scheme_def)
  let ?f = "Grant demo_env (replicate 12 7) 5 demo_pm ''n'' ''PG_ADM''"
  have late: "time_Unix 2 - 5 < cf_ValidityPeriod (pm_cfg demo_pm) - cf_RotationPeriod (pm_cfg demo_pm)"
    by (simp add: time_Unix_def epoch_def nano_def demo_pm_def demo_pm_cfg_def)
  have api: "api_ServeHTTP Some demo_env (replicate 12 7) (replicate 12 8) 5 demo_pm (demo_token True) ''GET'' ''/api/v1/r5/peers'' =
      Some (Some ?f, BPeers [pg_scheme @ [1, 63], pg_scheme @ [2, 63]])"
    using p ps late by (simp add: api_ServeHTTP_def api_route_def handleQueryPeers_def)
  have "7 < (5 + cf_ValidityPeriod (pm_cfg demo_pm)) div nano * nano"
    by (simp add: demo_pm_def demo_pm_cfg_def nano_def)
  with api_respects_token [OF a l api p, THEN conjunct2, THEN conjunct2, THEN conjunct2, THEN conjunct2]
  have "\<exists>t. ParseSecret (en_auth demo_env) 7 (ns_Secret ?f) = (t, None) \<and> js_Network t = ''n'' \<and> js_Admin t" by simp
  with api show ?thesis by (simp add: demo_env_def)
qed

end
