(* ===== verification/Admin_Token.thy ===== *)
theory Admin_Token
  imports Api
begin

text \<open>
  The tokens of the administration (\<open>peermap/exporter/auth/auth.go\<close>) between the client that makes one
  for every request (\<open>exporter/client.go\<close>) and the server that checks it: they agree, and what the
  cipher without authentication allows. The JSON text of an instruction is written out.
\<close>

definition ascii :: "string \<Rightarrow> bytes" where
  "ascii s = map (\<lambda>c. of_nat (of_char c)) s"

text \<open>\<open>json.Marshal\<close> of an \<open>Instruction\<close>.\<close>
definition instruction_json :: "int \<Rightarrow> bytes" where
  "instruction_json t = [123, 34] @ ascii ''expired_at'' @ [34, 58] @ ascii (format_int t) @ [125]"

text \<open>The same token with bit 3 of byte 15 inverted.\<close>
definition flip_token :: "(string \<Rightarrow> bytes option) \<Rightarrow> (bytes \<Rightarrow> string) \<Rightarrow> string \<Rightarrow> string option" where
  "flip_token decode encode token = map_option (\<lambda>b. encode (b[15 := b ! 15 XOR 8])) (decode token)"

section \<open>Decimal numbers with a fixed number of digits\<close>

fun digits :: "nat \<Rightarrow> nat \<Rightarrow> string" where
  "digits 0 r = []"
| "digits (Suc k) r = digits k (r div 10) @ [digit_char (r mod 10)]"

lemma Itoa_leading:
  assumes "0 < d" and "d < 10" and "r < 10 ^ k"
  shows "Itoa (d * 10 ^ k + r) = digit_char d # digits k r"
  using assms(3)
proof (induction k arbitrary: r)
  case 0
  with assms show ?case by (simp add: Itoa.simps)
next
  case (Suc k)
  let ?n = "d * 10 ^ Suc k + r"
  have e: "?n = r + 10 * (d * 10 ^ k)" by simp
  have n: "?n div 10 = d * 10 ^ k + r div 10" "?n mod 10 = r mod 10" unfolding e by simp_all
  have "10 * 10 ^ k \<le> d * (10 * 10 ^ k)" "(1::nat) \<le> 10 ^ k" using assms(1) by simp_all
  then have "\<not> ?n < 10" unfolding power_Suc by linarith
  moreover have "r div 10 < 10 ^ k" using Suc.prems by (simp add: div_less_iff_less_mult)
  ultimately show ?case using Suc.IH [of "r div 10"] n unfolding Itoa.simps [of ?n] by simp
qed

text \<open>The times of ten digits: those until 2033 begin with 1, and with a 9 in its place they are later.\<close>
lemma format_epoch:
  assumes "10 ^ 9 \<le> t" and "t < 2 * 10 ^ 9"
  shows "\<exists>ds. format_int t = CHR ''1'' # ds \<and> format_int (t + 8 * 10 ^ 9) = CHR ''9'' # ds"
proof -
  define r where "r = nat t - 10 ^ 9"
  have r: "r < 10 ^ 9" "nat t = 1 * 10 ^ 9 + r" "nat (t + 8 * 10 ^ 9) = 9 * 10 ^ 9 + r"
    using assms by (simp_all add: r_def nat_less_iff nat_diff_distrib nat_add_distrib)
  have "Itoa (nat t) = digit_char 1 # digits 9 r" unfolding r(2) by (rule Itoa_leading) (use r(1) in simp_all)
  moreover have "Itoa (nat (t + 8 * 10 ^ 9)) = digit_char 9 # digits 9 r" unfolding r(3) by (rule Itoa_leading) (use r(1) in simp_all)
  ultimately show ?thesis using assms by (intro exI [of _ "digits 9 r"]) (simp add: format_int_def digit_char_simps digit_char_simps(2) [unfolded One_nat_def])
qed

text \<open>The plain text of a token, and the one that the inverted bit gives.\<close>
lemma instruction_flip:
  assumes "10 ^ 9 \<le> t" and "t < 2 * 10 ^ 9"
  shows "16 \<le> length ([1] @ instruction_json t) \<and>
    xor_bytes (take 16 ([1] @ instruction_json t)) (replicate 15 0 @ [8]) @ drop 16 ([1] @ instruction_json t) =
      [1] @ instruction_json (t + 8 * 10 ^ 9)"
proof -
  obtain ds where ds: "format_int t = CHR ''1'' # ds" "format_int (t + 8 * 10 ^ 9) = CHR ''9'' # ds"
    using format_epoch [OF assms] by blast
  show ?thesis unfolding instruction_json_def ds
    by (simp add: ascii_def xor_bytes_def take_Cons' drop_Cons' numeral_eq_Suc)
qed

section \<open>Checking a token\<close>

lemma CheckToken_sealed:
  assumes "algo_ok NewCipher s" and "key_for NewCipher (provideSecretKey s) '''' = Some k"
    and "decode token = Some b" and "aes_open D k b = Some (Inr ([1] @ instruction_json t))" and "unjson (instruction_json t) = Some t"
  shows "snd (CheckToken D decode unjson now_sec (Some s) token) = Some (if now_sec < t then Inr t else Inl Expired_token)"
proof -
  have "snd (ensureCipher NewCipher s '''') = Inr k" using ensureCipher_ok [OF assms(1), of "''''"] assms(2) by simp
  then show ?thesis using assms(3-5)
    by (cases "ensureCipher NewCipher s ''''") (simp add: CheckToken_def aes_Decrypt_def)
qed

lemma GenerateToken_sealed:
  assumes "algo_ok NewCipher s" and "key_for NewCipher (provideSecretKey s) '''' = Some k"
  shows "\<exists>c. aes_seal E k (Some iv) ([1] @ instruction_json t) = Inr (iv @ c) \<and>
    snd (GenerateToken E encode instruction_json (Some iv) (Some s) t) = Inr (encode (iv @ c))"
proof -
  have "snd (ensureCipher NewCipher s '''') = Inr k" using ensureCipher_ok [OF assms(1), of "''''"] assms(2) by simp
  then show ?thesis
    by (cases "ensureCipher NewCipher s ''''") (simp add: GenerateToken_def aes_Encrypt_def aes_seal_def)
qed

lemma flip_byte:
  assumes "length iv = 16"
  shows "(iv @ c)[15 := (iv @ c) ! 15 XOR 8] = xor_bytes iv (replicate 15 0 @ [8]) @ c"
proof -
  from assms have "length (drop 15 iv) = 1" by simp
  then obtain x where d: "drop 15 iv = [x]" by (cases "drop 15 iv") auto
  define a where "a = take 15 iv"
  have iv: "iv = a @ [x]" "length a = 15" using append_take_drop_id [of 15 iv] d assms by (simp_all add: a_def)
  have "xor_bytes a (replicate 15 0) = a" using iv(2) by (simp add: xor_bytes_def list_eq_iff_nth_eq)
  then have "xor_bytes iv (replicate 15 0 @ [8]) = a @ [x XOR 8]" using iv by (simp add: xor_bytes_def)
  then show ?thesis using iv by (simp add: list_update_append nth_append)
qed

text \<open>A decoder of the JSON text, and the laws it keeps.\<close>
definition text_of :: "bytes \<Rightarrow> string" where
  "text_of b = map (\<lambda>v. char_of (unat v)) b"

definition parse_int :: "string \<Rightarrow> int option" where
  "parse_int s = (case s of
     c # r \<Rightarrow> if c = CHR ''-'' then map_option (\<lambda>n. - int n) (parse_uint 0 r) else map_option int (parse_uint 0 s)
   | [] \<Rightarrow> None)"

definition instruction_unjson :: "bytes \<Rightarrow> int option" where
  "instruction_unjson b = parse_int (text_of (drop 14 (butlast b)))"

lemma ascii_text [simp]: "text_of (ascii s) = s"
  by (simp add: text_of_def ascii_def comp_def unat_of_nat)

lemma parse_format_int [simp]: "parse_int (format_int n) = Some n"
proof (cases "n < 0")
  case False
  obtain c r where c: "Itoa (nat n) = c # r" by (cases "Itoa (nat n)") auto
  with Itoa_digits [of c "nat n"] have "c \<noteq> CHR ''-''" by (auto simp: digit_def)
  then have "parse_int (Itoa (nat n)) = map_option int (parse_uint 0 (Itoa (nat n)))" unfolding c parse_int_def by simp
  with False show ?thesis by (simp add: format_int_def)
qed (simp add: parse_int_def format_int_def)

lemma unjson_json [simp]: "instruction_unjson (instruction_json t) = Some t"
proof -
  have "drop 14 (butlast (instruction_json t)) = ascii (format_int t)"
    by (simp add: instruction_json_def butlast_append ascii_def numeral_eq_Suc)
  then show ?thesis by (simp add: instruction_unjson_def)
qed

definition demo_key :: provider where "demo_key k = Inr (replicate 32 1)"

lemma demo_key_for: "key_for NewCipher (provideSecretKey (aes_New demo_key)) '''' = Some (replicate 32 1)"
  by (simp add: key_for_def aes_New_def demo_key_def NewCipher_def)

lemma toy_decode: "ae_decode toy_env (ae_encode toy_env b) = Some b"
  using toy_env_ok unfolding auth_env_ok_def by blast

section \<open>Properties\<close>

text \<open>C30. Tokens of the administration: the token that the client adds to a request is accepted by a server with
  the same key until ten seconds later and refused as expired from then on.\<close>
theorem admin_token_roundtrip:
  assumes "block_cipher E D" and "algo_ok NewCipher s" and "algo_ok NewCipher s'"
    and "key_for NewCipher (provideSecretKey s) '''' = Some k" and "key_for NewCipher (provideSecretKey s') '''' = Some k"
    and "length iv = 16" and "\<And>b. decode (encode b) = Some b" and "\<And>t. unjson (instruction_json t) = Some t"
  shows "\<exists>token. snd (RoundTrip E encode instruction_json (Some iv) now (Some s)) = Inr token \<and>
    snd (CheckToken D decode unjson now_sec (Some s') token) =
      Some (if now_sec < now div nano + 10 then Inr (now div nano + 10) else Inl Expired_token)"
proof -
  let ?t = "(now + 10 * nano) div nano"
  have t: "?t = now div nano + 10" by (simp add: nano_def)
  from GenerateToken_sealed [OF assms(2,4), where E = E and iv = iv and encode = encode and t = ?t] obtain c where
    c: "aes_seal E k (Some iv) ([1] @ instruction_json ?t) = Inr (iv @ c)"
    "snd (RoundTrip E encode instruction_json (Some iv) now (Some s)) = Inr (encode (iv @ c))"
    unfolding RoundTrip_def by blast
  from CheckToken_sealed [where decode = decode and unjson = unjson, OF assms(3,5,7) aes_open_seal [OF assms(1,6) c(1)] assms(8)] c(2) show ?thesis
    unfolding t by blast
qed

theorem admin_token_roundtrip_witness:
  "\<exists>token. snd (RoundTrip xor_cipher (ae_encode toy_env) instruction_json (Some (replicate 16 5)) (7 * nano) (Some (aes_New demo_key))) = Inr token \<and>
    snd (CheckToken xor_cipher (ae_decode toy_env) instruction_unjson 16 (Some (aes_New demo_key)) token) = Some (Inr 17)"
  using admin_token_roundtrip [OF xor_cipher_ok aes_New_ok aes_New_ok demo_key_for demo_key_for, of "replicate 16 5" "ae_decode toy_env"
      "ae_encode toy_env" instruction_unjson "7 * nano" 16] toy_decode unjson_json
  by (simp add: nano_def)

text \<open>Anyone who sees a token of the administration can make one that is good for centuries: with one bit of
  its initialisation vector inverted, the server takes it for a token that expires eight thousand
  million seconds later, however long ago the original expired.\<close>
theorem admin_token_forgeable:
  assumes "block_cipher E D" and "algo_ok NewCipher s" and "algo_ok NewCipher s'"
    and "key_for NewCipher (provideSecretKey s) '''' = Some k" and "key_for NewCipher (provideSecretKey s') '''' = Some k"
    and "length iv = 16" and "\<And>b. decode (encode b) = Some b" and "\<And>t. unjson (instruction_json t) = Some t"
    and "10 ^ 9 \<le> t" and "t < 2 * 10 ^ 9"
    and "snd (GenerateToken E encode instruction_json (Some iv) (Some s) t) = Inr token"
  shows "\<exists>forged. flip_token decode encode token = Some forged \<and>
    (\<forall>now_sec < t + 8 * 10 ^ 9. snd (CheckToken D decode unjson now_sec (Some s') forged) = Some (Inr (t + 8 * 10 ^ 9)))"
proof -
  let ?d = "replicate 15 0 @ [8] :: bytes" and ?b = "[1] @ instruction_json t"
  from GenerateToken_sealed [OF assms(2,4), where E = E and iv = iv and encode = encode and t = t] assms(11) obtain c where
    c: "aes_seal E k (Some iv) ?b = Inr (iv @ c)" "token = encode (iv @ c)" by auto
  have f: "flip_token decode encode token = Some (encode (xor_bytes iv ?d @ c))"
    unfolding flip_token_def c(2) assms(7) by (simp add: flip_byte [OF assms(6)])
  note i = instruction_flip [OF assms(9,10)]
  have "aes_open D k (xor_bytes iv ?d @ c) = Some (Inr ([1] @ instruction_json (t + 8 * 10 ^ 9)))"
    using aes_open_flip [OF assms(1,6) _ conjunct1 [OF i] c(1), of ?d] conjunct2 [OF i] by simp
  from CheckToken_sealed [where decode = decode and unjson = unjson, OF assms(3,5,7) this assms(8)] f show ?thesis by auto
qed

theorem admin_token_forgeable_witness:
  "\<exists>token forged. snd (GenerateToken xor_cipher (ae_encode toy_env) instruction_json (Some (replicate 16 5)) (Some (aes_New demo_key)) 1700000000) = Inr token \<and>
    flip_token (ae_decode toy_env) (ae_encode toy_env) token = Some forged \<and>
    snd (CheckToken xor_cipher (ae_decode toy_env) instruction_unjson 5000000000 (Some (aes_New demo_key)) token) = Some (Inl Expired_token) \<and>
    snd (CheckToken xor_cipher (ae_decode toy_env) instruction_unjson 5000000000 (Some (aes_New demo_key)) forged) = Some (Inr 9700000000)"
proof -
  let ?s = "Some (aes_New demo_key)" and ?t = "1700000000 :: int"
  obtain c where c: "aes_seal xor_cipher (replicate 32 1) (Some (replicate 16 5)) ([1] @ instruction_json ?t) = Inr (replicate 16 5 @ c)"
    "snd (GenerateToken xor_cipher (ae_encode toy_env) instruction_json (Some (replicate 16 5)) ?s ?t) = Inr (ae_encode toy_env (replicate 16 5 @ c))"
    using GenerateToken_sealed [OF aes_New_ok demo_key_for] by blast
  have "length (replicate 16 (5 :: u8)) = 16" by simp
  note o = aes_open_seal [OF xor_cipher_ok this c(1)]
  have "snd (CheckToken xor_cipher (ae_decode toy_env) instruction_unjson 5000000000 ?s (ae_encode toy_env (replicate 16 5 @ c))) = Some (Inl Expired_token)"
    using CheckToken_sealed [where unjson = instruction_unjson and decode = "ae_decode toy_env", OF aes_New_ok demo_key_for toy_decode o unjson_json] by simp
  moreover have "\<exists>forged. flip_token (ae_decode toy_env) (ae_encode toy_env) (ae_encode toy_env (replicate 16 5 @ c)) = Some forged \<and>
      (\<forall>now_sec < ?t + 8 * 10 ^ 9. snd (CheckToken xor_cipher (ae_decode toy_env) instruction_unjson now_sec ?s forged) = Some (Inr (?t + 8 * 10 ^ 9)))"
    by (rule admin_token_forgeable [OF xor_cipher_ok aes_New_ok aes_New_ok demo_key_for demo_key_for _ toy_decode unjson_json _ _ c(2)]) simp_all
  then obtain forged where "flip_token (ae_decode toy_env) (ae_encode toy_env) (ae_encode toy_env (replicate 16 5 @ c)) = Some forged"
    "snd (CheckToken xor_cipher (ae_decode toy_env) instruction_unjson 5000000000 ?s forged) = Some (Inr (?t + 8 * 10 ^ 9))" by auto
  moreover have "?t + 8 * 10 ^ 9 = 9700000000" by simp
  ultimately show ?thesis using c(2) by metis
qed

end
