(* ===== verification/Ipc.thy ===== *)
theory Ipc
  imports P2p_Correct Nic
begin

text \<open>
  The status that a VPN node reports of its peers (\<open>cmd/pgcli/vpn/ipc/server/http.go\<close>): the known
  addresses of direct paths, and how packets to a peer travel. \<open>str\<close> is \<open>UDPAddr.String\<close>.
\<close>

section \<open>Direct paths\<close>

record p2p_state =
  pp_last :: int
  pp_addrs :: "string list"

text \<open>One round of the loop over the states of the peers.\<close>
definition add_state :: "(UDPAddr \<Rightarrow> string) \<Rightarrow> PeerState \<Rightarrow> (PeerID \<rightharpoonup> p2p_state) \<Rightarrow> (PeerID \<rightharpoonup> p2p_state)" where
  "add_state str p m =
     (case m (ps_PeerID p) of
        None \<Rightarrow> m(ps_PeerID p \<mapsto> \<lparr>pp_last = ps_Last p, pp_addrs = [str (ps_Addr p)]\<rparr>)
      | Some s \<Rightarrow> m(ps_PeerID p \<mapsto> \<lparr>pp_last = (if pp_last s < ps_Last p then ps_Last p else pp_last s), pp_addrs = pp_addrs s @ [str (ps_Addr p)]\<rparr>))"

definition p2p_states :: "(UDPAddr \<Rightarrow> string) \<Rightarrow> PeerState list \<Rightarrow> (PeerID \<rightharpoonup> p2p_state)" where
  "p2p_states str ps = fold (add_state str) ps Map.empty"

section \<open>The path to a peer\<close>

text \<open>\<open>usePeerRelay\<close>: the first peer that is not excluded decides.\<close>
fun usePeerRelay :: "PeerState list \<Rightarrow> PeerID \<Rightarrow> 'e PacketConn \<Rightarrow> 'e PacketConn \<times> bool" where
  "usePeerRelay [] peerID c = (c, False)"
| "usePeerRelay (p # ps) peerID c =
     (if ps_PeerID p = peerID then usePeerRelay ps peerID c
      else case PeerMeta (ps_PeerID p) c of
             (c1, None) \<Rightarrow> usePeerRelay ps peerID c1
           | (c1, Some meta) \<Rightarrow>
               if snd (labels_Get (values_of meta ''label'') ''node.nr'') then usePeerRelay ps peerID c1
               else (c1, is_Easy (first_value meta ''nat'') \<or> is_IP4 (first_value meta ''nat'')))"

record peer_status =
  st_ID :: PeerID
  st_Hostname :: string
  st_IPv4 :: string
  st_IPv6 :: string
  st_Mode :: string
  st_NAT :: string
  st_Version :: string
  st_Labels :: "string list"
  st_LastActive :: int
  st_Addrs :: "string list"

text \<open>A lookup in the metadata of a peer, which may be nil.\<close>
definition meta_first :: "url_values option \<Rightarrow> string \<Rightarrow> string" where
  "meta_first m k = (case m of None \<Rightarrow> '''' | Some v \<Rightarrow> first_value v k)"

definition status_of :: "(PeerID \<rightharpoonup> p2p_state) \<Rightarrow> PeerState list \<Rightarrow> nic_Peer \<Rightarrow> 'e PacketConn \<Rightarrow> 'e PacketConn \<times> peer_status" where
  "status_of reach states p c =
     (let s = \<lparr>st_ID = np_Addr p, st_Hostname = meta_first (np_Meta p) ''name'', st_IPv4 = np_IPv4 p, st_IPv6 = np_IPv6 p,
               st_Mode = ''RELAY'', st_NAT = meta_first (np_Meta p) ''nat'', st_Version = meta_first (np_Meta p) ''version'',
               st_Labels = (case np_Meta p of None \<Rightarrow> [] | Some v \<Rightarrow> values_of v ''label''), st_LastActive = 0, st_Addrs = []\<rparr>
      in case reach (np_Addr p) of
           Some d \<Rightarrow> (c, s\<lparr>st_Mode := ''P2P'', st_LastActive := pp_last d, st_Addrs := pp_addrs d\<rparr>)
         | None \<Rightarrow> (case usePeerRelay states (np_Addr p) c of
                      (c1, relay) \<Rightarrow> (c1, if relay then s\<lparr>st_Mode := ''PEER_RELAY''\<rparr> else s)))"

fun statuses :: "(PeerID \<rightharpoonup> p2p_state) \<Rightarrow> PeerState list \<Rightarrow> nic_Peer list \<Rightarrow> 'e PacketConn \<Rightarrow> 'e PacketConn \<times> peer_status list" where
  "statuses reach states [] c = (c, [])"
| "statuses reach states (p # ps) c =
     (let (c1, s) = status_of reach states p c; (c2, ss) = statuses reach states ps c1 in (c2, s # ss))"

text \<open>\<open>handleQueryPeers\<close> over the peers of the interface.\<close>
definition ipc_QueryPeers :: "(UDPAddr \<Rightarrow> string) \<Rightarrow> PeerState list \<Rightarrow> nic_Peer list \<Rightarrow> 'e PacketConn \<Rightarrow> 'e PacketConn \<times> peer_status list" where
  "ipc_QueryPeers str states nicPeers c = statuses (p2p_states str states) states nicPeers c"

section \<open>Lemmas\<close>

text \<open>What the loop has gathered: the addresses of a peer in the order of its states, and its latest time.\<close>
definition states_of :: "PeerID \<Rightarrow> PeerState list \<Rightarrow> PeerState list" where
  "states_of i ps = filter (\<lambda>p. ps_PeerID p = i) ps"

lemma p2p_states_eq:
  "p2p_states str ps i = (if states_of i ps = [] then None
     else Some \<lparr>pp_last = fold max (map ps_Last (tl (states_of i ps))) (ps_Last (hd (states_of i ps))), pp_addrs = map (str \<circ> ps_Addr) (states_of i ps)\<rparr>)"
proof (induction ps rule: rev_induct)
  case Nil
  show ?case by (simp add: p2p_states_def states_of_def)
next
  case (snoc p ps)
  have s: "p2p_states str (ps @ [p]) = add_state str p (p2p_states str ps)" by (simp add: p2p_states_def)
  show ?case
  proof (cases "ps_PeerID p = i")
    case False
    then show ?thesis using snoc by (auto simp: s add_state_def states_of_def split: option.splits)
  next
    case True
    then have f: "states_of i (ps @ [p]) = states_of i ps @ [p]" by (simp add: states_of_def)
    show ?thesis
    proof (cases "states_of i ps")
      case Nil
      with snoc True show ?thesis by (simp add: s f add_state_def)
    next
      case (Cons q qs)
      with snoc True show ?thesis by (simp add: s f add_state_def max_def)
    qed
  qed
qed

text \<open>The metadata that a sequence of lookups reads does not change.\<close>
definition same_meta :: "'e PacketConn \<Rightarrow> 'e PacketConn \<Rightarrow> bool" where
  "same_meta c c' \<longleftrightarrow> cache_ok (pn_peerMap c') \<and> map_of (contents (pn_peerMap c')) = map_of (contents (pn_peerMap c))"

lemma same_meta_trans: "same_meta a b \<Longrightarrow> same_meta b c \<Longrightarrow> same_meta a c"
  by (simp add: same_meta_def)

lemma same_meta_PeerMeta: "cache_ok (pn_peerMap c) \<Longrightarrow> same_meta c (fst (PeerMeta i c))"
  by (simp add: same_meta_def PeerMeta_keeps)

lemma usePeerRelay_sound:
  assumes "cache_ok (pn_peerMap c)"
  shows "same_meta c (fst (usePeerRelay ps peerID c)) \<and>
    (snd (usePeerRelay ps peerID c) \<longrightarrow> (\<exists>p \<in> set ps. relay_eligible c peerID p))"
  using assms
proof (induction ps arbitrary: c)
  case Nil
  then show ?case by (simp add: same_meta_def)
next
  case (Cons p ps)
  show ?case
  proof (cases "ps_PeerID p = peerID")
    case True
    with Cons show ?thesis by auto
  next
    case False
    obtain c1 r where v: "PeerMeta (ps_PeerID p) c = (c1, r)" by fastforce
    with PeerMeta_value [OF Cons.prems, of "ps_PeerID p"] have r: "r = map_of (contents (pn_peerMap c)) (ps_PeerID p)" by simp
    have m: "same_meta c c1" using same_meta_PeerMeta [OF Cons.prems, of "ps_PeerID p"] v by simp
    then have ok: "cache_ok (pn_peerMap c1)" by (simp add: same_meta_def)
    note IH = Cons.IH [OF ok]
    have IH1: "same_meta c (fst (usePeerRelay ps peerID c1))" using m IH same_meta_trans by blast
    have IH2: "snd (usePeerRelay ps peerID c1) \<Longrightarrow> \<exists>p \<in> set ps. relay_eligible c peerID p"
      using IH m by (auto simp: same_meta_def relay_eligible_def)
    show ?thesis
    proof (cases r)
      case None
      with v False IH1 IH2 show ?thesis by auto
    next
      case (Some meta)
      show ?thesis
      proof (cases "snd (labels_Get (values_of meta ''label'') ''node.nr'')")
        case True
        with v Some False IH1 IH2 show ?thesis by auto
      next
        case nr: False
        with v Some False m r show ?thesis by (auto simp: relay_eligible_def can_relay_def)
      qed
    qed
  qed
qed

lemma status_of_sound:
  assumes "cache_ok (pn_peerMap c)"
  shows "same_meta c (fst (status_of (p2p_states str states) states p c)) \<and>
    (let s = snd (status_of (p2p_states str states) states p c) in
      st_ID s = np_Addr p \<and> (st_Mode s = ''P2P'' \<longleftrightarrow> states_of (np_Addr p) states \<noteq> []) \<and>
      st_Addrs s = map (str \<circ> ps_Addr) (states_of (np_Addr p) states) \<and>
      (st_Mode s = ''PEER_RELAY'' \<longrightarrow> (\<exists>q \<in> set states. relay_eligible c (np_Addr p) q)))"
proof (cases "states_of (np_Addr p) states = []")
  case True
  obtain c1 r where r: "usePeerRelay states (np_Addr p) c = (c1, r)" by fastforce
  from usePeerRelay_sound [OF assms, of states "np_Addr p"] r True show ?thesis
    by (cases r) (simp_all add: status_of_def p2p_states_eq Let_def)
next
  case False
  then show ?thesis using assms by (simp add: status_of_def p2p_states_eq same_meta_def Let_def)
qed

section \<open>Properties\<close>

text \<open>The status list has one entry for every peer of the interface, in order; a peer is reported as direct
  exactly when the UDP connection has a state for it, with the addresses of its states in order; and
  it is only reported as relayed by a peer when some known peer can relay to it.\<close>
theorem ipc_status_truthful:
  assumes "cache_ok (pn_peerMap c)"
  shows "list_all2 (\<lambda>p s. st_ID s = np_Addr p \<and> (st_Mode s = ''P2P'' \<longleftrightarrow> states_of (np_Addr p) states \<noteq> []) \<and>
      st_Addrs s = map (str \<circ> ps_Addr) (states_of (np_Addr p) states) \<and>
      (st_Mode s = ''PEER_RELAY'' \<longrightarrow> (\<exists>q \<in> set states. relay_eligible c (np_Addr p) q)))
    nicPeers (snd (ipc_QueryPeers str states nicPeers c))"
  unfolding ipc_QueryPeers_def using assms
proof (induction nicPeers arbitrary: c)
  case (Cons p ps)
  let ?c1 = "fst (status_of (p2p_states str states) states p c)"
  note s = status_of_sound [OF Cons.prems, of str states p]
  then have ok: "cache_ok (pn_peerMap ?c1)" and e: "relay_eligible ?c1 = relay_eligible c"
    by (auto simp: same_meta_def relay_eligible_def fun_eq_iff)
  from Cons.IH [OF ok] s show ?case unfolding e by (simp add: case_prod_unfold Let_def)
qed simp

definition demo_nic_peer :: "PeerID \<Rightarrow> nic_Peer" where
  "demo_nic_peer i = \<lparr>np_Addr = i, np_IPv4 = ''10.0.0.1'', np_IPv6 = '''', np_Meta = None\<rparr>"

theorem ipc_status_truthful_witness:
  "\<exists>s t. snd (ipc_QueryPeers (\<lambda>_. ''a'') [\<lparr>ps_PeerID = [7], ps_Addr = \<lparr>ua_ip = [], ua_port = 1\<rparr>, ps_Last = 5\<rparr>]
       [demo_nic_peer [7], demo_nic_peer [2]] (demo_pn '''')) = [s, t] \<and> st_Mode s = ''P2P'' \<and> st_Addrs s = [''a''] \<and> st_Mode t \<noteq> ''P2P''"
proof -
  have "cache_ok (pn_peerMap (demo_pn ''''))" by (simp add: demo_pn_def Put_ok New_1024)
  note t = ipc_status_truthful [where str = "\<lambda>_. ''a''", OF this, of "[\<lparr>ps_PeerID = [7], ps_Addr = \<lparr>ua_ip = [], ua_port = 1\<rparr>, ps_Last = 5\<rparr>]"
      "[demo_nic_peer [7], demo_nic_peer [2]]"]
  define ss where "ss = snd (ipc_QueryPeers (\<lambda>_. ''a'') [\<lparr>ps_PeerID = [7], ps_Addr = \<lparr>ua_ip = [], ua_port = 1\<rparr>, ps_Last = 5\<rparr>]
       [demo_nic_peer [7], demo_nic_peer [2]] (demo_pn ''''))"
  have "\<exists>s t. ss = [s, t] \<and> st_Mode s = ''P2P'' \<and> st_Addrs s = [''a''] \<and> st_Mode t \<noteq> ''P2P''"
    using t unfolding ss_def [symmetric] by (auto simp: list_all2_Cons1 states_of_def demo_nic_peer_def)
  then show ?thesis unfolding ss_def .
qed

text \<open>The first peer with metadata and without the label \<open>node.nr\<close> decides, whoever comes after it.\<close>
lemma usePeerRelay_first:
  assumes "cache_ok (pn_peerMap c)" and "ps_PeerID p \<noteq> target" and "map_of (contents (pn_peerMap c)) (ps_PeerID p) = Some meta"
    and "\<not> snd (labels_Get (values_of meta ''label'') ''node.nr'')" and "\<not> can_relay meta"
  shows "\<not> snd (usePeerRelay (p # ps) target c)"
proof -
  obtain c1 r where v: "PeerMeta (ps_PeerID p) c = (c1, r)" by fastforce
  with PeerMeta_value [OF assms(1), of "ps_PeerID p"] assms(3) have "r = Some meta" by simp
  with v assms(2,4,5) show ?thesis by (simp add: can_relay_def)
qed

end
