(* ===== verification/Fileshare.thy ===== *)
theory Fileshare
  imports Stream_IO
begin

text \<open>
  File sharing (\<open>fileshare/filemanager.go\<close>, \<open>fileshare/downloader.go\<close>): the index of shared
  files, the server's request handler, and the client's handshake with resumption and checksum.
  SHA-256 is a parameter \<open>sha\<close>; the theorems hold for every function of 32-byte results. A file
  system object is a tree, an opened file its content.
\<close>

section \<open>Shared files\<close>

datatype node = NFile | NLink | NError | NDir "(string \<times> node) list"

record FileManager =
  fm_index :: nat
  fm_files :: "nat \<rightharpoonup> string"

definition path_join :: "string \<Rightarrow> string \<Rightarrow> string" where
  "path_join a b = a @ ''/'' @ b"

text \<open>\<open>addAbs\<close>; errors of entries of a directory are ignored. The result says whether the call
  failed. A directory that cannot be listed is \<open>NError\<close>.\<close>
fun addAbs :: "string \<Rightarrow> node \<Rightarrow> FileManager \<Rightarrow> FileManager \<times> bool"
  and addAll :: "string \<Rightarrow> (string \<times> node) list \<Rightarrow> FileManager \<Rightarrow> FileManager" where
  "addAbs p NError fm = (fm, False)"
| "addAbs p NLink fm = (fm, True)"
| "addAbs p NFile fm = (fm\<lparr>fm_files := (fm_files fm)(fm_index fm \<mapsto> p), fm_index := Suc (fm_index fm)\<rparr>, True)"
| "addAbs p (NDir es) fm = (addAll p es fm, True)"
| "addAll p [] fm = fm"
| "addAll p ((n, e) # es) fm = addAll p es (fst (addAbs (path_join p n) e fm))"

definition fm_new :: FileManager where "fm_new = \<lparr>fm_index = 0, fm_files = Map.empty\<rparr>"

text \<open>\<open>opened\<close> is the content of a path, when it can be opened.\<close>
definition openFile :: "FileManager \<Rightarrow> (string \<rightharpoonup> bytes) \<Rightarrow> u16 \<Rightarrow> bytes option" where
  "openFile fm opened index = Option.bind (fm_files fm (unat index)) opened"

section \<open>Messages\<close>

definition buildOK :: "nat \<Rightarrow> bool \<Rightarrow> bytes" where
  "buildOK fileSize resume = (if resume then 20 else 0) # put_u32be (of_nat fileSize)"

definition buildErr :: "u8 \<Rightarrow> bytes" where
  "buildErr code = [code, 0, 0, 0, 0]"

definition buildGet :: "u16 \<Rightarrow> u32 \<Rightarrow> bytes \<Rightarrow> bytes" where
  "buildGet index partSize checksum =
     (if 0 < partSize then [0, 36] @ put_u16be index @ put_u32be partSize @ checksum
      else [0, 0] @ put_u16be index)"

definition buildClose :: bytes where "buildClose = [1]"

section \<open>Server\<close>

text \<open>\<open>handleRequest\<close> on the bytes of a connection: the bytes it writes. \<^const>\<open>None\<close>: slice bounds
  out of range. Failing writes and reads of the file are not errors of the handler.\<close>
definition handleRequest :: "(bytes \<Rightarrow> bytes) \<Rightarrow> FileManager \<Rightarrow> (string \<rightharpoonup> bytes) \<Rightarrow> bytes \<Rightarrow> bytes option" where
  "handleRequest sha fm opened inp =
     (if length inp < 4 \<or> inp ! 0 \<noteq> 0 then Some (buildErr 1)
      else case get_u16be (drop 2 inp) of None \<Rightarrow> Some (buildErr 1)
      | Some index \<Rightarrow>
          (case openFile fm opened index of
             None \<Rightarrow> Some (buildErr 2)
           | Some f \<Rightarrow>
               (let len = unat (inp ! 1); body = drop 4 inp in
                if length body < len then Some (buildErr 3)
                else let info = take len body in
                  if info = [] then Some (buildOK (length f) False @ f @ sha f)
                  else do {
                    sz \<leftarrow> lrange info 0 4;
                    partSize \<leftarrow> get_u32be sz;
                    partChecksum \<leftarrow> lrange info 4 36;
                    (if (of_nat (length f) :: u32) < partSize then Some (buildErr 4)
                     else let part = take (unat partSize) f in
                       if sha part \<noteq> partChecksum then Some (buildErr 5)
                       else Some (buildOK (length f) (part \<noteq> []) @ drop (length part) f @ sha f)) })))"

section \<open>Client\<close>

datatype share_error =
  ReadHeaderErr | BadRequest | FileNotFound | SizeLess | NotPart | InvalidHeader | ChecksumMismatch | HandshakeFirst | ReadChecksum

text \<open>After a successful handshake: the file size and the number of bytes the limited reader gives.\<close>
record FileHandle =
  h_index :: u16
  h_fSize :: u32
  h_limit :: "u32 option"

text \<open>\<open>Handshake\<close>: the request it writes, and its answer to the bytes that follow.\<close>
definition request :: "FileHandle \<Rightarrow> u32 \<Rightarrow> bytes \<Rightarrow> bytes" where
  "request h offset checksum = buildGet (h_index h) offset checksum"

definition Handshake :: "FileHandle \<Rightarrow> u32 \<Rightarrow> bytes \<Rightarrow> (share_error + FileHandle) \<times> bytes" where
  "Handshake h offset inp =
     (if length inp < 5 then (Inl ReadHeaderErr, [])
      else let code = inp ! 0; rest = drop 5 inp in
        if code = 1 then (Inl BadRequest, rest)
        else if code = 2 then (Inl FileNotFound, rest)
        else if code = 4 then (Inl SizeLess, rest)
        else if code = 5 then (Inl NotPart, rest)
        else if code \<noteq> 0 \<and> code \<noteq> 20 then (Inl InvalidHeader, rest)
        else if 0 < offset \<and> code \<noteq> 20 then (Inl ChecksumMismatch, rest)
        else case get_u32be (drop 1 inp) of
               None \<Rightarrow> (Inl ReadHeaderErr, [])
             | Some fsz \<Rightarrow> (Inr (h\<lparr>h_fSize := fsz, h_limit := Some (fsz - offset)\<rparr>), rest))"

text \<open>Reading the limited reader to its end, then \<open>Sha256\<close>.\<close>
definition read_file :: "FileHandle \<Rightarrow> bytes \<Rightarrow> share_error + bytes \<times> bytes" where
  "read_file h inp =
     (case h_limit h of None \<Rightarrow> Inl HandshakeFirst
      | Some n \<Rightarrow> Inr (take (unat n) inp, drop (unat n) inp))"

definition Sha256 :: "bytes \<Rightarrow> share_error + bytes" where
  "Sha256 inp = (if length inp < 32 then Inl ReadChecksum else Inr (take 32 inp))"

section \<open>Lemmas\<close>

definition fm_ok :: "FileManager \<Rightarrow> bool" where
  "fm_ok fm \<longleftrightarrow> dom (fm_files fm) = {..<fm_index fm}"

lemma addAbs_ok: "fm_ok fm \<Longrightarrow> fm_ok (fst (addAbs p e fm))"
  and addAll_ok: "fm_ok fm \<Longrightarrow> fm_ok (addAll p es fm)"
  by (induction p e fm and p es fm rule: addAbs_addAll.induct) (auto simp: fm_ok_def lessThan_Suc)

text \<open>The request after its four header bytes.\<close>

lemma handle_request:
  assumes "openFile fm opened index = Some f" and "unat l \<le> length body"
  shows "handleRequest sha fm opened ([0, l] @ put_u16be index @ body) =
    (let info = take (unat l) body in
      if info = [] then Some (buildOK (length f) False @ f @ sha f)
      else do {
        sz \<leftarrow> lrange info 0 4;
        partSize \<leftarrow> get_u32be sz;
        partChecksum \<leftarrow> lrange info 4 36;
        (if (of_nat (length f) :: u32) < partSize then Some (buildErr 4)
         else let part = take (unat partSize) f in
           if sha part \<noteq> partChecksum then Some (buildErr 5)
           else Some (buildOK (length f) (part \<noteq> []) @ drop (length part) f @ sha f)) })"
proof -
  have i: "get_u16be (drop 2 ([0, l] @ put_u16be index @ body)) = Some index" by simp
  have d: "drop 4 ([0, l] @ put_u16be index @ body) = body" by (simp add: put_u16be_def)
  have n: "([0, l] @ put_u16be index @ body) ! 0 = 0" "([0, l] @ put_u16be index @ body) ! 1 = l" by simp_all
  have len: "\<not> length ([0, l] @ put_u16be index @ body) < 4" by simp
  show ?thesis
    unfolding handleRequest_def i d n using len assms by (simp add: Let_def)
qed

lemma handle_part:
  assumes "openFile fm opened index = Some f" and "length cs = 32"
  shows "handleRequest sha fm opened ([0, 36] @ put_u16be index @ put_u32be off @ cs @ r) =
    (if (of_nat (length f) :: u32) < off then Some (buildErr 4)
     else if sha (take (unat off) f) \<noteq> cs then Some (buildErr 5)
     else Some (buildOK (length f) (take (unat off) f \<noteq> []) @ drop (length (take (unat off) f)) f @ sha f))"
proof -
  have l: "unat (36 :: u8) = 36" by simp
  have t: "take (unat (36 :: u8)) (put_u32be off @ cs @ r) = put_u32be off @ cs" using assms(2) unfolding l by simp
  have i: "lrange (put_u32be off @ cs) 0 4 = Some (put_u32be off)" "lrange (put_u32be off @ cs) 4 36 = Some cs"
    using assms(2) by (simp_all add: lrange_def)
  have ne: "put_u32be off @ cs \<noteq> []" by (simp add: put_u32be_def)
  have le: "unat (36 :: u8) \<le> length (put_u32be off @ cs @ r)" using assms(2) unfolding l by simp
  show ?thesis
    unfolding handle_request [OF assms(1) le] t Let_def if_not_P [OF ne] i by simp
qed

lemma handle_get:
  assumes "openFile fm opened index = Some f" and "length f < 2 ^ 32" and "off \<le> length f" and "length (sha (take off f)) = 32"
  shows "handleRequest sha fm opened (buildGet index (of_nat off) (sha (take off f)) @ r) =
    Some (buildOK (length f) (0 < off) @ drop off f @ sha f)"
proof (cases "off = 0")
  case True
  then show ?thesis
    using handle_request [OF assms(1), of 0 r sha] by (simp add: buildGet_def)
next
  case False
  have u: "unat (of_nat off :: u32) = off" using assms(2,3) by (simp add: unat_of_nat)
  then have pos: "0 < (of_nat off :: u32)" using False by (metis unat_0 word_gt_0)
  have le: "\<not> (of_nat (length f) :: u32) < of_nat off"
    using assms(2,3) by (simp add: word_less_nat_alt unat_of_nat)
  have part: "take off f \<noteq> []" "length (take off f) = off" using False assms(3) by auto
  show ?thesis
    using handle_part [OF assms(1,4), of sha "of_nat off" r] pos u le part False by (simp add: buildGet_def)
qed

section \<open>Properties\<close>

definition demo_fm :: FileManager where "demo_fm = fst (addAbs ''f'' NFile fm_new)"

text \<open>Download with resumption: for every offset into a file of less than 4 GiB, when the client's
  local part is the beginning of the file, its handshake succeeds, the limited reader yields exactly the
  missing bytes, and the checksum that follows is that of the whole file.\<close>
theorem download_completes:
  assumes "openFile fm opened index = Some f" and "length f < 2 ^ 32" and "off \<le> length f"
    and "\<And>x. length (sha x) = 32" and "h_index h = index"
  shows "\<exists>out h' rest. handleRequest sha fm opened (request h (of_nat off) (sha (take off f))) = Some out \<and>
    Handshake h (of_nat off) out = (Inr h', rest) \<and> h_fSize h' = of_nat (length f) \<and>
    (\<exists>tail. read_file h' rest = Inr (drop off f, tail) \<and> Sha256 tail = Inr (sha f))"
proof -
  have u: "unat (of_nat (length f) - of_nat off :: u32) = length f - off"
    using assms(2,3) by (simp add: unat_sub_if' unat_of_nat)
  let ?out = "buildOK (length f) (0 < off) @ drop off f @ sha f"
  let ?h = "h\<lparr>h_fSize := of_nat (length f), h_limit := Some (of_nat (length f) - of_nat off)\<rparr>"
  have req: "handleRequest sha fm opened (request h (of_nat off) (sha (take off f))) = Some ?out"
    using handle_get [OF assms(1-3), of sha "[]"] assms(4,5) by (simp add: request_def)
  have "0 < (of_nat off :: u32) \<Longrightarrow> 0 < off" by (cases off) simp_all
  then have "Handshake h (of_nat off) ?out = (Inr ?h, drop off f @ sha f)"
    by (auto simp: Handshake_def buildOK_def Let_def)
  moreover have "read_file ?h (drop off f @ sha f) = Inr (drop off f, sha f)"
    using u by (simp add: read_file_def)
  moreover have "Sha256 (sha f) = Inr (sha f)" using assms(4) [of f] by (simp add: Sha256_def)
  moreover have "h_fSize ?h = of_nat (length f)" by simp
  ultimately show ?thesis using req by blast
qed

theorem download_completes_witness:
  "\<exists>out h' rest. handleRequest (\<lambda>_. replicate 32 9) demo_fm [''f'' \<mapsto> [1, 2, 3]]
      (request \<lparr>h_index = 0, h_fSize = 0, h_limit = None\<rparr> 2 (replicate 32 9)) = Some out \<and>
    Handshake \<lparr>h_index = 0, h_fSize = 0, h_limit = None\<rparr> 2 out = (Inr h', rest) \<and> take 1 rest = [3]"
proof -
  have "openFile demo_fm [''f'' \<mapsto> [1, 2, 3]] 0 = Some [1, 2, 3]" by (simp add: openFile_def demo_fm_def fm_new_def)
  from download_completes [OF this, of 2 "\<lambda>_. replicate 32 9" "\<lparr>h_index = 0, h_fSize = 0, h_limit = None\<rparr>"]
  obtain out h' rest tail where
    o: "handleRequest (\<lambda>_. replicate 32 9) demo_fm [''f'' \<mapsto> [1, 2, 3]]
      (request \<lparr>h_index = 0, h_fSize = 0, h_limit = None\<rparr> 2 (replicate 32 9)) = Some out"
    "Handshake \<lparr>h_index = 0, h_fSize = 0, h_limit = None\<rparr> 2 out = (Inr h', rest)"
    "read_file h' rest = Inr ([3], tail)" by auto
  then obtain n where "take n rest = [3]" by (auto simp: read_file_def split: option.splits)
  then have "take 1 rest = [3]" by (cases rest; cases n) auto
  with o show ?thesis by blast
qed

text \<open>A local part that is not the beginning of the file is refused: the server answers with error 5
  (or 4 for a part longer than the file) and the handshake fails.\<close>
theorem download_refuses_other_part:
  assumes "openFile fm opened (h_index h) = Some f" and "length f < 2 ^ 32" and "0 < off"
    and "length cs = 32" and "sha (take (unat off) f) \<noteq> cs"
  shows "\<exists>out. handleRequest sha fm opened (request h off cs) = Some out \<and>
    fst (Handshake h off out) = Inl (if length f < unat off then SizeLess else NotPart)"
proof -
  have lt: "(of_nat (length f) :: u32) < off \<longleftrightarrow> length f < unat off"
    using assms(2) by (simp add: word_less_nat_alt unat_of_nat)
  have "handleRequest sha fm opened (request h off cs) = Some (if length f < unat off then buildErr 4 else buildErr 5)"
    using handle_part [OF assms(1,4), of sha off "[]"] assms(3,5) lt by (simp add: request_def buildGet_def)
  then show ?thesis by (simp add: Handshake_def buildErr_def Let_def)
qed

theorem download_refuses_other_part_witness:
  "\<exists>out. handleRequest (\<lambda>x. replicate 32 (of_nat (length x))) demo_fm [''f'' \<mapsto> [1, 2, 3]]
      (request \<lparr>h_index = 0, h_fSize = 0, h_limit = None\<rparr> 2 (replicate 32 7)) = Some out \<and>
    fst (Handshake \<lparr>h_index = 0, h_fSize = 0, h_limit = None\<rparr> 2 out) = Inl NotPart"
proof -
  have "openFile demo_fm [''f'' \<mapsto> [1, 2, 3]] (h_index \<lparr>h_index = 0, h_fSize = 0, h_limit = None\<rparr>) = Some [1, 2, 3]"
    by (simp add: openFile_def demo_fm_def fm_new_def)
  from download_refuses_other_part [OF this, of 2 "replicate 32 7" "\<lambda>x. replicate 32 (of_nat (length x))"]
  show ?thesis by (simp add: replicate_eq_replicate)
qed

text \<open>A request whose info length is between 1 and 35 panics the server: the slices of the part size
  and the checksum are taken without a length check.\<close>
theorem short_info_panics:
  assumes "openFile fm opened index = Some f" and "0 < unat l" and "unat l < 36" and "unat l \<le> length body"
  shows "handleRequest sha fm opened ([0, l] @ put_u16be index @ body) = None"
proof -
  let ?info = "take (unat l) body"
  have len: "length ?info = unat l" "?info \<noteq> []" using assms(2,4) by auto
  have "lrange ?info 4 36 = None" using len(1) assms(3) by (simp add: lrange_def)
  then have "(do { sz \<leftarrow> lrange ?info 0 4; partSize \<leftarrow> get_u32be sz; partChecksum \<leftarrow> lrange ?info 4 36; f partSize partChecksum }) = None"
    for f :: "u32 \<Rightarrow> bytes \<Rightarrow> bytes option" by (auto simp: bind_eq_None_conv)
  then show ?thesis
    unfolding handle_request [OF assms(1,4)] Let_def if_not_P [OF len(2)] .
qed

theorem short_info_panics_witness:
  "handleRequest (\<lambda>x. x) demo_fm [''f'' \<mapsto> []] ([0, 1] @ put_u16be 0 @ [9]) = None"
  by (rule short_info_panics) (simp_all add: openFile_def demo_fm_def fm_new_def)

end
