(* ===== verification/Share.thy ===== *)
theory Share
  imports Fileshare Vpn_Node
begin

text \<open>
  Around the file transfer: share URLs (\<open>SharedURLs\<close> of \<open>fileshare/filemanager.go\<close> against \<open>Request\<close> of
  \<open>fileshare/downloader.go\<close>), the download command with its local file
  (\<open>cmd/pgcli/download/download.go\<close>), and the options of the packet connection
  (\<open>fileshare/common.go\<close>). \<open>url.Parse\<close> is an argument; the escaping of \<open>net/url\<close> is written out.
\<close>

section \<open>Escaping\<close>

definition unreserved :: "char \<Rightarrow> bool" where
  "unreserved c \<longleftrightarrow> (let n = of_char c :: nat in
     (97 \<le> n \<and> n \<le> 122) \<or> (65 \<le> n \<and> n \<le> 90) \<or> (48 \<le> n \<and> n \<le> 57) \<or> c \<in> set ''-_.~'')"

definition hex_char :: "nat \<Rightarrow> char" where
  "hex_char d = char_of (if d < 10 then 48 + d else 55 + d)"

definition unhex :: "char \<Rightarrow> nat option" where
  "unhex c = (let n = of_char c :: nat in
     if 48 \<le> n \<and> n \<le> 57 then Some (n - 48)
     else if 97 \<le> n \<and> n \<le> 102 then Some (n - 87)
     else if 65 \<le> n \<and> n \<le> 70 then Some (n - 55) else None)"

definition escape_char :: "char \<Rightarrow> string" where
  "escape_char c = (if c = CHR '' '' then ''+'' else if unreserved c then [c]
     else let n = of_char c :: nat in [CHR ''%'', hex_char (n div 16), hex_char (n mod 16)])"

definition QueryEscape :: "string \<Rightarrow> string" where
  "QueryEscape s = concat (map escape_char s)"

text \<open>\<open>url.unescape\<close>: of a query component, where a plus is a space, or of a path.\<close>
fun unescape :: "bool \<Rightarrow> string \<Rightarrow> string option" where
  "unescape q [] = Some []"
| "unescape q (c # s) =
     (if c = CHR ''%'' then
        (case s of
           a # b # r \<Rightarrow> do { x \<leftarrow> unhex a; y \<leftarrow> unhex b; t \<leftarrow> unescape q r; Some (char_of (16 * x + y) # t) }
         | _ \<Rightarrow> None)
      else map_option ((#) (if q \<and> c = CHR ''+'' then CHR '' '' else c)) (unescape q s))"

section \<open>Share URLs\<close>

text \<open>\<open>filepath.Base\<close> of a path that does not end in a slash.\<close>
definition filepath_Base :: "string \<Rightarrow> string" where
  "filepath_Base p = (case last_index p (CHR ''/'') of
     None \<Rightarrow> (if p = '''' then ''.'' else p) | Some i \<Rightarrow> drop (Suc i) p)"

definition share_url :: "string \<Rightarrow> nat \<Rightarrow> string \<Rightarrow> string" where
  "share_url peer k v = ''pg://'' @ peer @ ''/'' @ Itoa k @ ''/'' @ QueryEscape (filepath_Base v)"

text \<open>\<open>SharedURLs\<close>; \<open>order\<close> are the indices in the order of the map. \<^const>\<open>None\<close>: no file to share.\<close>
definition SharedURLs :: "string \<Rightarrow> nat list \<Rightarrow> FileManager \<Rightarrow> string list option" where
  "SharedURLs peer order m =
     (case List.map_filter (\<lambda>k. map_option (share_url peer k) (fm_files m k)) order of [] \<Rightarrow> None | us \<Rightarrow> Some us)"

definition path_Split :: "string \<Rightarrow> string \<times> string" where
  "path_Split p = (case last_index p (CHR ''/'') of None \<Rightarrow> ('''', p) | Some i \<Rightarrow> (take (Suc i) p, drop (Suc i) p))"

definition trim_slashes :: "string \<Rightarrow> string" where
  "trim_slashes s = rev (dropWhile (\<lambda>c. c = CHR ''/'') (rev (dropWhile (\<lambda>c. c = CHR ''/'') s)))"

text \<open>\<open>strconv.ParseInt(s, 10, 16)\<close>\<close>
definition ParseInt16 :: "string \<Rightarrow> int option" where
  "ParseInt16 s = (case s of
     [] \<Rightarrow> None
   | c # r \<Rightarrow>
       (let neg = (c = CHR ''-''); ds = (if neg \<or> c = CHR ''+'' then r else s) in
        if ds = [] then None
        else Option.bind (parse_uint 0 ds) (\<lambda>n. if n < 2 ^ 15 \<or> (neg \<and> n = 2 ^ 15) then Some (if neg then - int n else int n) else None)))"

text \<open>The target of \<open>Request\<close>: peer, index and file name.\<close>
definition request_target :: "(string \<Rightarrow> (string \<times> string) option) \<Rightarrow> string \<Rightarrow> (string \<times> u16 \<times> string) option" where
  "request_target parse shareURL = do {
     (host, path) \<leftarrow> parse shareURL;
     let (dir, filename) = path_Split path;
     index \<leftarrow> ParseInt16 (trim_slashes dir);
     let fn = (case unescape True filename of Some f \<Rightarrow> f | None \<Rightarrow> filename);
     Some (host, word_of_int index, fn) }"

text \<open>The documented behaviour of \<open>url.Parse\<close> that this relies on: a host of letters and digits, and a
  path of characters that need no escape, percent and plus signs and slashes, which it unescapes.\<close>
definition host_char :: "char \<Rightarrow> bool" where
  "host_char c \<longleftrightarrow> (let n = of_char c :: nat in (97 \<le> n \<and> n \<le> 122) \<or> (65 \<le> n \<and> n \<le> 90) \<or> (48 \<le> n \<and> n \<le> 57))"

definition path_char :: "char \<Rightarrow> bool" where
  "path_char c \<longleftrightarrow> unreserved c \<or> c \<in> set ''%+/''"

definition url_law :: "(string \<Rightarrow> (string \<times> string) option) \<Rightarrow> bool" where
  "url_law parse \<longleftrightarrow> (\<forall>h p. h \<noteq> [] \<longrightarrow> list_all host_char h \<longrightarrow> list_all path_char p \<longrightarrow>
     parse (''pg://'' @ h @ ''/'' @ p) = map_option (\<lambda>q. (h, CHR ''/'' # q)) (unescape False p))"

section \<open>The download command\<close>

text \<open>\<open>readFile\<close> of the local file (\<^const>\<open>None\<close>: there is none) against a server that answers a request: the
  file afterwards and the result.\<close>
definition readFile :: "(bytes \<Rightarrow> bytes) \<Rightarrow> (bytes \<Rightarrow> bytes) \<Rightarrow> FileHandle \<Rightarrow> bytes option \<Rightarrow> bytes \<times> (share_error + bytes)" where
  "readFile sha server fh local =
     (let part = (case local of None \<Rightarrow> [] | Some b \<Rightarrow> b); partSize = of_nat (length part) :: u32 in
      case Handshake fh partSize (server (request fh partSize (sha part))) of
        (Inl e, _) \<Rightarrow> (part, Inl e)
      | (Inr h, inp) \<Rightarrow>
          (case read_file h inp of
             Inl e \<Rightarrow> (part, Inl e)
           | Inr (r, rest) \<Rightarrow>
               (let f = part @ r in
                case Sha256 rest of
                  Inl e \<Rightarrow> (f, Inl e)
                | Inr checksum \<Rightarrow> (f, if checksum \<noteq> sha f then Inl ChecksumMismatch else Inr checksum))))"

section \<open>The packet connection\<close>

text \<open>\<open>PublicNetwork.ListenPacket\<close>: the network, which is also its secret, and the options.\<close>
definition public_network :: "string \<Rightarrow> string" where
  "public_network name = (if name = '''' then ''pubnet'' else name)"

definition secureOption :: "curve \<Rightarrow> ((PeerID \<Rightarrow> bytes option) \<Rightarrow> 'e SymmAlgo) \<Rightarrow> bytes option \<Rightarrow> bytes \<Rightarrow> 'e p2p_Option" where
  "secureOption cv algo generated key =
     (if 0 < length key then ListenPeerCurve25519 cv algo key else ListenPeerSecure cv algo generated)"

definition public_options :: "curve \<Rightarrow> ((PeerID \<Rightarrow> bytes option) \<Rightarrow> 'e SymmAlgo) \<Rightarrow> bytes option \<Rightarrow> bytes \<Rightarrow> int \<Rightarrow> 'e p2p_Option list" where
  "public_options cv algo generated key udpPort = [secureOption cv algo generated key, ListenUDPPort udpPort]"

section \<open>Lemmas\<close>

lemma hex_pair: "n < 256 \<Longrightarrow> unhex (hex_char (n div 16)) = Some (n div 16) \<and> unhex (hex_char (n mod 16)) = Some (n mod 16)"
  by (simp add: unhex_def hex_char_def Let_def)

definition plus_space :: "char \<Rightarrow> char" where
  "plus_space c = (if c = CHR '' '' then CHR ''+'' else c)"

lemma unescape_escape_char:
  "unescape q (escape_char c @ s) = map_option ((#) (if q \<and> c = CHR '' '' then CHR '' '' else plus_space c)) (unescape q s)"
proof (cases "c = CHR '' '' \<or> unreserved c")
  case True
  then have "c \<noteq> CHR ''%'' \<and> c \<noteq> CHR ''+''" by (auto simp: unreserved_def)
  with True show ?thesis by (auto simp: escape_char_def plus_space_def)
next
  case False
  let ?n = "of_char c :: nat"
  have "16 * (?n div 16) + ?n mod 16 = ?n" by simp
  with False hex_pair [OF nat_of_char_less_256 [of c]] show ?thesis
    by (cases "unescape q s") (simp_all add: escape_char_def plus_space_def Let_def)
qed

lemma unescape_QueryEscape: "unescape False (QueryEscape s) = Some (map plus_space s)" "unescape True (QueryEscape s) = Some s"
  by (induction s) (simp_all add: QueryEscape_def unescape_escape_char plus_space_def)

lemma unescape_plain: "CHR ''%'' \<notin> set s \<Longrightarrow> CHR ''+'' \<notin> set s \<Longrightarrow> unescape True (map plus_space s) = Some s"
  by (induction s) (auto simp: plus_space_def)

lemma unreserved_hex: "d < 16 \<Longrightarrow> unreserved (hex_char d)"
  by (simp add: unreserved_def hex_char_def Let_def)

lemma unreserved_not: "unreserved c \<Longrightarrow> c \<noteq> CHR ''/'' \<and> c \<noteq> CHR '' ''"
  by (auto simp: unreserved_def)

lemma escape_char_chars:
  assumes "x \<in> set (escape_char c)"
  shows "path_char x \<and> x \<noteq> CHR ''/'' \<and> x \<noteq> CHR '' ''"
proof -
  have "(of_char c :: nat) div 16 < 16" using nat_of_char_less_256 [of c] by (simp add: less_mult_imp_div_less)
  then have "unreserved (hex_char (of_char c div 16))" "unreserved (hex_char (of_char c mod 16))" by (simp_all add: unreserved_hex)
  with assms have "unreserved x \<or> x = CHR ''%'' \<or> x = CHR ''+''"
    by (auto simp: escape_char_def Let_def split: if_splits)
  with unreserved_not show ?thesis by (auto simp: path_char_def)
qed

lemma QueryEscape_chars: "x \<in> set (QueryEscape s) \<Longrightarrow> path_char x \<and> x \<noteq> CHR ''/'' \<and> x \<noteq> CHR '' ''"
  using escape_char_chars by (fastforce simp: QueryEscape_def)

lemma Itoa_path: "x \<in> set (Itoa k) \<Longrightarrow> path_char x \<and> x \<noteq> CHR ''/'' \<and> x \<noteq> CHR ''%'' \<and> x \<noteq> CHR ''+'' \<and> x \<noteq> CHR ''-''"
  using Itoa_digits [of x k] by (auto simp: digit_def path_char_def unreserved_def Let_def split: if_splits)

lemma unescape_append_plain: "CHR ''%'' \<notin> set s \<Longrightarrow> unescape False (s @ t) = map_option ((@) s) (unescape False t)"
  by (induction s) (cases \<open>unescape False t\<close>, auto)+

lemma ParseInt16_Itoa: "k < 2 ^ 15 \<Longrightarrow> ParseInt16 (Itoa k) = Some (int k)"
proof -
  assume k: "k < 2 ^ 15"
  obtain c r where c: "Itoa k = c # r" by (cases "Itoa k") auto
  with Itoa_path [of c k] have "c \<noteq> CHR ''-''" "c \<noteq> CHR ''+''" by auto
  then have "ParseInt16 (Itoa k) = Option.bind (parse_uint 0 (Itoa k)) (\<lambda>n. if n < 2 ^ 15 then Some (int n) else None)"
    unfolding ParseInt16_def c by (simp add: Let_def cong: if_cong)
  then show "ParseInt16 (Itoa k) = Some (int k)" using k by simp
qed

lemma trim_slashes_id: "CHR ''/'' \<notin> set s \<Longrightarrow> s \<noteq> [] \<Longrightarrow> trim_slashes (CHR ''/'' # s @ ''/'') = s"
proof -
  assume s: "CHR ''/'' \<notin> set s" "s \<noteq> []"
  have d: "dropWhile (\<lambda>c. c = CHR ''/'') (xs @ ys) = xs @ ys" if "CHR ''/'' \<notin> set xs" "xs \<noteq> []" for xs ys
    using that by (cases xs) auto
  have "dropWhile (\<lambda>c. c = CHR ''/'') (CHR ''/'' # s @ ''/'') = s @ ''/''" using d [OF s] by simp
  moreover have "dropWhile (\<lambda>c. c = CHR ''/'') (rev (s @ ''/'')) = rev s" using d [of "rev s" "[]"] s by simp
  ultimately show "trim_slashes (CHR ''/'' # s @ ''/'') = s" by (simp add: trim_slashes_def)
qed

text \<open>The target of an address whose last element is \<open>e\<close> once the path is unescaped.\<close>
lemma request_target_of:
  assumes "url_law parse" and "h \<noteq> []" and "list_all host_char h" and "k < 2 ^ 15"
    and "list_all path_char p" and "unescape False p = Some e" and "CHR ''/'' \<notin> set e"
  shows "request_target parse (''pg://'' @ h @ ''/'' @ Itoa k @ ''/'' @ p) =
    Some (h, of_nat k, case unescape True e of Some f \<Rightarrow> f | None \<Rightarrow> e)"
proof -
  let ?q = "Itoa k @ ''/'' @ p"
  have pc: "list_all path_char ?q" using Itoa_path [of _ k] assms(5) by (auto simp: list_all_iff path_char_def)
  have "CHR ''%'' \<notin> set (Itoa k)" "CHR ''/'' \<notin> set (Itoa k)" using Itoa_path [of _ k] by blast+
  note i = this
  have "CHR ''%'' \<notin> set (Itoa k @ ''/'')" using i by simp
  from unescape_append_plain [OF this, of p] assms(6) have u: "unescape False ?q = Some (Itoa k @ ''/'' @ e)" by simp
  have parse: "parse (''pg://'' @ h @ ''/'' @ ?q) = Some (h, CHR ''/'' # Itoa k @ ''/'' @ e)"
    using assms(1-3) pc u unfolding url_law_def by auto
  have "last_index ((CHR ''/'' # Itoa k) @ CHR ''/'' # e) (CHR ''/'') = Some (length (CHR ''/'' # Itoa k))"
    by (rule last_index_append [OF assms(7)])
  then have "path_Split (CHR ''/'' # Itoa k @ ''/'' @ e) = (CHR ''/'' # Itoa k @ ''/'', e)" by (simp add: path_Split_def)
  moreover have "trim_slashes (CHR ''/'' # Itoa k @ ''/'') = Itoa k" by (rule trim_slashes_id [OF i(2)]) simp
  ultimately show ?thesis using ParseInt16_Itoa [OF assms(4)] parse by (simp add: request_target_def)
qed

text \<open>The answer of a server to the request for the file from an offset.\<close>
lemma answer_take:
  assumes "openFile fm opened (h_index fh) = Some f" and "length f < 2 ^ 32" and "\<And>x. length (sha x) = 32" and "part = take (length part) f"
  shows "handleRequest sha fm opened (request fh (of_nat (length part)) (sha part)) =
     Some (buildOK (length f) (part \<noteq> []) @ drop (length part) f @ sha f) \<and> length part \<le> length f"
proof -
  have l: "length part \<le> length f" using assms(4) by (metis length_take min.cobounded1)
  from handle_get [OF assms(1,2) l, of sha "[]"] assms(3,4) l show ?thesis by (simp add: request_def)
qed

lemma Handshake_short: "length (take m out) < 5 \<Longrightarrow> Handshake fh off (take m out) = (Inl ReadHeaderErr, [])"
  by (simp add: Handshake_def)

lemma take_drop_cut:
  assumes "length a = k"
  shows "take k (take n (a @ c)) = take n a" and "drop k (take n (a @ c)) = take (n - k) c"
proof -
  have "take n (a @ c) = take n a @ take (n - k) c" using assms by simp
  moreover have "n < k \<Longrightarrow> take (n - k) c = []" by simp
  ultimately show "take k (take n (a @ c)) = take n a" "drop k (take n (a @ c)) = take (n - k) c"
    using assms by (cases "n < k", simp_all)+
qed

text \<open>The command on an answer that is cut off after \<open>m\<close> bytes.\<close>
lemma readFile_cut:
  assumes "openFile fm opened (h_index fh) = Some f" and "length f < 2 ^ 32" and "\<And>x. length (sha x) = 32" and "part = take (length part) f"
    and "local = Some part \<or> local = None \<and> part = []"
  shows "readFile sha (\<lambda>req. take m (the (handleRequest sha fm opened req))) fh local =
    (part @ take (m - 5) (drop (length part) f),
     if m < 5 then Inl ReadHeaderErr else if m < 5 + (length f - length part) + 32 then Inl ReadChecksum else Inr (sha f))"
proof -
  note ans = answer_take [where fh = fh and sha = sha, OF assms(1-4)]
  let ?off = "of_nat (length part) :: u32" and ?out = "buildOK (length f) (part \<noteq> []) @ drop (length part) f @ sha f"
  have p: "(case local of None \<Rightarrow> [] | Some b \<Rightarrow> b) = part" using assms(5) by auto
  have bo: "length (buildOK (length f) (part \<noteq> [])) = 5" by (simp add: buildOK_def)
  show ?thesis
  proof (cases "m < 5")
    case True
    then have "length (take m ?out) < 5" by simp
    then have "Handshake fh ?off (take m ?out) = (Inl ReadHeaderErr, [])" by (rule Handshake_short)
    with True ans show ?thesis by (simp add: readFile_def p Let_def del: take_append)
  next
    case False
    have u: "unat (of_nat (length f) - ?off) = length f - length part"
      using assms(2) ans by (simp add: unat_sub_if' unat_of_nat)
    let ?h = "fh\<lparr>h_fSize := of_nat (length f), h_limit := Some (of_nat (length f) - ?off)\<rparr>"
    let ?rest = "take (m - 5) (drop (length part) f @ sha f)"
    have t: "take m ?out = buildOK (length f) (part \<noteq> []) @ ?rest" using False bo by simp
    have "0 < ?off \<Longrightarrow> part \<noteq> []" by auto
    then have hs: "Handshake fh ?off (take m ?out) = (Inr ?h, ?rest)"
      unfolding t by (auto simp: Handshake_def buildOK_def Let_def)
    have rf: "read_file ?h ?rest = Inr (take (m - 5) (drop (length part) f), take (m - 5 - (length f - length part)) (sha f))"
      using u take_drop_cut [where k = "length f - length part" and a = "drop (length part) f" and n = "m - 5" and c = "sha f"]
      by (simp add: read_file_def del: take_append)
    show ?thesis
    proof (cases "m < 5 + (length f - length part) + 32")
      case True
      then have "Sha256 (take (m - 5 - (length f - length part)) (sha f)) = Inl ReadChecksum"
        using assms(3) by (simp add: Sha256_def)
      with True False ans hs rf show ?thesis by (simp add: readFile_def p Let_def)
    next
      case full: False
      then have "Sha256 (take (m - 5 - (length f - length part)) (sha f)) = Inr (sha f)"
        using assms(3) by (simp add: Sha256_def)
      moreover have "take (m - 5) (drop (length part) f) = drop (length part) f" using full by simp
      moreover have "part @ drop (length part) f = f" using assms(4) append_take_drop_id by metis
      ultimately show ?thesis using full False ans hs rf by (simp add: readFile_def p Let_def)
    qed
  qed
qed

text \<open>Downloads one after the other, each cut off after some number of bytes.\<close>
fun readFiles :: "(bytes \<Rightarrow> bytes) \<Rightarrow> FileManager \<Rightarrow> (string \<rightharpoonup> bytes) \<Rightarrow> FileHandle \<Rightarrow> nat list \<Rightarrow> bytes option \<Rightarrow> bytes option" where
  "readFiles sha fm opened fh [] local = local"
| "readFiles sha fm opened fh (m # ms) local =
     readFiles sha fm opened fh ms (Some (fst (readFile sha (\<lambda>req. take m (the (handleRequest sha fm opened req))) fh local)))"

definition local_part :: "bytes option \<Rightarrow> bytes" where
  "local_part local = (case local of None \<Rightarrow> [] | Some b \<Rightarrow> b)"

lemma local_part_cases: "local = Some (local_part local) \<or> local = None \<and> local_part local = []"
  by (cases local) (simp_all add: local_part_def)

lemma prefix_extends: "part = take (length part) f \<Longrightarrow> part @ take n (drop (length part) f) = take (length part + n) f"
  by (metis take_add)

lemma take_length_take: "b = take n f \<Longrightarrow> b = take (length b) f"
  by (cases "n \<le> length f") simp_all

lemma readFiles_prefix:
  assumes "openFile fm opened (h_index fh) = Some f" and "length f < 2 ^ 32" and "\<And>x. length (sha x) = 32"
    and "local_part local = take (length (local_part local)) f"
  shows "local_part (readFiles sha fm opened fh ms local) = take (length (local_part (readFiles sha fm opened fh ms local))) f"
  using assms(4)
proof (induction ms arbitrary: local)
  case (Cons m ms)
  note cut = readFile_cut [where sha = sha and fh = fh and local = local and m = m, OF assms(1-3) Cons.prems local_part_cases]
  let ?local = "Some (fst (readFile sha (\<lambda>req. take m (the (handleRequest sha fm opened req))) fh local))"
  have "local_part ?local = take (length (local_part local) + (m - 5)) f"
    unfolding cut using prefix_extends [OF Cons.prems] by (simp add: local_part_def)
  from Cons.IH [OF take_length_take [OF this]] show ?case by simp
qed simp

section \<open>Properties\<close>

text \<open>C19. Downloads can be interrupted and resumed: from a local file that is missing or the beginning of the
  shared file, after any number of attempts that each broke off at any byte, the local file is still the
  beginning of the shared file, an attempt that is not cut off completes it with the right checksum,
  and no attempt succeeds with anything else than the whole file.\<close>
theorem download_resumes:
  assumes "openFile fm opened (h_index fh) = Some f" and "length f < 2 ^ 32" and "\<And>x. length (sha x) = 32"
    and "local_part local = take (length (local_part local)) f"
    and "local' = readFiles sha fm opened fh ms local"
  shows "local_part local' = take (length (local_part local')) f \<and>
    readFile sha (\<lambda>req. the (handleRequest sha fm opened req)) fh local' = (f, Inr (sha f)) \<and>
    (\<forall>m f' cs. readFile sha (\<lambda>req. take m (the (handleRequest sha fm opened req))) fh local' = (f', Inr cs) \<longrightarrow> f' = f \<and> cs = sha f)"
proof (intro conjI allI impI)
  show p: "local_part local' = take (length (local_part local')) f"
    unfolding assms(5) by (rule readFiles_prefix [OF assms(1-4)])
  note cut = readFile_cut [where sha = sha and fh = fh and local = local', OF assms(1-3) p local_part_cases]
  have whole: "local_part local' @ take n (drop (length (local_part local')) f) = f" if "length f \<le> length (local_part local') + n" for n
    using prefix_extends [OF p, of n] that by simp
  let ?out = "the (handleRequest sha fm opened (request fh (of_nat (length (local_part local'))) (sha (local_part local'))))"
  have "readFile sha (\<lambda>req. the (handleRequest sha fm opened req)) fh local' =
      readFile sha (\<lambda>req. take (length ?out + 37 + length f) (the (handleRequest sha fm opened req))) fh local'"
    by (simp add: readFile_def Let_def local_part_def)
  also have "\<dots> = (f, Inr (sha f))"
  proof -
    let ?m = "length ?out + 37 + length f"
    have "\<not> ?m < 5" "\<not> ?m < 5 + (length f - length (local_part local')) + 32" by linarith+
    moreover have "local_part local' @ take (?m - 5) (drop (length (local_part local')) f) = f" by (rule whole) simp
    ultimately show ?thesis unfolding cut by simp
  qed
  finally show "readFile sha (\<lambda>req. the (handleRequest sha fm opened req)) fh local' = (f, Inr (sha f))" .
  fix m f' cs assume "readFile sha (\<lambda>req. take m (the (handleRequest sha fm opened req))) fh local' = (f', Inr cs)"
  then have "f' = local_part local' @ take (m - 5) (drop (length (local_part local')) f)" "cs = sha f" "\<not> m < 5 + (length f - length (local_part local')) + 32"
    unfolding cut by (auto split: if_splits)
  then show "f' = f" "cs = sha f" using whole [of "m - 5"] by simp_all
qed

theorem download_resumes_witness:
  "local_part (readFiles (\<lambda>_. replicate 32 9) demo_fm [''f'' \<mapsto> [1, 2, 3]] \<lparr>h_index = 0, h_fSize = 0, h_limit = None\<rparr> [2, 6] None) = [1] \<and>
   readFile (\<lambda>_. replicate 32 9) (\<lambda>req. the (handleRequest (\<lambda>_. replicate 32 9) demo_fm [''f'' \<mapsto> [1, 2, 3]] req)) \<lparr>h_index = 0, h_fSize = 0, h_limit = None\<rparr>
     (readFiles (\<lambda>_. replicate 32 9) demo_fm [''f'' \<mapsto> [1, 2, 3]] \<lparr>h_index = 0, h_fSize = 0, h_limit = None\<rparr> [2, 6] None) = ([1, 2, 3], Inr (replicate 32 9))"
proof -
  let ?fh = "\<lparr>h_index = 0, h_fSize = 0, h_limit = None\<rparr>" and ?sha = "\<lambda>_ :: bytes. replicate 32 (9 :: u8)" and ?op = "[''f'' \<mapsto> [1, 2, 3 :: u8]]"
  have o: "openFile demo_fm ?op (h_index ?fh) = Some [1, 2, 3]" by (simp add: openFile_def demo_fm_def fm_new_def)
  have n: "local_part None = take (length (local_part None)) [1, 2, 3 :: u8]" by (simp add: local_part_def)
  have s: "length (?sha x) = 32" for x by simp
  have l: "length [1, 2, 3 :: u8] < 2 ^ 32" by simp
  have "[] = take (length ([] :: bytes)) [1, 2, 3 :: u8]" "[1] = take (length [1 :: u8]) [1, 2, 3 :: u8]" by simp_all
  note c = readFile_cut [where sha = ?sha and fh = ?fh, OF o l s this(1)]
  have "local_part (readFiles ?sha demo_fm ?op ?fh [2, 6] None) = [1]"
    using c [of None 2] c [of "Some []" 6] by (simp add: local_part_def)
  with download_resumes [where sha = ?sha and fh = ?fh and local = None and ms = "[2, 6]", OF o l s n refl] show ?thesis by blast
qed

text \<open>Share URLs: the address that the sharing side prints for a file leads the downloading side to the same
  peer and index, and to the same file name when it has no plus and no percent sign. But whatever name
  someone puts into an address, slashes and dots included, is the name of the local file that the
  download command opens for writing.\<close>
theorem share_url_target:
  assumes "url_law parse" and "peer \<noteq> []" and "list_all host_char peer" and "k < 2 ^ 15"
  shows "(CHR ''%'' \<notin> set (filepath_Base v) \<and> CHR ''+'' \<notin> set (filepath_Base v) \<and> CHR ''/'' \<notin> set (filepath_Base v) \<longrightarrow>
      request_target parse (share_url peer k v) = Some (peer, of_nat k, filepath_Base v)) \<and>
    request_target parse (''pg://'' @ peer @ ''/'' @ Itoa k @ ''/'' @ QueryEscape (QueryEscape evil)) = Some (peer, of_nat k, evil)"
proof (intro conjI impI)
  assume b: "CHR ''%'' \<notin> set (filepath_Base v) \<and> CHR ''+'' \<notin> set (filepath_Base v) \<and> CHR ''/'' \<notin> set (filepath_Base v)"
  have pc: "list_all path_char (QueryEscape s)" for s using QueryEscape_chars [of _ s] by (auto simp: list_all_iff)
  have "CHR ''/'' \<notin> set (map plus_space (filepath_Base v))" using b by (auto simp: plus_space_def split: if_splits)
  from request_target_of [OF assms pc unescape_QueryEscape(1) this] unescape_plain [of "filepath_Base v"] b
  show "request_target parse (share_url peer k v) = Some (peer, of_nat k, filepath_Base v)" by (simp add: share_url_def)
next
  let ?e = "QueryEscape evil"
  have pc: "list_all path_char (QueryEscape ?e)" using QueryEscape_chars [of _ ?e] by (auto simp: list_all_iff)
  have e: "map plus_space ?e = ?e" using QueryEscape_chars [of _ evil] by (auto simp: plus_space_def intro!: map_idI)
  have "CHR ''/'' \<notin> set (map plus_space ?e)" unfolding e using QueryEscape_chars [of _ evil] by blast
  from request_target_of [OF assms pc unescape_QueryEscape(1) this]
  show "request_target parse (''pg://'' @ peer @ ''/'' @ Itoa k @ ''/'' @ QueryEscape ?e) = Some (peer, of_nat k, evil)"
    unfolding e unescape_QueryEscape(2) by simp
qed

text \<open>A parser that keeps the law.\<close>
definition toy_parse :: "string \<Rightarrow> (string \<times> string) option" where
  "toy_parse s = (let r = drop 5 s in
     map_option (Pair (takeWhile (\<lambda>c. c \<noteq> CHR ''/'') r)) (unescape False (dropWhile (\<lambda>c. c \<noteq> CHR ''/'') r)))"

lemma toy_parse_law: "url_law toy_parse"
proof (unfold url_law_def, intro allI impI)
  fix h p assume "list_all host_char h"
  moreover have "\<not> host_char (CHR ''/'')" by (simp add: host_char_def)
  ultimately have n: "\<forall>c \<in> set h. c \<noteq> CHR ''/''" by (auto simp: list_all_iff)
  then have "takeWhile (\<lambda>c. c \<noteq> CHR ''/'') (h @ CHR ''/'' # p) = h" "dropWhile (\<lambda>c. c \<noteq> CHR ''/'') (h @ CHR ''/'' # p) = CHR ''/'' # p"
    by (simp_all add: takeWhile_append2 dropWhile_append2)
  then show "toy_parse (''pg://'' @ h @ ''/'' @ p) = map_option (\<lambda>q. (h, CHR ''/'' # q)) (unescape False p)"
    by (simp add: toy_parse_def option.map_comp comp_def)
qed

theorem share_url_target_witness:
  "request_target toy_parse (share_url ''peer1'' 3 ''/home/u/my file.txt'') = Some (''peer1'', 3, ''my file.txt'') \<and>
   request_target toy_parse (''pg://'' @ ''peer1'' @ ''/'' @ Itoa 3 @ ''/'' @ QueryEscape (QueryEscape ''../.bashrc'')) = Some (''peer1'', 3, ''../.bashrc'')"
proof -
  have a: "''peer1'' \<noteq> []" "list_all host_char ''peer1''" "(3::nat) < 2 ^ 15" by (simp_all add: host_char_def)
  have b: "filepath_Base ''/home/u/my file.txt'' = ''my file.txt''" by (simp add: filepath_Base_def)
  show ?thesis
    using share_url_target [OF toy_parse_law a, of "''/home/u/my file.txt''" "''../.bashrc''"] unfolding b by simp
qed

text \<open>Sharing is encrypted: when the options of the public network are accepted, a cipher is set, with the
  key pair of the node's id.\<close>
theorem public_network_encrypts:
  assumes "apply_options (public_options cv algo generated key udpPort) (default_config rid) = Some c"
  shows "\<exists>priv. po_SymmAlgo c = Some (algo (shared_key cv priv)) \<and> pr_ID (po_PeerInfo c) = b58_Encode cv (cv_pub cv priv)"
proof -
  obtain c1 where c1: "secureOption cv algo generated key (default_config rid) = Some c1" "ListenUDPPort udpPort c1 = Some c"
    using assms by (auto simp: public_options_def split: option.splits)
  from c1(1) have "\<exists>priv. po_SymmAlgo c1 = Some (algo (shared_key cv priv)) \<and> pr_ID (po_PeerInfo c1) = b58_Encode cv (cv_pub cv priv)"
    by (auto simp: secureOption_def ListenPeerCurve25519_def ListenPeerSecure_def default_config_def split: if_splits option.splits)
  then show ?thesis using c1(2) by (auto simp: ListenUDPPort_def split: if_splits)
qed

theorem public_network_encrypts_witness:
  "\<exists>c. apply_options (public_options (le_curve demo_listen) (\<lambda>_. flip_alg) None [1, 2] 28878) (default_config [9]) = Some c \<and>
     po_SymmAlgo c = Some flip_alg"
proof -
  obtain c where c: "apply_options (public_options (le_curve demo_listen) (\<lambda>_. flip_alg) None [1, 2] 28878) (default_config [9]) = Some c"
    by (simp add: public_options_def secureOption_def ListenPeerCurve25519_def ListenUDPPort_def demo_listen_def default_config_def)
  from public_network_encrypts [OF c] c show ?thesis by blast
qed

end
