(* ===== verification/Commands.thy ===== *)
theory Commands
  imports Flags Api Admin_Token Ipc Share
begin

text \<open>
  The administration tool (\<open>cmd/pgcli/admin\<close>), the start of the map server (\<open>cmd/pgmap/main.go\<close>), and the
  queries of a running VPN (\<open>cmd/pgcli/vpn/ipc/client\<close>, \<open>ipc/sdk\<close>). The environment of the process, the
  connection to the server and the clock are arguments; printing is the result.
\<close>

section \<open>The key and the server\<close>

datatype admin_error = KeyRequired | ServerRequired | BadServer | ClientFailed client_error | MetaNotFound | BadDuration

text \<open>The end of a command: the process exits in the flag parser or panics, or the command fails, or it prints a
  value and then perhaps fails.\<close>
datatype 'a cmd_outcome = Exits | Panics | Fails admin_error | Prints 'a "admin_error option"

text \<open>The variables of the two flags: both set the key.\<close>
record key_args =
  ka_secretKey :: string
  ka_server :: string

definition key_flags :: "string \<Rightarrow> key_args flag option" where
  "key_flags = map_of [(''secret-key'', string_flag (\<lambda>v a. a\<lparr>ka_secretKey := v\<rparr>)), (''s'', string_flag (\<lambda>v a. a\<lparr>ka_secretKey := v\<rparr>))]"

definition or_else :: "string \<Rightarrow> string \<Rightarrow> string" where
  "or_else a b = (if a \<noteq> '''' then a else b)"

text \<open>After the flags are parsed; \<open>env\<close> is \<open>os.Getenv\<close>.\<close>
definition parseSecretKeyAndServer :: "(string \<Rightarrow> string) \<Rightarrow> key_args \<Rightarrow> admin_error + (string \<times> string)" where
  "parseSecretKeyAndServer env a =
     (let secretKey = or_else (ka_secretKey a) (env ''PG_SECRET_KEY''); server = or_else (ka_server a) (env ''PG_SERVER'') in
      if secretKey = '''' then Inl KeyRequired else if server = '''' then Inl ServerRequired else Inr (secretKey, server))"

text \<open>A client of a server with a key: the path of the server's URL, and its answers to requests.\<close>
record admin_conn =
  ac_base :: string
  ac_get :: "string \<Rightarrow> (nat \<times> bytes) option"
  ac_put :: "string \<Rightarrow> bytes \<Rightarrow> nat option"

text \<open>The surroundings of a command: \<open>connect\<close> is \<open>NewClient\<close>, and the codecs of the bodies.\<close>
record admin_env =
  ad_env :: "string \<Rightarrow> string"
  ad_connect :: "string \<Rightarrow> string \<Rightarrow> admin_conn option"
  ad_meta :: "bytes \<Rightarrow> string \<times> string list"
  ad_meta_json :: "string \<times> string list \<Rightarrow> bytes"
  ad_heads :: "bytes \<Rightarrow> NetworkHead list"
  ad_peers :: "bytes \<Rightarrow> (string \<times> string \<times> bytes list) list"

definition with_client :: "admin_env \<Rightarrow> key_args \<Rightarrow> (admin_conn \<Rightarrow> 'a cmd_outcome) \<Rightarrow> 'a cmd_outcome" where
  "with_client e a f =
     (case parseSecretKeyAndServer (ad_env e) a of
        Inl err \<Rightarrow> Fails err
      | Inr (key, server) \<Rightarrow> (case ad_connect e server key of None \<Rightarrow> Fails BadServer | Some c \<Rightarrow> f c))"

definition print_result :: "client_error + 'a \<Rightarrow> 'a cmd_outcome" where
  "print_result r = (case r of Inl err \<Rightarrow> Fails (ClientFailed err) | Inr x \<Rightarrow> Prints x None)"

text \<open>\<open>FlagSet.Arg\<close>\<close>
definition arg :: "string list \<Rightarrow> nat \<Rightarrow> string" where
  "arg args k = (if k < length args then args ! k else '''')"

definition no_key_args :: key_args where "no_key_args = \<lparr>ka_secretKey = '''', ka_server = ''''\<rparr>"

section \<open>The commands of the administration\<close>

definition listNetworks :: "admin_env \<Rightarrow> string list \<Rightarrow> NetworkHead list cmd_outcome" where
  "listNetworks e args =
     (case flag_Parse key_flags args no_key_args of
        None \<Rightarrow> Exits
      | Some (a, _) \<Rightarrow> with_client e a (\<lambda>c. print_result (Client_Networks (ac_get c) (ad_heads e) (ac_base c))))"

definition listPeers :: "admin_env \<Rightarrow> string list \<Rightarrow> (string \<times> string \<times> bytes list) list cmd_outcome" where
  "listPeers e args =
     (case flag_Parse key_flags args no_key_args of
        None \<Rightarrow> Exits
      | Some (a, _) \<Rightarrow> with_client e a (\<lambda>c. print_result (Client_Peers (ac_get c) (ad_peers e) (ac_base c))))"

definition getMeta :: "admin_env \<Rightarrow> string list \<Rightarrow> (string \<times> string list) cmd_outcome" where
  "getMeta e args =
     (case flag_Parse key_flags args no_key_args of
        None \<Rightarrow> Exits
      | Some (a, rest) \<Rightarrow> with_client e a (\<lambda>c. print_result (Client_NetworkMeta (ac_get c) (ad_meta e) (ac_base c) (arg rest 0))))"

record meta_args = key_args +
  ma_key :: string
  ma_value :: string

definition meta_flags :: "string \<Rightarrow> meta_args flag option" where
  "meta_flags = map_of [(''key'', string_flag (\<lambda>v a. a\<lparr>ma_key := v\<rparr>)), (''value'', string_flag (\<lambda>v a. a\<lparr>ma_value := v\<rparr>)),
     (''secret-key'', string_flag (\<lambda>v a. a\<lparr>ka_secretKey := v\<rparr>)), (''s'', string_flag (\<lambda>v a. a\<lparr>ka_secretKey := v\<rparr>))]"

text \<open>A field of \<open>NetworkMeta\<close> set by reflection: \<open>SetString\<close> panics for the field that is no string.\<close>
definition set_field :: "string \<Rightarrow> string \<Rightarrow> string \<times> string list \<Rightarrow> (string \<times> string list) cmd_outcome" where
  "set_field key v m =
     (if key = ''Alias'' then Prints (v, snd m) None else if key = ''Neighbors'' then Panics else Fails MetaNotFound)"

definition setMeta :: "admin_env \<Rightarrow> string list \<Rightarrow> (string \<times> string list) cmd_outcome" where
  "setMeta e args =
     (case flag_Parse meta_flags args \<lparr>ka_secretKey = '''', ka_server = '''', ma_key = '''', ma_value = ''''\<rparr> of
        None \<Rightarrow> Exits
      | Some (a, rest) \<Rightarrow>
          with_client e (key_args.truncate a) (\<lambda>c.
            case Client_NetworkMeta (ac_get c) (ad_meta e) (ac_base c) (arg rest 0) of
              Inl err \<Rightarrow> Fails (ClientFailed err)
            | Inr m \<Rightarrow>
                (case set_field (ma_key a) (ma_value a) m of
                   Prints m1 _ \<Rightarrow>
                     Prints m1 (case Client_PutNetworkMeta (ac_put c) (ad_meta_json e) (ac_base c) (arg rest 0) m1 of
                                  Inl err \<Rightarrow> Some (ClientFailed err) | Inr _ \<Rightarrow> None)
                 | out \<Rightarrow> out)))"

record secret_args =
  sa_alias :: string
  sa_duration :: string
  sa_network :: string
  sa_secretKey :: string
  sa_admin :: bool

definition secret_flags :: "string \<Rightarrow> secret_args flag option" where
  "secret_flags = map_of [(''alias'', string_flag (\<lambda>v a. a\<lparr>sa_alias := v\<rparr>)), (''duration'', string_flag (\<lambda>v a. a\<lparr>sa_duration := v\<rparr>)),
     (''network'', string_flag (\<lambda>v a. a\<lparr>sa_network := v\<rparr>)), (''secret-key'', string_flag (\<lambda>v a. a\<lparr>sa_secretKey := v\<rparr>)),
     (''admin'', bool_flag (\<lambda>x a. a\<lparr>sa_admin := x\<rparr>))]"

definition default_secret :: secret_args where
  "default_secret = \<lparr>sa_alias = '''', sa_duration = ''24h'', sa_network = ''default'', sa_secretKey = '''', sa_admin = False\<rparr>"

text \<open>\<open>auth\<close> gives the ciphers of a key, \<open>duration\<close> is \<open>time.ParseDuration\<close>, \<open>rnd\<close> the nonce and \<open>now\<close> the clock.\<close>
definition admin_secret :: "(string \<Rightarrow> string) \<Rightarrow> (string \<Rightarrow> auth_env) \<Rightarrow> (string \<Rightarrow> int option) \<Rightarrow> bytes \<Rightarrow> int \<Rightarrow> string list \<Rightarrow> NetworkSecret cmd_outcome" where
  "admin_secret env auth duration rnd now args =
     (case flag_Parse secret_flags args default_secret of
        None \<Rightarrow> Exits
      | Some (a, _) \<Rightarrow>
          (case duration (sa_duration a) of
             None \<Rightarrow> Fails BadDuration
           | Some valid \<Rightarrow>
               (let key = or_else (sa_secretKey a) (env ''PG_SECRET_KEY'') in
                if key = '''' then Fails KeyRequired
                else Prints \<lparr>ns_Secret = GenerateSecretAdmin (auth key) rnd now (sa_admin a) \<lparr>net_ID = sa_network a, net_Alias = sa_alias a, net_Neighbors = []\<rparr> valid,
                             ns_Network = sa_network a, ns_Expire = now + (valid - 10 * nano)\<rparr> None)))"

text \<open>The command that \<open>Run\<close> chooses; its own flag set has no flags.\<close>
datatype admin_call = AExit | AUsage | AGetMeta "string list" | ASetMeta "string list" | ANetworks "string list" | APeers "string list" | ASecret "string list"

definition admin_Run :: "string list \<Rightarrow> admin_call" where
  "admin_Run args =
     (case flag_Parse (\<lambda>_. None) args () of
        None \<Rightarrow> AExit
      | Some (_, []) \<Rightarrow> AUsage
      | Some (_, cmd # rest) \<Rightarrow>
          if cmd = ''get-meta'' then AGetMeta rest else if cmd = ''set-meta'' then ASetMeta rest else if cmd = ''networks'' then ANetworks rest
          else if cmd = ''peers'' then APeers rest else if cmd = ''secret'' then ASecret rest else AUsage)"

section \<open>The map server\<close>

text \<open>The flags of the server: the configuration of the command line, the path of its file and the log level.\<close>
record map_args =
  mp_config :: string
  mp_loglevel :: int
  mp_cfg :: PmConfig

definition no_config :: PmConfig where
  "no_config = \<lparr>cf_Listen = '''', cf_SecretKey = '''', cf_STUNs = [], cf_PublicNetwork = '''', cf_RateLimiter = None, cf_RotationPeriod = 0, cf_ValidityPeriod = 0\<rparr>"

definition map_flags :: "num_env \<Rightarrow> string \<Rightarrow> map_args flag option" where
  "map_flags nu =
     (let path = string_flag (\<lambda>v a. a\<lparr>mp_config := v\<rparr>); listen = string_flag (\<lambda>v a. a\<lparr>mp_cfg := (mp_cfg a)\<lparr>cf_Listen := v\<rparr>\<rparr>) in map_of [
     (''config'', path), (''c'', path), (''loglevel'', parsed_flag (nu_int nu) (\<lambda>x a. a\<lparr>mp_loglevel := x\<rparr>)),
     (''stun'', string_flag (\<lambda>v a. a\<lparr>mp_cfg := (mp_cfg a)\<lparr>cf_STUNs := cf_STUNs (mp_cfg a) @ [v]\<rparr>\<rparr>)),
     (''listen'', listen), (''l'', listen),
     (''secret-key'', string_flag (\<lambda>v a. a\<lparr>mp_cfg := (mp_cfg a)\<lparr>cf_SecretKey := v\<rparr>\<rparr>)),
     (''pubnet'', string_flag (\<lambda>v a. a\<lparr>mp_cfg := (mp_cfg a)\<lparr>cf_PublicNetwork := v\<rparr>\<rparr>)),
     (''version'', version_flag), (''v'', version_flag)])"

definition map_defaults :: map_args where
  "map_defaults = \<lparr>mp_config = ''config.yml'', mp_loglevel = 0, mp_cfg = no_config\<lparr>cf_Listen := ''127.0.0.1:9987''\<rparr>\<rparr>"

text \<open>\<open>main\<close> and \<open>run\<close> up to the configuration of the server: \<open>file\<close> is what \<open>ReadConfig\<close> leaves, whose error
  is dropped, and \<open>key\<close> the random key.\<close>
definition pgmap_config :: "num_env \<Rightarrow> (string \<Rightarrow> PmConfig) \<Rightarrow> string \<Rightarrow> string list \<Rightarrow> (PmConfig \<times> config_error option) option" where
  "pgmap_config nu file key args =
     (case flag_Parse (map_flags nu) args map_defaults of
        None \<Rightarrow> None
      | Some (a, _) \<Rightarrow> Some (ApplyDefaults key (Overwrite (file (mp_config a)) (mp_cfg a))))"

section \<open>Queries of a running VPN\<close>

text \<open>Dialing the socket: some errors of the system are told apart by their text.\<close>
datatype sdk_error = ErrPermissionDenied | ErrNoDaemon | OtherError | ENO int string

definition contains :: "string \<Rightarrow> string \<Rightarrow> bool" where
  "contains s t \<longleftrightarrow> (\<exists>k \<in> set [0..<Suc (length s)]. take (length t) (drop k s) = t)"

definition dial_error :: "string \<Rightarrow> sdk_error" where
  "dial_error text =
     (if contains text ''permission denied'' \<or> contains text ''forbidden by its access permissions'' then ErrPermissionDenied
      else if contains text ''connection refused'' \<or> contains text ''no such file or directory'' then ErrNoDaemon
      else OtherError)"

text \<open>\<open>QueryPeers\<close> and \<open>QueryNodeInfo\<close>: an error of the dialer, or the decoded response with its code, data and message.\<close>
definition sdk_query :: "string + (int \<times> 'a \<times> string) \<Rightarrow> sdk_error + 'a" where
  "sdk_query r = (case r of Inl text \<Rightarrow> Inl (dial_error text) | Inr (code, data, msg) \<Rightarrow> if code \<noteq> 0 then Inl (ENO code msg) else Inr data)"

text \<open>\<open>parseFlags\<close> of the labels, and \<open>strings.Join(_, ",")\<close>.\<close>
definition parseFlags :: "string list \<Rightarrow> string list" where
  "parseFlags labels = (if snd (labels_Get labels ''node.nr'') then [''NR''] else []) @ (if snd (labels_Get labels ''node.off'') then [''OFF''] else [])"

fun comma_join :: "string list \<Rightarrow> string" where
  "comma_join [] = ''''"
| "comma_join [x] = x"
| "comma_join (x # y # xs) = x @ '','' @ comma_join (y # xs)"

text \<open>A row of \<open>PrintPeers\<close>.\<close>
definition peer_row :: "peer_status \<Rightarrow> string list" where
  "peer_row s =
     (let mode = (if snd (labels_Get (st_Labels s) ''node.off'') then '''' else st_Mode s) in
      [or_else (st_Hostname s) ''-'', or_else (st_IPv4 s) ''-'', or_else (st_IPv6 s) ''-'', or_else mode ''-'', or_else (st_NAT s) ''-'',
       or_else (comma_join (parseFlags (st_Labels s))) ''-'', or_else (comma_join (take 3 (st_Addrs s))) ''-'', st_Version s])"

definition PrintPeers :: "string + (int \<times> peer_status list \<times> string) \<Rightarrow> sdk_error + string list list" where
  "PrintPeers r =
     (case sdk_query r of
        Inl e \<Rightarrow> Inl e
      | Inr peers \<Rightarrow> Inr ([''Node'', ''IPv4'', ''IPv6'', ''Mode'', ''NAT'', ''Flags'', ''Endpoints'', ''Version''] # map peer_row peers))"

text \<open>The rows of \<open>PrintNodeInfo\<close> for an id, metadata, a NAT type and the addresses in text form.\<close>
definition node_rows :: "string \<Rightarrow> url_values \<Rightarrow> string \<Rightarrow> string list \<Rightarrow> string \<Rightarrow> (string \<times> string) list" where
  "node_rows i meta natType addrs version =
     [(''ID'', i), (''Name'', or_else (first_value meta ''name'') ''-''), (''IPv4'', or_else (first_value meta ''alias1'') ''-''),
      (''IPv6'', or_else (first_value meta ''alias2'') ''-''), (''NAT'', or_else natType ''-''),
      (''Flags'', or_else (comma_join (parseFlags (values_of meta ''label''))) ''-''),
      (''Endpoints'', or_else (comma_join (take 3 (remdups_adj addrs))) ''-''), (''Version'', version)]"

section \<open>Sharing files\<close>

record share_args =
  sh_server :: string
  sh_network :: string
  sh_key :: string
  sh_loglevel :: int

definition share_flags :: "num_env \<Rightarrow> string \<Rightarrow> share_args flag option" where
  "share_flags nu = map_of [(''s'', string_flag (\<lambda>v a. a\<lparr>sh_server := v\<rparr>)), (''pubnet'', string_flag (\<lambda>v a. a\<lparr>sh_network := v\<rparr>)),
     (''key'', string_flag (\<lambda>v a. a\<lparr>sh_key := v\<rparr>)), (''loglevel'', parsed_flag (nu_int nu) (\<lambda>x a. a\<lparr>sh_loglevel := x\<rparr>))]"

text \<open>\<open>found\<close> is what \<open>Add\<close> finds under the name of a file: its absolute path and what lies there. The
  errors of \<open>Add\<close> are logged only.\<close>
definition share_files :: "(string \<Rightarrow> (string \<times> node) option) \<Rightarrow> string list \<Rightarrow> FileManager" where
  "share_files found files = fold (\<lambda>f fm. case found f of None \<Rightarrow> fm | Some (path, n) \<Rightarrow> fst (addAbs path n fm)) files fm_new"

text \<open>The server, the network, the key and the files that are served; \<^const>\<open>None\<close> for the result: unknown server.\<close>
definition share_Run :: "num_env \<Rightarrow> (string \<Rightarrow> string) \<Rightarrow> (string \<Rightarrow> (string \<times> node) option) \<Rightarrow> string list
    \<Rightarrow> (string \<times> string \<times> string \<times> FileManager) option option" where
  "share_Run nu env found args =
     (case flag_Parse (share_flags nu) args \<lparr>sh_server = '''', sh_network = ''public'', sh_key = '''', sh_loglevel = 1\<rparr> of
        None \<Rightarrow> None
      | Some (a, files) \<Rightarrow>
          (let server = or_else (sh_server a) (env ''PG_SERVER'') in
           Some (if server = '''' then None else Some (server, sh_network a, sh_key a, share_files found files))))"

section \<open>Lemmas\<close>

declare flag_Parse.simps [simp del]

text \<open>What every setting keeps, parsing keeps.\<close>
definition keeps :: "('c \<Rightarrow> bool) \<Rightarrow> 'c flag \<Rightarrow> bool" where
  "keeps P f \<longleftrightarrow> (\<forall>v c c'. P c \<longrightarrow> (case f of BoolFlag upd \<Rightarrow> upd v c | ValueFlag upd \<Rightarrow> upd v c) = Some c' \<longrightarrow> P c')"

lemma flag_Parse_keeps:
  "flag_Parse fs args c = Some (c', rest) \<Longrightarrow> (\<forall>n f. fs n = Some f \<longrightarrow> keeps P f) \<Longrightarrow> P c \<Longrightarrow> P c'"
proof (induction fs args c rule: flag_Parse.induct)
  case (2 fs s args c)
  let ?t = "if s ! 1 = CHR ''-'' then drop 2 s else drop 1 s"
  show ?case
  proof (cases "length s < 2 \<or> s ! 0 \<noteq> CHR ''-'' \<or> s = ''--''")
    case True
    with "2.prems" show ?thesis by (auto simp: flag_Parse.simps split: if_splits)
  next
    case False
    with "2.prems"(1) have t: "?t ! 0 \<notin> {CHR ''-'', CHR ''=''}" by (auto simp: flag_Parse.simps Let_def split: if_splits)
    from False t "2.prems"(1) obtain f where f: "fs (flag_name ?t) = Some f" by (auto simp: flag_Parse.simps Let_def split: option.splits)
    have k: "keeps P f" using "2.prems"(2) f by blast
    show ?thesis
    proof (cases f)
      case (BoolFlag upd)
      with False t f "2.prems"(1) obtain c1 where
        c1: "upd (case flag_value ?t of None \<Rightarrow> ''true'' | Some v \<Rightarrow> v) c = Some c1" "flag_Parse fs args c1 = Some (c', rest)"
        by (auto simp: flag_Parse.simps Let_def split: option.splits)
      have "P c1" using k BoolFlag c1(1) "2.prems"(3) by (auto simp: keeps_def)
      with "2.IH"(1) [OF _ _ refl _ f BoolFlag c1 "2.prems"(2)] False t show ?thesis by blast
    next
      case (ValueFlag upd)
      show ?thesis
      proof (cases "flag_value ?t")
        case (Some v)
        with False t f ValueFlag "2.prems"(1) obtain c1 where c1: "upd v c = Some c1" "flag_Parse fs args c1 = Some (c', rest)"
          by (auto simp: flag_Parse.simps Let_def split: option.splits)
        have "P c1" using k ValueFlag c1(1) "2.prems"(3) by (auto simp: keeps_def)
        with "2.IH"(3) [OF _ _ refl _ f ValueFlag Some c1 "2.prems"(2)] False t show ?thesis by blast
      next
        case None
        with False t f ValueFlag "2.prems"(1) obtain v args1 c1 where a: "args = v # args1" and c1: "upd v c = Some c1" "flag_Parse fs args1 c1 = Some (c', rest)"
          by (auto simp: flag_Parse.simps Let_def split: option.splits list.splits)
        have "P c1" using k ValueFlag c1(1) "2.prems"(3) by (auto simp: keeps_def)
        with "2.IH"(2) [OF _ _ refl _ f ValueFlag None a c1 "2.prems"(2)] False t show ?thesis by blast
      qed
    qed
  qed
qed (simp add: flag_Parse.simps)

lemma keeps_string: "(\<And>v c. P c \<Longrightarrow> P (upd v c)) \<Longrightarrow> keeps P (string_flag upd)"
  by (simp add: keeps_def string_flag_def)

lemma key_flags_server:
  assumes "flag_Parse key_flags args no_key_args = Some (a, rest)"
  shows "ka_server a = ''''"
proof (rule flag_Parse_keeps [OF assms, where P = "\<lambda>a. ka_server a = ''''"])
  show "\<forall>n f. key_flags n = Some f \<longrightarrow> keeps (\<lambda>a. ka_server a = '''') f"
    by (auto simp: key_flags_def intro!: keeps_string split: if_splits)
qed (simp add: no_key_args_def)

lemma map_flags_listen:
  assumes "n \<notin> {''listen'', ''l''}" and "map_flags nu n = Some f"
  shows "keeps (\<lambda>a. cf_Listen (mp_cfg a) = l) f"
  using assms by (auto simp: map_flags_def Let_def version_flag_def parsed_flag_def intro!: keeps_string split: if_splits) (auto simp: keeps_def)

lemma set_flags_keeps:
  "set_flags fs asg c = Some c' \<Longrightarrow> (\<forall>a f. a \<in> set asg \<longrightarrow> fs (fst a) = Some f \<longrightarrow> keeps P f) \<Longrightarrow> P c \<Longrightarrow> P c'"
proof (induction fs asg c rule: set_flags.induct)
  case (2 fs a as c)
  from "2.prems"(1) obtain c1 where c1: "set_flag fs a c = Some c1" "set_flags fs as c1 = Some c'" by (auto split: option.splits)
  then obtain f where f: "fs (fst a) = Some f" by (auto simp: set_flag_def split: option.splits)
  have "keeps P f" using f "2.prems"(2) by (meson list.set_intros(1))
  then have "P c1" using c1(1) f "2.prems"(3) by (cases f) (auto simp: set_flag_def keeps_def)
  moreover have "\<forall>a f. a \<in> set as \<longrightarrow> fs (fst a) = Some f \<longrightarrow> keeps P f" using "2.prems"(2) by (meson list.set_intros(2))
  ultimately show ?case using "2.IH" [OF c1] by blast
qed simp

lemma ApplyDefaults_Listen: "cf_Listen cfg \<noteq> '''' \<Longrightarrow> cf_Listen (fst (ApplyDefaults key cfg)) = cf_Listen cfg"
  by (auto simp: ApplyDefaults_def Let_def split: option.splits prod.splits)

section \<open>Properties\<close>

text \<open>A secret that the administrator prints: the server with the same key accepts it for its network, with
  the alias and the administrator flag asked for, as long as a node does not take it for expired, and
  refuses it from the end of the duration asked for, ten seconds after nodes give it up.\<close>
theorem admin_secret_lasts:
  assumes "admin_secret env auth duration rnd now args = Prints s err"
    and "\<And>key. auth_env_ok (auth key)" and "length rnd = 12"
  shows "\<exists>key a rest valid. flag_Parse secret_flags args default_secret = Some (a, rest) \<and> duration (sa_duration a) = Some valid \<and>
    key = or_else (sa_secretKey a) (env ''PG_SECRET_KEY'') \<and> key \<noteq> '''' \<and> err = None \<and> ns_Network s = sa_network a \<and>
    (\<forall>t. \<not> Expired s t \<longrightarrow> snd (ParseSecret (auth key) t (ns_Secret s)) = None) \<and>
    (\<forall>t \<ge> now + valid. snd (ParseSecret (auth key) t (ns_Secret s)) = Some ErrTokenExpired \<and> Expired s (t - 10 * nano)) \<and>
    (\<forall>t. js_Network (fst (ParseSecret (auth key) t (ns_Secret s))) = ns_Network s \<and> js_Alias (fst (ParseSecret (auth key) t (ns_Secret s))) = sa_alias a \<and>
      js_Admin (fst (ParseSecret (auth key) t (ns_Secret s))) = sa_admin a)"
proof -
  from assms(1) obtain a rest valid where a: "flag_Parse secret_flags args default_secret = Some (a, rest)" "duration (sa_duration a) = Some valid"
    "or_else (sa_secretKey a) (env ''PG_SECRET_KEY'') \<noteq> ''''" "err = None"
    "s = \<lparr>ns_Secret = GenerateSecretAdmin (auth (or_else (sa_secretKey a) (env ''PG_SECRET_KEY''))) rnd now (sa_admin a)
           \<lparr>net_ID = sa_network a, net_Alias = sa_alias a, net_Neighbors = []\<rparr> valid,
         ns_Network = sa_network a, ns_Expire = now + (valid - 10 * nano)\<rparr>"
    by (auto simp: admin_secret_def Let_def split: option.splits if_splits)
  have d: "now + valid - nano < (now + valid) div nano * nano" "(now + valid) div nano * nano \<le> now + valid"
    by (simp_all add: nano_def)
  have p: "ParseSecret (auth (or_else (sa_secretKey a) (env ''PG_SECRET_KEY''))) t (ns_Secret s) =
      (\<lparr>js_Network = sa_network a, js_Admin = sa_admin a, js_Alias = sa_alias a, js_Neighbors = [], js_Deadline = (now + valid) div nano\<rparr>,
       if t < (now + valid) div nano * nano then None else Some ErrTokenExpired)" for t
    using parse_generated [OF assms(2,3)] by (simp add: a(5))
  have e: "Expired s t \<longleftrightarrow> now + valid - 10 * nano \<le> t" for t by (simp add: Expired_def a(5) algebra_simps)
  have n: "ns_Network s = sa_network a" by (simp add: a(5))
  show ?thesis
    by (rule exI [of _ "or_else (sa_secretKey a) (env ''PG_SECRET_KEY'')"], rule exI [of _ a], rule exI [of _ rest], rule exI [of _ valid])
      (use a(1-4) n d in \<open>auto simp: p e\<close>)
qed

definition demo_getenv :: "string \<Rightarrow> string" where
  "demo_getenv v = (if v = ''PG_SERVER'' then ''wss://m'' else if v = ''PG_SECRET_KEY'' then ''k'' else '''')"

theorem admin_secret_lasts_witness:
  "\<exists>s. admin_secret demo_getenv (\<lambda>_. toy_env) (\<lambda>_. Some (100 * nano)) (replicate 12 7) 0 [''--network=n''] = Prints s None \<and>
    \<not> Expired s 5 \<and> snd (ParseSecret toy_env 5 (ns_Secret s)) = None"
proof -
  have f: "flag_Parse secret_flags [''--network=n''] default_secret = Some (default_secret\<lparr>sa_network := ''n''\<rparr>, [])"
    using flag_Parse_settings [of "[(''network'', ''n'')]" "[]" secret_flags default_secret]
    by (simp add: flag_name_ok_def no_flag_def render_def set_flag_def secret_flags_def string_flag_def)
  then obtain s where s: "admin_secret demo_getenv (\<lambda>_. toy_env) (\<lambda>_. Some (100 * nano)) (replicate 12 7) 0 [''--network=n''] = Prints s None" "ns_Expire s = 90 * nano"
    by (simp add: admin_secret_def default_secret_def demo_getenv_def or_else_def Let_def)
  then have "\<not> Expired s 5" by (simp add: Expired_def nano_def)
  with admin_secret_lasts [OF s(1) toy_env_ok] s(1) show ?thesis by auto
qed

text \<open>The flag for the server: what is given as \<open>-s\<close> becomes the key, in the place of a key given before, and
  the server that a command talks to is that of the environment, whatever its arguments are.\<close>
theorem admin_server_flag_sets_key:
  assumes "flag_Parse key_flags args no_key_args = Some (a, rest)"
  shows "(\<forall>key server. parseSecretKeyAndServer env a = Inr (key, server) \<longrightarrow> server = env ''PG_SERVER'') \<and>
    (args = [''--secret-key='' @ k, ''--s='' @ url] \<and> url \<noteq> '''' \<and> env ''PG_SERVER'' \<noteq> '''' \<longrightarrow>
      parseSecretKeyAndServer env a = Inr (url, env ''PG_SERVER''))"
proof -
  have "ka_secretKey a = url" if "args = [''--secret-key='' @ k, ''--s='' @ url]"
  proof -
    have "flag_Parse key_flags args no_key_args = Some (no_key_args\<lparr>ka_secretKey := url\<rparr>, [])"
      using flag_Parse_settings [of "[(''secret-key'', k), (''s'', url)]" "[]" key_flags no_key_args]
      by (simp add: that flag_name_ok_def no_flag_def render_def set_flag_def key_flags_def string_flag_def)
    with assms show ?thesis by auto
  qed
  then show ?thesis using key_flags_server [OF assms] by (auto simp: parseSecretKeyAndServer_def or_else_def Let_def split: if_splits)
qed

theorem admin_server_flag_sets_key_witness:
  "\<exists>a. flag_Parse key_flags [''--secret-key=k'', ''--s=wss://other''] no_key_args = Some (a, []) \<and>
    parseSecretKeyAndServer demo_getenv a = Inr (''wss://other'', ''wss://m'')"
proof -
  have f: "flag_Parse key_flags [''--secret-key=k'', ''--s=wss://other''] no_key_args = Some (no_key_args\<lparr>ka_secretKey := ''wss://other''\<rparr>, [])"
    using flag_Parse_settings [of "[(''secret-key'', ''k''), (''s'', ''wss://other'')]" "[]" key_flags no_key_args]
    by (simp add: flag_name_ok_def no_flag_def render_def set_flag_def key_flags_def string_flag_def)
  have "parseSecretKeyAndServer demo_getenv (no_key_args\<lparr>ka_secretKey := ''wss://other''\<rparr>) = Inr (''wss://other'', demo_getenv ''PG_SERVER'')"
    by (rule mp [OF conjunct2 [OF admin_server_flag_sets_key [OF f, of demo_getenv "''k''" "''wss://other''"]]]) (simp add: demo_getenv_def)
  with f show ?thesis by (intro exI conjI) (assumption, simp add: demo_getenv_def)
qed

text \<open>The address in the configuration file of the map server is never used: unless the command line gives an address,
  the server listens on the default one, whatever the file says.\<close>
theorem configured_listen_ignored:
  assumes "list_all (\<lambda>a. flag_name_ok (fst a) \<and> fst a \<notin> {''listen'', ''l''}) asg" and "pgmap_config nu file key (map render asg) = Some (cfg, e)"
  shows "cf_Listen cfg = ''127.0.0.1:9987''"
proof -
  have "list_all (\<lambda>a. flag_name_ok (fst a)) asg" using assms(1) by (simp add: list_all_iff)
  from flag_Parse_settings [OF this, of "[]" "map_flags nu" map_defaults]
  have f: "flag_Parse (map_flags nu) (map render asg) map_defaults = map_option (\<lambda>a. (a, [])) (set_flags (map_flags nu) asg map_defaults)"
    by (simp add: no_flag_def)
  obtain a where a: "set_flags (map_flags nu) asg map_defaults = Some a" "ApplyDefaults key (Overwrite (file (mp_config a)) (mp_cfg a)) = (cfg, e)"
    using assms(2) unfolding pgmap_config_def f by (cases "set_flags (map_flags nu) asg map_defaults") simp_all
  have l: "cf_Listen (mp_cfg a) = ''127.0.0.1:9987''"
    by (rule set_flags_keeps [OF a(1), where P = "\<lambda>a. cf_Listen (mp_cfg a) = ''127.0.0.1:9987''"])
      (use assms(1) map_flags_listen in \<open>auto simp: list_all_iff map_defaults_def no_config_def\<close>)
  then have "cf_Listen (Overwrite (file (mp_config a)) (mp_cfg a)) = ''127.0.0.1:9987''" by (simp add: Overwrite_def Let_def)
  with ApplyDefaults_Listen [of "Overwrite (file (mp_config a)) (mp_cfg a)" key] a(2) show ?thesis by simp
qed

theorem configured_listen_ignored_witness:
  "\<exists>cfg e. pgmap_config demo_nu (\<lambda>_. no_config\<lparr>cf_Listen := ''0.0.0.0:80'', cf_SecretKey := ''k''\<rparr>) ''r'' [''--pubnet=p''] = Some (cfg, e) \<and>
    cf_Listen cfg = ''127.0.0.1:9987'' \<and> cf_PublicNetwork cfg = ''p''"
proof -
  have f: "flag_Parse (map_flags demo_nu) [''--pubnet=p''] map_defaults = Some (map_defaults\<lparr>mp_cfg := (mp_cfg map_defaults)\<lparr>cf_PublicNetwork := ''p''\<rparr>\<rparr>, [])"
    using flag_Parse_settings [of "[(''pubnet'', ''p'')]" "[]" "map_flags demo_nu" map_defaults]
    by (simp add: flag_name_ok_def no_flag_def render_def set_flag_def map_flags_def string_flag_def Let_def)
  then obtain cfg e where c: "pgmap_config demo_nu (\<lambda>_. no_config\<lparr>cf_Listen := ''0.0.0.0:80'', cf_SecretKey := ''k''\<rparr>) ''r'' [''--pubnet=p''] = Some (cfg, e)"
    "cf_PublicNetwork cfg = ''p''"
    by (simp add: pgmap_config_def ApplyDefaults_def Overwrite_def no_config_def map_defaults_def Let_def)
  from configured_listen_ignored [of "[(''pubnet'', ''p'')]" demo_nu _ "''r''" cfg e] c show ?thesis
    by (auto simp: flag_name_ok_def render_def)
qed

text \<open>Setting metadata: a command that prints metadata has fetched those of its network and changed
  the alias and nothing else; for the field of the neighbours it panics, for an unknown field it fails, and
  in both cases the server is not asked to change anything.\<close>
theorem set_meta_changes_alias:
  assumes "flag_Parse meta_flags args \<lparr>ka_secretKey = '''', ka_server = '''', ma_key = '''', ma_value = ''''\<rparr> = Some (a, rest)"
    and "parseSecretKeyAndServer (ad_env e) (key_args.truncate a) = Inr (key, server)" and "ad_connect e server key = Some c"
    and "Client_NetworkMeta (ac_get c) (ad_meta e) (ac_base c) (arg rest 0) = Inr (alias, neighbors)"
  shows "setMeta e args =
    (if ma_key a = ''Alias''
     then Prints (ma_value a, neighbors)
       (case ac_put c (meta_path (ac_base c) (arg rest 0)) (ad_meta_json e (ma_value a, neighbors)) of
          None \<Rightarrow> Some (ClientFailed ClientRequest) | Some st \<Rightarrow> if st = 200 then None else Some (ClientFailed (ClientStatus st)))
     else if ma_key a = ''Neighbors'' then Panics else Fails MetaNotFound)"
  using assms by (auto simp: setMeta_def with_client_def set_field_def Client_PutNetworkMeta_def split: option.splits)

theorem set_meta_changes_alias_witness:
  "\<exists>e. setMeta e [''--key=Alias'', ''--value=v'', ''n''] = Prints (''v'', [''m'']) None"
proof -
  let ?c = "\<lparr>ac_base = '''', ac_get = (\<lambda>_. Some (200, [])), ac_put = (\<lambda>_ _. Some 200)\<rparr>"
  let ?e = "\<lparr>ad_env = demo_getenv, ad_connect = (\<lambda>_ _. Some ?c), ad_meta = (\<lambda>_. (''old'', [''m''])), ad_meta_json = (\<lambda>_. []),
    ad_heads = (\<lambda>_. []), ad_peers = (\<lambda>_. [])\<rparr>"
  let ?a = "\<lparr>ka_secretKey = '''', ka_server = '''', ma_key = ''Alias'', ma_value = ''v''\<rparr>"
  have f: "flag_Parse meta_flags [''--key=Alias'', ''--value=v'', ''n''] \<lparr>ka_secretKey = '''', ka_server = '''', ma_key = '''', ma_value = ''''\<rparr> = Some (?a, [''n''])"
    using flag_Parse_settings [of "[(''key'', ''Alias''), (''value'', ''v'')]" "[''n'']" meta_flags]
    by (simp add: flag_name_ok_def no_flag_def render_def set_flag_def meta_flags_def string_flag_def)
  have p: "parseSecretKeyAndServer (ad_env ?e) (key_args.truncate ?a) = Inr (''k'', ''wss://m'')"
    by (simp add: parseSecretKeyAndServer_def key_args.truncate_def or_else_def demo_getenv_def Let_def)
  have g: "Client_NetworkMeta (ac_get ?c) (ad_meta ?e) (ac_base ?c) (arg [''n''] 0) = Inr (''old'', [''m''])"
    by (simp add: Client_NetworkMeta_def client_get_def)
  have "setMeta ?e [''--key=Alias'', ''--value=v'', ''n''] = Prints (''v'', [''m'']) None"
    using set_meta_changes_alias [OF f p _ g] by simp
  then show ?thesis by blast
qed

end
