(* ===== verification/Rdt.thy ===== *)
theory Rdt
  imports Pg_Prelude
begin

text \<open>
  The connection of the reliable data transfer protocol (\<open>rdt/rdt.go\<close>, \<open>rdt/config.go\<close>,
  \<open>rdt/stats.go\<close>): wire format, the connection record, every handler of \<open>rdtConn\<close> and the
  bodies of its background loops, with the lemmas on single handlers. The listener is in
  \<open>Rdt_Listener\<close>, the two-party protocol in \<open>Rdt_Protocol\<close>.

  Handlers return the new connection together with the packets they hand to
  \<open>c.c.WriteTo\<close>. A handler that does not return (it blocks on a full channel, or loops forever)
  is \<^const>\<open>None\<close>; a panic that \<open>recv\<close> recovers ends the handler with what it did so far.
\<close>

section \<open>Configuration and constants\<close>

definition Established :: int where "Established = 0"
definition FIN_WAIT1 :: int where "FIN_WAIT1 = 2"
definition FIN_WAIT2 :: int where "FIN_WAIT2 = 3"
definition CLOSED :: int where "CLOSED = 5"

lemmas conn_state_defs = Established_def FIN_WAIT1_def FIN_WAIT2_def CLOSED_def

record rdt_config =
  MTU :: int
  Interval :: int
  StatsServerListen :: string

datatype rdt_option = OptMTU int | OptStateInterval int | OptEnableStatsServer string

fun apply_rdt_option :: "rdt_config \<Rightarrow> rdt_option \<Rightarrow> rdt_config" where
  "apply_rdt_option cfg (OptMTU mtu) = cfg\<lparr>MTU := mtu\<rparr>"
| "apply_rdt_option cfg (OptStateInterval i) = cfg\<lparr>Interval := i\<rparr>"
| "apply_rdt_option cfg (OptEnableStatsServer a) = cfg\<lparr>StatsServerListen := a\<rparr>"

section \<open>The connection record\<close>

record nck =
  nck_no :: u32
  nck_missing :: "u32 list"

text \<open>
  The Go struct \<open>rdtConn\<close>. A buffered channel is the list of its queued elements.
  \<open>chans_closed\<close> says that \<open>Close\<close> has closed \<open>exit\<close>, \<open>inbound\<close>, \<open>nck\<close>,
  \<open>finack\<close> and \<open>sendEvent\<close> (it closes them one after the other);
  \<open>fin_chans_closed\<close> says that its background goroutine has closed \<open>fin\<close> and
  \<open>nckQuery\<close>. \<open>closeOnceDone\<close> is the state of \<open>closeOnce\<close>.

  Two goroutines can be parked in the middle of their code on the unbuffered channel
  \<open>sendEvent\<close>; their program counters are part of the state:
  \<open>nck_parked\<close> (\<open>runNCKLoop\<close> stands at the send that ends \<open>resend\<close>) and \<open>w_wait\<close>
  (a \<open>Write\<close> stands at the receive of its inner loop). \<open>w_pend\<close> holds the frames the
  \<open>Write\<close> call in progress has still to send.
\<close>

record rdtConn =
  is_server :: bool
  window :: u32
  frameSize :: int
  chans_closed :: bool
  fin_chans_closed :: bool
  closeOnceDone :: bool
  inbound :: "bytes list"
  nckCh :: "nck list"
  nckQuery :: "u32 list"
  fin :: "u32 list"
  finack :: "u32 list"
  inboundBuf :: "bytes option"
  recvNO :: u32
  sentNO :: u32
  ackNO :: u32
  recvPool :: "u32 \<rightharpoonup> bytes"
  sendPool :: "u32 \<rightharpoonup> bytes"
  rs :: u32
  cstate :: int
  nck_parked :: bool
  w_wait :: bool
  w_pend :: "bytes list"

definition inbound_cap :: nat where "inbound_cap = 1024"
definition nck_cap :: nat where "nck_cap = 256"
definition fin_cap :: nat where "fin_cap = 5"

text \<open>\<open>(l.cfg.MTU - 7) / 4\<close>: Go's division truncates towards zero.\<close>
definition go_div :: "int \<Rightarrow> int \<Rightarrow> int" where
  "go_div a b = sgn a * sgn b * (\<bar>a\<bar> div \<bar>b\<bar>)"

definition newConn :: "rdt_config \<Rightarrow> rdtConn" where
  "newConn cfg =
     \<lparr>is_server = False, window = word_of_int (go_div (MTU cfg - 7) 4), frameSize = MTU cfg - 7,
      chans_closed = False, fin_chans_closed = False, closeOnceDone = False,
      inbound = [], nckCh = [], nckQuery = [], fin = [], finack = [], inboundBuf = None,
      recvNO = 0, sentNO = 0, ackNO = 0, recvPool = Map.empty, sendPool = Map.empty, rs = 0,
      cstate = Established, nck_parked = False, w_wait = False, w_pend = []\<rparr>"

section \<open>Frames\<close>

definition buildFrame :: "u8 \<Rightarrow> u32 \<Rightarrow> u16 \<Rightarrow> bytes \<Rightarrow> bytes" where
  "buildFrame cmd no len data = cmd # put_u32be no @ put_u16be len @ data"

text \<open>\<open>send\<close> sets the direction bit of a server's packet in place and writes the packet; the
  result is the packet as written, which is also what the slice holds from then on.\<close>
definition mark_dir :: "bool \<Rightarrow> bytes \<Rightarrow> bytes" where
  "mark_dir srv pkt = (if srv then (case pkt of [] \<Rightarrow> [] | b # r \<Rightarrow> (b OR 0x80) # r) else pkt)"

definition send :: "rdtConn \<Rightarrow> bytes \<Rightarrow> bytes" where
  [simp]: "send c pkt = mark_dir (is_server c) pkt"

text \<open>What \<open>recvPacket\<close> does to the direction bit: \<open>pkt[0] << 1 >> 1\<close> when it is set.\<close>
definition strip_dir :: "bytes \<Rightarrow> bytes" where
  "strip_dir pkt =
     (case pkt of [] \<Rightarrow> []
      | b # r \<Rightarrow> (if 0x80 AND b = 0x80 then drop_bit 1 (push_bit 1 b) else b) # r)"

definition askNCK :: "rdtConn \<Rightarrow> u32 \<Rightarrow> bytes list" where
  "askNCK c no = [send c (buildFrame 1 no 0 [])]"

text \<open>The scan of \<open>sendNCK\<close>: \<open>for i := c.recvNO + 1; i <= no; i++\<close> over \<open>uint32\<close>. Not
  returning is \<^const>\<open>None\<close>.\<close>
partial_function (option) nck_scan :: "(u32 \<rightharpoonup> bytes) \<Rightarrow> u32 \<Rightarrow> u32 \<Rightarrow> u32 list \<Rightarrow> u32 list option" where
  "nck_scan pool i no acc =
     (if i \<le> no then nck_scan pool (i + 1) no (if pool i = None then acc @ [i] else acc)
      else Some acc)"

text \<open>\<open>missing\<close> is a \<open>uint16\<close> counter of the list \<open>noData\<close>.\<close>
definition sendNCK :: "rdtConn \<Rightarrow> u32 \<Rightarrow> bytes list option" where
  "sendNCK c no =
     (case nck_scan (recvPool c) (recvNO c + 1) no [] of
        None \<Rightarrow> None
      | Some noData \<Rightarrow>
          (let missing = (of_nat (length noData) :: u16) in
           if ucast (window c) < missing then Some []
           else Some [send c (buildFrame 2 no (missing * 4) (concat (map put_u32be noData)))]))"

section \<open>Receiving\<close>

text \<open>The loop of \<open>recvData\<close> that moves consecutive frames from \<open>recvPool\<close> to
  \<open>inbound\<close>. It deletes the entry of the frame delivered before.\<close>
partial_function (option) drain :: "rdtConn \<Rightarrow> rdtConn option" where
  "drain c =
     (case recvPool c (recvNO c + 1) of
        None \<Rightarrow> Some c
      | Some k \<Rightarrow>
          (if length (inbound c) < inbound_cap
           then drain (c\<lparr>recvPool := (recvPool c)(recvNO c := None),
                         inbound := inbound c @ [k], recvNO := recvNO c + 1\<rparr>)
           else None))"

definition deliver :: "rdtConn \<Rightarrow> bytes \<Rightarrow> rdtConn option" where
  "deliver c data =
     (if length (inbound c) < inbound_cap
      then drain (c\<lparr>inbound := inbound c @ [data], recvNO := recvNO c + 1\<rparr>)
      else None)"

definition recvData :: "rdtConn \<Rightarrow> u32 \<Rightarrow> bytes \<Rightarrow> (rdtConn \<times> bytes list) option" where
  "recvData c no data =
     (if cstate c = CLOSED then Some (c, [])
      else if window c = 0 then Some (c, [])
      else do {
        out \<leftarrow> (if no mod window c = 0 then sendNCK c (min (recvNO c + window c) no) else Some []);
        (if no \<le> recvNO c then Some (c, out)
         else if no = recvNO c + 1 then
           (if chans_closed c then Some (c, out)
            else do { c' \<leftarrow> deliver c data; Some (c', out) })
         else if window c * 2 < no - recvNO c then do {
           out2 \<leftarrow> sendNCK c (recvNO c + window c);
           Some (c, out @ out2) }
         else Some (c\<lparr>recvPool := (recvPool c)(no \<mapsto> data)\<rparr>, out)) })"

text \<open>The loop \<open>for i := range l / 4\<close> that reads the list of an NCK frame, in
  \<open>uint16\<close> arithmetic; \<^const>\<open>None\<close> is the slice or index panic.\<close>
fun read_missing :: "gslice \<Rightarrow> u16 \<Rightarrow> nat \<Rightarrow> u32 list option" where
  "read_missing pkt i 0 = Some []"
| "read_missing pkt i (Suc n) = do {
     let s = 7 + i * 4;
     w \<leftarrow> sl_range pkt (unat s) (unat (s + 4));
     v \<leftarrow> get_u32be (sl_data w);
     vs \<leftarrow> read_missing pkt (i + 1) n;
     Some (v # vs) }"

section \<open>Closing\<close>

text \<open>The wait of \<open>sendFIN\<close> on the \<open>finack\<close> channel: the values that arrive, the last of them
  the 0 its goroutine posts after five transmissions. True when the FIN was acknowledged.\<close>
fun await_finack :: "u32 \<Rightarrow> u32 list \<Rightarrow> bool" where
  "await_finack s [] = False"
| "await_finack s (f # fs) = (if f = 0 then False else if f \<noteq> s then await_finack s fs else True)"

text \<open>\<open>arrivals\<close> are the acknowledgements that arrive during the wait, \<open>n\<close> the transmissions
  made before it ends (five at most).\<close>
definition sendFIN :: "rdtConn \<Rightarrow> u32 list \<Rightarrow> nat \<Rightarrow> bool \<times> bytes list" where
  "sendFIN c arrivals n =
     (await_finack (sentNO c) (finack c @ arrivals @ [0]),
      replicate (min n 5) (send c (buildFrame 21 (sentNO c) 0 [])))"

definition Close :: "rdtConn \<Rightarrow> u32 list \<Rightarrow> nat \<Rightarrow> rdtConn \<times> bytes list" where
  "Close c arrivals n =
     (if closeOnceDone c then (c, [])
      else (c\<lparr>closeOnceDone := True, cstate := FIN_WAIT2, chans_closed := True, finack := [],
              inboundBuf := None, sentNO := 0, sendPool := Map.empty, nck_parked := False\<rparr>,
            snd (sendFIN c arrivals n)))"

text \<open>The goroutine \<open>Close\<close> starts, once a FIN arrived or fifteen seconds passed.\<close>
definition finWaitDone :: "rdtConn \<Rightarrow> rdtConn" where
  "finWaitDone c =
     c\<lparr>cstate := CLOSED, fin := [], fin_chans_closed := True, recvNO := 0, recvPool := Map.empty\<rparr>"

section \<open>The packet handler\<close>

definition recvFIN :: "rdtConn \<Rightarrow> nat \<Rightarrow> u32 \<Rightarrow> (rdtConn \<times> bytes list) option" where
  "recvFIN c n no =
     (if recvNO c < no then map_option (\<lambda>out. (c, out)) (sendNCK c no)
      else let ack = send c (buildFrame 22 no 0 []) in
        if fin_chans_closed c then Some (c, [ack])
        else if length (fin c) < fin_cap
        then (let (c', out) = Close (c\<lparr>fin := fin c @ [no]\<rparr>) [] n in Some (c', ack # out))
        else None)"

definition recvNCK :: "rdtConn \<Rightarrow> u32 \<Rightarrow> u32 list \<Rightarrow> (rdtConn \<times> bytes list) option" where
  "recvNCK c no missing =
     (let c1 = (if missing = [] \<and> ackNO c < no then c\<lparr>ackNO := no\<rparr> else c) in
      if chans_closed c1 then Some (c1, [])
      else if length (nckCh c1) < nck_cap
      then Some (c1\<lparr>nckCh := nckCh c1 @ [\<lparr>nck_no = no, nck_missing = missing\<rparr>]\<rparr>, [])
      else None)"

definition recvQuery :: "rdtConn \<Rightarrow> u32 \<Rightarrow> (rdtConn \<times> bytes list) option" where
  "recvQuery c no =
     (if fin_chans_closed c then Some (c, [])
      else if length (nckQuery c) < nck_cap then Some (c\<lparr>nckQuery := nckQuery c @ [no]\<rparr>, [])
      else None)"

definition recvFinack :: "rdtConn \<Rightarrow> u32 \<Rightarrow> (rdtConn \<times> bytes list) option" where
  "recvFinack c no =
     (if chans_closed c then Some (c, [])
      else if length (finack c) < fin_cap then Some (c\<lparr>finack := finack c @ [no]\<rparr>, [])
      else None)"

text \<open>The header fields of a packet: command, number and length; \<^const>\<open>None\<close> panics.\<close>
definition frame_header :: "gslice \<Rightarrow> (u8 \<times> u32 \<times> u16) option" where
  "frame_header pkt = do {
     w \<leftarrow> sl_range pkt 1 5; no \<leftarrow> get_u32be (sl_data w);
     v \<leftarrow> sl_range pkt 5 7; l \<leftarrow> get_u16be (sl_data v);
     cmd \<leftarrow> sl_index pkt 0;
     Some (cmd, no, l) }"

text \<open>\<open>recv\<close>; \<open>n\<close> counts the FIN transmissions of a \<open>Close\<close> it runs.\<close>
definition recv :: "rdtConn \<Rightarrow> nat \<Rightarrow> gslice \<Rightarrow> (rdtConn \<times> bytes list) option" where
  "recv c n pkt =
     (case frame_header pkt of
        None \<Rightarrow> Some (c, [])
      | Some (cmd, no, l) \<Rightarrow>
          if cmd = 0 then
            (case sl_range pkt 7 (unat (l + 7)) of
               None \<Rightarrow> Some (c, [])
             | Some d \<Rightarrow> recvData c no (sl_data d))
          else if cmd = 1 then recvQuery c no
          else if cmd = 2 then
            (case read_missing pkt 0 (unat (l div 4)) of
               None \<Rightarrow> Some (c, [])
             | Some missing \<Rightarrow> recvNCK c no missing)
          else if cmd = 21 then recvFIN c n no
          else if cmd = 22 then recvFinack c no
          else Some (c, []))"

section \<open>Resending\<close>

fun resend_missing :: "rdtConn \<Rightarrow> u32 list \<Rightarrow> rdtConn \<times> bytes list" where
  "resend_missing c [] = (c, [])"
| "resend_missing c (n # ns) =
     (case sendPool c n of
        None \<Rightarrow> resend_missing c ns
      | Some pkt \<Rightarrow>
          (let pkt' = send c pkt;
               (c', out) = resend_missing (c\<lparr>sendPool := (sendPool c)(n \<mapsto> pkt'), rs := rs c + 1\<rparr>) ns
           in (c', pkt' # out)))"

text \<open>\<open>resend\<close> up to the send on \<open>sendEvent\<close>, where the goroutine parks.\<close>
definition resend :: "rdtConn \<Rightarrow> nck \<Rightarrow> rdtConn \<times> bytes list" where
  "resend c k =
     (let (c1, out) = resend_missing c (nck_missing k) in
      (c1\<lparr>sendPool := (\<lambda>j. if j \<notin> set (nck_missing k) \<and> j \<le> nck_no k then None else sendPool c1 j)\<rparr>,
       out))"

text \<open>One iteration of \<open>runNCKLoop\<close> whose \<open>select\<close> takes the \<open>nck\<close> case (after
  \<open>Close\<close> the loop may instead take the \<open>exit\<close> case and return). Its last action, the send on
  \<open>sendEvent\<close>, parks the goroutine, unless the channel is closed: then it panics and
  \<open>resend\<close> recovers. \<^const>\<open>None\<close>: the goroutine is parked, or has nothing to do.\<close>
definition nckLoop :: "rdtConn \<Rightarrow> (rdtConn \<times> bytes list) option" where
  "nckLoop c =
     (if nck_parked c then None
      else case nckCh c of
        [] \<Rightarrow> None
      | k # ks \<Rightarrow>
          (let (c', out) = resend (c\<lparr>nckCh := ks\<rparr>) k
           in Some (c'\<lparr>nck_parked := \<not> chans_closed c\<rparr>, out)))"

text \<open>One iteration of \<open>runNCKQueryLoop\<close> whose \<open>select\<close> takes the \<open>nckQuery\<close> case.\<close>
definition nckQueryLoop :: "rdtConn \<Rightarrow> (rdtConn \<times> bytes list) option" where
  "nckQueryLoop c =
     (case nckQuery c of
        [] \<Rightarrow> None
      | q # qs \<Rightarrow> map_option (\<lambda>out. (c\<lparr>nckQuery := qs\<rparr>, out)) (sendNCK (c\<lparr>nckQuery := qs\<rparr>) q))"

text \<open>One iteration of \<open>runCheckLoop\<close>.\<close>
definition checkLoop :: "rdtConn \<Rightarrow> bytes list option" where
  "checkLoop c =
     (if chans_closed c then None
      else Some (if 0 < card (dom (sendPool c))
                 then askNCK c (min (sentNO c) (ackNO c + window c)) else []))"

section \<open>Writing\<close>

text \<open>The frames of \<open>Write\<close>: frame \<open>i\<close> starts at \<open>i * frameSize\<close>.\<close>
definition write_chunks :: "int \<Rightarrow> bytes \<Rightarrow> bytes list" where
  "write_chunks fs b =
     (if fs \<le> 0 then []
      else map (\<lambda>i. take (min (nat fs) (length b - i * nat fs)) (drop (i * nat fs) b))
             [0..<(length b + nat fs - 1) div nat fs])"

definition write_frame :: "rdtConn \<Rightarrow> bytes \<Rightarrow> rdtConn \<times> bytes" where
  "write_frame c d =
     (let no = sentNO c + 1;
          pkt = send c (buildFrame 0 no (of_nat (length d)) d)
      in (c\<lparr>sendPool := (sendPool c)(no \<mapsto> pkt), sentNO := sentNO c + 1\<rparr>, pkt))"

datatype write_error = WClosed

text \<open>The call of \<open>Write\<close>: the state test, then the frames are pending.\<close>
definition write_call :: "rdtConn \<Rightarrow> bytes \<Rightarrow> write_error + rdtConn" where
  "write_call c b =
     (if 0 < cstate c then Inl WClosed
      else Inr (c\<lparr>w_pend := write_chunks (frameSize c) b, w_wait := False\<rparr>))"

definition pool_full :: "rdtConn \<Rightarrow> bool" where
  "pool_full c \<longleftrightarrow> int (unat (window c)) \<le> int (card (dom (sendPool c)))"

text \<open>One step of the loop of \<open>Write\<close>: test of the window and transmission of the next frame,
  or the receive on \<open>sendEvent\<close> that frees a parked \<open>runNCKLoop\<close>. \<^const>\<open>None\<close>: there is no
  pending frame, or the goroutine waits.\<close>
definition write_step :: "rdtConn \<Rightarrow> (rdtConn \<times> bytes list) option" where
  "write_step c =
     (case w_pend c of
        [] \<Rightarrow> None
      | d # ds \<Rightarrow>
          if \<not> w_wait c then
            (if pool_full c then Some (c\<lparr>w_wait := True\<rparr>, [])
             else let (c', pkt) = write_frame c d in Some (c'\<lparr>w_pend := ds\<rparr>, [pkt]))
          else if chans_closed c then Some (c\<lparr>w_pend := [], w_wait := False\<rparr>, [])
          else if nck_parked c then
            (if pool_full c then Some (c\<lparr>nck_parked := False\<rparr>, [])
             else let (c', pkt) = write_frame c d
                  in Some (c'\<lparr>nck_parked := False, w_wait := False, w_pend := ds\<rparr>, [pkt]))
          else None)"

section \<open>Reading\<close>

datatype read_error = EOF | ErrDeadline

text \<open>The ready case that \<open>select\<close> takes.\<close>
datatype read_case = CaseExit | CaseDeadlineFired | CaseDeadlineClosed | CaseInbound

text \<open>The copy that ends \<open>Read\<close>, for a destination of \<open>n\<close> bytes.\<close>
definition read_copy :: "rdtConn \<Rightarrow> bytes \<Rightarrow> nat \<Rightarrow> rdtConn \<times> bytes" where
  "read_copy c buf n =
     (if min n (length buf) = length buf then (c\<lparr>inboundBuf := None\<rparr>, buf)
      else (c\<lparr>inboundBuf := Some (drop n buf)\<rparr>, take n buf))"

text \<open>\<^const>\<open>None\<close>: the chosen case is not ready.\<close>
definition Read :: "rdtConn \<Rightarrow> nat \<Rightarrow> read_case \<Rightarrow> (rdtConn \<times> (read_error + bytes)) option" where
  "Read c n sel =
     (case inboundBuf c of
        Some buf \<Rightarrow> (let (c', b) = read_copy c buf n in Some (c', Inr b))
      | None \<Rightarrow>
          (case sel of
             CaseExit \<Rightarrow> if chans_closed c then Some (c, Inl EOF) else None
           | CaseDeadlineFired \<Rightarrow> Some (c, Inl ErrDeadline)
           | CaseDeadlineClosed \<Rightarrow> if chans_closed c then Some (c, Inl EOF) else None
           | CaseInbound \<Rightarrow>
               (case inbound c of
                  [] \<Rightarrow> if chans_closed c then Some (c, Inl EOF) else None
                | p # ps \<Rightarrow> (let (c', b) = read_copy (c\<lparr>inbound := ps\<rparr>) p n in Some (c', Inr b)))))"

section \<open>The scan of \<open>sendNCK\<close>\<close>

definition missing_nos :: "(u32 \<rightharpoonup> bytes) \<Rightarrow> u32 \<Rightarrow> u32 \<Rightarrow> u32 list" where
  "missing_nos pool i no = filter (\<lambda>k. pool k = None) (map of_nat [unat i..<Suc (unat no)])"

lemma unat_Suc_u32: "(w::u32) \<noteq> - 1 \<Longrightarrow> unat (w + 1) = Suc (unat w)"
  by (metis Suc_eq_plus1 add.commute unatSuc word_order.extremum_uniqueI add_eq_0_iff
      add.inverse_inverse group_cancel.rule0)

lemma nck_scan_returns:
  assumes "no \<noteq> - 1"
  shows "nck_scan pool i no acc = Some (acc @ missing_nos pool i no)"
proof (induction "Suc (unat no) - unat i" arbitrary: i acc rule: less_induct)
  case less
  show ?case
  proof (cases "i \<le> no")
    case True
    then have le: "unat i \<le> unat no" by (simp add: word_le_nat_alt)
    from True assms have "i \<noteq> - 1" using word_order.extremum_uniqueI by blast
    then have s: "unat (i + 1) = Suc (unat i)" by (rule unat_Suc_u32)
    have "nck_scan pool i no acc =
        nck_scan pool (i + 1) no (if pool i = None then acc @ [i] else acc)"
      using True by (simp add: nck_scan.simps [of pool i])
    also have "\<dots> = Some ((if pool i = None then acc @ [i] else acc) @ missing_nos pool (i + 1) no)"
      by (rule less) (use s le in simp)
    finally show ?thesis
      using upt_conv_Cons [of "unat i" "Suc (unat no)"] le
      by (simp add: missing_nos_def s del: upt_Suc)
  next
    case False
    then have "Suc (unat no) \<le> unat i" by (simp add: word_le_nat_alt)
    with False show ?thesis by (simp add: nck_scan.simps [of pool i] missing_nos_def)
  qed
qed

lemma nck_scan_diverges: "nck_scan pool i (- 1) acc = None"
proof (rule ccontr)
  assume "nck_scan pool i (- 1) acc \<noteq> None"
  then obtain r where r: "nck_scan pool i (- 1) acc = Some r" by blast
  have "(- 1 :: u32) \<noteq> - 1"
  proof (rule nck_scan.raw_induct [where P = "\<lambda>pool i no acc r. no \<noteq> - 1", OF _ r])
    fix scan pool i no acc r
    assume IH: "\<And>pool i no acc r. scan pool i no acc = Some r \<Longrightarrow> no \<noteq> (- 1 :: u32)"
      and eq: "(if i \<le> no then scan pool (i + 1) no (if pool i = None then acc @ [i] else acc)
        else Some acc) = Some r"
    show "no \<noteq> (- 1 :: u32)"
    proof
      assume "no = - 1"
      with eq IH show False by (metis word_order.extremum)
    qed
  qed
  then show False by simp
qed

lemma set_missing_nos:
  "set (missing_nos pool i no) = {k. i \<le> k \<and> k \<le> no \<and> pool k = None}"
proof -
  have "of_nat ` {unat i..<Suc (unat no)} = {k. i \<le> k \<and> k \<le> no}"
  proof (intro set_eqI iffI)
    fix k assume "k \<in> (of_nat ` {unat i..<Suc (unat no)} :: u32 set)"
    then obtain n where n: "k = of_nat n" "unat i \<le> n" "n \<le> unat no" by auto
    then have "unat k = n"
      by (metis le_unat_uoi)
    with n show "k \<in> {k. i \<le> k \<and> k \<le> no}" by (simp add: word_le_nat_alt)
  next
    fix k assume "k \<in> {k. i \<le> k \<and> k \<le> no}"
    then have "unat k \<in> {unat i..<Suc (unat no)}" by (simp add: word_le_nat_alt)
    then show "k \<in> (of_nat ` {unat i..<Suc (unat no)} :: u32 set)"
      by (intro image_eqI [of _ _ "unat k"]) simp_all
  qed
  then show ?thesis by (auto simp: missing_nos_def simp del: upt_Suc)
qed

lemma distinct_missing_nos: "distinct (missing_nos pool i no)"
proof -
  have "inj_on (of_nat :: nat \<Rightarrow> u32) {unat i..<Suc (unat no)}"
  proof (rule inj_onI)
    fix x y assume "x \<in> {unat i..<Suc (unat no)}" "y \<in> {unat i..<Suc (unat no)}"
      and "(of_nat x :: u32) = of_nat y"
    moreover have "n < 2 ^ LENGTH(32)" if "n \<in> {unat i..<Suc (unat no)}" for n
      using that unsigned_less [of no, where ?'a = nat] by auto
    ultimately show "x = y" by (metis of_nat_inverse)
  qed
  then show ?thesis
    unfolding missing_nos_def by (intro distinct_filter) (simp add: distinct_map del: upt_Suc)
qed

lemma sendNCK_eq:
  assumes "no \<noteq> - 1"
  shows "sendNCK c no =
    (let xs = missing_nos (recvPool c) (recvNO c + 1) no; m = (of_nat (length xs) :: u16) in
     if ucast (window c) < m then Some []
     else Some [send c (buildFrame 2 no (m * 4) (concat (map put_u32be xs)))])"
  by (simp add: sendNCK_def nck_scan_returns assms Let_def)

section \<open>Frame round trips\<close>

lemma mark_dir_idem [simp]: "mark_dir srv (mark_dir srv pkt) = mark_dir srv pkt"
  by (simp add: mark_dir_def or.assoc split: list.splits)

lemma length_mark_dir [simp]: "length (mark_dir srv pkt) = length pkt"
  by (simp add: mark_dir_def split: list.splits)

lemma length_strip_dir [simp]: "length (strip_dir pkt) = length pkt"
  by (simp add: strip_dir_def split: list.splits)

lemma length_buildFrame [simp]: "length (buildFrame cmd no l data) = 7 + length data"
  by (simp add: buildFrame_def)

lemma strip_mark_frame:
  assumes "cmd \<in> {0, 1, 2, 21, 22}"
  shows "strip_dir (mark_dir srv (buildFrame cmd no l data)) = buildFrame cmd no l data"
  using assms by (auto simp: strip_dir_def mark_dir_def buildFrame_def)

lemma frame_header_build [simp]:
  "frame_header (GSlice (buildFrame cmd no l data) sp) = Some (cmd, no, l)"
proof -
  have "sl_range (GSlice (buildFrame cmd no l data) sp) 1 5
      = Some (GSlice (put_u32be no) (put_u16be l @ data @ sp))"
    by (simp add: slice_simps buildFrame_def)
  moreover have "sl_range (GSlice (buildFrame cmd no l data) sp) 5 7
      = Some (GSlice (put_u16be l) (data @ sp))"
    by (simp add: slice_simps buildFrame_def)
  ultimately show ?thesis
    by (simp add: frame_header_def slice_simps) (simp add: buildFrame_def slice_simps)
qed

lemma frame_data_build:
  assumes "length data < 65529"
  shows "sl_range (GSlice (buildFrame cmd no (of_nat (length data)) data) sp) 7
           (unat ((of_nat (length data) :: u16) + 7)) = Some (GSlice data sp)"
proof -
  have "unat ((of_nat (length data) :: u16) + 7) = length data + 7"
    using assms by (simp add: unat_word_ariths unat_of_nat)
  then show ?thesis by (simp add: sl_range_within buildFrame_def)
qed

lemma read_missing_at:
  assumes "length pre = 7 + 4 * k" and "k + length xs \<le> 16382"
  shows "read_missing (GSlice (pre @ concat (map put_u32be xs) @ post) sp) (of_nat k) (length xs) = Some xs"
  using assms
proof (induction xs arbitrary: k pre)
  case Nil
  then show ?case by simp
next
  case (Cons x xs)
  let ?d = "pre @ put_u32be x @ concat (map put_u32be xs) @ post"
  have s1: "unat (7 + (of_nat k :: u16) * 4) = 7 + 4 * k"
    using Cons.prems by (simp add: unat_word_ariths unat_of_nat)
  have s2: "unat (11 + (of_nat k :: u16) * 4) = 11 + 4 * k"
    using Cons.prems by (simp add: unat_word_ariths unat_of_nat)
  have r: "sl_range (GSlice ?d sp) (7 + 4 * k) (11 + 4 * k)
      = Some (GSlice (put_u32be x) ((concat (map put_u32be xs) @ post) @ sp))"
    using Cons.prems by (simp add: sl_range_within)
  have "read_missing (GSlice ((pre @ put_u32be x) @ concat (map put_u32be xs) @ post) sp)
      (of_nat (Suc k)) (length xs) = Some xs"
    by (rule Cons.IH) (use Cons.prems in auto)
  then have "read_missing (GSlice ?d sp) (of_nat k + 1) (length xs) = Some xs"
    by (simp add: add.commute)
  then show ?case by (simp add: s1 s2 r del: sl_range_within)
qed

lemma read_missing_build:
  assumes "length xs \<le> 16382"
  shows "read_missing (GSlice (buildFrame 2 no l (concat (map put_u32be xs))) sp) 0 (length xs) = Some xs"
  using read_missing_at [of "2 # put_u32be no @ put_u16be l" 0 xs "[]" sp] assms
  by (simp add: buildFrame_def)

end
