(* ===== verification/Rdt_Listener.thy ===== *)
theory Rdt_Listener
  imports Rdt
begin

text \<open>
  The listener of the reliable data transfer protocol (\<open>rdt/rdt.go\<close>, \<open>rdt/stats.go\<close>): dispatch of
  packets by direction bit and remote address, the accept queue, opened streams and statistics.
  Connections are shared between the maps, the accept queue and the application, so the listener
  keeps a heap of connections; addresses are the strings of \<open>addr.String()\<close>.
\<close>

section \<open>State\<close>

record RDTListener =
  l_cfg :: rdt_config
  l_accept :: "nat list"
  acceptConnMap :: "string \<rightharpoonup> nat"
  openConnMap :: "string \<rightharpoonup> nat"
  l_exit :: bool
  conns :: "nat \<rightharpoonup> rdtConn"
  next_conn :: nat

definition accept_cap :: nat where "accept_cap = 512"

definition listen_default :: rdt_config where
  "listen_default = \<lparr>MTU = 1428, Interval = 100, StatsServerListen = []\<rparr>"

definition Listen :: "rdt_option list \<Rightarrow> RDTListener" where
  "Listen opts =
     \<lparr>l_cfg = fold (\<lambda>opt cfg. apply_rdt_option cfg opt) opts listen_default, l_accept = [],
      acceptConnMap = Map.empty, openConnMap = Map.empty, l_exit = False,
      conns = Map.empty, next_conn = 0\<rparr>"

section \<open>Operations\<close>

text \<open>\<open>conn.recv(pkt)\<close> on a connection of the heap. \<open>n\<close> counts the transmissions of a FIN the call
  may run; \<^const>\<open>None\<close>: the handler does not return.\<close>
definition conn_recv :: "RDTListener \<Rightarrow> nat \<Rightarrow> nat \<Rightarrow> gslice \<Rightarrow> (RDTListener \<times> bytes list) option" where
  "conn_recv l i n pkt =
     (case conns l i of
        None \<Rightarrow> None
      | Some c \<Rightarrow> map_option (\<lambda>(c', out). (l\<lparr>conns := (conns l)(i \<mapsto> c')\<rparr>, out)) (recv c n pkt))"

definition live :: "RDTListener \<Rightarrow> nat \<Rightarrow> bool" where
  "live l i = (case conns l i of None \<Rightarrow> False | Some c \<Rightarrow> cstate c < CLOSED)"

definition new_accept :: "RDTListener \<Rightarrow> string \<Rightarrow> RDTListener option" where
  "new_accept l addr =
     (if length (l_accept l) < accept_cap
      then Some (l\<lparr>l_accept := l_accept l @ [next_conn l],
                   acceptConnMap := (acceptConnMap l)(addr \<mapsto> next_conn l),
                   conns := (conns l)(next_conn l \<mapsto> (newConn (l_cfg l))\<lparr>is_server := True\<rparr>),
                   next_conn := Suc (next_conn l)\<rparr>)
      else None)"

text \<open>\<open>recvPacket\<close> on a packet of at least one byte. A packet with the direction bit from an address
  without an opened stream goes on to the accepted connections.\<close>
definition recvPacket :: "RDTListener \<Rightarrow> nat \<Rightarrow> bytes \<Rightarrow> bytes \<Rightarrow> string \<Rightarrow> (RDTListener \<times> bytes list) option" where
  "recvPacket l n pkt spare addr =
     (if pkt = [] then None
      else
        let from_server = (0x80 AND hd pkt = 0x80);
            pkt' = strip_dir pkt
        in case (if from_server then openConnMap l addr else None) of
             Some i \<Rightarrow> conn_recv l i n (GSlice pkt' spare)
           | None \<Rightarrow>
               (case acceptConnMap l addr of
                  Some i \<Rightarrow>
                    if live l i then conn_recv l i n (GSlice pkt' spare)
                    else if hd pkt' \<noteq> 0 then Some (l, [])
                    else do { l1 \<leftarrow> new_accept l addr; conn_recv l1 (next_conn l) n (GSlice pkt' spare) }
                | None \<Rightarrow>
                    if hd pkt' \<noteq> 0 then Some (l, [])
                    else do { l1 \<leftarrow> new_accept l addr; conn_recv l1 (next_conn l) n (GSlice pkt' spare) }))"

text \<open>One iteration of \<open>runPacketReadLoop\<close> whose \<open>ReadFrom\<close> succeeds; the buffer has 1500 bytes.\<close>
definition packetReadLoop :: "RDTListener \<Rightarrow> nat \<Rightarrow> bytes \<Rightarrow> bytes \<Rightarrow> string \<Rightarrow> (RDTListener \<times> bytes list) option" where
  "packetReadLoop l n dgram spare addr =
     (if l_exit l then None
      else let pkt = take 1500 dgram in
        if length pkt < 7 then Some (l, []) else recvPacket l n pkt spare addr)"

text \<open>\<open>OpenStream\<close>: an earlier stream to the same address is replaced.\<close>
definition OpenStream :: "RDTListener \<Rightarrow> string \<Rightarrow> RDTListener \<times> nat" where
  "OpenStream l addr =
     (l\<lparr>openConnMap := (openConnMap l)(addr \<mapsto> next_conn l),
        conns := (conns l)(next_conn l \<mapsto> newConn (l_cfg l)),
        next_conn := Suc (next_conn l)\<rparr>, next_conn l)"

datatype accept_error = AcceptClosed

text \<open>\<open>Accept\<close>, with the case its \<open>select\<close> takes; \<^const>\<open>None\<close>: that case is not ready.\<close>
definition Accept :: "RDTListener \<Rightarrow> bool \<Rightarrow> (RDTListener \<times> (accept_error + nat)) option" where
  "Accept l take_exit =
     (if take_exit then (if l_exit l then Some (l, Inl AcceptClosed) else None)
      else case l_accept l of
             [] \<Rightarrow> None
           | i # is \<Rightarrow> Some (l\<lparr>l_accept := is\<rparr>, Inr i))"

text \<open>\<open>Close\<close> visits the connections in the order of the map iteration; \<open>arr i\<close> are the
  acknowledgements that arrive while connection \<open>i\<close> closes, \<open>n\<close> its FIN transmissions.\<close>
fun close_conns :: "(nat \<Rightarrow> u32 list) \<Rightarrow> nat \<Rightarrow> nat list \<Rightarrow> RDTListener \<Rightarrow> RDTListener \<times> bytes list" where
  "close_conns arr n [] l = (l, [])"
| "close_conns arr n (i # is) l =
     (case conns l i of
        None \<Rightarrow> close_conns arr n is l
      | Some c \<Rightarrow>
          (let (c', out) = Close c (arr i) n;
               (l', outs) = close_conns arr n is (l\<lparr>conns := (conns l)(i \<mapsto> c')\<rparr>)
           in (l', out @ outs)))"

text \<open>A second call closes the closed channel \<open>exitSig\<close> and panics.\<close>
definition listener_Close :: "RDTListener \<Rightarrow> (nat \<Rightarrow> u32 list) \<Rightarrow> nat \<Rightarrow> nat list \<Rightarrow> nat list \<Rightarrow> (RDTListener \<times> bytes list) option" where
  "listener_Close l arr n accepted opened =
     (if l_exit l then None
      else Some (close_conns arr n (accepted @ opened) (l\<lparr>l_exit := True\<rparr>)))"

section \<open>Statistics\<close>

record Stat =
  st_RemoteAddr :: string
  st_RecvNO :: u32
  st_SentNO :: u32
  st_ACKNO :: u32
  st_State :: int
  st_RecvPool :: nat
  st_SendPool :: nat
  st_Resend :: u32

definition conn_stat :: "string \<Rightarrow> rdtConn \<Rightarrow> Stat" where
  "conn_stat k v =
     \<lparr>st_RemoteAddr = k, st_RecvNO = recvNO v, st_SentNO = sentNO v, st_ACKNO = ackNO v,
      st_State = cstate v, st_RecvPool = card (dom (recvPool v)), st_SendPool = card (dom (sendPool v)),
      st_Resend = rs v\<rparr>"

text \<open>The two lists of the \<open>/stat\<close> endpoint, for the keys in the order of the map iterations.\<close>
definition listener_stats :: "RDTListener \<Rightarrow> string list \<Rightarrow> string list \<Rightarrow> Stat list \<times> Stat list" where
  "listener_stats l accepted opened =
     (let stats = (\<lambda>m ks. concat (map (\<lambda>k. case m k of None \<Rightarrow> []
            | Some i \<Rightarrow> (case conns l i of None \<Rightarrow> [] | Some c \<Rightarrow> [conn_stat k c])) ks))
      in (stats (acceptConnMap l) accepted, stats (openConnMap l) opened))"

section \<open>Well-formedness\<close>

text \<open>Ids below \<open>next_conn\<close> are allocated; a connection belongs to one address and one map; the
  accepted ones carry the server's direction bit and the opened ones do not.\<close>
definition listener_ok :: "RDTListener \<Rightarrow> bool" where
  "listener_ok l \<longleftrightarrow>
     dom (conns l) = {..<next_conn l} \<and> set (l_accept l) \<subseteq> {..<next_conn l} \<and>
     (\<forall>a i. acceptConnMap l a = Some i \<longrightarrow> (\<exists>c. conns l i = Some c \<and> is_server c)) \<and>
     (\<forall>a i. openConnMap l a = Some i \<longrightarrow> (\<exists>c. conns l i = Some c \<and> \<not> is_server c)) \<and>
     inj_on (acceptConnMap l) (dom (acceptConnMap l)) \<and> inj_on (openConnMap l) (dom (openConnMap l)) \<and>
     length (l_accept l) \<le> accept_cap"

lemma drain_is_server: "drain c = Some c' \<Longrightarrow> is_server c' = is_server c"
proof (erule drain.raw_induct [rotated, where P = "\<lambda>c c'. is_server c' = is_server c"])
  fix dr c c'
  assume IH: "\<And>c c'. dr c = Some c' \<Longrightarrow> is_server c' = is_server c"
    and eq: "(case recvPool c (recvNO c + 1) of None \<Rightarrow> Some c
        | Some k \<Rightarrow> if length (inbound c) < inbound_cap
            then dr (c\<lparr>recvPool := (recvPool c)(recvNO c := None), inbound := inbound c @ [k], recvNO := recvNO c + 1\<rparr>)
            else None) = Some c'"
  then show "is_server c' = is_server c"
    by (auto split: option.splits if_splits dest!: IH)
qed

lemma Close_is_server [simp]: "is_server (fst (Close c a n)) = is_server c"
  by (simp add: Close_def)

lemma recv_is_server:
  assumes "recv c n pkt = Some (c', out)"
  shows "is_server c' = is_server c"
proof -
  have fin: "Close (c\<lparr>fin := f\<rparr>) [] n = (c', o') \<Longrightarrow> is_server c' = is_server c" for f o'
    using Close_is_server [of "c\<lparr>fin := f\<rparr>" "[]" n] by simp
  have data: "recvData c no d = Some (c', out) \<Longrightarrow> is_server c' = is_server c" for no d
    by (auto simp: recvData_def deliver_def dest!: drain_is_server split: if_splits bind_splits)
  have fin': "recvFIN c n no = Some (c', out) \<Longrightarrow> is_server c' = is_server c" for no
    by (auto simp: recvFIN_def Let_def fin split: if_splits prod.splits)
  show ?thesis
    using assms by (auto simp: recv_def recvQuery_def recvNCK_def recvFinack_def Let_def
        dest!: data fin' split: option.splits prod.splits if_splits)
qed

lemma conn_recv_ok:
  assumes "conn_recv l i n pkt = Some (l', out)" and "listener_ok l"
  shows "listener_ok l' \<and> next_conn l' = next_conn l \<and> acceptConnMap l' = acceptConnMap l \<and>
    openConnMap l' = openConnMap l \<and> (\<forall>j. j \<noteq> i \<longrightarrow> conns l' j = conns l j)"
proof -
  from assms(1) obtain c c' where c: "conns l i = Some c" "recv c n pkt = Some (c', out)"
    and l': "l' = l\<lparr>conns := (conns l)(i \<mapsto> c')\<rparr>"
    by (auto simp: conn_recv_def split: option.splits)
  have "is_server c' = is_server c" using c(2) by (rule recv_is_server)
  then have "\<exists>d. ((conns l)(i \<mapsto> c')) j = Some d \<and> is_server d = b"
    if "\<exists>d. conns l j = Some d \<and> is_server d = b" for j b
    using that c(1) by auto
  note keep = this [of _ True, simplified] this [of _ False, simplified]
  have "dom ((conns l)(i \<mapsto> c')) = dom (conns l)" using c(1) by auto
  with assms(2) keep show ?thesis
    unfolding listener_ok_def l' by simp
qed

lemma new_accept_ok:
  assumes "new_accept l addr = Some l'" and "listener_ok l"
  shows "listener_ok l' \<and> (\<forall>j. j < next_conn l \<longrightarrow> conns l' j = conns l j) \<and> openConnMap l' = openConnMap l \<and>
    (\<forall>b. b \<noteq> addr \<longrightarrow> acceptConnMap l' b = acceptConnMap l b) \<and> conns l' (next_conn l) \<noteq> None"
proof -
  let ?c = "(newConn (l_cfg l))\<lparr>is_server := True\<rparr>"
  from assms(1) have l': "l' = l\<lparr>l_accept := l_accept l @ [next_conn l],
      acceptConnMap := (acceptConnMap l)(addr \<mapsto> next_conn l), conns := (conns l)(next_conn l \<mapsto> ?c),
      next_conn := Suc (next_conn l)\<rparr>" and len: "length (l_accept l) < accept_cap"
    by (auto simp: new_accept_def split: if_splits)
  have fresh: "conns l (next_conn l) = None" using assms(2) by (auto simp: listener_ok_def)
  then have "acceptConnMap l a \<noteq> Some (next_conn l)" for a
    using assms(2) unfolding listener_ok_def by (metis option.distinct(1))
  then have "inj_on ((acceptConnMap l)(addr \<mapsto> next_conn l)) (dom ((acceptConnMap l)(addr \<mapsto> next_conn l)))"
    using assms(2) by (auto simp: listener_ok_def inj_on_def)
  moreover have "(\<exists>c. ((conns l)(next_conn l \<mapsto> ?c)) i = Some c \<and> is_server c = b)"
    if "\<exists>c. conns l i = Some c \<and> is_server c = b" for i b
    using that fresh by auto
  note this [of _ True, simplified] this [of _ False, simplified]
  moreover have "is_server ?c" by simp
  moreover have "dom ((conns l)(next_conn l \<mapsto> ?c)) = {..<Suc (next_conn l)}"
    using assms(2) by (auto simp: listener_ok_def lessThan_Suc)
  ultimately show ?thesis
    using assms(2) len unfolding listener_ok_def l' by (auto simp: lessThan_Suc)
qed

text \<open>The connection a packet of address \<open>addr\<close> is for.\<close>
lemma recvPacket_cases:
  assumes "recvPacket l n pkt spare addr = Some (l', out)" and "listener_ok l"
  shows "l' = l \<and> out = [] \<or>
    (\<exists>i. (acceptConnMap l addr = Some i \<or> openConnMap l addr = Some i) \<and>
       conn_recv l i n (GSlice (strip_dir pkt) spare) = Some (l', out)) \<or>
    (\<exists>l1. new_accept l addr = Some l1 \<and> conn_recv l1 (next_conn l) n (GSlice (strip_dir pkt) spare) = Some (l', out))"
  using assms(1) unfolding recvPacket_def
  by (auto simp: Let_def split: if_splits option.splits bind_splits)

lemma recvPacket_ok:
  assumes "recvPacket l n pkt spare addr = Some (l', out)" and "listener_ok l"
  shows "listener_ok l'"
  using recvPacket_cases [OF assms] conn_recv_ok new_accept_ok assms(2) by blast

lemma OpenStream_ok:
  assumes "listener_ok l"
  shows "listener_ok (fst (OpenStream l addr))"
proof -
  let ?c = "newConn (l_cfg l)"
  have fresh: "conns l (next_conn l) = None" using assms by (auto simp: listener_ok_def)
  then have "openConnMap l a \<noteq> Some (next_conn l)" for a
    using assms unfolding listener_ok_def by (metis option.distinct(1))
  then have "inj_on ((openConnMap l)(addr \<mapsto> next_conn l)) (dom ((openConnMap l)(addr \<mapsto> next_conn l)))"
    using assms by (auto simp: listener_ok_def inj_on_def)
  moreover have "(\<exists>c. ((conns l)(next_conn l \<mapsto> ?c)) i = Some c \<and> is_server c = b)"
    if "\<exists>c. conns l i = Some c \<and> is_server c = b" for i b
    using that fresh by auto
  note this [of _ True, simplified] this [of _ False, simplified]
  moreover have "\<not> is_server ?c" by (simp add: newConn_def)
  moreover have "dom ((conns l)(next_conn l \<mapsto> ?c)) = {..<Suc (next_conn l)}"
    using assms by (auto simp: listener_ok_def lessThan_Suc)
  ultimately show ?thesis
    using assms unfolding listener_ok_def OpenStream_def by (auto simp: lessThan_Suc)
qed

lemma Accept_ok:
  assumes "listener_ok l" and "Accept l x = Some (l', r)"
  shows "listener_ok l'"
proof (cases "l_accept l")
  case Nil
  with assms show ?thesis by (auto simp: Accept_def split: if_splits)
next
  case (Cons i js)
  with assms(2) have "l' = l \<or> l' = l\<lparr>l_accept := js\<rparr>" by (auto simp: Accept_def split: if_splits)
  moreover have "listener_ok (l\<lparr>l_accept := js\<rparr>)" using assms(1) Cons unfolding listener_ok_def by simp
  ultimately show ?thesis using assms(1) by blast
qed

lemma close_conns_ok:
  "listener_ok l \<Longrightarrow> listener_ok (fst (close_conns arr n is l))"
proof (induction arr n "is" l rule: close_conns.induct)
  case (1 arr n l)
  then show ?case by simp
next
  case (2 arr n i "is" l)
  show ?case
  proof (cases "conns l i")
    case None
    with 2 show ?thesis by simp
  next
    case (Some c)
    obtain c' out where cl: "Close c (arr i) n = (c', out)" by fastforce
    then have srv: "is_server c' = is_server c" using Close_is_server [of c "arr i" n] by simp
    then have "\<exists>d. ((conns l)(i \<mapsto> c')) j = Some d \<and> is_server d = b"
      if "\<exists>d. conns l j = Some d \<and> is_server d = b" for j b
      using that Some by auto
    note keep = this [of _ True, simplified] this [of _ False, simplified]
    have "dom ((conns l)(i \<mapsto> c')) = dom (conns l)" using Some by auto
    with 2(3) keep have "listener_ok (l\<lparr>conns := (conns l)(i \<mapsto> c')\<rparr>)"
      unfolding listener_ok_def by simp
    from 2(2) [OF Some _ _ this] cl show ?thesis using Some by (simp add: case_prod_unfold Let_def)
  qed
qed

section \<open>Reachable listeners\<close>

inductive listener_reach :: "RDTListener \<Rightarrow> bool" where
  lr_listen: "listener_reach (Listen opts)"
| lr_packet: "listener_reach l \<Longrightarrow> packetReadLoop l n dgram spare addr = Some (l', out) \<Longrightarrow> listener_reach l'"
| lr_open: "listener_reach l \<Longrightarrow> listener_reach (fst (OpenStream l addr))"
| lr_accept: "listener_reach l \<Longrightarrow> Accept l x = Some (l', r) \<Longrightarrow> listener_reach l'"
| lr_close: "listener_reach l \<Longrightarrow> listener_Close l arr n accepted opened = Some (l', out) \<Longrightarrow> listener_reach l'"

lemma listener_ok_exit: "listener_ok l \<Longrightarrow> listener_ok (l\<lparr>l_exit := b\<rparr>)"
  by (simp add: listener_ok_def)

lemma reach_listener_ok: "listener_reach l \<Longrightarrow> listener_ok l"
proof (induction rule: listener_reach.induct)
  case (lr_listen opts)
  then show ?case by (simp add: listener_ok_def Listen_def)
next
  case (lr_packet l n dgram spare addr l' out)
  then show ?case using recvPacket_ok by (auto simp: packetReadLoop_def Let_def split: if_splits)
next
  case (lr_open l addr)
  then show ?case by (simp add: OpenStream_ok)
next
  case (lr_accept l x l' r)
  then show ?case using Accept_ok by blast
next
  case (lr_close l arr n accepted opened l' out)
  then have "l' = fst (close_conns arr n (accepted @ opened) (l\<lparr>l_exit := True\<rparr>))"
    by (auto simp: listener_Close_def split: if_splits)
  with lr_close show ?case using close_conns_ok listener_ok_exit by metis
qed

section \<open>The first packet of a connection\<close>

lemma first_data:
  assumes "acceptConnMap l addr = None" and "length (l_accept l) < accept_cap"
    and "15 \<le> MTU (l_cfg l)" and "MTU (l_cfg l) \<le> 1500" and "length d \<le> 1493"
  shows "\<exists>l' c. recvPacket l n (buildFrame 0 1 (of_nat (length d)) d) spare addr = Some (l', []) \<and>
    acceptConnMap l' addr = Some (next_conn l) \<and> l_accept l' = l_accept l @ [next_conn l] \<and>
    conns l' (next_conn l) = Some c \<and> is_server c \<and> inbound c = [d] \<and> recvNO c = 1"
proof -
  let ?f = "buildFrame 0 1 (of_nat (length d)) d"
  let ?c = "(newConn (l_cfg l))\<lparr>is_server := True\<rparr>"
  let ?l = "l\<lparr>l_accept := l_accept l @ [next_conn l], acceptConnMap := (acceptConnMap l)(addr \<mapsto> next_conn l),
      conns := (conns l)(next_conn l \<mapsto> ?c), next_conn := Suc (next_conn l)\<rparr>"
  have f: "?f \<noteq> []" "hd ?f = 0" "strip_dir ?f = ?f" by (simp_all add: buildFrame_def strip_dir_def)
  have acc: "new_accept l addr = Some ?l" using assms(2) by (simp add: new_accept_def)
  have win: "unat (window ?c) = nat ((MTU (l_cfg l) - 7) div 4)"
  proof -
    have "go_div (MTU (l_cfg l) - 7) 4 = (MTU (l_cfg l) - 7) div 4" using assms(3) by (simp add: go_div_def)
    moreover have "0 \<le> (MTU (l_cfg l) - 7) div 4" "(MTU (l_cfg l) - 7) div 4 < 4294967296"
      using assms(3,4) by linarith+
    ultimately show ?thesis by (simp add: newConn_def unsigned_of_int take_bit_int_eq_self)
  qed
  then have w2: "2 \<le> unat (window ?c)" using assms(3) by linarith
  have "unat (1 mod window ?c) = 1" using w2 by (simp only: unat_mod_distrib unat_1) simp
  then have mod: "1 mod window ?c \<noteq> 0" by (metis unat_0 zero_neq_one)
  have nz: "window ?c \<noteq> 0" using w2 by auto
  have "drain (?c\<lparr>inbound := [d], recvNO := 1\<rparr>) = Some (?c\<lparr>inbound := [d], recvNO := 1\<rparr>)"
    by (subst drain.simps) (simp add: newConn_def)
  then have "recvData ?c 1 d = Some (?c\<lparr>inbound := [d], recvNO := 1\<rparr>, [])"
    using mod nz by (simp add: recvData_def deliver_def newConn_def conn_state_defs inbound_cap_def)
  then have "recv ?c n (GSlice ?f spare) = Some (?c\<lparr>inbound := [d], recvNO := 1\<rparr>, [])"
    using assms(5) by (simp add: recv_def frame_data_build)
  then have "conn_recv ?l (next_conn l) n (GSlice ?f spare) =
      Some (?l\<lparr>conns := (conns ?l)(next_conn l \<mapsto> ?c\<lparr>inbound := [d], recvNO := 1\<rparr>)\<rparr>, [])"
    by (simp add: conn_recv_def)
  then have "recvPacket l n ?f spare addr =
      Some (?l\<lparr>conns := (conns ?l)(next_conn l \<mapsto> ?c\<lparr>inbound := [d], recvNO := 1\<rparr>)\<rparr>, [])"
    unfolding recvPacket_def f(3) using f(1,2) assms(1) acc by (simp add: Let_def)
  then show ?thesis
    by (intro exI [of _ "?l\<lparr>conns := (conns ?l)(next_conn l \<mapsto> ?c\<lparr>inbound := [d], recvNO := 1\<rparr>)\<rparr>"]
        exI [of _ "?c\<lparr>inbound := [d], recvNO := 1\<rparr>"]) simp
qed

section \<open>Properties\<close>

definition demo_listener :: RDTListener where "demo_listener = fst (OpenStream (Listen []) ''b'')"

lemma demo_listener_reach: "listener_reach demo_listener"
  unfolding demo_listener_def by (intro lr_open lr_listen)

text \<open>Every listener that opening, accepting, closing and arbitrary datagrams can reach is well
  formed: no connection serves two addresses or both directions, accepted connections carry the
  server's direction bit and opened ones do not.\<close>
theorem listener_wellformed:
  assumes "listener_reach l"
  shows "listener_ok l"
  using assms by (rule reach_listener_ok)

theorem listener_wellformed_witness:
  "openConnMap demo_listener ''b'' = Some 0 \<and> listener_ok demo_listener"
  using listener_wellformed [OF demo_listener_reach] by (simp add: demo_listener_def OpenStream_def Listen_def)

text \<open>Isolation: a datagram changes no connection but those of its own remote address, and no map
  entry of another address.\<close>
theorem recvPacket_isolated:
  assumes "listener_ok l" and "recvPacket l n pkt spare addr = Some (l', out)"
    and "j < next_conn l" and "acceptConnMap l addr \<noteq> Some j" and "openConnMap l addr \<noteq> Some j"
  shows "conns l' j = conns l j \<and> openConnMap l' = openConnMap l \<and>
    (\<forall>b. b \<noteq> addr \<longrightarrow> acceptConnMap l' b = acceptConnMap l b)"
proof -
  consider "l' = l" | i where "acceptConnMap l addr = Some i \<or> openConnMap l addr = Some i"
      "conn_recv l i n (GSlice (strip_dir pkt) spare) = Some (l', out)"
    | l1 where "new_accept l addr = Some l1" "conn_recv l1 (next_conn l) n (GSlice (strip_dir pkt) spare) = Some (l', out)"
    using recvPacket_cases [OF assms(2,1)] by blast
  then show ?thesis
  proof cases
    case 1
    then show ?thesis by simp
  next
    case 2
    then have "j \<noteq> i" using assms(4,5) by auto
    with conn_recv_ok [OF 2(2) assms(1)] show ?thesis by simp
  next
    case 3
    note n = new_accept_ok [OF 3(1) assms(1)]
    note r = conn_recv_ok [OF 3(2)]
    have "listener_ok l1" using n by simp
    from r [OF this] n assms(3) show ?thesis by simp
  qed
qed

theorem recvPacket_isolated_witness:
  "\<exists>l' out. recvPacket demo_listener 0 (buildFrame 0 1 1 [7]) [] ''a'' = Some (l', out) \<and>
     conns l' 0 = conns demo_listener 0"
proof -
  let ?r = "recvPacket demo_listener 0 (buildFrame 0 1 1 [7]) [] ''a''"
  obtain l' out where r: "?r = Some (l', out)"
    using first_data [of demo_listener "''a''" "[7]" 0 "[]"]
    by (auto simp: demo_listener_def OpenStream_def Listen_def listen_default_def accept_cap_def)
  have ok: "listener_ok demo_listener" by (rule reach_listener_ok [OF demo_listener_reach])
  have "0 < next_conn demo_listener" "acceptConnMap demo_listener ''a'' \<noteq> Some 0"
    "openConnMap demo_listener ''a'' \<noteq> Some 0"
    by (simp_all add: demo_listener_def OpenStream_def Listen_def)
  from recvPacket_isolated [OF ok r this] r show ?thesis by blast
qed

text \<open>Acceptance without a handshake: the first data frame from an unknown address creates an
  accepted connection, queues it for \<open>Accept\<close> and delivers the data to its reader.\<close>
theorem first_data_frame_accepts:
  assumes "acceptConnMap l addr = None" and "length (l_accept l) < accept_cap"
    and "15 \<le> MTU (l_cfg l)" and "MTU (l_cfg l) \<le> 1500" and "length d \<le> 1493"
  shows "\<exists>l' c. recvPacket l n (buildFrame 0 1 (of_nat (length d)) d) spare addr = Some (l', []) \<and>
    acceptConnMap l' addr = Some (next_conn l) \<and> l_accept l' = l_accept l @ [next_conn l] \<and>
    conns l' (next_conn l) = Some c \<and> is_server c \<and> inbound c = [d] \<and> recvNO c = 1"
  using assms by (rule first_data)

theorem first_data_frame_accepts_witness:
  "\<exists>l' c. recvPacket demo_listener 0 (buildFrame 0 1 1 [7]) [] ''a'' = Some (l', []) \<and>
     conns l' 1 = Some c \<and> inbound c = [[7]]"
  using first_data_frame_accepts [of demo_listener "''a''" "[7]" 0 "[]"]
  by (auto simp: demo_listener_def OpenStream_def Listen_def listen_default_def accept_cap_def)

end
