(* ===== verification/Serving.thy ===== *)
theory Serving
  imports Commands Share Ipc Rdt_Listener Vpn_Node
begin

text \<open>
  The servers and clients around the models of single requests: the accept loop of the file sharing side and the
  request of the downloading side (\<open>fileshare/filemanager.go\<close>, \<open>downloader.go\<close>, \<open>cmd/pgcli/download/download.go\<close>), the
  local control socket of a VPN node (\<open>cmd/pgcli/vpn/ipc/server/http.go\<close>), and the ICMP answer for unreachable
  peers (\<open>vpn/icmp.go\<close>). The surroundings (sockets, files, the parts of the network) are arguments.
\<close>

section \<open>Adding files\<close>

text \<open>\<open>FileManager.Add\<close>: \<open>absolute\<close> is \<open>filepath.Abs\<close>, \<open>home\<close> the home directory of the user when it is known and \<open>lstat\<close>
  what lies at a path. The result says whether the call succeeded.\<close>
definition fm_Add :: "(string \<Rightarrow> string option) \<Rightarrow> string option \<Rightarrow> (string \<Rightarrow> node option) \<Rightarrow> string \<Rightarrow> FileManager \<Rightarrow> FileManager \<times> bool" where
  "fm_Add absolute home lstat file fm =
     (case absolute file of
        None \<Rightarrow> (fm, False)
      | Some p \<Rightarrow>
          (case (if take 1 file = ''~'' then map_option (\<lambda>h. path_Join h (drop 1 file)) home else Some p) of
             None \<Rightarrow> (fm, False)
           | Some path \<Rightarrow> (case lstat path of None \<Rightarrow> (fm, False) | Some n \<Rightarrow> addAbs path n fm)))"

section \<open>The network of the two sides\<close>

datatype net_error = ServerInvalid node_error | OptionRefused | ListenRefused

text \<open>The server and the credentials of a public network: its name is its secret.\<close>
definition public_server :: "(string \<Rightarrow> string option) \<Rightarrow> string \<Rightarrow> string \<Rightarrow> node_error + string \<times> secret_store" where
  "public_server scheme name server =
     (let network = or_else name ''pubnet'' in
      NewServer scheme server (Some (Static \<lparr>ns_Secret = network, ns_Network = network, ns_Expire = 0\<rparr>)))"

text \<open>\<open>PublicNetwork.ListenPacket\<close> and \<open>rdt.Listen\<close>: the server, the configuration of the packet connection and the
  listener over it. \<open>up\<close>: the packet connection can be opened.\<close>
definition listen_public :: "(string \<Rightarrow> string option) \<Rightarrow> string \<Rightarrow> string \<Rightarrow> bool \<Rightarrow> curve \<Rightarrow> ((PeerID \<Rightarrow> bytes option) \<Rightarrow> 'e SymmAlgo) \<Rightarrow> bytes option \<Rightarrow> PeerID \<Rightarrow> bytes \<Rightarrow> nat
    \<Rightarrow> net_error + ((string \<times> secret_store) \<times> 'e p2p_Config \<times> RDTListener)" where
  "listen_public scheme name server up cv algo generated rid key udpPort =
     (case public_server scheme name server of
        Inl e \<Rightarrow> Inl (ServerInvalid e)
      | Inr pmap \<Rightarrow>
          (case apply_options (public_options cv algo generated key (int udpPort)) (default_config rid) of
             None \<Rightarrow> Inl OptionRefused
           | Some cfg \<Rightarrow>
               if \<not> up then Inl ListenRefused
               else Inr (pmap, cfg, Listen [OptEnableStatsServer ('':'' @ Itoa (udpPort + 100))])))"

text \<open>\<open>ListenNetwork\<close>: the id of the sharing side, for its links, and its listener.\<close>
definition ListenNetwork :: "(string \<Rightarrow> string option) \<Rightarrow> string \<Rightarrow> string \<Rightarrow> bool \<Rightarrow> curve \<Rightarrow> ((PeerID \<Rightarrow> bytes option) \<Rightarrow> 'e SymmAlgo) \<Rightarrow> bytes option \<Rightarrow> PeerID \<Rightarrow> bytes \<Rightarrow> nat
    \<Rightarrow> net_error + (PeerID \<times> RDTListener)" where
  "ListenNetwork scheme name server up cv algo generated rid key udpPort =
     (case listen_public scheme name server up cv algo generated rid key udpPort of
        Inl e \<Rightarrow> Inl e | Inr (_, cfg, l) \<Rightarrow> Inr (pr_ID (po_PeerInfo cfg), l))"

section \<open>The accept loop\<close>

text \<open>What \<open>Accept\<close> gives in turn until the context is done: an error, or a connection with the bytes that
  its client sends; a client that has not closed its side may keep the handler waiting for more.\<close>
datatype arrival = Refused | Client bool bytes

definition needs_more :: "FileManager \<Rightarrow> (string \<rightharpoonup> bytes) \<Rightarrow> bytes \<Rightarrow> bool" where
  "needs_more fm opened inp \<longleftrightarrow>
     length inp < 4 \<or>
     (inp ! 0 = 0 \<and> (\<exists>index. get_u16be (drop 2 inp) = Some index \<and> openFile fm opened index \<noteq> None) \<and> length (drop 4 inp) < unat (inp ! 1))"

definition keeps_waiting :: "FileManager \<Rightarrow> (string \<rightharpoonup> bytes) \<Rightarrow> arrival \<Rightarrow> bool" where
  "keeps_waiting fm opened a \<longleftrightarrow> (case a of Refused \<Rightarrow> False | Client ended inp \<Rightarrow> \<not> ended \<and> needs_more fm opened inp)"

text \<open>\<open>Serve\<close>: one request after the other; the answers, and the arrivals that are not served when the context
  is done. \<^const>\<open>None\<close> is a panic.\<close>
fun fm_Serve :: "(bytes \<Rightarrow> bytes) \<Rightarrow> FileManager \<Rightarrow> (string \<rightharpoonup> bytes) \<Rightarrow> arrival list \<Rightarrow> (bytes list \<times> arrival list) option" where
  "fm_Serve sha fm opened [] = Some ([], [])"
| "fm_Serve sha fm opened (Refused # r) = fm_Serve sha fm opened r"
| "fm_Serve sha fm opened (Client ended inp # r) =
     (if \<not> ended \<and> needs_more fm opened inp then Some ([], r)
      else case handleRequest sha fm opened inp of
        None \<Rightarrow> None
      | Some out \<Rightarrow> (case fm_Serve sha fm opened r of None \<Rightarrow> None | Some (outs, u) \<Rightarrow> Some (out # outs, u)))"

section \<open>Downloading\<close>

datatype request_error = NetError net_error | InvalidURL | DialFailed | ReadFailed share_error

text \<open>\<open>Downloader.Request\<close> with \<open>readFile\<close>: the file that it writes with its content, and what it sends at the end.
  \<open>net\<close> is the result of listening, \<open>dials\<close> whether a stream to a peer opens, and \<open>server\<close> a peer's answers.\<close>
definition Downloader_Request :: "(bytes \<Rightarrow> bytes) \<Rightarrow> (string \<Rightarrow> (string \<times> string) option) \<Rightarrow> net_error option \<Rightarrow> (string \<Rightarrow> bool) \<Rightarrow> (string \<Rightarrow> bytes \<Rightarrow> bytes)
    \<Rightarrow> (string \<rightharpoonup> bytes) \<Rightarrow> string \<Rightarrow> (string \<rightharpoonup> bytes) \<times> bytes \<times> request_error option" where
  "Downloader_Request sha parse net dials server files shareURL =
     (case net of
        Some e \<Rightarrow> (files, [], Some (NetError e))
      | None \<Rightarrow>
          (case request_target parse shareURL of
             None \<Rightarrow> (files, [], Some InvalidURL)
           | Some (peer, index, fn) \<Rightarrow>
               if \<not> dials peer then (files, [], Some DialFailed)
               else (case readFile sha (server peer) \<lparr>h_index = index, h_fSize = 0, h_limit = None\<rparr> (files fn) of
                       (content, r) \<Rightarrow> (files(fn \<mapsto> content), buildClose, case r of Inl e \<Rightarrow> Some (ReadFailed e) | Inr _ \<Rightarrow> None))))"

record download_args =
  dl_server :: string
  dl_network :: string
  dl_loglevel :: int

definition download_flags :: "num_env \<Rightarrow> string \<Rightarrow> download_args flag option" where
  "download_flags nu = map_of [(''s'', string_flag (\<lambda>v a. a\<lparr>dl_server := v\<rparr>)), (''pubnet'', string_flag (\<lambda>v a. a\<lparr>dl_network := v\<rparr>)),
     (''loglevel'', parsed_flag (nu_int nu) (\<lambda>x a. a\<lparr>dl_loglevel := x\<rparr>))]"

text \<open>The server, the network and the link that the command asks for; \<^const>\<open>None\<close> for the result: unknown server.\<close>
definition download_Run :: "num_env \<Rightarrow> (string \<Rightarrow> string) \<Rightarrow> string list \<Rightarrow> (string \<times> string \<times> string) option option" where
  "download_Run nu env args =
     (case flag_Parse (download_flags nu) args \<lparr>dl_server = '''', dl_network = ''public'', dl_loglevel = 1\<rparr> of
        None \<Rightarrow> None
      | Some (a, rest) \<Rightarrow>
          (let server = or_else (dl_server a) (env ''PG_SERVER'') in
           Some (if server = '''' then None else Some (server, dl_network a, arg rest 0))))"

section \<open>The control socket of a node\<close>

text \<open>The path of the socket: a file may be there, and a process may listen on it.\<close>
record ipc_socket =
  is_exists :: bool
  is_listening :: bool

datatype ipc_error = AlreadyInUse | SocketFailed

text \<open>\<open>Server.Start\<close>; \<open>ok\<close>: the socket can be created.\<close>
definition ipc_Start :: "bool \<Rightarrow> ipc_socket \<Rightarrow> ipc_socket \<times> ipc_error option" where
  "ipc_Start ok s =
     (if is_exists s \<and> is_listening s then (s, Some AlreadyInUse)
      else let s1 = s\<lparr>is_exists := False\<rparr> in
        if ok then (\<lparr>is_exists = True, is_listening = True\<rparr>, None) else (s1, Some SocketFailed))"

text \<open>The goroutine of \<open>Start\<close>, once the context is done.\<close>
definition ipc_shutdown :: "ipc_socket \<Rightarrow> ipc_socket" where
  "ipc_shutdown s = \<lparr>is_exists = False, is_listening = False\<rparr>"

text \<open>\<open>PacketConn.NodeInfo\<close>: \<open>answers\<close> are the addresses that the STUN servers report within five seconds.\<close>
record node_info =
  ni_ID :: PeerID
  ni_Meta :: "url_values option"
  ni_NAT :: NATInfo

definition p2p_NodeInfo :: "(int \<Rightarrow> bool) \<Rightarrow> (UDPAddr \<Rightarrow> string) \<Rightarrow> UDPAddr list \<Rightarrow> UDPAddr list \<Rightarrow> Peer \<Rightarrow> 'e PacketConn \<Rightarrow> ('e PacketConn \<times> node_info) option" where
  "p2p_NodeInfo listen str la answers me c =
     map_option (\<lambda>(u, info). (c\<lparr>pn_udp := u\<rparr>, \<lparr>ni_ID = pr_ID me, ni_Meta = pr_Metadata me, ni_NAT = info\<rparr>))
       (DetectNAT listen str la answers (pn_udp c))"

datatype ipc_reply = IPeers "peer_status list" | INode node_info string | INotFound

text \<open>A request to the socket, by its path.\<close>
definition ipc_handle :: "(int \<Rightarrow> bool) \<Rightarrow> (UDPAddr \<Rightarrow> string) \<Rightarrow> UDPAddr list \<Rightarrow> UDPAddr list \<Rightarrow> Peer \<Rightarrow> string \<Rightarrow> PeerState list \<Rightarrow> nic_Peer list \<Rightarrow> string
    \<Rightarrow> 'e PacketConn \<Rightarrow> ('e PacketConn \<times> ipc_reply) option" where
  "ipc_handle listen str la answers me version states nicPeers path c =
     (if path = ''/apis/p2p/v1alpha1/peers'' then Some (case ipc_QueryPeers str states nicPeers c of (c1, ps) \<Rightarrow> (c1, IPeers ps))
      else if path = ''/apis/p2p/v1alpha1/node_info''
      then map_option (\<lambda>(c1, i). (c1, INode i version)) (p2p_NodeInfo listen str la answers me c)
      else Some (c, INotFound))"

section \<open>The answer for unreachable peers\<close>

text \<open>The layers that are given to the library's serializer.\<close>
datatype icmp_layer =
    IPv4Layer IP IP nat nat | ICMPv4Layer nat nat
  | IPv6Layer IP IP nat nat | ICMPv6Layer nat nat
  | PayloadLayer bytes

text \<open>Time to live and protocol, or hop limit and next header; type and code.\<close>
definition icmp_layers :: "IP \<Rightarrow> IP \<Rightarrow> bytes \<Rightarrow> icmp_layer list" where
  "icmp_layers srcIP dstIP data =
     (if To4 srcIP \<noteq> None then [IPv4Layer srcIP dstIP 64 1, ICMPv4Layer 3 1]
      else [IPv6Layer srcIP dstIP 64 58, ICMPv6Layer 1 3, PayloadLayer (replicate 4 0)]) @ [PayloadLayer data]"

definition ICMPHostUnreachable :: "(icmp_layer list \<Rightarrow> bytes option) \<Rightarrow> IP \<Rightarrow> IP \<Rightarrow> bytes \<Rightarrow> bytes" where
  "ICMPHostUnreachable serialize srcIP dstIP data =
     (case serialize (icmp_layers srcIP dstIP data) of None \<Rightarrow> [] | Some b \<Rightarrow> b)"

section \<open>Properties\<close>

text \<open>The sharing side serves one client after the other: the answers are those of the requests up to
  the first client that keeps its handler waiting, in order; every client after that one
  is left without an answer, and so it is until the context is done.\<close>
theorem clients_served_in_order:
  assumes "fm_Serve sha fm opened cs = Some (outs, u)"
  shows "\<exists>pre blk. cs = pre @ blk @ u \<and> list_all (\<lambda>a. \<not> keeps_waiting fm opened a) pre \<and>
    map Some outs = List.map_filter (\<lambda>a. case a of Refused \<Rightarrow> None | Client _ inp \<Rightarrow> Some (handleRequest sha fm opened inp)) pre \<and>
    (blk = [] \<and> u = [] \<or> (\<exists>a. blk = [a] \<and> keeps_waiting fm opened a))"
  using assms
proof (induction sha fm opened cs arbitrary: outs u rule: fm_Serve.induct)
  case (1 sha fm opened)
  then show ?case by (simp add: List.map_filter_def)
next
  case (2 sha fm opened r)
  then have "fm_Serve sha fm opened r = Some (outs, u)" by simp
  from "2.IH" [OF this] obtain pre blk where "r = pre @ blk @ u" "list_all (\<lambda>a. \<not> keeps_waiting fm opened a) pre"
    "map Some outs = List.map_filter (\<lambda>a. case a of Refused \<Rightarrow> None | Client _ inp \<Rightarrow> Some (handleRequest sha fm opened inp)) pre"
    "blk = [] \<and> u = [] \<or> (\<exists>a. blk = [a] \<and> keeps_waiting fm opened a)" by blast
  then show ?case by (intro exI [of _ "Refused # pre"] exI [of _ blk]) (simp add: keeps_waiting_def List.map_filter_def)
next
  case (3 sha fm opened ended inp r)
  show ?case
  proof (cases "\<not> ended \<and> needs_more fm opened inp")
    case True
    with "3.prems" show ?thesis
      by (intro exI [of _ "[]"] exI [of _ "[Client ended inp]"]) (simp add: keeps_waiting_def List.map_filter_def)
  next
    case False
    with "3.prems" obtain out outs' where o: "handleRequest sha fm opened inp = Some out" "fm_Serve sha fm opened r = Some (outs', u)" "outs = out # outs'"
      by (auto split: option.splits)
    from "3.IH" [OF False o(1,2)] obtain pre blk where "r = pre @ blk @ u" "list_all (\<lambda>a. \<not> keeps_waiting fm opened a) pre"
      "map Some outs' = List.map_filter (\<lambda>a. case a of Refused \<Rightarrow> None | Client _ inp \<Rightarrow> Some (handleRequest sha fm opened inp)) pre"
      "blk = [] \<and> u = [] \<or> (\<exists>a. blk = [a] \<and> keeps_waiting fm opened a)" by blast
    with False o show ?thesis
      by (intro exI [of _ "Client ended inp # pre"] exI [of _ blk]) (simp add: keeps_waiting_def List.map_filter_def)
  qed
qed

theorem clients_served_in_order_witness:
  "\<exists>u. fm_Serve (\<lambda>_. replicate 32 0) fm_new Map.empty [Client True [0, 0, 0, 0], Client False [], Client True [0, 0, 0, 0]] = Some ([buildErr 2], u) \<and> u \<noteq> []"
proof -
  have s: "fm_Serve (\<lambda>_. replicate 32 0) fm_new Map.empty [Client True [0, 0, 0, 0], Client False [], Client True [0, 0, 0, 0]] =
      Some ([buildErr 2], [Client True [0, 0, 0, 0]])"
    by (simp add: handleRequest_def needs_more_def openFile_def fm_new_def)
  from clients_served_in_order [OF s] s show ?thesis by blast
qed

text \<open>The control socket: of two nodes of the same user at most one listens. A start leaves the socket of a
  node that listens as it is and fails; a socket file that nobody listens on is
  replaced; and after the shutdown a start is as the first one.\<close>
theorem one_control_socket:
  assumes "ipc_Start ok s = (s', e)"
  shows "(is_exists s \<and> is_listening s \<longrightarrow> s' = s \<and> e = Some AlreadyInUse) \<and>
    (\<not> (is_exists s \<and> is_listening s) \<longrightarrow> (e = None) = ok \<and> (ok \<longrightarrow> is_exists s' \<and> is_listening s')) \<and>
    (e = None \<longrightarrow> snd (ipc_Start ok2 s') = Some AlreadyInUse) \<and>
    ipc_Start ok (ipc_shutdown s') = ipc_Start ok \<lparr>is_exists = False, is_listening = False\<rparr>"
  using assms by (auto simp: ipc_Start_def ipc_shutdown_def Let_def split: if_splits)

theorem one_control_socket_witness:
  "\<exists>s. ipc_Start True \<lparr>is_exists = True, is_listening = False\<rparr> = (s, None) \<and> snd (ipc_Start True s) = Some AlreadyInUse"
proof -
  have s: "ipc_Start True \<lparr>is_exists = True, is_listening = False\<rparr> = (\<lparr>is_exists = True, is_listening = True\<rparr>, None)"
    by (simp add: ipc_Start_def)
  from one_control_socket [OF s] s show ?thesis by auto
qed

end
