(* ===== verification/Pages.thy ===== *)
theory Pages
  imports Oidc Api "HOL-Library.Char_ord" "HOL-Library.List_Lexorder"
begin

text \<open>
  The pages of the map server: which handler a request reaches (\<open>New\<close> of \<open>peermap/peermap.go\<close>), the pages of
  the login (\<open>peermap/oidc/http.go\<close>), the files of the web interface (\<open>peermap/ui\<close>), the errors of the
  package \<open>langs\<close>, and the login that a node asks for (\<open>cmd/pgcli/vpn/vpn.go\<close>). The library's
  multiplexer is modelled by its documented choice of the most specific pattern.
\<close>

section \<open>Routes\<close>

datatype pm_target =
    ToApi | ToApiSlash | ToStatic | ToConnect | ToNetworks | ToPeers | ToGetMeta string | ToPutMeta string
  | ToAuthorize string | ToSelector | ToProviders | ToSecret | ToAuthURL string

text \<open>The segments of a path that the multiplexer has cleaned; a slash at its end is an empty last segment.\<close>
definition path_segments :: "string \<Rightarrow> string list" where
  "path_segments p = split_on (CHR ''/'') (drop 1 p)"

text \<open>Patterns for GET also match HEAD; a wildcard stands for a segment that is not empty; every other request
  reaches the pattern \<open>/\<close>, and the path of \<open>/api/v1/\<close> without the slash is redirected.\<close>
definition pm_route :: "string \<Rightarrow> string list \<Rightarrow> pm_target" where
  "pm_route m segs =
     (let get = (m = ''GET'' \<or> m = ''HEAD'') in
      if take 2 segs = [''api'', ''v1''] then (if length segs = 2 then ToApiSlash else ToApi)
      else case segs of
        [a] \<Rightarrow> if get \<and> a = ''pg'' then ToConnect else if get \<and> a = ''oidc'' then ToSelector else ToStatic
      | [a, b] \<Rightarrow>
          if get \<and> a = ''pg'' \<and> b = ''networks'' then ToNetworks
          else if get \<and> a = ''pg'' \<and> b = ''peers'' then ToPeers
          else if get \<and> a = ''oidc'' then
            (if b = ''providers'' then ToProviders else if b = ''secret'' then ToSecret else if b \<noteq> '''' then ToAuthURL b else ToStatic)
          else ToStatic
      | [a, b, c] \<Rightarrow> if get \<and> a = ''oidc'' \<and> b = ''authorize'' \<and> c \<noteq> '''' then ToAuthorize c else ToStatic
      | [a, b, c, d] \<Rightarrow>
          if a = ''pg'' \<and> b = ''networks'' \<and> c \<noteq> '''' \<and> d = ''meta''
          then (if get then ToGetMeta c else if m = ''PUT'' then ToPutMeta c else ToStatic)
          else ToStatic
      | _ \<Rightarrow> ToStatic)"

section \<open>Static files\<close>

text \<open>\<open>HandleStaticFiles\<close>: the file of the embedded tree that is served; \<open>embedded\<close>: what can be opened there.\<close>
definition HandleStaticFiles :: "(string \<Rightarrow> bool) \<Rightarrow> string \<Rightarrow> string" where
  "HandleStaticFiles embedded path =
     (let f = path_Join ''dist'' (if has_prefix path ''/'' then drop 1 path else path) in
      if embedded f then f else ''dist/index.html'')"

section \<open>Pages of the login\<close>

datatype page = Page nat string | RedirectTo string

text \<open>\<open>auth_url\<close> is the address of the provider's login for a state.\<close>
definition OIDCAuthURL :: "('p OIDCProvider \<Rightarrow> string \<Rightarrow> string) \<Rightarrow> (string \<rightharpoonup> 'p OIDCProvider) \<Rightarrow> string \<Rightarrow> string \<Rightarrow> page" where
  "OIDCAuthURL auth_url providers name state =
     (case providers name of
        None \<Rightarrow> Page 400 (''provider '' @ name @ '' not found'')
      | Some p \<Rightarrow> RedirectTo (auth_url p state))"

definition selector_link :: "string \<Rightarrow> string \<Rightarrow> string \<Rightarrow> string \<Rightarrow> string" where
  "selector_link host path state p =
     ''<a href=\"//'' @ host @ path_Join path p @ ''?state='' @ state @ ''\">'' @ p @ ''</a><br />''"

text \<open>\<open>names\<close>: the names of the providers in the order of the iteration. The host of a request is that of the
  connection when its header has none.\<close>
definition OIDCSelector :: "string list \<Rightarrow> string \<Rightarrow> string \<Rightarrow> string \<Rightarrow> string \<Rightarrow> page" where
  "OIDCSelector names host_header host path state =
     Page 200 (''<meta name=\"viewport\" content=\"width=device-width, initial-scale=1.0\">'' @
       ''<style>body{font-size: 18px;line-height: 26px;margin: 0;padding: 10px}</style>'' @
       (if names = [] then ''OIDC not configured yet''
        else ''<b>Select an account to authenticate: </b><br />'' @
          concat (map (selector_link (if host_header \<noteq> '''' then host_header else host) path state) names)))"

definition OIDCProviders :: "string list \<Rightarrow> string list" where
  "OIDCProviders names = sort names"

section \<open>Errors\<close>

text \<open>The errors of the package \<open>langs\<close>, and those of other packages by their text.\<close>
datatype go_error = LangsError int string | OtherError string

definition err_text :: "(int \<Rightarrow> string) \<Rightarrow> go_error \<Rightarrow> string" where
  "err_text itoa e = (case e of LangsError code msg \<Rightarrow> ''ENO'' @ itoa code @ '': '' @ msg | OtherError t \<Rightarrow> t)"

definition err_Wrap :: "(int \<Rightarrow> string) \<Rightarrow> int \<times> string \<Rightarrow> go_error \<Rightarrow> go_error" where
  "err_Wrap itoa e err = LangsError (fst e) (snd e @ '': '' @ err_text itoa err)"

definition langs_Err :: "go_error \<Rightarrow> go_error" where
  "langs_Err e = (case e of LangsError c m \<Rightarrow> LangsError c m | OtherError t \<Rightarrow> LangsError 5000 t)"

section \<open>The login of a node\<close>

text \<open>\<open>requestNetworkSecret\<close>: the link that is shown, if any, and the secret. \<open>host\<close> is the host of the parsed
  server address; \<open>get\<close> covers the wait of two minutes.\<close>
definition requestNetworkSecret :: "string option \<Rightarrow> string \<Rightarrow> (string \<Rightarrow> (nat \<times> bytes) option) \<Rightarrow> (bytes \<Rightarrow> NetworkSecret option)
    \<Rightarrow> string option \<times> NetworkSecret option" where
  "requestNetworkSecret host state get unjson =
     (case JoinOIDC '''' host state of
        None \<Rightarrow> (None, None)
      | Some join \<Rightarrow> (Some (JoinIntent_AuthURL join), JoinIntent_Wait get unjson join))"

section \<open>Paths\<close>

lemma split_on_free: "c \<notin> set w \<Longrightarrow> split_on c w = [w]"
  by (induction w) auto

lemma split_on_app: "c \<notin> set w \<Longrightarrow> split_on c (w @ c # r) = w # split_on c r"
  by (induction w) auto

definition plain_segment :: "string \<Rightarrow> bool" where
  "plain_segment p \<longleftrightarrow> p \<noteq> '''' \<and> p \<noteq> ''.'' \<and> p \<noteq> ''..'' \<and> CHR ''/'' \<notin> set p"

lemma oidc_path: "plain_segment p \<Longrightarrow> path_Join ''/oidc'' p = ''/oidc/'' @ p"
  by (simp add: plain_segment_def path_Join_def path_Clean_def split_on_free Let_def)

lemma oidc_segments: "plain_segment p \<Longrightarrow> path_segments (''/oidc/'' @ p) = [''oidc'', p]"
  by (simp add: plain_segment_def path_segments_def split_on_free)

lemma concat_map_mem: "x \<in> set xs \<Longrightarrow> \<exists>a b. concat (map f xs) = a @ f x @ b"
  by (induction xs) (auto, metis append.assoc)

text \<open>The cases of a list of at most four segments.\<close>
lemma segs_cases:
  obtains "segs = []" | a where "segs = [a]" | a b where "segs = [a, b]" | a b c where "segs = [a, b, c]"
    | a b c d where "segs = [a, b, c, d]" | a b c d e r where "segs = a # b # c # d # e # r"
  by (metis list.exhaust)

lemma pm_route_ToPutMeta:
  "(pm_route m segs = ToPutMeta n) = (m = ''PUT'' \<and> n \<noteq> '''' \<and> segs = [''pg'', ''networks'', n, ''meta''])"
  by (cases rule: segs_cases [of segs]) (simp_all add: pm_route_def Let_def, auto)

lemma pm_route_other:
  "m \<noteq> ''GET'' \<and> m \<noteq> ''HEAD'' \<Longrightarrow> pm_route m segs \<in> {ToApi, ToApiSlash, ToStatic} \<union> range ToPutMeta"
  by (cases rule: segs_cases [of segs]) (simp_all add: pm_route_def Let_def)

section \<open>Properties\<close>

text \<open>The login pages lead to each other: the page for the choice of an account has a link for each provider,
  with the state of the request unchanged; the link, and the address that a join for the provider
  opens, reach the handler that redirects to the provider with this state, unless the provider
  is called like one of the other two pages, which then hide it.\<close>
theorem login_pages_lead_to_provider:
  assumes "p \<in> set names" and "plain_segment p" and "providers p = Some q"
  shows "(\<exists>a b. OIDCSelector names '''' host ''/oidc'' state = Page 200 (a @ selector_link host ''/oidc'' state p @ b)) \<and>
    selector_link host ''/oidc'' state p = ''<a href=\"//'' @ host @ ''/oidc/'' @ p @ ''?state='' @ state @ ''\">'' @ p @ ''</a><br />'' \<and>
    map_option JoinIntent_AuthURL (JoinOIDC p (Some host) state) = Some (''https://'' @ host @ ''/oidc/'' @ p @ ''?state='' @ state) \<and>
    pm_route ''GET'' (path_segments (''/oidc/'' @ p)) =
      (if p = ''providers'' then ToProviders else if p = ''secret'' then ToSecret else ToAuthURL p) \<and>
    OIDCAuthURL auth_url providers p state = RedirectTo (auth_url q state)"
proof -
  from assms(2) have "p \<noteq> ''''" by (simp add: plain_segment_def)
  obtain a b where "concat (map (selector_link host ''/oidc'' state) names) = a @ selector_link host ''/oidc'' state p @ b"
    using concat_map_mem [OF assms(1)] by blast
  moreover from assms(1) have "names \<noteq> []" by auto
  ultimately have "\<exists>a b. OIDCSelector names '''' host ''/oidc'' state = Page 200 (a @ selector_link host ''/oidc'' state p @ b)"
    unfolding OIDCSelector_def by (simp del: append.simps) (metis append.assoc)
  moreover have "selector_link host ''/oidc'' state p = ''<a href=\"//'' @ host @ ''/oidc/'' @ p @ ''?state='' @ state @ ''\">'' @ p @ ''</a><br />''"
    unfolding selector_link_def oidc_path [OF assms(2)] by simp
  moreover have "map_option JoinIntent_AuthURL (JoinOIDC p (Some host) state) = Some (''https://'' @ host @ ''/oidc/'' @ p @ ''?state='' @ state)"
    using \<open>p \<noteq> ''''\<close> by (simp add: JoinOIDC_def JoinIntent_AuthURL_def oidc_path [OF assms(2)])
  moreover have "pm_route ''GET'' (path_segments (''/oidc/'' @ p)) =
      (if p = ''providers'' then ToProviders else if p = ''secret'' then ToSecret else ToAuthURL p)"
    unfolding oidc_segments [OF assms(2)] using \<open>p \<noteq> ''''\<close> by (simp add: pm_route_def)
  moreover have "OIDCAuthURL auth_url providers p state = RedirectTo (auth_url q state)"
    using assms(3) by (simp add: OIDCAuthURL_def)
  ultimately show ?thesis by (intro conjI)
qed

theorem login_pages_lead_to_provider_witness:
  "OIDCAuthURL (\<lambda>_ s. s) toy_providers ProviderGoogle ''s'' = RedirectTo ''s'' \<and>
   pm_route ''GET'' (path_segments ''/oidc/google'') = ToAuthURL ''google''"
  using login_pages_lead_to_provider [of ProviderGoogle "[ProviderGoogle]" toy_providers "\<lparr>op_standardOIDC = True, op_provider = (), op_Scopes = [''openid'']\<rparr>" "''h''" "''s''" "\<lambda>_ s. s"]
  by (simp add: ProviderGoogle_def toy_providers_def plain_segment_def)

text \<open>The requests that can change the server or tell its secrets: of all requests only PUT for the metadata of a
  network reaches the handler that stores, and no method other than GET and HEAD reaches the
  handlers of the login, of the administration or of the connections.\<close>
theorem only_put_changes_metadata:
  "(pm_route m segs = ToPutMeta n) = (m = ''PUT'' \<and> n \<noteq> '''' \<and> segs = [''pg'', ''networks'', n, ''meta'']) \<and>
   (m \<noteq> ''GET'' \<and> m \<noteq> ''HEAD'' \<longrightarrow> pm_route m segs \<in> {ToApi, ToApiSlash, ToStatic} \<union> range ToPutMeta)"
proof (intro conjI impI)
  show "(pm_route m segs = ToPutMeta n) = (m = ''PUT'' \<and> n \<noteq> '''' \<and> segs = [''pg'', ''networks'', n, ''meta''])"
    by (rule pm_route_ToPutMeta)
  assume "m \<noteq> ''GET'' \<and> m \<noteq> ''HEAD''"
  then show "pm_route m segs \<in> {ToApi, ToApiSlash, ToStatic} \<union> range ToPutMeta" by (rule pm_route_other)
qed

theorem only_put_changes_metadata_witness:
  "pm_route ''PUT'' [''pg'', ''networks'', ''n'', ''meta''] = ToPutMeta ''n'' \<and> pm_route ''POST'' [''pg''] \<in> {ToApi, ToApiSlash, ToStatic} \<union> range ToPutMeta"
  using only_put_changes_metadata [of "''PUT''" "[''pg'', ''networks'', ''n'', ''meta'']" "''n''"]
    only_put_changes_metadata [of "''POST''" "[''pg'']" "''n''"] by simp

end
