(* ===== verification/Secure_Channel.thy ===== *)
theory Secure_Channel
  imports P2p_Correct Secure
begin

text \<open>
  The interface \<open>SymmAlgo\<close> of \<open>secure/symm_algo.go\<close> between the packet connection and the two ciphers. What the
  connection relies on is a locale; AES-CBC and ChaCha20-Poly1305 with their caches are its
  interpretations, and with the identities of \<open>p2p/config.go\<close> they give two nodes ciphers that belong together.
\<close>

section \<open>The interface\<close>

text \<open>A cipher has a state (its cache); sealing and opening take what they read from outside: random bytes or
  the clock. \<^const>\<open>None\<close> is an error or a panic.\<close>
type_synonym ('s, 'r) cipher_op = "'s \<Rightarrow> 'r \<Rightarrow> bytes \<Rightarrow> string \<Rightarrow> 's \<times> bytes option"

datatype 'r traffic = Sealing 'r bytes string | Opening 'r bytes string

text \<open>The state of a cipher after some packets.\<close>
fun traffic_after :: "('s, 'r) cipher_op \<Rightarrow> ('s, 'r) cipher_op \<Rightarrow> 'r traffic list \<Rightarrow> 's \<Rightarrow> 's" where
  "traffic_after enc dec [] s = s"
| "traffic_after enc dec (Sealing r m k # ts) s = traffic_after enc dec ts (fst (enc s r m k))"
| "traffic_after enc dec (Opening r m k # ts) s = traffic_after enc dec ts (fst (dec s r m k))"

text \<open>Peer ids as text, and the key provider that the packet connection gives to its cipher.\<close>
definition id_text :: "PeerID \<Rightarrow> string" where
  "id_text i = map (\<lambda>b. char_of (unat b)) i"

definition id_of_text :: "string \<Rightarrow> PeerID" where
  "id_of_text s = map (\<lambda>c. of_nat (of_char c)) s"

definition key_provider :: "(PeerID \<Rightarrow> bytes option) \<Rightarrow> provider" where
  "key_provider f pubKey = (case f (id_of_text pubKey) of None \<Rightarrow> Inl KeyError | Some k \<Rightarrow> Inr k)"

text \<open>What the packet connection sees of a cipher while it handles a packet.\<close>
definition algo_view :: "('s, 'r) cipher_op \<Rightarrow> ('s, 'r) cipher_op \<Rightarrow> 'r \<Rightarrow> 's \<Rightarrow> unit SymmAlgo" where
  "algo_view enc dec r s =
     \<lparr>alg_Encrypt = (\<lambda>m i. case snd (enc s r m (id_text i)) of None \<Rightarrow> Inl () | Some c \<Rightarrow> Inr c),
      alg_Decrypt = (\<lambda>m i. case snd (dec s r m (id_text i)) of None \<Rightarrow> Inl () | Some d \<Rightarrow> Inr d)\<rparr>"

lemma id_of_id_text [simp]: "id_of_text (id_text i) = i"
  proof -
  have "of_nat (of_char (char_of (unat b) :: char)) = b" for b :: u8
    using unsigned_less [of b, where 'a = nat] by simp
  then show ?thesis by (simp add: id_of_text_def id_text_def comp_def)
qed

text \<open>What a cipher promises: operations keep its state sound and its keys; two sides whose ciphers for each
  other are the same one, and whose readings of the outside fit together, understand each other.\<close>
locale symm_algo =
  fixes enc :: "('s, 'r) cipher_op"
    and dec :: "('s, 'r) cipher_op"
    and cipher_of :: "'s \<Rightarrow> string \<Rightarrow> 'k option"
    and fits :: "'k \<Rightarrow> 'r \<Rightarrow> 'r \<Rightarrow> bool"
    and sound :: "'s \<Rightarrow> bool"
  assumes enc_keeps: "sound s \<Longrightarrow> sound (fst (enc s r m pub)) \<and> cipher_of (fst (enc s r m pub)) = cipher_of s"
    and dec_keeps: "sound s \<Longrightarrow> sound (fst (dec s r m pub)) \<and> cipher_of (fst (dec s r m pub)) = cipher_of s"
    and dec_enc: "sound s \<Longrightarrow> sound s' \<Longrightarrow> cipher_of s b = Some k \<Longrightarrow> cipher_of s' a = Some k \<Longrightarrow> fits k r r' \<Longrightarrow>
      \<exists>c. snd (enc s r m b) = Some c \<and> snd (dec s' r' c a) = Some m"
begin

lemma traffic_keeps:
  "sound s \<Longrightarrow> sound (traffic_after enc dec ts s) \<and> cipher_of (traffic_after enc dec ts s) = cipher_of s"
proof (induction ts arbitrary: s)
  case (Cons t ts)
  then show ?case using enc_keeps dec_keeps by (cases t) auto
qed simp

text \<open>Whatever packets both sides had before, of whatever peers.\<close>
lemma match_after:
  assumes "sound s" and "sound s'" and "cipher_of s (id_text B) = Some k" and "cipher_of s' (id_text A) = Some k" and "fits k r r'"
  shows "algs_match (Some (algo_view enc dec r (traffic_after enc dec ts s))) (Some (algo_view enc dec r' (traffic_after enc dec ts' s'))) A B"
proof -
  let ?s = "traffic_after enc dec ts s" and ?s' = "traffic_after enc dec ts' s'"
  have s: "sound ?s" "sound ?s'" "cipher_of ?s (id_text B) = Some k" "cipher_of ?s' (id_text A) = Some k"
    using traffic_keeps [OF assms(1)] traffic_keeps [OF assms(2)] assms(3,4) by simp_all
  have "\<exists>c. alg_Encrypt (algo_view enc dec r ?s) m B = Inr c \<and> alg_Decrypt (algo_view enc dec r' ?s') c A = Inr m" for m
    using dec_enc [OF s assms(5), of m] by (auto simp: algo_view_def)
  then show ?thesis by (simp add: algs_match_def)
qed

end

section \<open>AES-CBC\<close>

record aes_node =
  an_E :: "bytes \<Rightarrow> bytes \<Rightarrow> bytes"
  an_D :: "bytes \<Rightarrow> bytes \<Rightarrow> bytes"
  an_algo :: AESCBC

definition with_aes :: "aes_node \<Rightarrow> AESCBC option \<Rightarrow> aes_node" where
  "with_aes s a = (case a of None \<Rightarrow> s | Some a' \<Rightarrow> s\<lparr>an_algo := a'\<rparr>)"

definition aes_seal_op :: "(aes_node, bytes) cipher_op" where
  "aes_seal_op s iv m pub =
     (case aes_Encrypt (an_E s) (Some (an_algo s)) (Some iv) m pub of
        (a, Inl _) \<Rightarrow> (with_aes s a, None) | (a, Inr c) \<Rightarrow> (with_aes s a, Some c))"

definition aes_open_op :: "(aes_node, bytes) cipher_op" where
  "aes_open_op s iv m pub =
     (case aes_Decrypt (an_D s) (Some (an_algo s)) m pub of
        (a, Some (Inr d)) \<Rightarrow> (with_aes s a, Some d) | (a, _) \<Rightarrow> (with_aes s a, None))"

definition aes_cipher_of :: "aes_node \<Rightarrow> string \<Rightarrow> ((bytes \<Rightarrow> bytes \<Rightarrow> bytes) \<times> (bytes \<Rightarrow> bytes \<Rightarrow> bytes) \<times> bytes) option" where
  "aes_cipher_of s pub = map_option (\<lambda>k. (an_E s, an_D s, k)) (key_for NewCipher (provideSecretKey (an_algo s)) pub)"

definition aes_sound :: "aes_node \<Rightarrow> bool" where
  "aes_sound s \<longleftrightarrow> block_cipher (an_E s) (an_D s) \<and> algo_ok NewCipher (an_algo s)"

lemma aes_node_keeps:
  assumes "aes_sound s"
  shows "aes_sound (with_aes s (Some (fst (ensureCipher NewCipher (an_algo s) pub)))) \<and>
    aes_cipher_of (with_aes s (Some (fst (ensureCipher NewCipher (an_algo s) pub)))) = aes_cipher_of s"
  using assms ensureCipher_ok [of NewCipher "an_algo s" pub] by (auto simp: aes_sound_def aes_cipher_of_def with_aes_def)

lemma aes_seal_op_state: "fst (aes_seal_op s iv m pub) = with_aes s (Some (fst (ensureCipher NewCipher (an_algo s) pub)))"
  by (simp add: aes_seal_op_def aes_Encrypt_def split: prod.splits sum.splits)

lemma aes_open_op_state: "fst (aes_open_op s iv m pub) = with_aes s (Some (fst (ensureCipher NewCipher (an_algo s) pub)))"
  by (simp add: aes_open_op_def aes_Decrypt_def split: prod.splits sum.splits option.splits)

lemma aes_cipher_key:
  assumes "aes_sound s" and "aes_cipher_of s pub = Some (E, D, k)"
  shows "an_E s = E \<and> an_D s = D \<and> block_cipher E D \<and> snd (ensureCipher NewCipher (an_algo s) pub) = Inr k"
  using assms ensureCipher_ok [of NewCipher "an_algo s" pub] by (auto simp: aes_sound_def aes_cipher_of_def)

lemma aes_dec_enc:
  assumes "aes_sound s" and "aes_sound s'" and "aes_cipher_of s b = Some k" and "aes_cipher_of s' a = Some k" and "length iv = 16"
  shows "\<exists>c. snd (aes_seal_op s iv m b) = Some c \<and> snd (aes_open_op s' iv' c a) = Some m"
proof -
  obtain E D key where k: "k = (E, D, key)" by (cases k) auto
  note e = aes_cipher_key [OF assms(1) assms(3) [unfolded k]] and d = aes_cipher_key [OF assms(2) assms(4) [unfolded k]]
  obtain c where c: "aes_seal E key (Some iv) m = Inr c" by (simp add: aes_seal_def)
  from e have bc: "block_cipher E D" by blast
  have "snd (aes_seal_op s iv m b) = Some c"
    using e c by (cases "ensureCipher NewCipher (an_algo s) b") (simp add: aes_seal_op_def aes_Encrypt_def)
  moreover have "snd (aes_open_op s' iv' c a) = Some m"
    using d aes_open_seal [OF bc assms(5) c] by (cases "ensureCipher NewCipher (an_algo s') a") (simp add: aes_open_op_def aes_Decrypt_def)
  ultimately show ?thesis by blast
qed

interpretation aes_algo: symm_algo aes_seal_op aes_open_op aes_cipher_of "\<lambda>k iv iv'. length iv = 16" aes_sound
  by unfold_locales (simp_all add: aes_seal_op_state aes_open_op_state aes_node_keeps aes_dec_enc)

section \<open>ChaCha20-Poly1305\<close>

record chacha_node =
  cn_seal :: "bytes \<Rightarrow> bytes \<Rightarrow> bytes \<Rightarrow> bytes"
  cn_open :: "bytes \<Rightarrow> bytes \<Rightarrow> bytes \<Rightarrow> bytes option"
  cn_window :: int
  cn_algo :: AESCBC

definition with_chacha :: "chacha_node \<Rightarrow> AESCBC option \<Rightarrow> chacha_node" where
  "with_chacha s a = (case a of None \<Rightarrow> s | Some a' \<Rightarrow> s\<lparr>cn_algo := a'\<rparr>)"

definition chacha_seal_op :: "(chacha_node, int) cipher_op" where
  "chacha_seal_op s now m pub =
     (case chacha_Encrypt (cn_seal s) (Some (cn_algo s)) (cn_window s) now m pub of
        (a, Some (Inr c)) \<Rightarrow> (with_chacha s a, Some c) | (a, _) \<Rightarrow> (with_chacha s a, None))"

definition chacha_open_op :: "(chacha_node, int) cipher_op" where
  "chacha_open_op s now m pub =
     (case chacha_Decrypt (cn_open s) (Some (cn_algo s)) (cn_window s) now m pub of
        (a, Some (Inr d)) \<Rightarrow> (with_chacha s a, Some d) | (a, _) \<Rightarrow> (with_chacha s a, None))"

text \<open>What is relied on of the library beside the inverse law: a packet belongs to one nonce and plaintext.\<close>
definition binds_nonce :: "(bytes \<Rightarrow> bytes \<Rightarrow> bytes \<Rightarrow> bytes) \<Rightarrow> bool" where
  "binds_nonce seal \<longleftrightarrow> (\<forall>k n d n' d'. length n = length n' \<longrightarrow> seal k n d = seal k n' d' \<longrightarrow> n = n' \<and> d = d')"

lemma binds_nonceD: "binds_nonce seal \<Longrightarrow> seal k n d = seal k n' d' \<Longrightarrow> length n = length n' \<Longrightarrow> d = d'"
  unfolding binds_nonce_def by blast

definition chacha_sound :: "chacha_node \<Rightarrow> bool" where
  "chacha_sound s \<longleftrightarrow> aead (cn_seal s) (cn_open s) \<and> binds_nonce (cn_seal s) \<and> cn_window s \<noteq> 0 \<and> algo_ok chacha_New (cn_algo s)"

type_synonym chacha_cipher = "(bytes \<Rightarrow> bytes \<Rightarrow> bytes \<Rightarrow> bytes) \<times> (bytes \<Rightarrow> bytes \<Rightarrow> bytes \<Rightarrow> bytes option) \<times> int \<times> bytes"

definition chacha_cipher_of :: "chacha_node \<Rightarrow> string \<Rightarrow> chacha_cipher option" where
  "chacha_cipher_of s pub = map_option (\<lambda>k. (cn_seal s, cn_open s, cn_window s, k)) (key_for chacha_New (provideSecretKey (cn_algo s)) pub)"

text \<open>Clocks that are at most one slot apart.\<close>
definition near_slots :: "chacha_cipher \<Rightarrow> int \<Rightarrow> int \<Rightarrow> bool" where
  "near_slots k now now' \<longleftrightarrow> (case k of (_, _, win, _) \<Rightarrow> \<bar>trunc_div now' win - trunc_div now win\<bar> \<le> 1)"

lemma chacha_node_keeps:
  assumes "chacha_sound s"
  shows "chacha_sound (with_chacha s (Some (fst (ensureCipher chacha_New (cn_algo s) pub)))) \<and>
    chacha_cipher_of (with_chacha s (Some (fst (ensureCipher chacha_New (cn_algo s) pub)))) = chacha_cipher_of s"
  using assms ensureCipher_ok [of chacha_New "cn_algo s" pub] by (auto simp: chacha_sound_def chacha_cipher_of_def with_chacha_def)

lemma chacha_seal_op_state: "fst (chacha_seal_op s now m pub) = with_chacha s (Some (fst (ensureCipher chacha_New (cn_algo s) pub)))"
  by (simp add: chacha_seal_op_def chacha_Encrypt_def split: prod.splits sum.splits option.splits)

lemma chacha_open_op_state: "fst (chacha_open_op s now m pub) = with_chacha s (Some (fst (ensureCipher chacha_New (cn_algo s) pub)))"
  by (simp add: chacha_open_op_def chacha_Decrypt_def split: prod.splits sum.splits option.splits)

lemma chacha_cipher_key:
  assumes "chacha_sound s" and "chacha_cipher_of s pub = Some (seal, opn, win, k)"
  shows "cn_seal s = seal \<and> cn_open s = opn \<and> cn_window s = win \<and> key_for chacha_New (provideSecretKey (cn_algo s)) pub = Some k \<and>
    algo_ok chacha_New (cn_algo s) \<and> aead seal opn \<and> binds_nonce seal \<and> win \<noteq> 0"
  using assms by (auto simp: chacha_sound_def chacha_cipher_of_def)

text \<open>A packet is the sealing of its payload under the slot of the sender.\<close>
lemma chacha_seal_op_eq:
  assumes "chacha_sound s" and "chacha_cipher_of s pub = Some (seal, opn, win, k)"
  shows "snd (chacha_seal_op s now m pub) = Some (seal k (nonce_at (trunc_div now win)) m)"
proof -
  note c = chacha_cipher_key [OF assms]
  from c have "snd (ensureCipher chacha_New (cn_algo s) pub) = Inr k" using ensureCipher_ok [of chacha_New "cn_algo s" pub] by blast
  with c show ?thesis by (cases "ensureCipher chacha_New (cn_algo s) pub") (simp add: chacha_seal_op_def chacha_Encrypt_def)
qed

lemma length_nonce_at [simp]: "length (nonce_at t) = 12"
  by (simp add: nonce_at_def put_u64le_def)

lemma chacha_dec_enc:
  assumes "chacha_sound s" and "chacha_sound s'" and "chacha_cipher_of s b = Some k" and "chacha_cipher_of s' a = Some k" and "near_slots k now now'"
  shows "\<exists>c. snd (chacha_seal_op s now m b) = Some c \<and> snd (chacha_open_op s' now' c a) = Some m"
proof -
  obtain seal opn win key where k: "k = (seal, opn, win, key)" by (cases k) auto
  note e = chacha_cipher_key [OF assms(1) assms(3) [unfolded k]] and d = chacha_cipher_key [OF assms(2) assms(4) [unfolded k]]
  have "\<bar>trunc_div now' win - trunc_div now win\<bar> \<le> 1" using assms(5) k by (simp add: near_slots_def)
  with e d obtain c p t where c: "snd (chacha_Encrypt seal (Some (cn_algo s)) win now m b) = Some (Inr c)"
    "snd (chacha_Decrypt opn (Some (cn_algo s')) win now' c a) = Some (Inr p)" "c = seal key (nonce_at t) p"
    using chacha_accepts_adjacent_slots [of seal opn "cn_algo s" "cn_algo s'" b key a win now' now m] by blast
  have "snd (chacha_seal_op s now m b) = Some c"
    using c(1) e by (cases "chacha_Encrypt seal (Some (cn_algo s)) win now m b") (simp add: chacha_seal_op_def)
  moreover have "snd (chacha_open_op s' now' c a) = Some p"
    using c(2) d by (cases "chacha_Decrypt opn (Some (cn_algo s')) win now' c a") (simp add: chacha_open_op_def)
  ultimately have s: "snd (chacha_seal_op s now m b) = Some c" "snd (chacha_open_op s' now' c a) = Some p" by blast+
  with chacha_seal_op_eq [OF assms(1) assms(3) [unfolded k]] c(3) have "seal key (nonce_at (trunc_div now win)) m = seal key (nonce_at t) p" by simp
  then have "m = p" using binds_nonceD [of seal key "nonce_at (trunc_div now win)" m "nonce_at t" p] e by simp
  with s show ?thesis by blast
qed

interpretation chacha_algo: symm_algo chacha_seal_op chacha_open_op chacha_cipher_of near_slots chacha_sound
  by unfold_locales (simp_all add: chacha_seal_op_state chacha_open_op_state chacha_node_keeps chacha_dec_enc)

section \<open>Two nodes\<close>

text \<open>The cipher of a node when it starts, and as the option of its key builds it.\<close>
definition fresh_chacha :: "(bytes \<Rightarrow> bytes \<Rightarrow> bytes \<Rightarrow> bytes) \<Rightarrow> (bytes \<Rightarrow> bytes \<Rightarrow> bytes \<Rightarrow> bytes option) \<Rightarrow> int \<Rightarrow> (PeerID \<Rightarrow> bytes option) \<Rightarrow> chacha_node" where
  "fresh_chacha seal opn win f = \<lparr>cn_seal = seal, cn_open = opn, cn_window = win, cn_algo = aes_New (key_provider f)\<rparr>"

definition chacha_for :: "(bytes \<Rightarrow> bytes \<Rightarrow> bytes \<Rightarrow> bytes) \<Rightarrow> (bytes \<Rightarrow> bytes \<Rightarrow> bytes \<Rightarrow> bytes option) \<Rightarrow> int \<Rightarrow> int \<Rightarrow> (PeerID \<Rightarrow> bytes option) \<Rightarrow> unit SymmAlgo" where
  "chacha_for seal opn win now f = algo_view chacha_seal_op chacha_open_op now (fresh_chacha seal opn win f)"

text \<open>The same cipher after some packets.\<close>
definition chacha_later :: "int traffic list \<Rightarrow> (bytes \<Rightarrow> bytes \<Rightarrow> bytes \<Rightarrow> bytes) \<Rightarrow> (bytes \<Rightarrow> bytes \<Rightarrow> bytes \<Rightarrow> bytes option) \<Rightarrow> int \<Rightarrow> int \<Rightarrow> (PeerID \<Rightarrow> bytes option) \<Rightarrow> unit SymmAlgo" where
  "chacha_later ts seal opn win now f =
     algo_view chacha_seal_op chacha_open_op now (traffic_after chacha_seal_op chacha_open_op ts (fresh_chacha seal opn win f))"

lemma fresh_chacha_sound:
  "aead seal opn \<Longrightarrow> binds_nonce seal \<Longrightarrow> win \<noteq> 0 \<Longrightarrow> chacha_sound (fresh_chacha seal opn win f)"
  by (simp add: chacha_sound_def fresh_chacha_def aes_New_ok)

lemma fresh_chacha_cipher:
  "f i = Some key \<Longrightarrow> length key = 32 \<Longrightarrow> chacha_cipher_of (fresh_chacha seal opn win f) (id_text i) = Some (seal, opn, win, key)"
  by (simp add: chacha_cipher_of_def fresh_chacha_def key_for_def aes_New_def key_provider_def chacha_New_def)

lemma chacha_later_seals:
  assumes "aead seal opn" and "binds_nonce seal" and "win \<noteq> 0" and "f i = Some key" and "length key = 32"
  shows "alg_Encrypt (chacha_later ts seal opn win now f) m i = Inr (seal key (nonce_at (trunc_div now win)) m)"
proof -
  let ?s = "traffic_after chacha_seal_op chacha_open_op ts (fresh_chacha seal opn win f)"
  have "chacha_sound ?s" "chacha_cipher_of ?s (id_text i) = Some (seal, opn, win, key)"
    using chacha_algo.traffic_keeps [OF fresh_chacha_sound [OF assms(1-3)]] fresh_chacha_cipher [of f i, OF assms(4,5)] by simp_all
  from chacha_seal_op_eq [OF this] show ?thesis by (simp add: chacha_later_def algo_view_def)
qed

lemma relayed_write:
  assumes "\<not> pn_closed c" and "pn_mode c = MODE_FORCE_RELAY" and "ws_raw (pn_ws c)"
    and "p2p_WriteTo str locked now payload (Some i) c = Some (c', [PWs w], r)"
  shows "w = mask (ws_nonce (pn_ws c)) ([CONTROL_RELAY] @ [Len i] @ i @ TryEncrypt (pn_SymmAlgo c) \<lparr>dg_PeerID = i, dg_Data = payload\<rparr>)"
  using assms(4) by (simp add: p2p_WriteTo_def server_relayed_def ws_WriteTo_def ws_write_def ws_sent_def Let_def assms(1-3)) auto

section \<open>Properties\<close>


text \<open>Two nodes with keys of 32 bytes; the first one has sealed and opened packets before.\<close>
definition demo_secure_pm :: "PeerID \<Rightarrow> PeerID \<Rightarrow> PeerMap" where
  "demo_secure_pm i j = \<lparr>pm_networks = [''n'' \<mapsto> (newNetworkContext ''n'' 0)\<lparr>nc_peers := [(i, 0), (j, 1)]\<rparr>],
     pm_index = [i \<mapsto> ''n'', j \<mapsto> ''n''], pm_peers = [0 \<mapsto> demo_peer i 5, 1 \<mapsto> demo_peer j 6], pm_next = 2, pm_cfg = demo_pm_cfg\<rparr>"

definition demo_secure_node :: "int traffic list \<Rightarrow> int \<Rightarrow> bytes \<Rightarrow> u8 \<Rightarrow> unit PacketConn" where
  "demo_secure_node ts now key k =
     (demo_node [] k)\<lparr>pn_SymmAlgo := Some (chacha_later ts toy_seal toy_open 10 now (shared_key toy_curve key))\<rparr>"

lemma demo_secure_node_simps [simp]:
  "pn_SymmAlgo (demo_secure_node ts now key k) = Some (chacha_later ts toy_seal toy_open 10 now (shared_key toy_curve key))"
  "pn_ws (demo_secure_node ts now key k) = demo_client [] k" "pn_mode (demo_secure_node ts now key k) = MODE_FORCE_RELAY"
  "\<not> pn_closed (demo_secure_node ts now key k)"
  by (simp_all add: demo_secure_node_def)

lemma demo_secure_pm_simps:
  "pm_peers (demo_secure_pm i j) 0 = Some (demo_peer i 5)" "pm_peers (demo_secure_pm i j) 1 = Some (demo_peer j 6)"
  "i \<noteq> j \<Longrightarrow> getPeer (network_of (demo_peer i 5)) j (demo_secure_pm i j) = Some 1"
  by (simp_all add: demo_secure_pm_def getPeer_def getNetwork_def demo_peer_def newNetworkContext_def ctx_getPeer_def)

lemma toy_binds: "binds_nonce toy_seal"
  by (simp add: binds_nonce_def toy_seal_def)


end
