(* ===== verification/Secret_Store.thy ===== *)
theory Secret_Store
  imports Vpn_Node
begin

text \<open>
  The interface \<open>SecretStore\<close> of \<open>disco/server.go\<close>: the secret that a node was given, in memory, and the one
  that it keeps in a file. The client of the map server writes to it when the server sends a new secret
  (\<open>updateNetworkSecret\<close> of \<open>disco/ws/ws.go\<close>), and reads it before every dial. The rotation is followed from the tick
  of the server to the store of the client.
\<close>

section \<open>Tries\<close>

text \<open>\<open>put\<close> gets what the system does during a try. Five tries at most; after an error the next one.\<close>
fun secret_tries :: "('e \<Rightarrow> NetworkSecret \<Rightarrow> 's \<Rightarrow> 's \<times> bool) \<Rightarrow> nat \<Rightarrow> NetworkSecret \<Rightarrow> 'e list \<Rightarrow> 's \<Rightarrow> 's \<times> bool" where
  "secret_tries put 0 x es s = (s, False)"
| "secret_tries put (Suc n) x [] s = (s, False)"
| "secret_tries put (Suc n) x (e # es) s =
     (case put e x s of (s', ok) \<Rightarrow> if ok then (s', True) else secret_tries put n x es s')"

definition store_update :: "('e \<Rightarrow> NetworkSecret \<Rightarrow> 's \<Rightarrow> 's \<times> bool) \<Rightarrow> NetworkSecret \<times> 'e list \<Rightarrow> 's \<Rightarrow> 's \<times> bool" where
  "store_update put u s = secret_tries put 5 (fst u) (snd u) s"

text \<open>The updates that arrive one after the other, each finished before the next, with those that succeeded.\<close>
fun store_updates :: "('e \<Rightarrow> NetworkSecret \<Rightarrow> 's \<Rightarrow> 's \<times> bool) \<Rightarrow> (NetworkSecret \<times> 'e list) list \<Rightarrow> 's \<Rightarrow> 's \<times> NetworkSecret list" where
  "store_updates put [] s = (s, [])"
| "store_updates put (u # us) s =
     (case store_update put u s of (s1, ok) \<Rightarrow>
      case store_updates put us s1 of (s2, xs) \<Rightarrow> (s2, if ok then fst u # xs else xs))"

section \<open>The interface\<close>

text \<open>What a store promises: after a successful update it answers the new secret, after a failed one the
  secret from before or an error.\<close>
locale secret_storage =
  fixes get :: "'s \<Rightarrow> node_error + NetworkSecret"
    and put :: "'e \<Rightarrow> NetworkSecret \<Rightarrow> 's \<Rightarrow> 's \<times> bool"
    and usable :: "'s \<Rightarrow> bool"
  assumes put_ok: "usable s \<Longrightarrow> put e x s = (s', True) \<Longrightarrow> get s' = Inr x"
    and put_fails: "usable s \<Longrightarrow> put e x s = (s', False) \<Longrightarrow> get s' = get s \<or> (\<exists>err. get s' = Inl err)"
    and put_usable: "usable s \<Longrightarrow> usable (fst (put e x s))"
begin

lemma tries:
  "usable s \<Longrightarrow> secret_tries put n x es s = (s', ok) \<Longrightarrow>
   usable s' \<and> (ok \<longrightarrow> get s' = Inr x) \<and> (\<not> ok \<longrightarrow> get s' = get s \<or> (\<exists>err. get s' = Inl err))"
proof (induction n arbitrary: es s)
  case (Suc n)
  show ?case
  proof (cases es)
    case Nil
    with Suc.prems show ?thesis by auto
  next
    case (Cons e r)
    obtain s1 b where p: "put e x s = (s1, b)" by fastforce
    have s1: "usable s1" using put_usable [OF Suc.prems(1), of e x] p by simp
    show ?thesis
    proof (cases b)
      case True
      with Suc.prems(2) Cons p put_ok [OF Suc.prems(1), of e x s1] s1 show ?thesis by simp
    next
      case False
      with Suc.prems(2) Cons p have t: "secret_tries put n x r s1 = (s', ok)" by simp
      have "get s1 = get s \<or> (\<exists>err. get s1 = Inl err)" using put_fails [OF Suc.prems(1), of e x s1] p False by simp
      with Suc.IH [OF s1 t] show ?thesis by fastforce
    qed
  qed
qed simp

text \<open>The store answers the last secret whose update succeeded, if a later failed one has not damaged it.\<close>
lemma updates_last:
  "usable s \<Longrightarrow> store_updates put us s = (s', xs) \<Longrightarrow>
   usable s' \<and> (get s' = (if xs = [] then get s else Inr (last xs)) \<or> (\<exists>err. get s' = Inl err))"
proof (induction us arbitrary: s s' xs)
  case (Cons u us)
  obtain s1 ok where t: "store_update put u s = (s1, ok)" by fastforce
  obtain s2 ys where r: "store_updates put us s1 = (s2, ys)" by fastforce
  have s: "s' = s2" "xs = (if ok then fst u # ys else ys)" using Cons.prems(2) t r by simp_all
  have u: "usable s1" "ok \<longrightarrow> get s1 = Inr (fst u)" "\<not> ok \<longrightarrow> get s1 = get s \<or> (\<exists>err. get s1 = Inl err)"
    using tries [OF Cons.prems(1)] t unfolding store_update_def by blast+
  from Cons.IH [OF u(1) r] u(2,3) s show ?case by (auto split: if_splits)
qed simp

end

section \<open>The two stores\<close>

definition static_put :: "unit \<Rightarrow> NetworkSecret \<Rightarrow> NetworkSecret \<Rightarrow> NetworkSecret \<times> bool" where
  "static_put e x s = (UpdateNetworkSecret s x, True)"

lemma UpdateNetworkSecret_eq: "UpdateNetworkSecret s x = x"
  by (cases s; cases x) (simp add: UpdateNetworkSecret_def)

interpretation static_store: secret_storage Inr static_put "\<lambda>_. True"
  by unfold_locales (simp_all add: static_put_def UpdateNetworkSecret_eq)

text \<open>The file with its codec; a try finds it writable or not.\<close>
record file_store =
  fs_env :: secret_env
  fs_file :: "bytes option"

definition file_get :: "file_store \<Rightarrow> node_error + NetworkSecret" where
  "file_get s = file_NetworkSecret (fs_env s) (fs_file s)"

definition file_put :: "bool \<Rightarrow> NetworkSecret \<Rightarrow> file_store \<Rightarrow> file_store \<times> bool" where
  "file_put writable x s =
     (case file_UpdateNetworkSecret ((fs_env s)\<lparr>se_writable := writable\<rparr>) x (fs_file s) of
        (f, err) \<Rightarrow> (s\<lparr>fs_file := f\<rparr>, err = None))"

text \<open>The node may read its file; decoding inverts encoding, and nothing decodes from an empty file.\<close>
definition file_usable :: "file_store \<Rightarrow> bool" where
  "file_usable s \<longleftrightarrow> se_readable (fs_env s) \<and> se_dec (fs_env s) [] = None \<and>
     (\<forall>x b. se_enc (fs_env s) x = Some b \<longrightarrow> se_dec (fs_env s) b = Some x)"

interpretation file_storage: secret_storage file_get file_put file_usable
  by unfold_locales
    (auto simp: file_get_def file_put_def file_usable_def file_UpdateNetworkSecret_def file_NetworkSecret_def split: if_splits option.splits)

section \<open>The rotation of a secret\<close>

text \<open>The secret that the server makes for a connection when the old one is due.\<close>
definition rotated_secret :: "pm_env \<Rightarrow> bytes \<Rightarrow> int \<Rightarrow> PeerMap \<Rightarrow> peerConn \<Rightarrow> networkContext \<Rightarrow> NetworkSecret" where
  "rotated_secret e rnd now pm p ctx =
     generateSecret e rnd now pm \<lparr>net_ID = network_of p, net_Alias = nc_alias ctx, net_Neighbors = nc_neighbors ctx\<rparr> False"

lemma ws_recv_secret:
  assumes "ws_nonce c = n" and "unjson b = Some s"
  shows "ws_recv parse resolve unjson now (GSlice (mask n ([CONTROL_UPDATE_NETWORK_SECRET] @ b)) sp) c = Some (c\<lparr>ws_active := now\<rparr>, [WSecret s])"
  using assms by (simp add: ws_recv_def handleEvents_def control_codes sl_index_def sl_len_def sl_from_def sl_range_def sl_cap_def)

lemma keepalive_rotates:
  assumes "pm_peers pm h = Some p" and "pc_conn p" and "pc_open p" and "getNetwork (network_of p) pm = Some ctx"
    and "now div nano - pc_active p \<le> 25"
    and "time_Unix (js_Deadline (pc_secret p)) - now < cf_ValidityPeriod (pm_cfg pm) - cf_RotationPeriod (pm_cfg pm)"
  shows "\<exists>pm'. keepalive e rnd now h pm =
    Some (pm', [PmPing h, PmSend h (mask (pc_nonce p) ([CONTROL_UPDATE_NETWORK_SECRET] @ en_json e (rotated_secret e rnd now pm p ctx)))])"
  using assms by (simp add: keepalive_def updateSecret_def rotated_secret_def pm_write_def Let_def)

section \<open>Properties\<close>

text \<open>C32. The rotation of secrets: when the secret of a connection is due, the next tick of the server sends a new
  one, which the client receives; if one of the five tries to store it succeeds the file answers it,
  otherwise what it answered before or an error; and the server accepts the new secret for the
  network of the peer, as that of a user, until it expires, which the client takes to be
  before the server does.\<close>
theorem secret_rotation_end_to_end:
  assumes "s = rotated_secret e rnd now pm p ctx" and "auth_env_ok (en_auth e)" and "length rnd = 12"
    and "pm_peers pm h = Some p" and "pc_conn p" and "pc_open p" and "getNetwork (network_of p) pm = Some ctx"
    and "now div nano - pc_active p \<le> 25"
    and "time_Unix (js_Deadline (pc_secret p)) - now < cf_ValidityPeriod (pm_cfg pm) - cf_RotationPeriod (pm_cfg pm)"
    and "unjson (en_json e s) = Some s" and "ws_nonce c = pc_nonce p"
    and "file_usable st" and "store_update file_put (s, attempts) st = (st', ok)"
  shows "(\<exists>pm' w. keepalive e rnd now h pm = Some (pm', [PmPing h, PmSend h w]) \<and>
      ws_recv parse resolve unjson now' (GSlice w sp) c = Some (c\<lparr>ws_active := now'\<rparr>, [WSecret s])) \<and>
    (ok \<longrightarrow> file_get st' = Inr s) \<and> (\<not> ok \<longrightarrow> file_get st' = file_get st \<or> (\<exists>err. file_get st' = Inl err)) \<and>
    (\<forall>later. \<not> Expired s later \<longrightarrow>
       (\<exists>t. ParseSecret (en_auth e) later (ns_Secret s) = (t, None) \<and> js_Network t = network_of p \<and> \<not> js_Admin t))"
proof (intro conjI allI impI)
  obtain pm' where k: "keepalive e rnd now h pm = Some (pm', [PmPing h, PmSend h (mask (pc_nonce p) ([CONTROL_UPDATE_NETWORK_SECRET] @ en_json e s))])"
    using keepalive_rotates [OF assms(4-9)] assms(1) by blast
  with ws_recv_secret [of c _ unjson "en_json e s", OF assms(11,10), of parse resolve now' sp]
  show "\<exists>pm' w. keepalive e rnd now h pm = Some (pm', [PmPing h, PmSend h w]) \<and>
      ws_recv parse resolve unjson now' (GSlice w sp) c = Some (c\<lparr>ws_active := now'\<rparr>, [WSecret s])" by blast
  show "file_get st' = Inr s" if ok
    using file_storage.tries [OF assms(12)] assms(13) that by (simp add: store_update_def)
  show "file_get st' = file_get st \<or> (\<exists>err. file_get st' = Inl err)" if "\<not> ok"
    using file_storage.tries [OF assms(12)] assms(13) that by (simp add: store_update_def)
  let ?limit = "now + cf_ValidityPeriod (pm_cfg pm)"
  fix later assume "\<not> Expired s later"
  then have "later < ?limit - 10 * nano" by (simp add: assms(1) Expired_def rotated_secret_def generateSecret_def)
  moreover have "?limit - nano < ?limit div nano * nano" by (simp add: nano_def)
  ultimately have "later < ?limit div nano * nano" by (simp add: nano_def)
  then show "\<exists>t. ParseSecret (en_auth e) later (ns_Secret s) = (t, None) \<and> js_Network t = network_of p \<and> \<not> js_Admin t"
    by (simp add: assms(1) rotated_secret_def generateSecret_def parse_generated [OF assms(2,3)])
qed

text \<open>A peer whose secret is due; the first try to write its file fails.\<close>
definition due_env :: pm_env where
  "due_env = demo_env\<lparr>en_json := (\<lambda>_. [1])\<rparr>"

definition due_secret :: NetworkSecret where
  "due_secret = rotated_secret due_env (replicate 12 0) 0 demo_pm (demo_peer [1] 5) ((newNetworkContext ''n'' 0)\<lparr>nc_peers := [([1], 0), ([2], 1)]\<rparr>)"

definition due_file :: file_store where
  "due_file = \<lparr>fs_env = \<lparr>se_enc = (\<lambda>x. if x = due_secret then Some [1] else None), se_dec = (\<lambda>b. if b = [1] then Some due_secret else None),
     se_readable = True, se_writable = True\<rparr>, fs_file = None\<rparr>"

theorem secret_rotation_end_to_end_witness:
  "\<exists>pm' w. keepalive due_env (replicate 12 0) 0 0 demo_pm = Some (pm', [PmPing 0, PmSend 0 w]) \<and>
    ws_recv (\<lambda>_. Map.empty) (\<lambda>_. None) (\<lambda>_. Some due_secret) 3 (GSlice w []) (demo_client [1] 5) = Some ((demo_client [1] 5)\<lparr>ws_active := 3\<rparr>, [WSecret due_secret]) \<and>
    file_get (fst (store_update file_put (due_secret, [False, True]) due_file)) = Inr due_secret"
proof -
  let ?ctx = "(newNetworkContext ''n'' 0)\<lparr>nc_peers := [([1], 0), ([2], 1)]\<rparr>"
  have p: "auth_env_ok (en_auth due_env)" using toy_env_ok by (simp add: due_env_def demo_env_def)
  have s: "pm_peers demo_pm 0 = Some (demo_peer [1] 5)" "getNetwork (network_of (demo_peer [1] 5)) demo_pm = Some ?ctx"
    by (simp_all add: demo_pm_def demo_peer_def getNetwork_def newNetworkContext_def)
  have due: "time_Unix (js_Deadline (pc_secret (demo_peer [1] 5))) - 0 < cf_ValidityPeriod (pm_cfg demo_pm) - cf_RotationPeriod (pm_cfg demo_pm)"
    "0 div nano - pc_active (demo_peer [1] 5) \<le> 25"
    by (simp_all add: demo_pm_def demo_pm_cfg_def demo_peer_def no_secret_def time_Unix_def nano_def epoch_def)
  have u: "file_usable due_file" by (simp add: file_usable_def due_file_def)
  obtain st' where st: "store_update file_put (due_secret, [False, True]) due_file = (st', True)"
    by (simp add: store_update_def file_put_def due_file_def file_UpdateNetworkSecret_def eval_nat_numeral)
  from secret_rotation_end_to_end [where unjson = "\<lambda>_. Some due_secret" and c = "demo_client [1] 5" and st = due_file and attempts = "[False, True]"
      and parse = "\<lambda>_. Map.empty" and resolve = "\<lambda>_. None" and now' = 3 and sp = "[]",
      OF due_secret_def p _ s(1) _ _ s(2) due(2,1) _ _ u st] st
  show ?thesis by simp
qed

end
