(* ===== verification/Udp_Life.thy ===== *)
theory Udp_Life
  imports Udp_Conn "HOL-Library.Multiset"
begin

text \<open>
  The goroutines of the UDP connection (\<open>disco/udp/udp.go\<close>, \<open>lan.go\<close>, \<open>stun.go\<close>) as a transition system: the
  readers of the sockets, which hand datagrams and errors over one at a time, the generators of endpoints, NAT
  detections, restarts of the listeners, and \<open>Close\<close>, which waits for the goroutines and then closes the
  channels. What arrives, and which goroutine goes on, is arbitrary.
\<close>

section \<open>STUN round trips\<close>

datatype rt_event = RtPacket bytes | RtTimeout | RtDone
datatype rt_result = RtAddr "ip_addr \<times> u16" | RtError

text \<open>The wait of \<open>roundTrip\<close>: \<^const>\<open>None\<close> while nothing has ended it.\<close>
fun rt_wait :: "bytes \<Rightarrow> UDPConn \<Rightarrow> rt_event list \<Rightarrow> rt_result option" where
  "rt_wait txID c [] = None"
| "rt_wait txID c (RtPacket b # es) =
     (case recvResponse b c of
        UStun txid a # _ \<Rightarrow> if txid = txID then Some (RtAddr a) else rt_wait txID c es
      | _ \<Rightarrow> rt_wait txID c es)"
| "rt_wait txID c (RtTimeout # es) = Some RtError"
| "rt_wait txID c (RtDone # es) = Some RtError"

text \<open>\<open>addr\<close> is the server's address, when \<open>resolveUDPAddr\<close> finds it in time; \<open>wrote\<close>: the request is sent.\<close>
definition roundTrip :: "bytes \<Rightarrow> int \<Rightarrow> UDPAddr option \<Rightarrow> bool \<Rightarrow> rt_event list \<Rightarrow> UDPConn \<Rightarrow> UDPConn \<times> udp_event list \<times> rt_result option" where
  "roundTrip txID sock addr wrote es c =
     (let c1 = stun_begin txID c in
      case addr of
        None \<Rightarrow> (stun_end txID c1, [], Some RtError)
      | Some a \<Rightarrow>
          if \<not> wrote then (stun_end txID c1, [], Some RtError)
          else (let r = rt_wait txID c1 es in (if r = None then c1 else stun_end txID c1, [USend sock a (Request txID)], r)))"

section \<open>State\<close>

text \<open>What a reader sends on the channels of datagrams and errors, which hold nothing.\<close>
datatype udp_item = Data PeerID bytes | RelayErr PeerID udp_error
datatype rd_stage = Reading | Sending udp_item | Stopped

record reader =
  rd_sock :: int
  rd_open :: bool
  rd_stage :: rd_stage

text \<open>A goroutine that has endpoints left to send, and then perhaps a NAT event.\<close>
record generator =
  gn_left :: "Endpoint list"
  gn_nat :: "NATInfo option"

datatype ul_phase = UOpen | UClosing | UClosed

record udp_life =
  ul_conn :: UDPConn
  ul_readers :: "reader list"
  ul_gens :: "generator list"
  ul_endpoints :: "Endpoint list"
  ul_nat :: "NATInfo list"
  ul_phase :: ul_phase
  ul_panic :: bool

definition item_of :: "udp_event \<Rightarrow> udp_item option" where
  "item_of e = (case e of UDatagram i b \<Rightarrow> Some (Data i b) | URelayErr i err \<Rightarrow> Some (RelayErr i err) | _ \<Rightarrow> None)"

definition items_of :: "udp_event list \<Rightarrow> udp_item list" where
  "items_of evs = List.map_filter item_of evs"

definition after_read :: "udp_event list \<Rightarrow> rd_stage" where
  "after_read evs = (case items_of evs of [] \<Rightarrow> Reading | x # _ \<Rightarrow> Sending x)"

text \<open>\<open>go c.udpRead(conn)\<close> for the sockets of a connection.\<close>
definition spawn :: "UDPConn \<Rightarrow> reader list" where
  "spawn c = (case uc_conns c of None \<Rightarrow> [] | Some ps \<Rightarrow> map (\<lambda>p. \<lparr>rd_sock = p, rd_open = True, rd_stage = Reading\<rparr>) ps)"

definition restarted :: "UDPConn \<Rightarrow> udp_life \<Rightarrow> udp_life" where
  "restarted c s = s\<lparr>ul_conn := c, ul_readers := map (\<lambda>r. r\<lparr>rd_open := False\<rparr>) (ul_readers s) @ spawn c\<rparr>"

definition ul_start :: "UDPConn \<Rightarrow> udp_life" where
  "ul_start c = \<lparr>ul_conn = c, ul_readers = spawn c, ul_gens = [], ul_endpoints = [], ul_nat = [], ul_phase = UOpen, ul_panic = False\<rparr>"

definition nat_capacity :: nat where "nat_capacity = 3"
definition endpoint_capacity :: nat where "endpoint_capacity = 10"

text \<open>A send that does not wait: dropped when the channel is full; on a closed channel it panics.\<close>
definition push_nat :: "NATInfo option \<Rightarrow> udp_life \<Rightarrow> udp_life" where
  "push_nat n s =
     (case n of
        None \<Rightarrow> s
      | Some i \<Rightarrow>
          if ul_phase s = UClosed then s\<lparr>ul_panic := True\<rparr>
          else if length (ul_nat s) < nat_capacity then s\<lparr>ul_nat := ul_nat s @ [i]\<rparr>
          else s)"

text \<open>The end of \<open>DetectNAT\<close>: the event, then the restart of the listeners. A detection for a peer goes on
  to send the addresses found.\<close>
definition detected :: "PeerID option \<Rightarrow> UDPConn \<Rightarrow> NATInfo \<Rightarrow> udp_life \<Rightarrow> udp_life" where
  "detected peer c info s =
     (let wasHard = (case uc_nat (ul_conn s) of Some i \<Rightarrow> ni_Type i = Hard | None \<Rightarrow> False);
          s1 = push_nat (Some info) s;
          s2 = (if (ni_Type info = Hard) \<noteq> wasHard then restarted c s1 else s1\<lparr>ul_conn := c\<rparr>)
      in case peer of
           None \<Rightarrow> s2
         | Some i \<Rightarrow> if ni_Addrs info = [] then s2 else s2\<lparr>ul_gens := ul_gens s2 @ [\<lparr>gn_left = wan_endpoints i info, gn_nat = None\<rparr>]\<rparr>)"

definition gen_lan :: "PeerID \<Rightarrow> UDPAddr list \<Rightarrow> generator" where
  "gen_lan i la = \<lparr>gn_left = lanAddrsGenerate i la, gn_nat = None\<rparr>"

definition gen_upnp :: "PeerID \<Rightarrow> UDPAddr \<Rightarrow> generator" where
  "gen_upnp i a = \<lparr>gn_left = [\<lparr>ep_ID = i, ep_Addr = a, ep_Type = UPnP\<rparr>], gn_nat = Some \<lparr>ni_Type = UPnP, ni_Addrs = [a]\<rparr>\<rparr>"

definition put_stage :: "nat \<Rightarrow> rd_stage \<Rightarrow> udp_life \<Rightarrow> udp_life" where
  "put_stage k g s = s\<lparr>ul_readers := (ul_readers s)[k := (ul_readers s ! k)\<lparr>rd_stage := g\<rparr>]\<rparr>"

definition gen_put :: "nat \<Rightarrow> udp_life \<Rightarrow> udp_life" where
  "gen_put k s =
     (case gn_left (ul_gens s ! k) of
        [] \<Rightarrow> s
      | e # es \<Rightarrow>
          if ul_phase s = UClosed then s\<lparr>ul_panic := True\<rparr>
          else s\<lparr>ul_gens := (ul_gens s)[k := (ul_gens s ! k)\<lparr>gn_left := es\<rparr>], ul_endpoints := ul_endpoints s @ [e]\<rparr>)"

definition gen_done :: "nat \<Rightarrow> udp_life \<Rightarrow> udp_life" where
  "gen_done k s = push_nat (gn_nat (ul_gens s ! k)) (s\<lparr>ul_gens := take k (ul_gens s) @ drop (Suc k) (ul_gens s)\<rparr>)"

text \<open>\<open>Close\<close> up to \<open>Wait\<close>: the channel and the sockets are closed; closing again panics.\<close>
definition close_begin :: "udp_life \<Rightarrow> udp_life" where
  "close_begin s = (if ul_phase s = UOpen then s\<lparr>ul_phase := UClosing\<rparr> else s\<lparr>ul_panic := True\<rparr>)"

text \<open>\<open>closedWG.Wait\<close> returns when the readers and the generators have ended.\<close>
definition wait_over :: "udp_life \<Rightarrow> bool" where
  "wait_over s \<longleftrightarrow> list_all (\<lambda>r. rd_stage r = Stopped) (ul_readers s) \<and> ul_gens s = []"

section \<open>Steps\<close>

datatype ul_label =
    UGot nat "udp_item list" | UHanded nat udp_item | UStop nat
  | UGen | UPut Endpoint | UDone bool | UDetect | UOther
  | UTookEndpoint Endpoint | UTookNAT NATInfo
  | UClose | UReturn | UFailed

inductive ud_step :: "udp_life \<Rightarrow> ul_label \<Rightarrow> udp_life \<Rightarrow> bool" where
  u_read: "k < length (ul_readers s) \<Longrightarrow> rd_stage (ul_readers s ! k) = Reading \<Longrightarrow> rd_open (ul_readers s ! k) \<Longrightarrow> ul_phase s = UOpen \<Longrightarrow>
    udpRead g str lk now (rd_sock (ul_readers s ! k)) buf addr (ul_conn s) = Some (c, evs) \<Longrightarrow>
    ud_step s (UGot k (items_of evs)) (put_stage k (after_read evs) (s\<lparr>ul_conn := c\<rparr>))"
| u_read_fail: "k < length (ul_readers s) \<Longrightarrow> rd_stage (ul_readers s ! k) = Reading \<Longrightarrow> rd_open (ul_readers s ! k) \<Longrightarrow> ul_phase s = UOpen \<Longrightarrow>
    udpRead g str lk now (rd_sock (ul_readers s ! k)) buf addr (ul_conn s) = None \<Longrightarrow> ud_step s UFailed (s\<lparr>ul_panic := True\<rparr>)"
| u_handed: "k < length (ul_readers s) \<Longrightarrow> rd_stage (ul_readers s ! k) = Sending x \<Longrightarrow> ud_step s (UHanded k x) (put_stage k Reading s)"
| u_stop: "k < length (ul_readers s) \<Longrightarrow> rd_stage (ul_readers s ! k) = Reading \<Longrightarrow> \<not> rd_open (ul_readers s ! k) \<or> ul_phase s \<noteq> UOpen \<Longrightarrow>
    ud_step s (UStop k) (put_stage k Stopped s)"
| u_lan: "ud_step s UGen (s\<lparr>ul_gens := ul_gens s @ [gen_lan i la]\<rparr>)"
| u_upnp: "ud_step s UGen (s\<lparr>ul_gens := ul_gens s @ [gen_upnp i a]\<rparr>)"
| u_detect: "DetectNAT listen str la answers (ul_conn s) = Some (c, info) \<Longrightarrow>
    (\<And>i. peer = Some i \<Longrightarrow> snd (findPeer now i (ul_conn s)) = Some None) \<Longrightarrow> ud_step s UDetect (detected peer c info s)"
| u_detect_fail: "DetectNAT listen str la answers (ul_conn s) = None \<Longrightarrow> ud_step s UFailed (s\<lparr>ul_panic := True\<rparr>)"
| u_restart: "ud_step s UOther (restarted (fst (RestartListener listen (ul_conn s))) s)"
| u_write: "WriteTo now p i (ul_conn s) = Some (c, ev, r) \<Longrightarrow> ud_step s UOther (s\<lparr>ul_conn := c\<rparr>)"
| u_health: "ul_phase s = UOpen \<Longrightarrow> ud_step s UOther (s\<lparr>ul_conn := healthcheck now (ul_conn s)\<rparr>)"
| u_put: "k < length (ul_gens s) \<Longrightarrow> gn_left (ul_gens s ! k) = e # es \<Longrightarrow>
    ul_phase s = UClosed \<or> length (ul_endpoints s) < endpoint_capacity \<Longrightarrow> ud_step s (UPut e) (gen_put k s)"
| u_done: "k < length (ul_gens s) \<Longrightarrow> gn_left (ul_gens s ! k) = [] \<Longrightarrow> ud_step s (UDone (gn_nat (ul_gens s ! k) \<noteq> None)) (gen_done k s)"
| u_endpoint: "ul_endpoints s = e # es \<Longrightarrow> ud_step s (UTookEndpoint e) (s\<lparr>ul_endpoints := es\<rparr>)"
| u_nat: "ul_nat s = i # is \<Longrightarrow> ud_step s (UTookNAT i) (s\<lparr>ul_nat := is\<rparr>)"
| u_close: "ud_step s UClose (close_begin s)"
| u_return: "ul_phase s = UClosing \<Longrightarrow> wait_over s \<Longrightarrow> ud_step s UReturn (s\<lparr>ul_phase := UClosed\<rparr>)"

text \<open>A run with its labels; a panic ends the process.\<close>
inductive ud_run :: "udp_life \<Rightarrow> ul_label list \<Rightarrow> udp_life \<Rightarrow> bool" for s where
  ud_nil: "ud_run s [] s"
| ud_snoc: "ud_run s ls t \<Longrightarrow> \<not> ul_panic t \<Longrightarrow> ud_step t l u \<Longrightarrow> ud_run s (ls @ [l]) u"

text \<open>What reader \<open>k\<close> has read and handed over, and the endpoints that were sent and taken.\<close>
definition got_by :: "nat \<Rightarrow> ul_label list \<Rightarrow> udp_item list" where
  "got_by k ls = concat (map (\<lambda>l. case l of UGot j xs \<Rightarrow> if j = k then xs else [] | _ \<Rightarrow> []) ls)"

definition handed_by :: "nat \<Rightarrow> ul_label list \<Rightarrow> udp_item list" where
  "handed_by k ls = concat (map (\<lambda>l. case l of UHanded j x \<Rightarrow> if j = k then [x] else [] | _ \<Rightarrow> []) ls)"

definition endpoints_put :: "ul_label list \<Rightarrow> Endpoint list" where
  "endpoints_put ls = concat (map (\<lambda>l. case l of UPut e \<Rightarrow> [e] | _ \<Rightarrow> []) ls)"

definition endpoints_taken :: "ul_label list \<Rightarrow> Endpoint list" where
  "endpoints_taken ls = concat (map (\<lambda>l. case l of UTookEndpoint e \<Rightarrow> [e] | _ \<Rightarrow> []) ls)"

lemmas ul_histories = got_by_def handed_by_def endpoints_put_def endpoints_taken_def

text \<open>A receive by the user of the connection.\<close>
definition user_receives :: "ul_label \<Rightarrow> bool" where
  "user_receives l \<longleftrightarrow> (case l of UHanded _ _ \<Rightarrow> True | UTookEndpoint _ \<Rightarrow> True | UTookNAT _ \<Rightarrow> True | _ \<Rightarrow> False)"

definition held_items :: "rd_stage \<Rightarrow> udp_item list" where
  "held_items g = (case g of Sending x \<Rightarrow> [x] | _ \<Rightarrow> [])"

definition reader_holds :: "udp_life \<Rightarrow> nat \<Rightarrow> udp_item list" where
  "reader_holds s k = (if k < length (ul_readers s) then held_items (rd_stage (ul_readers s ! k)) else [])"

text \<open>The endpoints that are still to be sent or wait in the channel.\<close>
definition load :: "udp_life \<Rightarrow> nat" where
  "load s = sum_list (map (\<lambda>g. length (gn_left g)) (ul_gens s)) + length (ul_endpoints s)"

section \<open>Lemmas\<close>

lemma items_of_simps [simp]: "items_of [] = []" "items_of (a @ b) = items_of a @ items_of b" "items_of (map (\<lambda>(s, a, b). USend s a b) ws) = []"
  by (auto simp: items_of_def List.map_filter_def item_of_def split_beta filter_empty_conv)

lemma items_of_heartbeat: "peer_heartbeat str lk now conn i addr c = (c', evs) \<Longrightarrow> items_of evs = []"
  by (auto simp: peer_heartbeat_def discoPing_def items_of_def List.map_filter_def item_of_def Let_def split: prod.splits option.splits if_splits)

lemma items_of_WriteTo: "WriteTo now p i c = Some (c', evs, r) \<Longrightarrow> items_of evs = []"
  by (auto simp: WriteTo_def split: option.splits prod.splits)

lemma items_of_single [simp]: "length (items_of [x]) \<le> 1" "length (items_of [x]) \<le> Suc 0" "items_of [UStun t a] = []"
  by (simp_all add: items_of_def List.map_filter_def item_of_def)

lemma items_of_relayed:
  assumes "handle_datagram now i buf c = Some (c', evs)"
  shows "length (items_of evs) \<le> 1"
proof -
  obtain fwd where f: "tryToDst buf i = Some fwd" using assms by (auto simp: handle_datagram_def bind_eq_Some_conv)
  show ?thesis
  proof (cases fwd)
    case None
    with f assms show ?thesis by (auto simp: handle_datagram_def bind_eq_Some_conv split: option.splits)
  next
    case (Some q)
    obtain pkt dst where q: "q = (pkt, dst)" by fastforce
    with f Some assms obtain ev r where w: "WriteTo now (Some pkt) dst c = Some (c', ev, r)" "evs = ev @ (case r of Inl e \<Rightarrow> [URelayErr dst e] | Inr _ \<Rightarrow> [])"
      by (auto simp: handle_datagram_def bind_eq_Some_conv)
    with items_of_WriteTo [OF w(1)] show ?thesis by (cases r) simp_all
  qed
qed

lemma items_of_response [simp]: "items_of (recvResponse b c) = []"
  by (auto simp: recvResponse_def split: prod.splits option.splits bool.splits)

text \<open>A packet makes at most one item.\<close>
lemma udpRead_items:
  assumes "udpRead g str lk now conn buf addr c = Some (c', evs)"
  shows "held_items (after_read evs) = items_of evs"
proof -
  consider "evs = []" | "items_of evs = []"
    | c1 i c2 ev ev' where "peer_heartbeat str lk now conn i addr c1 = (c2, ev)" "handle_datagram now i buf c2 = Some (c', ev')" "evs = ev @ ev'"
    using assms items_of_heartbeat
    unfolding udpRead_def Let_def by (auto split: if_splits prod.splits option.splits)
  then have "length (items_of evs) \<le> 1"
  proof cases
    case 3
    with items_of_heartbeat [OF 3(1)] items_of_relayed [OF 3(2)] show ?thesis by simp
  qed simp_all
  then show ?thesis by (cases "items_of evs") (auto simp: after_read_def held_items_def)
qed

lemma ul_history_Nil [simp]: "got_by k [] = []" "handed_by k [] = []" "endpoints_put [] = []" "endpoints_taken [] = []"
  by (simp_all add: ul_histories)

lemma ul_history_snoc [simp]:
  "got_by k (ls @ [l]) = got_by k ls @ (case l of UGot j xs \<Rightarrow> if j = k then xs else [] | _ \<Rightarrow> [])"
  "handed_by k (ls @ [l]) = handed_by k ls @ (case l of UHanded j x \<Rightarrow> if j = k then [x] else [] | _ \<Rightarrow> [])"
  "endpoints_put (ls @ [l]) = endpoints_put ls @ (case l of UPut e \<Rightarrow> [e] | _ \<Rightarrow> [])"
  "endpoints_taken (ls @ [l]) = endpoints_taken ls @ (case l of UTookEndpoint e \<Rightarrow> [e] | _ \<Rightarrow> [])"
  by (simp_all add: ul_histories)

lemma reader_holds_put_stage:
  "k < length (ul_readers s) \<Longrightarrow> reader_holds (put_stage k g s) j = (if j = k then held_items g else reader_holds s j)"
  by (auto simp: reader_holds_def put_stage_def nth_list_update)

lemma spawn_held: "r \<in> set (spawn c) \<Longrightarrow> rd_stage r = Reading"
  by (auto simp: spawn_def split: option.splits)

lemma in_hand_restarted [simp]: "reader_holds (restarted c s) = reader_holds s"
proof
  fix k
  show "reader_holds (restarted c s) k = reader_holds s k"
    using spawn_held [OF nth_mem, of "k - length (ul_readers s)" c]
    by (auto simp: reader_holds_def restarted_def nth_append held_items_def)
qed

text \<open>What the helpers leave as it is.\<close>
lemma restarted_rest [simp]:
  "ul_gens (restarted c s) = ul_gens s" "ul_endpoints (restarted c s) = ul_endpoints s" "ul_nat (restarted c s) = ul_nat s"
  "ul_phase (restarted c s) = ul_phase s" "ul_panic (restarted c s) = ul_panic s"
  by (simp_all add: restarted_def)

lemma push_nat_rest [simp]:
  "ul_gens (push_nat n s) = ul_gens s" "ul_endpoints (push_nat n s) = ul_endpoints s" "ul_readers (push_nat n s) = ul_readers s"
  "ul_phase (push_nat n s) = ul_phase s" "ul_conn (push_nat n s) = ul_conn s" "reader_holds (push_nat n s) = reader_holds s"
  "length (ul_nat s) \<le> nat_capacity \<Longrightarrow> length (ul_nat (push_nat n s)) \<le> nat_capacity"
  "ul_panic (push_nat n s) \<longleftrightarrow> ul_panic s \<or> n \<noteq> None \<and> ul_phase s = UClosed"
  by (auto simp: push_nat_def reader_holds_def split: option.splits)

lemma put_stage_rest [simp]:
  "ul_gens (put_stage k g s) = ul_gens s" "ul_endpoints (put_stage k g s) = ul_endpoints s" "ul_nat (put_stage k g s) = ul_nat s"
  "ul_phase (put_stage k g s) = ul_phase s" "ul_panic (put_stage k g s) = ul_panic s"
  by (simp_all add: put_stage_def)

lemma detected_rest [simp]:
  "ul_endpoints (detected peer c info s) = ul_endpoints s" "ul_phase (detected peer c info s) = ul_phase s"
  "ul_panic (detected peer c info s) \<longleftrightarrow> ul_panic s \<or> ul_phase s = UClosed"
  "length (ul_nat s) \<le> nat_capacity \<Longrightarrow> length (ul_nat (detected peer c info s)) \<le> nat_capacity"
  by (auto simp: detected_def Let_def split: option.splits)

lemma in_hand_conn [simp]:
  "reader_holds (s\<lparr>ul_conn := c\<rparr>) = reader_holds s" "reader_holds (s\<lparr>ul_gens := gs\<rparr>) = reader_holds s" "reader_holds (s\<lparr>ul_phase := ph\<rparr>) = reader_holds s"
  "reader_holds (s\<lparr>ul_endpoints := es\<rparr>) = reader_holds s" "reader_holds (s\<lparr>ul_nat := ns\<rparr>) = reader_holds s" "reader_holds (s\<lparr>ul_panic := p\<rparr>) = reader_holds s"
  by (auto simp: reader_holds_def)

lemma in_hand_detected [simp]: "reader_holds (detected peer c info s) = reader_holds s"
  by (auto simp: detected_def Let_def split: option.splits)

definition ud_ok :: "ul_label list \<Rightarrow> udp_life \<Rightarrow> bool" where
  "ud_ok ls s \<longleftrightarrow>
     (\<forall>k. got_by k ls = handed_by k ls @ reader_holds s k) \<and>
     endpoints_put ls = endpoints_taken ls @ ul_endpoints s \<and>
     length (ul_endpoints s) \<le> endpoint_capacity \<and> length (ul_nat s) \<le> nat_capacity \<and>
     (ul_phase s = UClosed \<longrightarrow> (\<forall>k. reader_holds s k = []))"

lemma wait_over_in_hand: "wait_over s \<Longrightarrow> reader_holds s k = []"
  by (simp add: wait_over_def reader_holds_def list_all_length held_items_def)

lemma ud_step_ok:
  assumes "ud_step s l t" and "ud_ok ls s"
  shows "ul_panic t \<or> ud_ok (ls @ [l]) t"
  using assms(1)
proof cases
  case (u_read k g str lk now buf addr c evs)
  then have "reader_holds s k = []" by (simp add: reader_holds_def held_items_def)
  with u_read assms(2) udpRead_items [OF u_read(7)] show ?thesis by (auto simp: ud_ok_def reader_holds_put_stage)
next
  case (u_handed k x)
  then have "reader_holds s k = [x]" by (simp add: reader_holds_def held_items_def)
  with u_handed assms(2) show ?thesis by (auto simp: ud_ok_def reader_holds_put_stage held_items_def)
next
  case (u_stop k)
  then have "reader_holds s k = []" by (simp add: reader_holds_def held_items_def)
  with u_stop assms(2) show ?thesis by (auto simp: ud_ok_def reader_holds_put_stage held_items_def)
next
  case u_return
  with assms(2) show ?thesis by (auto simp: ud_ok_def wait_over_in_hand)
next
  case (u_done k)
  with assms(2) show ?thesis by (auto simp: ud_ok_def gen_done_def)
next
  case u_close
  with assms(2) show ?thesis by (auto simp: ud_ok_def close_begin_def)
qed (use assms(2) in \<open>auto simp: ud_ok_def gen_put_def\<close>)

lemma ud_run_ok: "ud_run (ul_start c) ls s \<Longrightarrow> ul_panic s \<or> ud_ok ls s"
proof (induction rule: ud_run.induct)
  case ud_nil
  have "reader_holds (ul_start c) k = []" for k
    using spawn_held [of "spawn c ! k" c] by (auto simp: reader_holds_def ul_start_def held_items_def)
  then show ?case by (simp add: ud_ok_def ul_start_def endpoint_capacity_def nat_capacity_def)
next
  case (ud_snoc ls t l u)
  then show ?case using ud_step_ok by blast
qed

subsection \<open>Closing\<close>

definition to_read :: "rd_stage \<Rightarrow> nat" where
  "to_read g = (case g of Sending _ \<Rightarrow> 2 | Reading \<Rightarrow> 1 | Stopped \<Rightarrow> 0)"

text \<open>What is left of the waiting of \<open>Close\<close>.\<close>
definition waiting_for :: "udp_life \<Rightarrow> nat" where
  "waiting_for s = sum_list (map (\<lambda>r. to_read (rd_stage r)) (ul_readers s)) +
     sum_list (map (\<lambda>g. Suc (2 * length (gn_left g))) (ul_gens s)) + length (ul_endpoints s) + (if ul_phase s = UClosing then 1 else 0)"

text \<open>A step of the goroutines that were there, or a receive.\<close>
definition winding_down :: "ul_label \<Rightarrow> bool" where
  "winding_down l \<longleftrightarrow> (case l of UHanded _ _ \<Rightarrow> True | UStop _ \<Rightarrow> True | UPut _ \<Rightarrow> True | UDone _ \<Rightarrow> True | UTookEndpoint _ \<Rightarrow> True | UReturn \<Rightarrow> True | _ \<Rightarrow> False)"

lemma sum_list_update_less:
  "k < length xs \<Longrightarrow> f y < (f (xs ! k) :: nat) \<Longrightarrow> sum_list (map f (xs[k := y])) < sum_list (map f xs)"
  by (induction xs arbitrary: k) (auto split: nat.splits)

lemma put_stage_less:
  "k < length (ul_readers s) \<Longrightarrow> to_read g < to_read (rd_stage (ul_readers s ! k)) \<Longrightarrow> waiting_for (put_stage k g s) < waiting_for s"
  using sum_list_update_less [of k "ul_readers s" "\<lambda>r. to_read (rd_stage r)" "(ul_readers s ! k)\<lparr>rd_stage := g\<rparr>"]
  by (simp add: waiting_for_def put_stage_def)

lemma sum_list_remove:
  "k < length xs \<Longrightarrow> sum_list (map f xs) = (f (xs ! k) :: nat) + sum_list (map f (take k xs @ drop (Suc k) xs))"
proof -
  assume "k < length xs"
  then have "xs = take k xs @ xs ! k # drop (Suc k) xs" by (rule id_take_nth_drop)
  then have "sum_list (map f xs) = sum_list (map f (take k xs @ xs ! k # drop (Suc k) xs))" by metis
  then show ?thesis by simp
qed

lemma sum_list_replace:
  "k < length xs \<Longrightarrow> sum_list (map f (xs[k := y])) + f (xs ! k) = (f y :: nat) + sum_list (map f xs)"
  by (induction xs arbitrary: k) (auto split: nat.splits)

lemma gen_put_open:
  "ul_phase s \<noteq> UClosed \<Longrightarrow> gn_left (ul_gens s ! k) = e # es \<Longrightarrow>
    gen_put k s = s\<lparr>ul_gens := (ul_gens s)[k := (ul_gens s ! k)\<lparr>gn_left := es\<rparr>], ul_endpoints := ul_endpoints s @ [e]\<rparr>"
  by (simp add: gen_put_def)

lemma waiting_for_push_nat [simp]: "waiting_for (push_nat n s) = waiting_for s"
  by (simp add: waiting_for_def)

text \<open>No reader holds an item, and the endpoints left fit into the channel.\<close>
definition settled :: "udp_life \<Rightarrow> bool" where
  "settled s \<longleftrightarrow> (\<forall>k. reader_holds s k = []) \<and> load s \<le> endpoint_capacity"

text \<open>As long as \<open>Close\<close> waits, something can go on, if the items that are offered are received.\<close>
lemma closing_progress:
  assumes "ul_phase s = UClosing" and "length (ul_endpoints s) \<le> endpoint_capacity" and "\<not> ul_panic s"
  shows "\<exists>l t. ud_step s l t \<and> winding_down l \<and> waiting_for t < waiting_for s \<and> \<not> ul_panic t \<and> length (ul_endpoints t) \<le> endpoint_capacity \<and>
    ul_phase t \<noteq> UOpen \<and> (settled s \<longrightarrow> \<not> user_receives l)"
proof -
  have go: ?thesis if "ud_step s l t" "winding_down l" "waiting_for t < waiting_for s" "\<not> ul_panic t" "length (ul_endpoints t) \<le> endpoint_capacity"
      "ul_phase t \<noteq> UOpen" "settled s \<Longrightarrow> \<not> user_receives l" for l t
    using that by blast
  note kinds = winding_down_def user_receives_def
  consider k where "k < length (ul_readers s)" "rd_stage (ul_readers s ! k) = Reading"
    | k x where "k < length (ul_readers s)" "rd_stage (ul_readers s ! k) = Sending x"
    | k where "k < length (ul_gens s)" "gn_left (ul_gens s ! k) = []"
    | k e es where "k < length (ul_gens s)" "gn_left (ul_gens s ! k) = e # es" "length (ul_endpoints s) < endpoint_capacity"
    | k e es x r where "k < length (ul_gens s)" "gn_left (ul_gens s ! k) = e # es" "length (ul_endpoints s) = endpoint_capacity" "ul_endpoints s = x # r"
    | "wait_over s"
  proof -
    have w: "(\<exists>k < length (ul_readers s). rd_stage (ul_readers s ! k) \<noteq> Stopped) \<or> 0 < length (ul_gens s) \<or> wait_over s"
      by (auto simp: wait_over_def list_all_length)
    have r: "rd_stage (ul_readers s ! k) = Stopped \<or> rd_stage (ul_readers s ! k) = Reading \<or> (\<exists>x. rd_stage (ul_readers s ! k) = Sending x)" for k
      by (cases "rd_stage (ul_readers s ! k)") auto
    have g: "gn_left (ul_gens s ! 0) = [] \<or> (\<exists>e es. gn_left (ul_gens s ! 0) = e # es)" by (cases "gn_left (ul_gens s ! 0)") auto
    have f: "length (ul_endpoints s) < endpoint_capacity \<or> length (ul_endpoints s) = endpoint_capacity \<and> (\<exists>x r. ul_endpoints s = x # r)"
      using assms(2) by (cases "ul_endpoints s") (auto simp: endpoint_capacity_def)
    show thesis using that w r g f by blast
  qed
  then show ?thesis
  proof cases
    case 1
    from go [OF ud_step.u_stop [OF 1]] put_stage_less [OF 1(1), of Stopped] 1(2) assms show ?thesis by (simp add: kinds to_read_def)
  next
    case (2 k x)
    then have n: "reader_holds s k \<noteq> []" by (simp add: reader_holds_def held_items_def)
    have w: "waiting_for (put_stage k Reading s) < waiting_for s"
      using put_stage_less [OF 2(1), of Reading] 2(2) by (simp add: to_read_def)
    show ?thesis
      by (rule go [OF ud_step.u_handed [OF 2] _ w]) (use n assms in \<open>simp_all add: winding_down_def settled_def\<close>)
  next
    case (3 k)
    have "waiting_for (gen_done k s) < waiting_for s"
      using sum_list_remove [OF 3(1), of "\<lambda>g. Suc (2 * length (gn_left g))"] by (simp add: waiting_for_def gen_done_def)
    moreover have "\<not> ul_panic (gen_done k s)" "ul_endpoints (gen_done k s) = ul_endpoints s" "ul_phase (gen_done k s) = UClosing"
      using assms(1,3) by (simp_all add: gen_done_def)
    ultimately show ?thesis using go [OF ud_step.u_done [OF 3]] assms(2) by (simp add: kinds)
  next
    case (4 k e es)
    have p: "gen_put k s = s\<lparr>ul_gens := (ul_gens s)[k := (ul_gens s ! k)\<lparr>gn_left := es\<rparr>], ul_endpoints := ul_endpoints s @ [e]\<rparr>"
      using gen_put_open 4(2) assms(1) by simp
    have "waiting_for (gen_put k s) < waiting_for s"
      using sum_list_replace [OF 4(1), of "\<lambda>g. Suc (2 * length (gn_left g))" "(ul_gens s ! k)\<lparr>gn_left := es\<rparr>"] 4(2)
      by (simp add: waiting_for_def p)
    with go [OF ud_step.u_put [OF 4(1,2)]] 4(3) assms show ?thesis by (simp add: kinds p)
  next
    case (5 k e es x r)
    have "\<not> settled s"
      using 5(2,3) sum_list_remove [OF 5(1), of "\<lambda>g. length (gn_left g)"] by (simp add: settled_def load_def)
    show ?thesis
      by (rule go [OF ud_step.u_endpoint [OF 5(4)]]) (use \<open>\<not> settled s\<close> 5(3,4) assms in \<open>simp_all add: winding_down_def waiting_for_def\<close>)
  next
    case 6
    show ?thesis
      by (rule go [OF ud_step.u_return [OF assms(1) 6]]) (use assms in \<open>simp_all add: kinds waiting_for_def\<close>)
  qed
qed

lemma ud_run_trans: "ud_run t ls' u \<Longrightarrow> ud_run s ls t \<Longrightarrow> ud_run s (ls @ ls') u"
proof (induction rule: ud_run.induct)
  case (ud_snoc ls' t' l u)
  then show ?case using ud_run.ud_snoc [of s "ls @ ls'" t' l u] by simp
qed simp

lemma ud_run_Cons:
  assumes "ud_step s l t" and "\<not> ul_panic s" and "ud_run t ls u"
  shows "ud_run s (l # ls) u"
  using ud_run_trans [OF assms(3), of s "[l]"] ud_run.ud_snoc [OF ud_run.ud_nil, of s l t] assms(1,2) by simp

lemma load_gens_replace:
  "k < length (ul_gens s) \<Longrightarrow> gn_left (ul_gens s ! k) = e # es \<Longrightarrow> ul_phase s \<noteq> UClosed \<Longrightarrow> load (gen_put k s) = load s"
  using sum_list_replace [of k "ul_gens s" "\<lambda>g. length (gn_left g)" "(ul_gens s ! k)\<lparr>gn_left := es\<rparr>"]
  by (simp add: load_def gen_put_open)

lemma load_rest [simp]:
  "load (put_stage k g s) = load s" "load (push_nat n s) = load s" "load (restarted c s) = load s" "load (s\<lparr>ul_conn := c\<rparr>) = load s"
  "load (s\<lparr>ul_phase := ph\<rparr>) = load s" "load (s\<lparr>ul_panic := p\<rparr>) = load s" "load (close_begin s) = load s"
  by (simp_all add: load_def close_begin_def)

lemma load_gen_done: "k < length (ul_gens s) \<Longrightarrow> gn_left (ul_gens s ! k) = [] \<Longrightarrow> load (gen_done k s) = load s"
  using sum_list_remove [of k "ul_gens s" "\<lambda>g. length (gn_left g)"] by (simp add: load_def gen_done_def)

lemma load_detected: "load s \<le> load (detected peer c info s)"
  by (auto simp: detected_def Let_def load_def split: option.splits)

lemma in_hand_rest [simp]: "reader_holds (gen_put k s) = reader_holds s" "reader_holds (gen_done k s) = reader_holds s" "reader_holds (close_begin s) = reader_holds s"
  by (auto simp: gen_put_def gen_done_def close_begin_def split: list.splits)

text \<open>Without receives, held items stay and nothing leaves the channel.\<close>
lemma unreceived_step:
  assumes "ud_step s l t" and "\<not> user_receives l" and "ul_phase s \<noteq> UClosed"
  shows "load s \<le> load t \<and> (\<forall>k. reader_holds s k \<noteq> [] \<longrightarrow> reader_holds t k = reader_holds s k)"
  using assms(1)
proof cases
  case (u_read k g str lk now buf addr c evs)
  then have "reader_holds s k = []" by (simp add: reader_holds_def held_items_def)
  with u_read show ?thesis by (simp add: reader_holds_put_stage)
next
  case (u_stop k)
  then have "reader_holds s k = []" by (simp add: reader_holds_def held_items_def)
  with u_stop show ?thesis by (simp add: reader_holds_put_stage)
next
  case (u_put k e es)
  with load_gens_replace [OF u_put(3,4) assms(3)] show ?thesis by simp
next
  case (u_done k)
  with load_gen_done [OF u_done(3,4)] show ?thesis by simp
qed (use assms(2) load_detected in \<open>auto simp: user_receives_def load_def close_begin_def\<close>)

lemma settled_step:
  assumes "ud_step s l t" and "winding_down l" and "\<not> user_receives l" and "settled s" and "ul_phase s \<noteq> UClosed"
  shows "settled t"
  using assms(1)
proof cases
  case (u_stop k)
  with assms(4) show ?thesis by (simp add: settled_def reader_holds_put_stage held_items_def)
next
  case (u_put k e es)
  with load_gens_replace [OF u_put(3,4) assms(5)] assms(4) show ?thesis by (simp add: settled_def)
next
  case (u_done k)
  with load_gen_done [OF u_done(3,4)] assms(4) show ?thesis by (simp add: settled_def)
qed (use assms(2-4) in \<open>auto simp: user_receives_def winding_down_def settled_def\<close>)

lemma closing_returns:
  assumes "ul_phase s \<noteq> UOpen" and "length (ul_endpoints s) \<le> endpoint_capacity" and "\<not> ul_panic s"
  shows "\<exists>ls t. ud_run s ls t \<and> list_all winding_down ls \<and> ul_phase t = UClosed \<and> \<not> ul_panic t \<and> (settled s \<longrightarrow> list_all (\<lambda>l. \<not> user_receives l) ls)"
  using assms
proof (induction "waiting_for s" arbitrary: s rule: less_induct)
  case less
  show ?case
  proof (cases "ul_phase s = UClosed")
    case True
    with less.prems show ?thesis by (intro exI [of _ "[]"] exI [of _ s]) (simp add: ud_run.ud_nil)
  next
    case False
    with less.prems have c: "ul_phase s = UClosing" by (cases "ul_phase s") auto
    from closing_progress [OF c less.prems(2,3)] obtain l t where
      t: "ud_step s l t" "winding_down l" "waiting_for t < waiting_for s" "\<not> ul_panic t" "length (ul_endpoints t) \<le> endpoint_capacity" "ul_phase t \<noteq> UOpen"
        "settled s \<longrightarrow> \<not> user_receives l"
      by blast
    from less.hyps [OF t(3) t(6,5,4)] obtain ls u where u: "ud_run t ls u" "list_all winding_down ls" "ul_phase u = UClosed" "\<not> ul_panic u"
      "settled t \<longrightarrow> list_all (\<lambda>l. \<not> user_receives l) ls" by blast
    from settled_step [OF t(1,2)] t(7) c u(5) have "settled s \<longrightarrow> list_all (\<lambda>l. \<not> user_receives l) (l # ls)" by auto
    with ud_run_Cons [OF t(1) less.prems(3) u(1)] u t(2) show ?thesis by (intro exI [of _ "l # ls"] exI [of _ u]) simp
  qed
qed

lemma closed_stays:
  assumes "ud_step s l t" and "ul_phase s = UClosed"
  shows "ul_phase t = UClosed"
  using assms by cases (auto simp: gen_put_def gen_done_def close_begin_def split: list.splits)

text \<open>Without receives, \<open>Close\<close> returns only from a settled state.\<close>
lemma unreceived_run:
  assumes "ud_run s ls t" and "list_all (\<lambda>l. \<not> user_receives l) ls" and "ul_phase s = UClosing" and "length (ul_endpoints s) \<le> endpoint_capacity"
  shows "if ul_phase t = UClosed then ul_panic t \<or> settled s
    else ul_panic t \<or> load s \<le> load t \<and> (\<forall>k. reader_holds s k \<noteq> [] \<longrightarrow> reader_holds t k = reader_holds s k) \<and> length (ul_endpoints t) \<le> endpoint_capacity"
  using assms
proof (induction rule: ud_run.induct)
  case ud_nil
  then show ?case by simp
next
  case (ud_snoc ls t l u)
  show ?case
  proof (cases "ul_phase t = UClosed")
    case True
    then have "ul_phase u = UClosed" by (rule closed_stays [OF ud_snoc.hyps(3)])
    with True ud_snoc show ?thesis by simp
  next
    case False
    have t: "load s \<le> load t" "\<And>k. reader_holds s k \<noteq> [] \<Longrightarrow> reader_holds t k = reader_holds s k" "length (ul_endpoints t) \<le> endpoint_capacity"
      using ud_snoc False by simp_all
    have n: "\<not> user_receives l" using ud_snoc.prems(1) by simp
    note u = unreceived_step [OF ud_snoc.hyps(3) n False]
    have e: "ul_panic u \<or> length (ul_endpoints u) \<le> endpoint_capacity"
      using ud_snoc.hyps(3) t(3) by cases (auto simp: gen_put_def gen_done_def close_begin_def split: list.splits)
    show ?thesis
    proof (cases "ul_phase u = UClosed")
      case True
      have r: "wait_over t \<and> ul_endpoints u = ul_endpoints t \<and> ul_phase t = UClosing"
        using ud_snoc.hyps(3) False True by cases (auto simp: gen_put_def gen_done_def close_begin_def split: list.splits if_splits)
      then have "load t = length (ul_endpoints t)" by (simp add: load_def wait_over_def)
      with r t have "settled s" by (metis settled_def wait_over_in_hand order_trans)
      with True show ?thesis by simp
    next
      case False
      with e u t show ?thesis by (auto simp: order_trans)
    qed
  qed
qed

subsection \<open>Round trips\<close>

lemma first_packet_Cons:
  "(\<exists>pre b post. e # es = pre @ RtPacket b # post \<and> P b \<and> (\<forall>e \<in> set pre. N e)) \<longleftrightarrow>
    (\<exists>b. e = RtPacket b \<and> P b) \<or> N e \<and> (\<exists>pre b post. es = pre @ RtPacket b # post \<and> P b \<and> (\<forall>e \<in> set pre. N e))"
  (is "?L \<longleftrightarrow> ?A \<or> ?B")
proof
  assume ?L
  then obtain pre b post where p: "e # es = pre @ RtPacket b # post" "P b" "\<forall>e \<in> set pre. N e" by blast
  show "?A \<or> ?B"
  proof (cases pre)
    case Nil
    with p show ?thesis by simp
  next
    case (Cons e' pre')
    with p have "N e" "es = pre' @ RtPacket b # post" "\<forall>e \<in> set pre'. N e" by auto
    with p(2) show ?thesis by blast
  qed
next
  assume "?A \<or> ?B"
  then show ?L
  proof
    assume ?A
    then obtain b where "e = RtPacket b" "P b" by blast
    then show ?L by (intro exI [of _ "[]"] exI [of _ b] exI [of _ es]) simp
  next
    assume ?B
    then obtain pre b post where "N e" "es = pre @ RtPacket b # post" "P b" "\<forall>e \<in> set pre. N e" by blast
    then show ?L by (intro exI [of _ "e # pre"] exI [of _ b] exI [of _ post]) simp
  qed
qed

lemma rt_wait_addr:
  assumes "uc_stun c txID = Some True"
  shows "rt_wait txID c es = Some (RtAddr x) \<longleftrightarrow>
    (\<exists>pre b post. es = pre @ RtPacket b # post \<and> ParseResponse b = (txID, x, None) \<and>
      (\<forall>e \<in> set pre. \<exists>d. e = RtPacket d \<and> (\<nexists>y. ParseResponse d = (txID, y, None))))"
proof (induction es)
  case (Cons e es)
  have "rt_wait txID c (RtPacket b # es) = (case ParseResponse b of (t, y, err) \<Rightarrow> if t = txID \<and> err = None then Some (RtAddr y) else rt_wait txID c es)" for b
    using assms by (cases "ParseResponse b") (auto simp: recvResponse_def split: option.splits bool.splits)
  then have "rt_wait txID c (e # es) = Some (RtAddr x) \<longleftrightarrow> (\<exists>b. e = RtPacket b \<and> ParseResponse b = (txID, x, None)) \<or>
      (\<exists>d. e = RtPacket d \<and> (\<nexists>y. ParseResponse d = (txID, y, None))) \<and> rt_wait txID c es = Some (RtAddr x)"
    by (cases e) (auto split: prod.splits)
  then show ?case unfolding first_packet_Cons Cons.IH .
qed simp

section \<open>Properties\<close>

text \<open>C31. The readers hand over everything that they make, in order and once: however reading, receiving, generating
  addresses, restarting the listeners and closing interleave, what a reader has made of its packets is what the user has
  received from it, followed by at most one item that waits; the endpoints leave in the order in which they were sent;
  the channels keep their capacities; and once \<open>Close\<close> has returned nothing waits any more.\<close>
theorem udp_handover_in_order:
  assumes "ud_run (ul_start c) ls s" and "\<not> ul_panic s"
  shows "got_by k ls = handed_by k ls @ reader_holds s k \<and> length (reader_holds s k) \<le> 1 \<and>
    endpoints_put ls = endpoints_taken ls @ ul_endpoints s \<and> length (ul_endpoints s) \<le> 10 \<and> length (ul_nat s) \<le> 3 \<and>
    (ul_phase s = UClosed \<longrightarrow> got_by k ls = handed_by k ls)"
proof -
  have "length (reader_holds s k) \<le> 1" by (simp add: reader_holds_def held_items_def split: rd_stage.splits)
  then show ?thesis using ud_run_ok [OF assms(1)] assms(2) by (simp add: ud_ok_def endpoint_capacity_def nat_capacity_def)
qed

definition demo_ip_cfg :: local_cfg where
  "demo_ip_cfg = \<lparr>ignoredLocalCIDRs = [], ignoredLocalInterfaceNamePrefixs = [], localIPs = []\<rparr>"

lemma demo_udpRead:
  "\<exists>c. udpRead demo_ip_cfg (\<lambda>_. ''x'') (True, True) 5 5000 (GSlice [9] [0, 0, 0]) \<lparr>ua_ip = [10, 0, 0, 1], ua_port = 7001\<rparr> (demo_conn [3]) =
    Some (c, [UDatagram [1] [9]])"
proof -
  from demo_findPeerID [of 1 "[3]"] obtain P where
    f: "findPeerID (\<lambda>_. ''x'') 5 \<lparr>ua_ip = [10, 0, 0, 1], ua_port = 7001\<rparr> (demo_conn [3]) = (demo_conn [3]\<lparr>uc_cache := P\<rparr>, Some [1])" by auto
  have h: "\<exists>r. peer_heartbeat (\<lambda>_. ''x'') (True, True) 5 5000 [1] \<lparr>ua_ip = [10, 0, 0, 1], ua_port = 7001\<rparr> (demo_conn [3]\<lparr>uc_cache := P\<rparr>) = (r, [])"
    by (simp add: peer_heartbeat_def tryGetPeerkeeper_def demo_conn_def demo_keeper_def heartbeat_def set_keeper_def Let_def)
  have "ParsePing (uc_Magic (demo_conn [3])) [9] = []" "\<not> Is [9]"
    by (simp_all add: ParsePing_def magic_def default_ping_def demo_conn_def Is_def headerLen_def magicCookie_def Let_def)
  then show ?thesis
    using udpRead_known [of "demo_conn [3]" "GSlice [9] [0, 0, 0]" "\<lambda>_. ''x''" 5 _ _ "[1]", OF _ _ f] h
    by (auto simp: Len_def handle_datagram_def tryToDst_def tryRecv_def sl_range_def sl_cap_def MAGIC_TO_RELAY_def MAGIC_FROM_RELAY_def)
qed

text \<open>A reader holds a datagram.\<close>
lemma demo_holding:
  "\<exists>s. ud_run (ul_start (demo_conn [3])) [UGot 0 [Data [1] [9]]] s \<and> \<not> ul_panic s \<and> ul_phase s = UOpen \<and> reader_holds s 0 = [Data [1] [9]]"
proof -
  let ?s = "ul_start (demo_conn [3])"
  obtain c where c: "udpRead demo_ip_cfg (\<lambda>_. ''x'') (True, True) 5 5000 (GSlice [9] [0, 0, 0]) \<lparr>ua_ip = [10, 0, 0, 1], ua_port = 7001\<rparr> (demo_conn [3]) =
    Some (c, [UDatagram [1] [9]])" using demo_udpRead by blast
  have r: "0 < length (ul_readers ?s)" "rd_stage (ul_readers ?s ! 0) = Reading" "rd_open (ul_readers ?s ! 0)" "ul_phase ?s = UOpen"
    "rd_sock (ul_readers ?s ! 0) = 5000" "ul_conn ?s = demo_conn [3]" "\<not> ul_panic ?s"
    by (simp_all add: ul_start_def spawn_def demo_conn_def)
  have i: "items_of [UDatagram [1] [9]] = [Data [1] [9]]" by (simp add: items_of_def List.map_filter_def item_of_def)
  let ?t = "put_stage 0 (after_read [UDatagram [1] [9]]) (?s\<lparr>ul_conn := c\<rparr>)"
  have "ud_step ?s (UGot 0 (items_of [UDatagram [1] [9]])) ?t"
    by (rule ud_step.u_read [OF r(1-4)]) (unfold r(5,6), rule c)
  then have "ud_run ?s [UGot 0 [Data [1] [9]]] ?t"
    using ud_run.ud_snoc [OF ud_run.ud_nil r(7)] i by fastforce
  moreover have "reader_holds ?t 0 = [Data [1] [9]]"
    using r(1) by (simp add: reader_holds_put_stage after_read_def i held_items_def)
  ultimately show ?thesis using r(4,7) by (intro exI [of _ ?t]) simp
qed

theorem udp_handover_in_order_witness:
  "\<exists>s. ud_run (ul_start (demo_conn [3])) [UGot 0 [Data [1] [9]]] s \<and>
    got_by 0 [UGot 0 [Data [1] [9]]] = handed_by 0 [UGot 0 [Data [1] [9]]] @ reader_holds s 0 \<and> reader_holds s 0 \<noteq> []"
proof -
  obtain s where s: "ud_run (ul_start (demo_conn [3])) [UGot 0 [Data [1] [9]]] s" "\<not> ul_panic s" "reader_holds s 0 = [Data [1] [9]]"
    using demo_holding by blast
  with udp_handover_in_order [OF s(1,2), of 0] show ?thesis by auto
qed

text \<open>C33. Closing: from every state in which \<open>Close\<close> waits, it returns if the user goes on to receive. If
  nobody receives any more, it returns exactly when no reader holds a datagram or an error and
  at most ten endpoints are left: otherwise it waits forever, whatever the goroutines do.\<close>
theorem udp_close_returns:
  assumes "ud_run (ul_start c) ls s" and "\<not> ul_panic s" and "ul_phase s = UClosing"
  shows "(\<exists>ls' t. ud_run s ls' t \<and> \<not> ul_panic t \<and> ul_phase t = UClosed) \<and>
    ((\<exists>ls' t. ud_run s ls' t \<and> list_all (\<lambda>l. \<not> user_receives l) ls' \<and> \<not> ul_panic t \<and> ul_phase t = UClosed) \<longleftrightarrow>
     (\<forall>k. reader_holds s k = []) \<and> load s \<le> 10)"
proof -
  have e: "length (ul_endpoints s) \<le> endpoint_capacity" using ud_run_ok [OF assms(1)] assms(2) by (simp add: ud_ok_def)
  have n: "ul_phase s \<noteq> UOpen" using assms(3) by simp
  have "settled s" if "ud_run s ls' t" "list_all (\<lambda>l. \<not> user_receives l) ls'" "\<not> ul_panic t" "ul_phase t = UClosed" for ls' t
    using unreceived_run [OF that(1,2) assms(3) e] that(3,4) by simp
  moreover have "settled s \<longleftrightarrow> (\<forall>k. reader_holds s k = []) \<and> load s \<le> 10" by (simp add: settled_def endpoint_capacity_def)
  ultimately show ?thesis using closing_returns [OF n e assms(2)] by blast
qed

theorem udp_close_returns_witness:
  "\<exists>s. ud_run (ul_start (demo_conn [3])) [UGot 0 [Data [1] [9]], UClose] s \<and>
    (\<nexists>ls' t. ud_run s ls' t \<and> list_all (\<lambda>l. \<not> user_receives l) ls' \<and> \<not> ul_panic t \<and> ul_phase t = UClosed)"
proof -
  obtain s where s: "ud_run (ul_start (demo_conn [3])) [UGot 0 [Data [1] [9]]] s" "\<not> ul_panic s" "ul_phase s = UOpen" "reader_holds s 0 = [Data [1] [9]]"
    using demo_holding by blast
  from ud_run.ud_snoc [OF s(1,2) ud_step.u_close] have r: "ud_run (ul_start (demo_conn [3])) [UGot 0 [Data [1] [9]], UClose] (close_begin s)" by simp
  have "\<not> ul_panic (close_begin s)" "ul_phase (close_begin s) = UClosing" "reader_holds (close_begin s) 0 \<noteq> []" using s by (simp_all add: close_begin_def)
  with udp_close_returns [OF r this(1,2)] r show ?thesis by blast
qed

text \<open>After \<open>Close\<close> has returned, the process panics exactly when a NAT detection ends, a generator sends an
  endpoint or a NAT event, or the connection is closed again; the other operations go on without effect on the channels.\<close>
theorem udp_closed_panics:
  assumes "ud_step s l t" and "ul_phase s = UClosed" and "\<not> ul_panic s" and "l \<noteq> UFailed"
  shows "ul_panic t \<longleftrightarrow> l = UDetect \<or> l = UDone True \<or> l = UClose \<or> (\<exists>e. l = UPut e)"
  using assms(1)
  by cases (use assms(2-4) in \<open>auto simp: gen_put_def gen_done_def close_begin_def\<close>)

theorem udp_closed_panics_witness:
  "\<exists>l t. ud_step ((ul_start (demo_conn [3]))\<lparr>ul_phase := UClosed\<rparr>) l t \<and> l = UDetect \<and> ul_panic t"
proof -
  let ?s = "(ul_start (demo_conn [3]))\<lparr>ul_phase := UClosed\<rparr>"
  have c: "ul_conn ?s = demo_conn [3]" "ul_phase ?s = UClosed" "\<not> ul_panic ?s" by (simp_all add: ul_start_def)
  have "DetectNAT (\<lambda>_. True) (\<lambda>_. ''x'') [] [] (ul_conn ?s) \<noteq> None"
    unfolding c(1) by (simp add: DetectNAT_def mainUDP_def demo_conn_def Let_def)
  then obtain c' info where d: "DetectNAT (\<lambda>_. True) (\<lambda>_. ''x'') [] [] (ul_conn ?s) = Some (c', info)" by auto
  have "ud_step ?s UDetect (detected None c' info ?s)" by (rule ud_step.u_detect [OF d]) simp
  with udp_closed_panics [OF this c(2,3)] show ?thesis by blast
qed

text \<open>A STUN round trip gives an address exactly when the first packet that is a valid response to its own
  transaction comes before the timeout and the end of its context, and it gives the address in this response; responses to
  other transactions do not matter, and once it is over no response has an effect.\<close>
theorem stun_round_trip:
  assumes "length txID = 12"
  shows "(snd (snd (roundTrip txID sock (Some a) True es c)) = Some (RtAddr x) \<longleftrightarrow>
      (\<exists>pre b post. es = pre @ RtPacket b # post \<and> ParseResponse b = (txID, x, None) \<and>
         (\<forall>e \<in> set pre. \<exists>d. e = RtPacket d \<and> (\<nexists>y. ParseResponse d = (txID, y, None))))) \<and>
    fst (snd (roundTrip txID sock (Some a) True es c)) = [USend sock a (Request txID)] \<and>
    (snd (snd (roundTrip txID sock (Some a) True es c)) \<noteq> None \<longrightarrow>
      (\<forall>b y. ParseResponse b = (txID, y, None) \<longrightarrow> recvResponse b (fst (roundTrip txID sock (Some a) True es c)) = [])) \<and>
    (ip_ok ip \<and> ip \<noteq> NoAddr \<longrightarrow>
      snd (snd (roundTrip txID sock (Some a) True (RtPacket (Response txID (ip, p)) # es) c)) = Some (RtAddr (Unmap ip, p)))"
proof -
  have w: "uc_stun (stun_begin txID c) txID = Some True" by (simp add: stun_begin_def)
  have "recvResponse (Response txID (ip, p)) (stun_begin txID c) = [UStun txID (Unmap ip, p)]" if "ip_ok ip" "ip \<noteq> NoAddr"
    by (simp add: recvResponse_def stun_response_roundtrip [OF assms that] w)
  moreover have "recvResponse b (stun_end txID d) = []" if "ParseResponse b = (txID, y, None)" for b y d
    using that by (simp add: recvResponse_def stun_end_def)
  ultimately show ?thesis unfolding roundTrip_def Let_def option.case using rt_wait_addr [OF w, of es x]
    by (intro conjI impI allI) (auto split: if_splits)
qed

theorem stun_round_trip_witness:
  "snd (snd (roundTrip (replicate 12 5) 5000 (Some \<lparr>ua_ip = [1, 1, 1, 1], ua_port = 3478\<rparr>) True
      [RtPacket (Response (replicate 12 5) (Addr4 [192, 168, 1, 2], 8080)), RtTimeout] (demo_conn [3]))) = Some (RtAddr (Addr4 [192, 168, 1, 2], 8080))"
  using stun_round_trip [of "replicate 12 5" 5000 "\<lparr>ua_ip = [1, 1, 1, 1], ua_port = 3478\<rparr>" "[RtTimeout]" "demo_conn [3]" _ "Addr4 [192, 168, 1, 2]" 8080] by simp

end
