(* ===== verification/Gvisor.thy ===== *)
theory Gvisor
  imports Nic Net_Text
begin

text \<open>
  The interface in user space (\<open>vpn/nic/gvisor/gvisor.go\<close>): configuration of the network stack, packets
  in and out, dialling and listening, and the listener that combines several. The gVisor stack is not
  part of the repository: what the card asks of it is a list of calls, what it answers (endpoints that
  can be opened, packets it emits) are arguments. \<^const>\<open>None\<close> is a panic.
\<close>

section \<open>Configuration\<close>

datatype net_proto = ProtoIPv4 | ProtoIPv6

datatype stack_call =
    CreateNIC
  | AddProtocolAddress net_proto bytes nat
  | AddRoute bytes bytes
  | RemoveAddress bytes
  | RemoveRoutes
  | EndpointClose
  | InjectInbound net_proto bytes

record GvisorCard =
  gc_addr4 :: bytes
  gc_addr6 :: bytes

text \<open>\<open>IPMask.Size\<close>: the leading ones of a mask, 0 if other bits are set.\<close>
fun byte_ones :: "nat \<Rightarrow> u8 \<Rightarrow> nat option" where
  "byte_ones 0 v = (if v = 0 then Some 0 else None)"
| "byte_ones (Suc k) v = (if v AND 0x80 \<noteq> 0 then map_option Suc (byte_ones k (push_bit 1 v)) else if v = 0 then Some 0 else None)"

fun mask_length :: "bytes \<Rightarrow> nat option" where
  "mask_length [] = Some 0"
| "mask_length (v # m) =
     (if v = 0xff then map_option ((+) 8) (mask_length m)
      else if list_all (\<lambda>x. x = 0) m then byte_ones 8 v else None)"

definition mask_Size :: "bytes \<Rightarrow> nat" where
  "mask_Size m = (case mask_length m of Some n \<Rightarrow> n | None \<Rightarrow> 0)"

text \<open>\<open>parse\<close> is \<open>net.ParseCIDR\<close>. The conversions to arrays panic when the address is of the other kind.\<close>
definition init_v4 :: "(string \<Rightarrow> (IP \<times> IPNet) option) \<Rightarrow> string \<Rightarrow> (bytes \<times> stack_call list) option" where
  "init_v4 parse s =
     (if s = '''' then Some ([], [])
      else do {
        (ip, ipnet) \<leftarrow> parse s;
        a \<leftarrow> To4 ip;
        d \<leftarrow> To4 (n_ip ipnet);
        Some (a, [AddProtocolAddress ProtoIPv4 a (mask_Size (n_mask ipnet)), AddRoute d (n_mask ipnet)]) })"

definition init_v6 :: "(string \<Rightarrow> (IP \<times> IPNet) option) \<Rightarrow> string \<Rightarrow> (bytes \<times> stack_call list) option" where
  "init_v6 parse s =
     (if s = '''' then Some ([], [])
      else do {
        (ip, ipnet) \<leftarrow> parse s;
        (if length ip < 16 \<or> length (n_ip ipnet) < 16 then None
         else Some (take 16 ip, [AddProtocolAddress ProtoIPv6 (take 16 ip) (mask_Size (n_mask ipnet)),
                                 AddRoute (take 16 (n_ip ipnet)) (n_mask ipnet)])) })"

definition gv_init :: "(string \<Rightarrow> (IP \<times> IPNet) option) \<Rightarrow> string \<Rightarrow> string \<Rightarrow> (GvisorCard \<times> stack_call list) option" where
  "gv_init parse ipv4 ipv6 = do {
     (a4, c4) \<leftarrow> init_v4 parse ipv4;
     (a6, c6) \<leftarrow> init_v6 parse ipv6;
     Some (\<lparr>gc_addr4 = a4, gc_addr6 = a6\<rparr>, [CreateNIC] @ c4 @ c6) }"

definition gv_Close :: "GvisorCard \<Rightarrow> stack_call list" where
  "gv_Close g =
     (if 0 < length (gc_addr4 g) then [RemoveAddress (gc_addr4 g)] else []) @
     (if 0 < length (gc_addr6 g) then [RemoveAddress (gc_addr6 g)] else []) @ [RemoveRoutes, EndpointClose]"

section \<open>Packets\<close>

definition gv_Write :: "Packet \<Rightarrow> stack_call option" where
  "gv_Write p = do {
     v \<leftarrow> Ver p;
     b \<leftarrow> AsBytes p;
     Some (InjectInbound (if v = 4 then ProtoIPv4 else ProtoIPv6) b) }"

text \<open>\<open>buf\<close> is the next packet of the stack, none after \<open>Close\<close>.\<close>
definition gv_Read :: "nat \<Rightarrow> Packet option \<Rightarrow> bytes option \<Rightarrow> (unit + Packet) option" where
  "gv_Read MTU pooled buf =
     (case buf of None \<Rightarrow> Some (Inl ()) | Some b \<Rightarrow> map_option Inr (GetPacket MTU pooled b))"

section \<open>Dialling and listening\<close>

datatype gv_error = UnsupportedNetwork | ResolveFailed | StackError

datatype endpoint = TCPAt net_proto bytes nat | UDPAt net_proto bytes nat

text \<open>The protocol and address of a resolved address; the address of no IP is sixteen zeros.\<close>
definition full_address :: "IP \<Rightarrow> net_proto \<times> bytes" where
  "full_address ip =
     (case To4 ip of
        Some a \<Rightarrow> (ProtoIPv4, a)
      | None \<Rightarrow> (ProtoIPv6, if length ip = 16 then ip else replicate 16 0))"

definition gv_dial_target :: "(string \<Rightarrow> string \<Rightarrow> (IP \<times> nat) option) \<Rightarrow> string \<Rightarrow> string \<Rightarrow> gv_error + endpoint" where
  "gv_dial_target resolve network address =
     (if \<not> has_prefix network ''tcp'' \<and> \<not> has_prefix network ''udp'' then Inl UnsupportedNetwork
      else case resolve network address of
             None \<Rightarrow> Inl ResolveFailed
           | Some (ip, port) \<Rightarrow>
               (let (proto, a) = full_address ip in
                Inr (if has_prefix network ''tcp'' then TCPAt proto a port else UDPAt proto a port)))"

text \<open>A listener: one endpoint, or several behind a combined one.\<close>
datatype 'l gv_listener = OneListener 'l | CombinedListener "'l list"

text \<open>\<open>listenUDP\<close> takes the protocol from the address.\<close>
definition udp_endpoint :: "bytes \<Rightarrow> nat \<Rightarrow> endpoint" where
  "udp_endpoint a port = UDPAt (case To4 a of Some _ \<Rightarrow> ProtoIPv4 | None \<Rightarrow> ProtoIPv6) a port"

text \<open>The endpoints are opened in order; when one fails those before it are closed.\<close>
fun open_all :: "(endpoint \<Rightarrow> 'l option) \<Rightarrow> 'l list \<Rightarrow> endpoint list \<Rightarrow> 'l list \<times> (gv_error + 'l list)" where
  "open_all opn ls [] = ([], Inr ls)"
| "open_all opn ls (a # as) =
     (case opn a of None \<Rightarrow> (ls, Inl StackError) | Some l \<Rightarrow> open_all opn (ls @ [l]) as)"

definition open_one :: "(endpoint \<Rightarrow> 'l option) \<Rightarrow> endpoint \<Rightarrow> 'l list \<times> (gv_error + 'l gv_listener)" where
  "open_one opn a = ([], case opn a of None \<Rightarrow> Inl StackError | Some l \<Rightarrow> Inr (OneListener l))"

definition combine :: "'l list \<times> (gv_error + 'l list) \<Rightarrow> 'l list \<times> (gv_error + 'l gv_listener)" where
  "combine r = (fst r, case snd r of Inl e \<Rightarrow> Inl e | Inr ls \<Rightarrow> Inr (CombinedListener ls))"

text \<open>The endpoints of a network name without a version: one for every address the card has.\<close>
definition card_endpoints :: "GvisorCard \<Rightarrow> string \<Rightarrow> nat \<Rightarrow> endpoint list" where
  "card_endpoints g network port =
     (let udp = (network = ''udp'') in
      (if 0 < length (gc_addr4 g) then [if udp then udp_endpoint (gc_addr4 g) port else TCPAt ProtoIPv4 (gc_addr4 g) port] else []) @
      (if 0 < length (gc_addr6 g) then [if udp then udp_endpoint (gc_addr6 g) port else TCPAt ProtoIPv6 (gc_addr6 g) port] else []))"

text \<open>\<open>Listen\<close>: the listeners it closed, and its result.\<close>
definition gv_Listen :: "(endpoint \<Rightarrow> 'l option) \<Rightarrow> GvisorCard \<Rightarrow> string \<Rightarrow> nat \<Rightarrow> 'l list \<times> (gv_error + 'l gv_listener)" where
  "gv_Listen opn g network port =
     (if \<not> has_prefix network ''tcp'' \<and> \<not> has_prefix network ''udp'' then ([], Inl UnsupportedNetwork)
      else if network = ''tcp4'' then open_one opn (TCPAt ProtoIPv4 (gc_addr4 g) port)
      else if network = ''tcp6'' then open_one opn (TCPAt ProtoIPv6 (gc_addr6 g) port)
      else if network = ''udp4'' then open_one opn (udp_endpoint (gc_addr4 g) port)
      else if network = ''udp6'' then open_one opn (udp_endpoint (gc_addr6 g) port)
      else combine (open_all opn [] (card_endpoints g network port)))"

section \<open>The combined listener\<close>

text \<open>One goroutine per listener: waiting for a connection, sending a connection or an error to the
  channel, ended. The channels are made by the first \<open>Accept\<close>.\<close>
datatype 'c acc_stage = Accepting | Handing 'c | Reporting | Ended

record 'c combined =
  cb_count :: nat
  cb_stages :: "'c acc_stage list"
  cb_init :: bool
  cb_closedOnce :: bool
  cb_closed :: bool
  cb_panic :: bool

datatype 'c accepted = AConn 'c | AErr | AErrClosed | ANil

definition combined_new :: "nat \<Rightarrow> 'c combined" where
  "combined_new n = \<lparr>cb_count = n, cb_stages = [], cb_init = False, cb_closedOnce = False, cb_closed = False, cb_panic = False\<rparr>"

definition cb_start :: "'c combined \<Rightarrow> 'c combined" where
  "cb_start s = (if cb_init s then s else s\<lparr>cb_init := True, cb_stages := replicate (cb_count s) Accepting\<rparr>)"

definition cb_set :: "nat \<Rightarrow> 'c acc_stage \<Rightarrow> 'c combined \<Rightarrow> 'c combined" where
  "cb_set i g s = s\<lparr>cb_stages := (cb_stages s)[i := g]\<rparr>"

text \<open>The goroutine of a listener that failed.\<close>
definition cb_failed :: "'c combined \<Rightarrow> 'c acc_stage" where
  "cb_failed s = (if cb_closed s then Ended else Reporting)"

definition is_sending :: "'c acc_stage \<Rightarrow> bool" where
  "is_sending g = (case g of Handing _ \<Rightarrow> True | Reporting \<Rightarrow> True | _ \<Rightarrow> False)"

text \<open>\<open>Close\<close> closes the channels that exist; whoever sends on one of them panics.\<close>
definition cb_Close :: "'c combined \<Rightarrow> 'c combined" where
  "cb_Close s =
     (if cb_closedOnce s then s
      else s\<lparr>cb_closedOnce := True, cb_closed := cb_init s, cb_panic := cb_panic s \<or> cb_init s \<and> list_ex is_sending (cb_stages s)\<rparr>)"

text \<open>A connection from listener \<open>i\<close> is sent to the channel, which may be closed by then.\<close>
definition cb_got :: "nat \<Rightarrow> 'c \<Rightarrow> 'c combined \<Rightarrow> 'c combined" where
  "cb_got i c s = (if cb_closed s then s\<lparr>cb_panic := True\<rparr> else cb_set i (Handing c) s)"

text \<open>What the accepting side can get: the select picks any channel that is ready. A closed channel of
  connections or errors gives its zero value.\<close>
definition cb_ready :: "'c combined \<Rightarrow> (nat option \<times> 'c accepted) list" where
  "cb_ready s =
     (if cb_closed s then [(None, AErrClosed), (None, ANil), (None, ANil)]
      else concat (map (\<lambda>i. case cb_stages s ! i of Handing c \<Rightarrow> [(Some i, AConn c)] | Reporting \<Rightarrow> [(Some i, AErr)] | _ \<Rightarrow> [])
             [0..<length (cb_stages s)]))"

definition cb_took :: "nat option \<Rightarrow> 'c accepted \<Rightarrow> 'c combined \<Rightarrow> 'c combined" where
  "cb_took i r s =
     (case i of
        None \<Rightarrow> s
      | Some i \<Rightarrow> cb_set i (case r of AConn _ \<Rightarrow> Accepting | _ \<Rightarrow> Ended) s)"

text \<open>A run with its history: what the listeners accepted and what \<open>Accept\<close> returned.\<close>
inductive cb_run :: "nat \<Rightarrow> 'c combined \<Rightarrow> (nat \<times> 'c) list \<Rightarrow> (nat option \<times> 'c accepted) list \<Rightarrow> bool" for n where
  Run_new: "cb_run n (combined_new n) [] []"
| Run_start: "cb_run n s ins outs \<Longrightarrow> \<not> cb_panic s \<Longrightarrow> cb_run n (cb_start s) ins outs"
| Run_conn: "cb_run n s ins outs \<Longrightarrow> \<not> cb_panic s \<Longrightarrow> i < length (cb_stages s) \<Longrightarrow> cb_stages s ! i = Accepting \<Longrightarrow>
    cb_run n (cb_got i c s) (ins @ [(i, c)]) outs"
| Run_fail: "cb_run n s ins outs \<Longrightarrow> \<not> cb_panic s \<Longrightarrow> i < length (cb_stages s) \<Longrightarrow> cb_stages s ! i = Accepting \<Longrightarrow>
    cb_run n (cb_set i (cb_failed s) s) ins outs"
| Run_accept: "cb_run n s ins outs \<Longrightarrow> \<not> cb_panic s \<Longrightarrow> (i, r) \<in> set (cb_ready (cb_start s)) \<Longrightarrow>
    cb_run n (cb_took i r (cb_start s)) ins (outs @ [(i, r)])"
| Run_close: "cb_run n s ins outs \<Longrightarrow> \<not> cb_panic s \<Longrightarrow> cb_run n (cb_Close s) ins outs"

section \<open>Lemmas\<close>

definition conns_from :: "nat \<Rightarrow> (nat option \<times> 'c accepted) list \<Rightarrow> 'c list" where
  "conns_from i outs = List.map_filter (\<lambda>(j, r). case r of AConn c \<Rightarrow> if j = Some i then Some c else None | _ \<Rightarrow> None) outs"

definition in_hand :: "nat \<Rightarrow> 'c combined \<Rightarrow> 'c list" where
  "in_hand i s = (if i < length (cb_stages s) then case cb_stages s ! i of Handing c \<Rightarrow> [c] | _ \<Rightarrow> [] else [])"

definition cb_ok :: "'c combined \<Rightarrow> (nat \<times> 'c) list \<Rightarrow> (nat option \<times> 'c accepted) list \<Rightarrow> bool" where
  "cb_ok s ins outs \<longleftrightarrow> (\<not> cb_init s \<longrightarrow> cb_stages s = [] \<and> \<not> cb_closed s) \<and> (cb_init s \<longrightarrow> length (cb_stages s) = cb_count s) \<and>
     (\<forall>i. map snd (filter (\<lambda>x. fst x = i) ins) = conns_from i outs @ in_hand i s) \<and>
     ((\<exists>i. (i, ANil) \<in> set outs) \<longrightarrow> cb_closed s)"

lemma conns_from_snoc [simp]:
  "conns_from i (outs @ [(j, r)]) = conns_from i outs @ (case r of AConn c \<Rightarrow> if j = Some i then [c] else [] | _ \<Rightarrow> [])"
  by (auto simp: conns_from_def List.map_filter_def split: accepted.splits)

lemma in_hand_set: "k < length (cb_stages s) \<Longrightarrow>
    in_hand i (cb_set k g s) = (if i = k then (case g of Handing c \<Rightarrow> [c] | _ \<Rightarrow> []) else in_hand i s)"
  by (simp add: in_hand_def cb_set_def)

lemma cb_set_simps [simp]:
  "cb_init (cb_set k g s) = cb_init s" "cb_closed (cb_set k g s) = cb_closed s" "cb_panic (cb_set k g s) = cb_panic s"
  "cb_count (cb_set k g s) = cb_count s" "length (cb_stages (cb_set k g s)) = length (cb_stages s)"
  by (simp_all add: cb_set_def)

lemma cb_start_ok: "cb_ok s ins outs \<Longrightarrow> cb_ok (cb_start s) ins outs"
  by (auto simp: cb_ok_def cb_start_def in_hand_def)

lemma cb_start_simps [simp]: "cb_panic (cb_start s) = cb_panic s" "cb_closed (cb_start s) = cb_closed s"
  by (simp_all add: cb_start_def)

lemma cb_ready_cases:
  assumes "(i, r) \<in> set (cb_ready s)"
  obtains "cb_closed s" "i = None" "r = AErrClosed \<or> r = ANil"
  | k c where "\<not> cb_closed s" "i = Some k" "k < length (cb_stages s)" "cb_stages s ! k = Handing c" "r = AConn c"
  | k where "\<not> cb_closed s" "i = Some k" "k < length (cb_stages s)" "cb_stages s ! k = Reporting" "r = AErr"
proof (cases "cb_closed s")
  case False
  with assms obtain k where k: "k < length (cb_stages s)"
    "(i, r) \<in> set (case cb_stages s ! k of Handing c \<Rightarrow> [(Some k, AConn c)] | Reporting \<Rightarrow> [(Some k, AErr)] | _ \<Rightarrow> [])"
    by (auto simp: cb_ready_def)
  with False that(2,3) show thesis by (cases "cb_stages s ! k") auto
qed (use assms that(1) in \<open>auto simp: cb_ready_def\<close>)

lemma cb_took_ok:
  assumes "cb_ok s ins outs" and "(i, r) \<in> set (cb_ready s)"
  shows "cb_ok (cb_took i r s) ins (outs @ [(i, r)])"
  using assms(2)
proof (cases rule: cb_ready_cases)
  case 1
  with assms(1) show ?thesis by (auto simp: cb_ok_def cb_took_def)
next
  case (2 k c)
  then have "in_hand k s = [c]" by (simp add: in_hand_def)
  with assms(1) 2 show ?thesis by (auto simp: cb_ok_def cb_took_def in_hand_set)
next
  case (3 k)
  then have "in_hand k s = []" by (simp add: in_hand_def)
  with assms(1) 3 show ?thesis by (auto simp: cb_ok_def cb_took_def in_hand_set)
qed

lemma cb_run_ok: "cb_run n s ins outs \<Longrightarrow> cb_panic s \<or> cb_ok s ins outs"
proof (induction rule: cb_run.induct)
  case Run_new
  then show ?case by (simp add: cb_ok_def combined_new_def conns_from_def in_hand_def List.map_filter_def)
next
  case (Run_start s ins outs)
  then show ?case by (simp add: cb_start_ok)
next
  case (Run_conn s ins outs i c)
  then have "in_hand i s = []" by (simp add: in_hand_def)
  with Run_conn show ?case by (auto simp: cb_got_def cb_ok_def in_hand_set)
next
  case (Run_fail s ins outs i)
  then have "in_hand i s = []" by (simp add: in_hand_def)
  with Run_fail show ?case by (auto simp: cb_failed_def cb_ok_def in_hand_set)
next
  case (Run_accept s ins outs i r)
  then show ?case using cb_took_ok [OF cb_start_ok] by blast
next
  case (Run_close s ins outs)
  then show ?case by (auto simp: cb_Close_def cb_ok_def in_hand_def)
qed

lemma open_all_result:
  "open_all opn ls as = (closed, r) \<Longrightarrow>
    (\<forall>ls'. r = Inr ls' \<longrightarrow> closed = [] \<and> map Some ls' = map Some ls @ map opn as) \<and>
    (\<forall>e. r = Inl e \<longrightarrow> (\<exists>k < length as. map Some closed = map Some ls @ map opn (take k as) \<and> opn (as ! k) = None))"
proof (induction as arbitrary: ls)
  case (Cons a as)
  show ?case
  proof (cases "opn a")
    case None
    with Cons.prems show ?thesis by auto
  next
    case (Some l)
    with Cons.prems have "open_all opn (ls @ [l]) as = (closed, r)" by simp
    note IH = Cons.IH [OF this]
    show ?thesis
    proof (cases r)
      case (Inl e)
      with IH obtain k where "k < length as" "map Some closed = map Some (ls @ [l]) @ map opn (take k as)" "opn (as ! k) = None" by auto
      with Some Inl show ?thesis by (intro conjI) (simp, auto intro!: exI [of _ "Suc k"])
    next
      case (Inr ls')
      with IH Some show ?thesis by simp
    qed
  qed
qed auto

section \<open>Properties\<close>

text \<open>The combined listener loses and invents nothing: in every run that does not panic, the connections that
  \<open>Accept\<close> returned from each listener are those the listener accepted, in order and each once, but for
  at most one that is still being handed over; and a result without connection and error is only
  returned after \<open>Close\<close>.\<close>
theorem combined_accepts_exactly:
  assumes "cb_run n s ins outs" and "\<not> cb_panic s"
  shows "(\<forall>i. map snd (filter (\<lambda>x. fst x = i) ins) = conns_from i outs @ in_hand i s \<and> length (in_hand i s) \<le> 1) \<and>
    ((\<exists>i. (i, ANil) \<in> set outs) \<longrightarrow> cb_closed s)"
proof -
  have "length (in_hand i s) \<le> 1" for i by (simp add: in_hand_def split: acc_stage.splits)
  with cb_run_ok [OF assms(1)] assms(2) show ?thesis by (simp add: cb_ok_def)
qed

lemma demo_combined: "cb_run 1 (cb_got 0 c (cb_start (combined_new 1))) [(0, c)] []"
  using Run_conn [OF Run_start [OF Run_new [of 1]], of 0 c] by (simp add: combined_new_def cb_start_def)

theorem combined_accepts_exactly_witness:
  "\<exists>s outs. cb_run 1 s [(0, ''a'')] outs \<and> \<not> cb_panic s \<and> conns_from 0 outs @ in_hand 0 s = [''a'']"
proof -
  let ?s = "cb_got 0 ''a'' (cb_start (combined_new 1))"
  have "\<not> cb_panic ?s" by (simp add: cb_got_def cb_start_def combined_new_def cb_set_def)
  moreover from combined_accepts_exactly [OF demo_combined [of "''a''"] this, THEN conjunct1, rule_format, of 0]
  have "conns_from 0 [] @ in_hand 0 ?s = [''a'']" by simp
  ultimately show ?thesis using demo_combined [of "''a''"] by blast
qed

text \<open>Closing is not clean: while a listener is handing over a connection or an error, \<open>Close\<close> ends the
  process with a panic, and otherwise \<open>Accept\<close> may next return neither a connection nor an error, which
  its callers take for a connection.\<close>
theorem combined_close_hazards:
  assumes "cb_run n s ins outs" and "\<not> cb_panic s" and "cb_init s" and "\<not> cb_closedOnce s"
  shows "\<exists>s'. if list_ex is_sending (cb_stages s) then cb_run n s' ins outs \<and> cb_panic s' \<and> s' = cb_Close s
    else cb_run n s' ins (outs @ [(None, ANil)]) \<and> \<not> cb_panic s'"
proof (cases "list_ex is_sending (cb_stages s)")
  case True
  with assms Run_close [OF assms(1,2)] show ?thesis by (simp add: cb_Close_def)
next
  case False
  let ?s = "cb_Close s"
  have c: "\<not> cb_panic ?s" "cb_closed ?s" using assms False by (simp_all add: cb_Close_def)
  then have "(None, ANil) \<in> set (cb_ready (cb_start ?s))" by (simp add: cb_ready_def)
  from Run_accept [OF Run_close [OF assms(1,2)] c(1) this] c(1) False show ?thesis
    by (auto simp: cb_took_def)
qed

theorem combined_close_hazards_witness:
  "\<exists>s outs. cb_run 1 s [(0, ''a'')] outs \<and> cb_panic s"
proof -
  let ?s = "cb_got 0 ''a'' (cb_start (combined_new 1))"
  have s: "\<not> cb_panic ?s" "cb_init ?s" "\<not> cb_closedOnce ?s" "list_ex is_sending (cb_stages ?s)"
    by (simp_all add: cb_got_def cb_start_def combined_new_def cb_set_def is_sending_def)
  from combined_close_hazards [OF demo_combined s(1-3)] s(4) show ?thesis by auto
qed

text \<open>Listening without a version is all or nothing: it succeeds with one listener for every address of the
  card, in order, and closes none of them; or it fails because an endpoint could not be opened, and has
  then closed exactly the listeners opened before.\<close>
theorem gv_listen_all_or_nothing:
  assumes "has_prefix network ''tcp'' \<or> has_prefix network ''udp''"
    and "network \<notin> {''tcp4'', ''tcp6'', ''udp4'', ''udp6''}"
    and "gv_Listen opn g network port = (closed, r)"
  shows "(\<forall>l. r = Inr l \<longrightarrow> closed = [] \<and> (\<exists>ls. l = CombinedListener ls \<and> map Some ls = map opn (card_endpoints g network port))) \<and>
    (\<forall>e. r = Inl e \<longrightarrow> (\<exists>k < length (card_endpoints g network port).
       map Some closed = map opn (take k (card_endpoints g network port)) \<and> opn (card_endpoints g network port ! k) = None))"
proof -
  let ?eps = "card_endpoints g network port"
  obtain cl q where q: "open_all opn [] ?eps = (cl, q)" by fastforce
  with assms have "closed = cl" "r = (case q of Inl e \<Rightarrow> Inl e | Inr ls \<Rightarrow> Inr (CombinedListener ls))"
    by (auto simp: gv_Listen_def combine_def)
  with open_all_result [OF q] show ?thesis by (cases q) auto
qed

theorem gv_listen_all_or_nothing_witness:
  "gv_Listen (\<lambda>a. case a of TCPAt ProtoIPv4 _ _ \<Rightarrow> Some ''l'' | _ \<Rightarrow> None) \<lparr>gc_addr4 = [10, 0, 0, 1], gc_addr6 = replicate 16 1\<rparr> ''tcp'' 80 =
     ([''l''], Inl StackError) \<and>
   (\<exists>k < 2. map Some [''l''] = map (\<lambda>a. case a of TCPAt ProtoIPv4 _ _ \<Rightarrow> Some ''l'' | _ \<Rightarrow> None)
      (take k (card_endpoints \<lparr>gc_addr4 = [10, 0, 0, 1], gc_addr6 = replicate 16 1\<rparr> ''tcp'' 80)))"
proof -
  let ?o = "\<lambda>a. case a of TCPAt ProtoIPv4 _ _ \<Rightarrow> Some ''l'' | _ \<Rightarrow> None" and ?g = "\<lparr>gc_addr4 = [10, 0, 0, 1], gc_addr6 = replicate 16 1\<rparr>"
  have l: "gv_Listen ?o ?g ''tcp'' 80 = ([''l''], Inl StackError)" and n: "length (card_endpoints ?g ''tcp'' 80) = 2"
    by (simp_all add: gv_Listen_def combine_def card_endpoints_def)
  have "has_prefix ''tcp'' ''tcp'' \<or> has_prefix ''tcp'' ''udp''" "''tcp'' \<notin> {''tcp4'', ''tcp6'', ''udp4'', ''udp6''}" by simp_all
  from gv_listen_all_or_nothing [OF this l] l n show ?thesis by auto
qed

end
