(* ===== verification/Netlink.thy ===== *)
theory Netlink
  imports Vpn_Node Gvisor
begin

text \<open>
  The host's network (\<open>netlink\<close>, \<open>vpn/nic/tun/tun.go\<close>): giving the interface its addresses and
  remembering them as the own ones, the translation of the route messages of the systems, the
  commands that change routes, and what the VPN makes of route changes. The systems are arguments:
  which of their calls succeed, and the messages they send. \<^const>\<open>None\<close> is a panic.
\<close>

section \<open>The own addresses\<close>

text \<open>The package's \<open>info\<close>, which \<open>Show\<close> returns.\<close>
record link_info =
  li_IPv4 :: string
  li_IPv6 :: string

definition no_info :: link_info where
  "no_info = \<lparr>li_IPv4 = '''', li_IPv6 = ''''\<rparr>"

text \<open>What is asked of the system; a call succeeds or fails.\<close>
datatype os_call = Exec "string list" | LinkByName string | AddrAdd string string | LinkSetUp string

text \<open>\<open>net.ParseCIDR\<close>, \<open>IP.String\<close>, \<open>IPNet.String\<close> and the success of the calls.\<close>
record link_env =
  lk_parse :: "string \<Rightarrow> (IP \<times> IPNet) option"
  lk_show :: "IP \<Rightarrow> string"
  lk_cidr :: "IPNet \<Rightarrow> string"
  lk_ok :: "os_call \<Rightarrow> bool"

text \<open>On Linux the text is an IPv4 address first, whatever the address is.\<close>
definition SetupLink_linux :: "link_env \<Rightarrow> string \<Rightarrow> string \<Rightarrow> link_info \<Rightarrow> link_info \<times> bool" where
  "SetupLink_linux e ifName cidr i =
     (if \<not> lk_ok e (LinkByName ifName) then (i, False)
      else case lk_parse e cidr of
        None \<Rightarrow> (i, False)
      | Some (ip, _) \<Rightarrow>
          (let i1 = i\<lparr>li_IPv4 := lk_show e ip\<rparr>;
               i2 = (if To4 ip = None then i1\<lparr>li_IPv6 := lk_show e ip\<rparr> else i1)
           in (i2, lk_ok e (AddrAdd ifName cidr) \<and> lk_ok e (LinkSetUp ifName))))"

text \<open>\<open>AddRoute\<close> and \<open>DelRoute\<close> on macOS.\<close>
definition AddRoute_darwin :: "link_env \<Rightarrow> string \<Rightarrow> IPNet \<Rightarrow> os_call" where
  "AddRoute_darwin e ifName to =
     Exec [''route'', ''-qn'', ''add'', if To4 (n_ip to) = None then ''-inet6'' else ''-inet'', lk_cidr e to, ''-iface'', ifName]"

definition DelRoute_darwin :: "link_env \<Rightarrow> IPNet \<Rightarrow> os_call" where
  "DelRoute_darwin e to =
     Exec [''route'', ''-qn'', ''delete'', if To4 (n_ip to) = None then ''-inet6'' else ''-inet'', lk_cidr e to]"

definition SetupLink_darwin :: "link_env \<Rightarrow> string \<Rightarrow> string \<Rightarrow> link_info \<Rightarrow> link_info \<times> bool" where
  "SetupLink_darwin e ifName cidr i =
     (case lk_parse e cidr of
        None \<Rightarrow> (i, False)
      | Some (ip, ipnet) \<Rightarrow>
          (let s = lk_show e ip;
               (i1, call) = (if To4 ip = None then (i\<lparr>li_IPv6 := s\<rparr>, Exec [''ifconfig'', ifName, ''inet6'', ''add'', cidr])
                             else (i\<lparr>li_IPv4 := s\<rparr>, Exec [''ifconfig'', ifName, ''inet'', cidr, s, ''up'']))
           in (i1, lk_ok e call \<and> lk_ok e (AddRoute_darwin e ifName ipnet))))"

text \<open>\<open>%d.%d.%d.%d\<close> of the first four bytes of a mask.\<close>
definition mask_text :: "bytes \<Rightarrow> string option" where
  "mask_text m = (if length m < 4 then None else
     Some (Itoa (unat (m ! 0)) @ ''.'' @ Itoa (unat (m ! 1)) @ ''.'' @ Itoa (unat (m ! 2)) @ ''.'' @ Itoa (unat (m ! 3))))"

definition SetupLink_windows :: "link_env \<Rightarrow> string \<Rightarrow> string \<Rightarrow> link_info \<Rightarrow> (link_info \<times> bool) option" where
  "SetupLink_windows e ifName cidr i =
     (case lk_parse e cidr of
        None \<Rightarrow> Some (i, False)
      | Some (ip, ipnet) \<Rightarrow>
          (let s = lk_show e ip in
           if To4 ip = None
           then Some (i\<lparr>li_IPv6 := s\<rparr>, lk_ok e (Exec [''netsh'', ''interface'', ''ipv6'', ''add'', ''address'', ifName, cidr]))
           else map_option (\<lambda>m. (i\<lparr>li_IPv4 := s\<rparr>, lk_ok e (Exec [''netsh'', ''interface'', ''ipv4'', ''set'', ''address'', ifName, ''static'', s, m])))
                  (mask_text (n_mask ipnet))))"

definition AddRoute_windows :: "link_env \<Rightarrow> string \<Rightarrow> IPNet \<Rightarrow> IP \<Rightarrow> os_call option" where
  "AddRoute_windows e ifName to via =
     (if To4 via = None then Some (Exec [''netsh'', ''interface'', ''ipv6'', ''add'', ''route'', lk_cidr e to, ifName, lk_show e via])
      else map_option (\<lambda>m. Exec [''route'', ''add'', lk_show e (n_ip to), ''mask'', m, lk_show e via]) (mask_text (n_mask to)))"

definition DelRoute_windows :: "link_env \<Rightarrow> string \<Rightarrow> IPNet \<Rightarrow> IP \<Rightarrow> os_call" where
  "DelRoute_windows e ifName to via =
     (if To4 via = None then Exec [''netsh'', ''interface'', ''ipv6'', ''delete'', ''route'', lk_cidr e to, ifName, lk_show e via]
      else Exec [''route'', ''delete'', lk_show e (n_ip to)])"

datatype os = Linux | Darwin | Windows

definition SetupLink :: "os \<Rightarrow> link_env \<Rightarrow> string \<Rightarrow> string \<Rightarrow> link_info \<Rightarrow> (link_info \<times> bool) option" where
  "SetupLink sys e ifName cidr i =
     (case sys of Linux \<Rightarrow> Some (SetupLink_linux e ifName cidr i) | Darwin \<Rightarrow> Some (SetupLink_darwin e ifName cidr i)
      | Windows \<Rightarrow> SetupLink_windows e ifName cidr i)"

text \<open>\<open>tun.Create\<close> once the device is there under \<open>name\<close>: the errors of \<open>SetupLink\<close> are dropped.\<close>
definition setup_addr :: "os \<Rightarrow> link_env \<Rightarrow> string \<Rightarrow> string \<Rightarrow> link_info \<Rightarrow> link_info option" where
  "setup_addr sys e name cidr i = (if cidr = '''' then Some i else map_option fst (SetupLink sys e name cidr i))"

definition tun_Create :: "os \<Rightarrow> link_env \<Rightarrow> string option \<Rightarrow> string \<Rightarrow> string \<Rightarrow> link_info \<Rightarrow> (link_info \<times> bool) option" where
  "tun_Create sys e device ipv4 ipv6 i =
     (case device of
        None \<Rightarrow> Some (i, False)
      | Some name \<Rightarrow> do { i1 \<leftarrow> setup_addr sys e name ipv4 i; i2 \<leftarrow> setup_addr sys e name ipv6 i1; Some (i2, True) })"

section \<open>Route messages\<close>

record RouteUpdate =
  ru_New :: bool
  ru_Dst :: IPNet
  ru_Via :: IP

text \<open>Linux: a message of the library has a type and perhaps a destination and a gateway.\<close>
record linux_route =
  lr_Type :: nat
  lr_Dst :: "IPNet option"
  lr_Gw :: "IP option"

definition linux_update :: "linux_route \<Rightarrow> RouteUpdate option" where
  "linux_update m =
     (case (lr_Dst m, lr_Gw m) of
        (Some dst, Some gw) \<Rightarrow>
          if lr_Type m \<notin> {24, 25} then None else Some \<lparr>ru_New = lr_Type m = 24, ru_Dst = dst, ru_Via = gw\<rparr>
      | _ \<Rightarrow> None)"

text \<open>macOS: the addresses of a message are taken in turn as destination, gateway and mask.\<close>
datatype route_addr = Inet4 bytes | Inet6 bytes | LinkLayer | OtherAddr

definition addr_bytes :: "route_addr \<Rightarrow> bytes option" where
  "addr_bytes a = (case a of Inet4 b \<Rightarrow> Some b | Inet6 b \<Rightarrow> Some b | LinkLayer \<Rightarrow> Some (replicate 15 0 @ [1]) | OtherAddr \<Rightarrow> None)"

text \<open>\<open>b3\<close> is byte 3 of the message, \<open>kind\<close> its type; 1 is \<open>RTM_ADD\<close> and 2 \<open>RTM_DELETE\<close>. A missing part is nil.\<close>
definition darwin_update :: "u8 \<Rightarrow> nat \<Rightarrow> route_addr list \<Rightarrow> RouteUpdate option" where
  "darwin_update b3 kind addrs =
     (if kind \<notin> {1, 2} then None
      else let ips = List.map_filter addr_bytes addrs; pick = (\<lambda>k. if k < length ips then ips ! k else []) in
        Some \<lparr>ru_New = b3 = 1, ru_Dst = \<lparr>n_ip = pick 0, n_mask = pick 2\<rparr>, ru_Via = pick 1\<rparr>)"

text \<open>Windows: the callback gets the destination and the next hop.\<close>
definition windows_update :: "nat \<Rightarrow> IPNet \<Rightarrow> IP \<Rightarrow> RouteUpdate" where
  "windows_update notification dst via = \<lparr>ru_New = notification = 1, ru_Dst = dst, ru_Via = via\<rparr>"

text \<open>\<open>AddrSubscribe\<close>: the update sent for a message of the system; on Linux the message's fields are passed on.\<close>
record AddrUpdate =
  au_New :: bool
  au_Addr :: IPNet
  au_LinkIndex :: int

definition linux_addr :: "bool \<Rightarrow> IPNet \<Rightarrow> int \<Rightarrow> AddrUpdate" where
  "linux_addr new addr index = \<lparr>au_New = new, au_Addr = addr, au_LinkIndex = index\<rparr>"

text \<open>macOS: 12 is \<open>RTM_NEWADDR\<close> and 13 \<open>RTM_DELADDR\<close>; the first address is the mask, the second the IP.\<close>
definition darwin_addr :: "nat \<Rightarrow> route_addr list \<Rightarrow> int \<Rightarrow> AddrUpdate option" where
  "darwin_addr kind addrs index =
     (if kind \<notin> {12, 13} then None
      else let ips = List.map_filter (\<lambda>a. case a of Inet4 b \<Rightarrow> Some b | Inet6 b \<Rightarrow> Some b | _ \<Rightarrow> None) addrs;
               pick = (\<lambda>k. if k < length ips then ips ! k else []) in
        Some \<lparr>au_New = kind = 12, au_Addr = \<lparr>n_ip = pick 1, n_mask = pick 0\<rparr>, au_LinkIndex = index\<rparr>)"

text \<open>Windows: 1 is \<open>MibAddInstance\<close> and 2 \<open>MibDeleteInstance\<close>; the address has no mask.\<close>
definition windows_addr :: "nat \<Rightarrow> IP \<Rightarrow> int \<Rightarrow> AddrUpdate option" where
  "windows_addr notification ip index =
     (if notification \<notin> {1, 2} then None
      else Some \<lparr>au_New = notification = 1, au_Addr = \<lparr>n_ip = ip, n_mask = []\<rparr>, au_LinkIndex = index\<rparr>)"

section \<open>What the VPN makes of routes\<close>

text \<open>The loop of \<open>routingTableUpdate\<close> with the callbacks that \<open>P2PVPN.Run\<close> sets: the networks routed through
  the VPN are ignored as addresses of the host.\<close>
definition route_update :: "ip_lib \<Rightarrow> RouteUpdate \<Rightarrow> VirtualNIC \<times> local_cfg \<Rightarrow> VirtualNIC \<times> local_cfg" where
  "route_update il r s =
     (case routingTableUpdate il (ru_New r) (ru_Dst r) (ru_Via r) (fst s) of
        (v, cb) \<Rightarrow>
          (v, if \<not> cb then snd s
              else if ru_New r then AddIgnoredLocalCIDRs (il_ParseCIDR il) [il_CIDR il (ru_Dst r)] (snd s)
              else RemoveIgnoredLocalCIDRs (il_CIDR il) [il_CIDR il (ru_Dst r)] (snd s)))"

definition route_updates :: "ip_lib \<Rightarrow> RouteUpdate list \<Rightarrow> VirtualNIC \<times> local_cfg \<Rightarrow> VirtualNIC \<times> local_cfg" where
  "route_updates il rs s = fold (route_update il) rs s"

section \<open>Lemmas\<close>

text \<open>A network that is ignored stays so unless a removed route has its text.\<close>
lemma route_updates_ignored:
  "n \<in> set (ignoredLocalCIDRs g) \<Longrightarrow> (\<And>r. r \<in> set rs \<Longrightarrow> \<not> ru_New r \<Longrightarrow> il_CIDR il (ru_Dst r) \<noteq> il_CIDR il n) \<Longrightarrow>
    n \<in> set (ignoredLocalCIDRs (snd (route_updates il rs (v, g))))"
proof (induction rs arbitrary: v g)
  case Nil
  then show ?case by (simp add: route_updates_def)
next
  case (Cons r rs)
  obtain v' g' where s: "route_update il r (v, g) = (v', g')" by fastforce
  have "n \<in> set (ignoredLocalCIDRs g')"
    using s Cons.prems(1) Cons.prems(2) [of r] by (auto simp: route_update_def RemoveIgnoredLocalCIDRs_def split: prod.splits if_splits option.splits)
  from Cons.IH [OF this] Cons.prems(2) show ?case by (simp add: route_updates_def s)
qed

lemma AddIgnoredLocalCIDRs_rest [simp]:
  "localIPs (AddIgnoredLocalCIDRs parse cs g) = localIPs g"
  "ignoredLocalInterfaceNamePrefixs (AddIgnoredLocalCIDRs parse cs g) = ignoredLocalInterfaceNamePrefixs g"
  by (induction parse cs g rule: AddIgnoredLocalCIDRs.induct) (auto split: option.splits)

lemma route_updates_rest:
  "localIPs (snd (route_updates il rs (v, g))) = localIPs g \<and>
    ignoredLocalInterfaceNamePrefixs (snd (route_updates il rs (v, g))) = ignoredLocalInterfaceNamePrefixs g"
proof (induction rs arbitrary: v g)
  case (Cons r rs)
  obtain v' g' where s: "route_update il r (v, g) = (v', g')" by fastforce
  then have "localIPs g' = localIPs g \<and> ignoredLocalInterfaceNamePrefixs g' = ignoredLocalInterfaceNamePrefixs g"
    by (auto simp: route_update_def RemoveIgnoredLocalCIDRs_def simp del: AddIgnoredLocalCIDRs.simps split: prod.splits if_splits)
  with Cons.IH [of v' g'] show ?case by (simp add: route_updates_def s)
qed (simp add: route_updates_def)

lemma iface_ips_sound:
  "ip \<in> set (iface_ips g is) \<Longrightarrow> usable_ip g ip \<and>
    (\<exists>i \<in> set is. if_Running i \<and> \<not> HasPrefix (ignoredLocalInterfaceNamePrefixs g) (if_Name i) \<and> ip \<in> set (the (if_Addrs i)))"
  by (induction g "is" rule: iface_ips.induct) (auto split: if_splits option.splits)

lemma local_addrs_sound: "a \<in> set (local_addrs no4 no6 port ips acc) \<Longrightarrow> a \<in> set acc \<or> ua_ip a \<in> set ips"
  by (induction no4 no6 port ips acc rule: local_addrs.induct) (auto split: if_splits)

lemma HasPrefix_iff: "HasPrefix ps n \<longleftrightarrow> (\<exists>p \<in> set ps. take (length p) n = p)"
  by (induction ps) auto

section \<open>Properties\<close>

text \<open>The own IPv4 address: on macOS and Windows, and on Linux for a device without IPv6 address, a device that is created remembers
  its IPv4 address, and an IPv4 packet that the device emits for this address comes back to it. On Linux with
  an IPv6 address the text remembered for IPv4 is that of the IPv6 address, and the packet is dispatched as one for a peer.\<close>
theorem own_ipv4_loops_back:
  assumes "tun_Create sys e (Some name) ipv4 ipv6 no_info = Some (i, True)" and "ipv4 \<noteq> ''''" and "lk_parse e ipv4 = Some (own, net4)" and "To4 own \<noteq> None"
    and "ipv6 \<noteq> '''' \<Longrightarrow> \<exists>ip6 net6. lk_parse e ipv6 = Some (ip6, net6) \<and> To4 ip6 = None \<and> lk_show e ip6 \<noteq> lk_show e own"
    and "\<And>call. lk_ok e call" and "il_String (ve_il env) = lk_show e" and "ve_Show4 env = li_IPv4 i"
    and "run_handlers (vc_OutboundHandlers cfg) out = Some p" and "AsBytes p = Some b" and "Ver p = Some 4" and "ve_ParseHeader4 env b = Some (src, own)"
  shows "packetConnWrite cfg env out v =
    (if sys = Linux \<and> ipv6 \<noteq> '''' then sendPacketToPeer cfg env p src own v else Some (v, [Inbound p]))"
proof -
  have "li_IPv4 i = lk_show e own \<longleftrightarrow> \<not> (sys = Linux \<and> ipv6 \<noteq> '''')"
    using assms(1-5) assms(6)
    by (cases sys; cases "ipv6 = ''''")
      (auto simp: tun_Create_def setup_addr_def SetupLink_def SetupLink_linux_def SetupLink_darwin_def SetupLink_windows_def no_info_def Let_def
        bind_eq_Some_conv)
  then show ?thesis using assms(7-12) by (auto simp: packetConnWrite_def dispatch_def)
qed

definition demo_link :: link_env where
  "demo_link = \<lparr>lk_parse = (\<lambda>s. if s = ''a/24'' then Some ([10, 0, 0, 1], \<lparr>n_ip = [10, 0, 0, 0], n_mask = [255, 255, 255, 0]\<rparr>)
       else Some ([0x20, 1, 0, 0, 0, 0, 0, 0, 0, 0, 0, 0, 0, 0, 0, 1], \<lparr>n_ip = [0x20, 1, 0, 0, 0, 0, 0, 0, 0, 0, 0, 0, 0, 0, 0, 0], n_mask = replicate 8 255 @ replicate 8 0\<rparr>)),
     lk_show = (\<lambda>ip. if length ip = 4 then ''10.0.0.1'' else ''2001::1''), lk_cidr = (\<lambda>_. ''''), lk_ok = (\<lambda>_. True)\<rparr>"

definition demo_own :: "link_info \<Rightarrow> vpn_env" where
  "demo_own i = demo_ve\<lparr>ve_il := demo_il\<lparr>il_String := lk_show demo_link\<rparr>, ve_Show4 := li_IPv4 i\<rparr>"

definition demo_pkt :: Packet where
  "demo_pkt = \<lparr>pk_buf = replicate 16 0 @ [0x45, 7], pk_offset = 16\<rparr>"

theorem own_ipv4_loops_back_witness:
  "\<exists>i j. tun_Create Darwin demo_link (Some ''u'') ''a/24'' ''b/64'' no_info = Some (i, True) \<and>
    packetConnWrite demo_vpn_cfg (demo_own i) demo_pkt vn_init = Some (vn_init, [Inbound demo_pkt]) \<and>
    tun_Create Linux demo_link (Some ''u'') ''a/24'' ''b/64'' no_info = Some (j, True) \<and>
    packetConnWrite demo_vpn_cfg (demo_own j) demo_pkt vn_init = sendPacketToPeer demo_vpn_cfg (demo_own j) demo_pkt [10, 0, 0, 2] [10, 0, 0, 1] vn_init"
proof -
  have c: "\<exists>i. tun_Create sys demo_link (Some ''u'') ''a/24'' ''b/64'' no_info = Some (i, True)" for sys
    by (cases sys) (simp_all add: tun_Create_def setup_addr_def SetupLink_def SetupLink_windows_def demo_link_def To4_def v4_in_6_def mask_text_def)
  have l: "lk_parse demo_link ''a/24'' = Some ([10, 0, 0, 1], \<lparr>n_ip = [10, 0, 0, 0], n_mask = [255, 255, 255, 0]\<rparr>)" "To4 [10, 0, 0, 1] \<noteq> None"
    "\<exists>ip6 net6. lk_parse demo_link ''b/64'' = Some (ip6, net6) \<and> To4 ip6 = None \<and> lk_show demo_link ip6 \<noteq> lk_show demo_link [10, 0, 0, 1]"
    "\<And>call. lk_ok demo_link call"
    by (simp_all add: demo_link_def To4_def v4_in_6_def)
  have b: "AsBytes demo_pkt = Some [0x45, 7]" by (simp add: demo_pkt_def AsBytes_def)
  then have ver: "Ver demo_pkt = Some 4" using Ver_data [OF b] by simp
  have o: "il_String (ve_il (demo_own i)) = lk_show demo_link" "ve_Show4 (demo_own i) = li_IPv4 i"
    "ve_ParseHeader4 (demo_own i) [0x45, 7] = Some ([10, 0, 0, 2], [10, 0, 0, 1])" for i by (simp_all add: demo_own_def demo_ve_def)
  have h: "run_handlers (vc_OutboundHandlers demo_vpn_cfg) demo_pkt = Some demo_pkt" by (simp add: demo_vpn_cfg_def)
  obtain i j where ij: "tun_Create Darwin demo_link (Some ''u'') ''a/24'' ''b/64'' no_info = Some (i, True)"
    "tun_Create Linux demo_link (Some ''u'') ''a/24'' ''b/64'' no_info = Some (j, True)" using c by meson
  note t = own_ipv4_loops_back [OF _ _ l(1,2) l(3) l(4) o(1,2) h b ver o(3)]
  from t [OF ij(1), of vn_init] t [OF ij(2), of vn_init] ij show ?thesis by auto
qed

text \<open>C40. No tunnel within the tunnel: after the start and any route changes, the addresses of the host that a node offers
  to its peers lie in none of its own VPN networks, nor in a network whose route through the VPN was added before and
  not removed since, and none belongs to an interface named like those of the VPN or of other tunnels.\<close>
theorem no_tunnel_in_tunnel:
  assumes "localIPs g = []" and "ignore_own (il_ParseCIDR il) cfg g = g1" and "route_updates il rs (v, g1) = (v', g2)"
    and "vg_IPv4 cfg \<noteq> '''' \<and> il_ParseCIDR il (vg_IPv4 cfg) = Some n \<or> vg_IPv6 cfg \<noteq> '''' \<and> il_ParseCIDR il (vg_IPv6 cfg) = Some n \<or>
      (\<exists>pre r post. rs = pre @ r # post \<and> ru_New r \<and> \<not> IsUnspecified (ru_Via r) \<and> il_ParseCIDR il (il_CIDR il (ru_Dst r)) = Some n \<and>
         (\<forall>q \<in> set pre. ru_New q \<or> il_CIDR il (ru_Dst q) \<noteq> il_CIDR il n))"
    and "\<not> IsUnspecified (n_ip n)" and "\<And>r. r \<in> set rs \<Longrightarrow> \<not> ru_New r \<Longrightarrow> il_CIDR il (ru_Dst r) \<noteq> il_CIDR il n"
    and "ListLocalIPs g2 (Some ifaces) = Some ips" and "ep \<in> set (lanAddrsGenerate peer (local_addrs no4 no6 port ips []))"
  shows "\<not> net_contains n (ua_ip (ep_Addr ep)) \<and>
    (\<exists>i \<in> set ifaces. ua_ip (ep_Addr ep) \<in> set (the (if_Addrs i)) \<and> if_Running i \<and>
      (\<forall>p \<in> {''pg'', ''wg'', ''veth'', ''docker'', ''nerdctl'', ''tailscale''}. take (length p) (if_Name i) \<noteq> p))"
proof -
  have keep: "localIPs (snd (route_updates il rs (v, g))) = localIPs g \<and>
      ignoredLocalInterfaceNamePrefixs (snd (route_updates il rs (v, g))) = ignoredLocalInterfaceNamePrefixs g" for v g
    by (rule route_updates_rest)
  have own: "localIPs g1 = [] \<and> set [''pg'', ''wg'', ''veth'', ''docker'', ''nerdctl'', ''tailscale''] \<subseteq> set (ignoredLocalInterfaceNamePrefixs g1)"
    using assms(1,2) by (auto simp: ignore_own_def SetIgnoredLocalInterfaceNamePrefixs_def Let_def split: if_splits option.splits)
  have n: "n \<in> set (ignoredLocalCIDRs g2)"
    using assms(4)
  proof (elim disjE exE conjE)
    fix pre r post assume r: "rs = pre @ r # post" "ru_New r" "\<not> IsUnspecified (ru_Via r)" "il_ParseCIDR il (il_CIDR il (ru_Dst r)) = Some n"
    obtain v1 h1 where 1: "route_updates il pre (v, g1) = (v1, h1)" by fastforce
    obtain v2 h2 where 2: "route_update il r (v1, h1) = (v2, h2)" by fastforce
    have "n \<in> set (ignoredLocalCIDRs h2)"
      using 2 r(2-4) assms(5) by (auto simp: route_update_def routingTableUpdate_def AddRoute_def split: if_splits)
    moreover have "route_updates il post (v2, h2) = (v', g2)" using assms(3) 1 2 r(1) by (simp add: route_updates_def)
    ultimately show ?thesis using route_updates_ignored [of n h2 post il v2] assms(6) r(1) by auto
  next
    assume "vg_IPv4 cfg \<noteq> ''''" "il_ParseCIDR il (vg_IPv4 cfg) = Some n"
    then have "n \<in> set (ignoredLocalCIDRs g1)"
      using assms(2,5) by (auto simp: ignore_own_def Let_def split: if_splits option.splits)
    then show ?thesis using route_updates_ignored [of n g1 rs il v] assms(3,6) by auto
  next
    assume "vg_IPv6 cfg \<noteq> ''''" "il_ParseCIDR il (vg_IPv6 cfg) = Some n"
    then have "n \<in> set (ignoredLocalCIDRs g1)"
      using assms(2,5) by (auto simp: ignore_own_def Let_def split: if_splits option.splits)
    then show ?thesis using route_updates_ignored [of n g1 rs il v] assms(3,6) by auto
  qed
  have "ips = iface_ips g2 ifaces" using assms(1,3,7) keep [of v g1] own by (simp add: ListLocalIPs_def)
  then have ip: "ua_ip (ep_Addr ep) \<in> set (iface_ips g2 ifaces)"
    using assms(8) local_addrs_sound by (fastforce simp: lanAddrsGenerate_def)
  have p: "set [''pg'', ''wg'', ''veth'', ''docker'', ''nerdctl'', ''tailscale''] \<subseteq> set (ignoredLocalInterfaceNamePrefixs g2)"
    using own keep [of v g1] assms(3) by simp
  from iface_ips_sound [OF ip] obtain i where i: "i \<in> set ifaces" "if_Running i" "\<not> HasPrefix (ignoredLocalInterfaceNamePrefixs g2) (if_Name i)"
    "ua_ip (ep_Addr ep) \<in> set (the (if_Addrs i))" "usable_ip g2 (ua_ip (ep_Addr ep))" by blast
  have "\<not> net_contains n (ua_ip (ep_Addr ep))" using i(5) n by (auto simp: usable_ip_def cidrs_Contains_iff)
  moreover have "\<forall>q \<in> set [''pg'', ''wg'', ''veth'', ''docker'', ''nerdctl'', ''tailscale'']. take (length q) (if_Name i) \<noteq> q"
    using i(3) p unfolding HasPrefix_iff by blast
  ultimately show ?thesis using i by auto
qed

definition demo_route_il :: ip_lib where
  "demo_route_il = demo_il\<lparr>il_ParseCIDR := (\<lambda>s. Some \<lparr>n_ip = [10, 0, 0, 0], n_mask = [255, 255, 255, 0]\<rparr>), il_CIDR := (\<lambda>n. ''n'')\<rparr>"

definition demo_ifaces :: "iface list" where
  "demo_ifaces = [\<lparr>if_Name = ''pg0'', if_Running = True, if_Addrs = Some [[192, 168, 1, 1]]\<rparr>,
     \<lparr>if_Name = ''eth0'', if_Running = True, if_Addrs = Some [[10, 0, 0, 7], [192, 168, 0, 2]]\<rparr>]"

theorem no_tunnel_in_tunnel_witness:
  "\<exists>v' g2 ep. route_updates demo_route_il [\<lparr>ru_New = True, ru_Dst = \<lparr>n_ip = [10, 0, 0, 0], n_mask = [255, 255, 255, 0]\<rparr>, ru_Via = [10, 0, 0, 1]\<rparr>]
      (vn_init, ignore_own (il_ParseCIDR demo_route_il) (fst (default_flags '''' '''')\<lparr>vg_IPv4 := ''a/24''\<rparr>) \<lparr>ignoredLocalCIDRs = [], ignoredLocalInterfaceNamePrefixs = [], localIPs = []\<rparr>) = (v', g2) \<and>
    ListLocalIPs g2 (Some demo_ifaces) = Some [[192, 168, 0, 2]] \<and> ep \<in> set (lanAddrsGenerate [2] (local_addrs False False 5 [[192, 168, 0, 2]] [])) \<and>
    \<not> net_contains \<lparr>n_ip = [10, 0, 0, 0], n_mask = [255, 255, 255, 0]\<rparr> (ua_ip (ep_Addr ep))"
proof -
  let ?g = "\<lparr>ignoredLocalCIDRs = [], ignoredLocalInterfaceNamePrefixs = [], localIPs = []\<rparr>"
  let ?cfg = "fst (default_flags '''' '''')\<lparr>vg_IPv4 := ''a/24''\<rparr>" and ?n = "\<lparr>n_ip = [10, 0, 0, 0], n_mask = [255, 255, 255, 0]\<rparr>"
  let ?rs = "[\<lparr>ru_New = True, ru_Dst = ?n, ru_Via = [10, 0, 0, 1]\<rparr>]" and ?g1 = "ignore_own (il_ParseCIDR demo_route_il) (fst (default_flags '''' '''')\<lparr>vg_IPv4 := ''a/24''\<rparr>) \<lparr>ignoredLocalCIDRs = [], ignoredLocalInterfaceNamePrefixs = [], localIPs = []\<rparr>"
  obtain v' g2 where r: "route_updates demo_route_il ?rs (vn_init, ?g1) = (v', g2)" by fastforce
  have u: "\<not> IsUnspecified [10, 0, 0, 0]" "\<not> IsUnspecified [10, 0, 0, 1]" by (simp_all add: IsUnspecified_def ip_equal_def v4_in_6_def)
      (rule notI, drule arg_cong [where f = "\<lambda>l. l ! 10"], simp add: nth_append)+
  have g1: "localIPs ?g1 = []" "ignoredLocalInterfaceNamePrefixs ?g1 = [''pg'', ''wg'', ''veth'', ''docker'', ''nerdctl'', ''tailscale'']"
    "ignoredLocalCIDRs ?g1 = [?n]"
    by (simp_all add: ignore_own_def SetIgnoredLocalInterfaceNamePrefixs_def default_flags_def demo_route_il_def u)
  have c: "ignoredLocalCIDRs g2 = [?n, ?n]" "localIPs g2 = []" "ignoredLocalInterfaceNamePrefixs g2 = [''pg'', ''wg'', ''veth'', ''docker'', ''nerdctl'', ''tailscale'']"
    using r g1 u by (auto simp: route_updates_def route_update_def routingTableUpdate_def AddRoute_def demo_route_il_def)
  have l: "ListLocalIPs g2 (Some demo_ifaces) = Some [[192, 168, 0, 2]]"
    by (simp add: ListLocalIPs_def c demo_ifaces_def usable_ip_def net_contains_def networkNumberAndMask_def To4_def IsLoopback_def IsLinkLocalUnicast_def upt_rec)
  obtain ep where ep: "ep \<in> set (lanAddrsGenerate [2] (local_addrs False False 5 [[192, 168, 0, 2]] []))"
    by (simp add: lanAddrsGenerate_def)
  have "\<not> net_contains ?n (ua_ip (ep_Addr ep))"
    using no_tunnel_in_tunnel [OF _ refl r _ _ _ l ep, of ?n] u by (simp add: default_flags_def demo_route_il_def)
  with r l ep show ?thesis by blast
qed

end
