(* ===== verification/Vpn_Run.thy ===== *)
theory Vpn_Run
  imports Vpn_Node
begin

text \<open>
  The five loops of the VPN and its \<open>Run\<close> (\<open>vpn/vpn.go\<close>) as a transition system: the two channels of
  512 packets between the loops, the loops with the packet they hold while a channel is full, and
  the shutdown. A step does one loop body of the theory Vpn, or one statement of \<open>Run\<close>. Which loop
  goes on, what the devices deliver and the environments of the steps (\<open>E\<close>) are arbitrary.
\<close>

section \<open>State\<close>

datatype vr_stage = Waiting | Holding Packet | Finished

text \<open>Where \<open>Run\<close> is: before \<open>ctx.Done\<close>, after it, after each of the four calls that close, and after
  \<open>wg.Wait\<close>.\<close>
datatype run_phase = Serving | Cancelled | ConnDone | NicDone | InboundDone | Draining | Returned

record vrun =
  vr_nic :: VirtualNIC
  vr_outbound :: "Packet list"
  vr_inbound :: "Packet list"
  vr_nicRead :: vr_stage
  vr_connRead :: vr_stage
  vr_connWrite :: vr_stage
  vr_nicWrite_ended :: bool
  vr_route_ended :: bool
  vr_phase :: run_phase
  vr_panic :: bool

definition vr_start :: "VirtualNIC \<Rightarrow> vrun" where
  "vr_start v = \<lparr>vr_nic = v, vr_outbound = [], vr_inbound = [], vr_nicRead = Waiting, vr_connRead = Waiting, vr_connWrite = Waiting,
     vr_nicWrite_ended = False, vr_route_ended = False, vr_phase = Serving, vr_panic = False\<rparr>"

definition chan_capacity :: nat where "chan_capacity = 512"

definition conn_closed :: "vrun \<Rightarrow> bool" where
  "conn_closed s \<longleftrightarrow> vr_phase s \<notin> {Serving, Cancelled}"

definition nic_closed :: "vrun \<Rightarrow> bool" where
  "nic_closed s \<longleftrightarrow> vr_phase s \<notin> {Serving, Cancelled, ConnDone}"

definition inbound_closed :: "vrun \<Rightarrow> bool" where
  "inbound_closed s \<longleftrightarrow> vr_phase s \<in> {InboundDone, Draining, Returned}"

definition outbound_closed :: "vrun \<Rightarrow> bool" where
  "outbound_closed s \<longleftrightarrow> vr_phase s \<in> {Draining, Returned}"

lemmas closed_defs = conn_closed_def nic_closed_def inbound_closed_def outbound_closed_def

text \<open>A send waits while the channel is full; on a closed channel it panics.\<close>
definition can_send :: "bool \<Rightarrow> Packet list \<Rightarrow> bool" where
  "can_send is_closed buf \<longleftrightarrow> is_closed \<or> length buf < chan_capacity"

definition out_send :: "Packet \<Rightarrow> vrun \<Rightarrow> vrun" where
  "out_send p s = (if outbound_closed s then s\<lparr>vr_panic := True\<rparr> else s\<lparr>vr_outbound := vr_outbound s @ [p]\<rparr>)"

definition in_send :: "Packet \<Rightarrow> vrun \<Rightarrow> vrun" where
  "in_send p s = (if inbound_closed s then s\<lparr>vr_panic := True\<rparr> else s\<lparr>vr_inbound := vr_inbound s @ [p]\<rparr>)"

text \<open>What \<open>packetConnWrite\<close> sends to the inbound channel, if anything.\<close>
definition next_stage :: "vpn_event list \<Rightarrow> vr_stage" where
  "next_stage evs = (case evs of [Inbound q] \<Rightarrow> Holding q | _ \<Rightarrow> Waiting)"

definition connWrite_took :: "Packet list \<Rightarrow> VirtualNIC \<Rightarrow> vpn_event list \<Rightarrow> vrun \<Rightarrow> vrun" where
  "connWrite_took rest v evs s = s\<lparr>vr_nic := v, vr_outbound := rest, vr_connWrite := next_stage evs\<rparr>"

text \<open>The statements of \<open>Run\<close> after the context is cancelled. \<open>wg.Wait\<close> waits for all five loops.\<close>
definition all_ended :: "vrun \<Rightarrow> bool" where
  "all_ended s \<longleftrightarrow> vr_nicRead s = Finished \<and> vr_connRead s = Finished \<and> vr_connWrite s = Finished \<and> vr_nicWrite_ended s \<and> vr_route_ended s"

definition run_next :: "vrun \<Rightarrow> run_phase option" where
  "run_next s = (case vr_phase s of Serving \<Rightarrow> Some Cancelled | Cancelled \<Rightarrow> Some ConnDone | ConnDone \<Rightarrow> Some NicDone | NicDone \<Rightarrow> Some InboundDone
     | InboundDone \<Rightarrow> Some Draining | Draining \<Rightarrow> (if all_ended s then Some Returned else None) | Returned \<Rightarrow> None)"

section \<open>Steps\<close>

datatype vr_label =
    NicGot Packet | NicSent Packet
  | ConnGot bytes Packet | ConnSent Packet
  | Took Packet "vpn_event list" | WriteSent Packet
  | Delivered Packet
  | RunStep | LoopEnd | Table | Failed

inductive vr_step :: "vpn_Config \<Rightarrow> vpn_env set \<Rightarrow> vrun \<Rightarrow> vr_label \<Rightarrow> vrun \<Rightarrow> bool" for cfg E where
  nic_got: "vr_nicRead s = Waiting \<Longrightarrow> \<not> nic_closed s \<Longrightarrow> vr_step cfg E s (NicGot p) (s\<lparr>vr_nicRead := Holding p\<rparr>)"
| nic_end: "vr_nicRead s = Waiting \<Longrightarrow> nic_closed s \<Longrightarrow> vr_step cfg E s LoopEnd (s\<lparr>vr_nicRead := Finished\<rparr>)"
| nic_fail: "vr_nicRead s = Waiting \<Longrightarrow> vr_step cfg E s Failed (s\<lparr>vr_panic := True\<rparr>)"
| nic_sent: "vr_nicRead s = Holding p \<Longrightarrow> can_send (outbound_closed s) (vr_outbound s) \<Longrightarrow>
    vr_step cfg E s (NicSent p) (out_send p (s\<lparr>vr_nicRead := Waiting\<rparr>))"
| conn_got: "vr_connRead s = Waiting \<Longrightarrow> \<not> conn_closed s \<Longrightarrow> e \<in> E \<Longrightarrow> packetConnRead cfg e b = Some [Inbound p] \<Longrightarrow>
    vr_step cfg E s (ConnGot b p) (s\<lparr>vr_connRead := Holding p\<rparr>)"
| conn_end: "vr_connRead s = Waiting \<Longrightarrow> conn_closed s \<Longrightarrow> vr_step cfg E s LoopEnd (s\<lparr>vr_connRead := Finished\<rparr>)"
| conn_fail: "vr_connRead s = Waiting \<Longrightarrow> vr_step cfg E s Failed (s\<lparr>vr_panic := True\<rparr>)"
| conn_sent: "vr_connRead s = Holding p \<Longrightarrow> can_send (inbound_closed s) (vr_inbound s) \<Longrightarrow>
    vr_step cfg E s (ConnSent p) (in_send p (s\<lparr>vr_connRead := Waiting\<rparr>))"
| took: "vr_connWrite s = Waiting \<Longrightarrow> vr_outbound s = p # rest \<Longrightarrow> e \<in> E \<Longrightarrow> packetConnWrite cfg e p (vr_nic s) = Some (v, evs) \<Longrightarrow>
    vr_step cfg E s (Took p evs) (connWrite_took rest v evs s)"
| took_fail: "vr_connWrite s = Waiting \<Longrightarrow> vr_outbound s = p # rest \<Longrightarrow> e \<in> E \<Longrightarrow> packetConnWrite cfg e p (vr_nic s) = None \<Longrightarrow>
    vr_step cfg E s Failed (s\<lparr>vr_panic := True\<rparr>)"
| write_sent: "vr_connWrite s = Holding q \<Longrightarrow> can_send (inbound_closed s) (vr_inbound s) \<Longrightarrow>
    vr_step cfg E s (WriteSent q) (in_send q (s\<lparr>vr_connWrite := Waiting\<rparr>))"
| write_end: "vr_connWrite s = Waiting \<Longrightarrow> vr_outbound s = [] \<Longrightarrow> outbound_closed s \<Longrightarrow>
    vr_step cfg E s LoopEnd (s\<lparr>vr_connWrite := Finished\<rparr>)"
| deliver: "\<not> vr_nicWrite_ended s \<Longrightarrow> vr_inbound s = p # rest \<Longrightarrow> vr_step cfg E s (Delivered p) (s\<lparr>vr_inbound := rest\<rparr>)"
| deliver_end: "\<not> vr_nicWrite_ended s \<Longrightarrow> vr_inbound s = [] \<Longrightarrow> inbound_closed s \<Longrightarrow>
    vr_step cfg E s LoopEnd (s\<lparr>vr_nicWrite_ended := True\<rparr>)"
| route: "\<not> vr_route_ended s \<Longrightarrow> e \<in> E \<Longrightarrow>
    vr_step cfg E s Table (s\<lparr>vr_nic := fst (routingTableUpdate (ve_il e) new dst via (vr_nic s))\<rparr>)"
| route_end: "\<not> vr_route_ended s \<Longrightarrow> vr_phase s \<noteq> Serving \<Longrightarrow> vr_step cfg E s LoopEnd (s\<lparr>vr_route_ended := True\<rparr>)"
| peer_up: "vr_step cfg E s Table (s\<lparr>vr_nic := onPeerUp i meta (vr_nic s)\<rparr>)"
| peer_leave: "onPeerLeave order i (vr_nic s) = Some v \<Longrightarrow> vr_step cfg E s Table (s\<lparr>vr_nic := v\<rparr>)"
| run: "run_next s = Some ph \<Longrightarrow> vr_step cfg E s RunStep (s\<lparr>vr_phase := ph\<rparr>)"

text \<open>A run with its labels; a panic ends the process.\<close>
inductive vr_run :: "vpn_Config \<Rightarrow> vpn_env set \<Rightarrow> vrun \<Rightarrow> vr_label list \<Rightarrow> vrun \<Rightarrow> bool" for cfg E s where
  vr_nil: "vr_run cfg E s [] s"
| vr_snoc: "vr_run cfg E s ls t \<Longrightarrow> \<not> vr_panic t \<Longrightarrow> vr_step cfg E t l u \<Longrightarrow> vr_run cfg E s (ls @ [l]) u"

text \<open>What a run has done: packets read from the device, taken from the outbound channel, read from the
  network, offered by \<open>packetConnWrite\<close>, put into the inbound channel (by either loop) and taken out.\<close>
definition reads_of :: "vr_label list \<Rightarrow> Packet list" where
  "reads_of = List.map_filter (\<lambda>l. case l of NicGot p \<Rightarrow> Some p | _ \<Rightarrow> None)"

definition takes_of :: "vr_label list \<Rightarrow> Packet list" where
  "takes_of = List.map_filter (\<lambda>l. case l of Took p _ \<Rightarrow> Some p | _ \<Rightarrow> None)"

definition datagrams_of :: "vr_label list \<Rightarrow> Packet list" where
  "datagrams_of = List.map_filter (\<lambda>l. case l of ConnGot _ p \<Rightarrow> Some p | _ \<Rightarrow> None)"

definition answers_of :: "vr_label list \<Rightarrow> Packet list" where
  "answers_of = List.map_filter (\<lambda>l. case l of Took _ evs \<Rightarrow> (case next_stage evs of Holding q \<Rightarrow> Some q | _ \<Rightarrow> None) | _ \<Rightarrow> None)"

definition entered_of :: "vr_label list \<Rightarrow> (bool \<times> Packet) list" where
  "entered_of = List.map_filter (\<lambda>l. case l of ConnSent p \<Rightarrow> Some (True, p) | WriteSent p \<Rightarrow> Some (False, p) | _ \<Rightarrow> None)"

definition delivered_of :: "vr_label list \<Rightarrow> Packet list" where
  "delivered_of = List.map_filter (\<lambda>l. case l of Delivered p \<Rightarrow> Some p | _ \<Rightarrow> None)"

definition entered_by :: "bool \<Rightarrow> vr_label list \<Rightarrow> Packet list" where
  "entered_by net ls = map snd (filter (\<lambda>x. fst x = net) (entered_of ls))"

lemmas histories = reads_of_def takes_of_def datagrams_of_def answers_of_def entered_of_def delivered_of_def entered_by_def List.map_filter_def

definition in_hands :: "vr_stage \<Rightarrow> Packet list" where
  "in_hands g = (case g of Holding p \<Rightarrow> [p] | _ \<Rightarrow> [])"

definition arrival :: "vr_label \<Rightarrow> bool" where
  "arrival l \<longleftrightarrow> (case l of NicGot _ \<Rightarrow> True | ConnGot _ _ \<Rightarrow> True | Failed \<Rightarrow> True | _ \<Rightarrow> False)"

section \<open>Lemmas\<close>

lemma history_Nil [simp]:
  "reads_of [] = []" "takes_of [] = []" "datagrams_of [] = []" "answers_of [] = []" "entered_of [] = []" "delivered_of [] = []" "entered_by n [] = []"
  by (simp_all add: histories)

lemma history_snoc [simp]:
  "reads_of (ls @ [l]) = reads_of ls @ (case l of NicGot p \<Rightarrow> [p] | _ \<Rightarrow> [])"
  "takes_of (ls @ [l]) = takes_of ls @ (case l of Took p _ \<Rightarrow> [p] | _ \<Rightarrow> [])"
  "datagrams_of (ls @ [l]) = datagrams_of ls @ (case l of ConnGot _ p \<Rightarrow> [p] | _ \<Rightarrow> [])"
  "answers_of (ls @ [l]) = answers_of ls @ (case l of Took _ evs \<Rightarrow> in_hands (next_stage evs) | _ \<Rightarrow> [])"
  "entered_of (ls @ [l]) = entered_of ls @ (case l of ConnSent p \<Rightarrow> [(True, p)] | WriteSent p \<Rightarrow> [(False, p)] | _ \<Rightarrow> [])"
  "delivered_of (ls @ [l]) = delivered_of ls @ (case l of Delivered p \<Rightarrow> [p] | _ \<Rightarrow> [])"
  "entered_by n (ls @ [l]) = entered_by n ls @ (case l of ConnSent p \<Rightarrow> if n then [p] else [] | WriteSent p \<Rightarrow> if n then [] else [p] | _ \<Rightarrow> [])"
  by (cases l; auto simp: histories in_hands_def split: vr_stage.splits)+

definition vr_ok :: "vr_label list \<Rightarrow> vrun \<Rightarrow> bool" where
  "vr_ok ls s \<longleftrightarrow>
     reads_of ls = takes_of ls @ vr_outbound s @ in_hands (vr_nicRead s) \<and>
     datagrams_of ls = entered_by True ls @ in_hands (vr_connRead s) \<and>
     answers_of ls = entered_by False ls @ in_hands (vr_connWrite s) \<and>
     map snd (entered_of ls) = delivered_of ls @ vr_inbound s \<and>
     length (vr_outbound s) \<le> chan_capacity \<and> length (vr_inbound s) \<le> chan_capacity"

lemmas sends = out_send_def in_send_def can_send_def connWrite_took_def

lemma vr_step_ok:
  assumes "vr_step cfg E s l t" and "vr_ok ls s"
  shows "vr_panic t \<or> vr_ok (ls @ [l]) t"
  using assms by (cases rule: vr_step.cases) (auto simp: vr_ok_def sends in_hands_def closed_defs)

lemma vr_run_ok: "vr_run cfg E (vr_start v) ls s \<Longrightarrow> vr_panic s \<or> vr_ok ls s"
proof (induction rule: vr_run.induct)
  case vr_nil
  show ?case by (simp add: vr_ok_def vr_start_def in_hands_def)
next
  case (vr_snoc ls t l u)
  then show ?case using vr_step_ok by blast
qed

lemma vr_run_trans:
  assumes "vr_run cfg E t ls' u" and "vr_run cfg E s ls t"
  shows "vr_run cfg E s (ls @ ls') u"
  using assms
proof (induction rule: vr_run.induct)
  case (vr_snoc ls' t' l u)
  then show ?case using vr_run.vr_snoc [of cfg E s "ls @ ls'" t' l u] by simp
qed simp

lemma vr_run_step: "vr_step cfg E s l t \<Longrightarrow> \<not> vr_panic s \<Longrightarrow> vr_run cfg E s [l] t"
  using vr_run.vr_snoc [OF vr_run.vr_nil, of s cfg E l t] by simp

lemma vr_run_Cons:
  assumes "vr_step cfg E s l t" and "\<not> vr_panic s" and "vr_run cfg E t ls u"
  shows "vr_run cfg E s (l # ls) u"
  using vr_run_trans [OF assms(3) vr_run_step [OF assms(1,2)]] by simp

subsection \<open>Packets in flight are brought through\<close>

definition in_flight :: "vrun \<Rightarrow> nat" where
  "in_flight s = 5 * length (in_hands (vr_nicRead s)) + 4 * length (vr_outbound s) + 3 * length (in_hands (vr_connWrite s)) +
     2 * length (in_hands (vr_connRead s)) + length (vr_inbound s)"

text \<open>A packet that the loop can handle with some environment, whatever the table of peers is.\<close>
definition handled :: "vpn_Config \<Rightarrow> vpn_env set \<Rightarrow> Packet \<Rightarrow> bool" where
  "handled cfg E p \<longleftrightarrow> (\<forall>v. \<exists>e \<in> E. packetConnWrite cfg e p v \<noteq> None)"

definition serving :: "vpn_Config \<Rightarrow> vpn_env set \<Rightarrow> vrun \<Rightarrow> bool" where
  "serving cfg E s \<longleftrightarrow> vr_phase s = Serving \<and> \<not> vr_panic s \<and> \<not> vr_nicWrite_ended s \<and>
     vr_nicRead s \<noteq> Finished \<and> vr_connRead s \<noteq> Finished \<and> vr_connWrite s \<noteq> Finished \<and>
     length (vr_outbound s) \<le> chan_capacity \<and> length (vr_inbound s) \<le> chan_capacity \<and>
     (\<forall>p \<in> set (vr_outbound s) \<union> set (in_hands (vr_nicRead s)). handled cfg E p)"

definition internal :: "vr_label \<Rightarrow> bool" where
  "internal l \<longleftrightarrow> (case l of NicSent _ \<Rightarrow> True | ConnSent _ \<Rightarrow> True | Took _ _ \<Rightarrow> True | WriteSent _ \<Rightarrow> True | Delivered _ \<Rightarrow> True | _ \<Rightarrow> False)"

lemma internal_decreases:
  assumes "vr_step cfg E s l t" and "internal l" and "\<not> vr_panic t"
  shows "in_flight t < in_flight s"
  using assms
  by (cases rule: vr_step.cases) (auto simp: in_flight_def in_hands_def internal_def sends closed_defs next_stage_def split: list.splits vpn_event.splits)

lemma serving_internal:
  assumes "vr_step cfg E s l t" and "internal l" and "serving cfg E s"
  shows "serving cfg E t"
  using assms
  by (cases rule: vr_step.cases)
    (auto simp: serving_def in_hands_def internal_def sends next_stage_def closed_defs split: list.splits vpn_event.splits if_splits)

lemma chan_nonempty: "\<not> length xs < chan_capacity \<Longrightarrow> xs \<noteq> []"
  by (auto simp: chan_capacity_def)

lemma serving_progress:
  assumes "serving cfg E s" and "in_flight s \<noteq> 0"
  shows "\<exists>l t. vr_step cfg E s l t \<and> internal l"
proof (cases "vr_inbound s")
  case (Cons p rest)
  from vr_step.deliver [OF _ this] assms(1) show ?thesis by (fastforce simp: serving_def internal_def)
next
  case Nil
  then have room: "can_send (inbound_closed s) (vr_inbound s)" by (simp add: can_send_def chan_capacity_def)
  show ?thesis
  proof (cases "vr_connWrite s")
    case (Holding q)
    from vr_step.write_sent [OF this room] show ?thesis by (fastforce simp: internal_def)
  next
    case Finished
    with assms(1) show ?thesis by (simp add: serving_def)
  next
    case idle: Waiting
    show ?thesis
    proof (cases "vr_outbound s")
      case (Cons p rest)
      with assms(1) obtain e r where "e \<in> E" "packetConnWrite cfg e p (vr_nic s) = Some r"
        by (fastforce simp: serving_def handled_def)
      with vr_step.took [OF idle Cons this(1)] show ?thesis by (cases r) (fastforce simp: internal_def)
    next
      case out: Nil
      show ?thesis
      proof (cases "vr_nicRead s")
        case (Holding p)
        from vr_step.nic_sent [OF this] out show ?thesis by (fastforce simp: internal_def can_send_def chan_capacity_def)
      next
        case Waiting
        with assms(2) Nil idle out obtain p where "vr_connRead s = Holding p"
          by (cases "vr_connRead s") (auto simp: in_flight_def in_hands_def)
        from vr_step.conn_sent [OF this room] show ?thesis by (fastforce simp: internal_def)
      next
        case Finished
        with assms(1) show ?thesis by (simp add: serving_def)
      qed
    qed
  qed
qed

lemma serving_drains:
  assumes "serving cfg E s"
  shows "\<exists>ls t. vr_run cfg E s ls t \<and> list_all internal ls \<and> serving cfg E t \<and> in_flight t = 0"
  using assms
proof (induction "in_flight s" arbitrary: s rule: less_induct)
  case less
  show ?case
  proof (cases "in_flight s = 0")
    case True
    with less.prems show ?thesis by (intro exI [of _ "[]"] exI [of _ s]) (simp add: vr_run.vr_nil)
  next
    case False
    with serving_progress [OF less.prems] obtain l t where t: "vr_step cfg E s l t" "internal l" by blast
    have st: "serving cfg E t" using serving_internal [OF t less.prems] .
    then have "\<not> vr_panic t" by (simp add: serving_def)
    from less.hyps [OF internal_decreases [OF t this] st] obtain ls u where
      u: "vr_run cfg E t ls u" "list_all internal ls" "serving cfg E u" "in_flight u = 0" by blast
    have "vr_run cfg E s (l # ls) u" using vr_run_Cons [OF t(1) _ u(1)] less.prems by (simp add: serving_def)
    with u t(2) show ?thesis by (intro exI [of _ "l # ls"] exI [of _ u]) simp
  qed
qed

subsection \<open>Shutdown\<close>

lemma flight_0:
  "in_flight s = 0 \<longleftrightarrow> (\<forall>p. vr_nicRead s \<noteq> Holding p) \<and> (\<forall>p. vr_connRead s \<noteq> Holding p) \<and> (\<forall>p. vr_connWrite s \<noteq> Holding p) \<and>
     vr_outbound s = [] \<and> vr_inbound s = []"
  by (cases "vr_nicRead s"; cases "vr_connRead s"; cases "vr_connWrite s") (auto simp: in_flight_def in_hands_def)

lemma quiet_step:
  assumes "vr_step cfg E s l t" and "\<not> arrival l" and "in_flight s = 0" and "\<not> vr_panic s"
  shows "in_flight t = 0 \<and> \<not> vr_panic t"
  using assms by (cases rule: vr_step.cases) (auto simp: flight_0 arrival_def)

lemma quiet_run:
  assumes "vr_run cfg E s ls t" and "list_all (\<lambda>l. \<not> arrival l) ls" and "in_flight s = 0" and "\<not> vr_panic s"
  shows "in_flight t = 0 \<and> \<not> vr_panic t"
  using assms by (induction rule: vr_run.induct) (use quiet_step in auto)

text \<open>The statements of \<open>Run\<close> and the loops that are left.\<close>
definition to_go :: "vrun \<Rightarrow> nat" where
  "to_go s = (case vr_phase s of Serving \<Rightarrow> 6 | Cancelled \<Rightarrow> 5 | ConnDone \<Rightarrow> 4 | NicDone \<Rightarrow> 3 | InboundDone \<Rightarrow> 2 | Draining \<Rightarrow> 1 | Returned \<Rightarrow> 0) +
     (if vr_nicRead s = Finished then 0 else 1) + (if vr_connRead s = Finished then 0 else 1) + (if vr_connWrite s = Finished then 0 else 1) +
     (if vr_nicWrite_ended s then 0 else 1) + (if vr_route_ended s then 0 else 1)"

lemma shutdown_progress:
  assumes "in_flight s = 0" and "vr_phase s \<noteq> Returned"
  shows "\<exists>l t. vr_step cfg E s l t \<and> \<not> arrival l \<and> to_go t < to_go s"
proof (cases "run_next s")
  case (Some ph)
  then have "to_go (s\<lparr>vr_phase := ph\<rparr>) < to_go s" by (auto simp: run_next_def to_go_def split: run_phase.splits if_splits)
  with vr_step.run [OF Some] show ?thesis by (fastforce simp: arrival_def)
next
  case None
  with assms(2) have d: "vr_phase s = Draining" "\<not> all_ended s" by (auto simp: run_next_def split: run_phase.splits if_splits)
  then have c: "conn_closed s" "nic_closed s" "inbound_closed s" "outbound_closed s" "vr_phase s \<noteq> Serving" by (simp_all add: closed_defs)
  from assms(1) have q: "vr_outbound s = []" "vr_inbound s = []" by (simp_all add: flight_0)
  have w: "vr_nicRead s \<in> {Waiting, Finished}" "vr_connRead s \<in> {Waiting, Finished}" "vr_connWrite s \<in> {Waiting, Finished}"
    using assms(1) by (cases "vr_nicRead s"; cases "vr_connRead s"; cases "vr_connWrite s"; simp add: flight_0)+
  have ends: "\<lbrakk>vr_step cfg E s LoopEnd t; to_go t < to_go s\<rbrakk> \<Longrightarrow> ?thesis" for t by (fastforce simp: arrival_def)
  from d(2) w consider "vr_nicRead s = Waiting" | "vr_connRead s = Waiting" | "vr_connWrite s = Waiting" | "\<not> vr_nicWrite_ended s" | "\<not> vr_route_ended s"
    by (auto simp: all_ended_def)
  then show ?thesis
  proof cases
    case 1
    from ends [OF vr_step.nic_end [OF this c(2)]] 1 show ?thesis by (simp add: to_go_def)
  next
    case 2
    from ends [OF vr_step.conn_end [OF this c(1)]] 2 show ?thesis by (simp add: to_go_def)
  next
    case 3
    from ends [OF vr_step.write_end [OF this q(1) c(4)]] 3 show ?thesis by (simp add: to_go_def)
  next
    case 4
    from ends [OF vr_step.deliver_end [OF this q(2) c(3)]] 4 show ?thesis by (simp add: to_go_def)
  next
    case 5
    from ends [OF vr_step.route_end [OF this c(5)]] 5 show ?thesis by (simp add: to_go_def)
  qed
qed

lemma quiet_returns:
  assumes "in_flight s = 0" and "\<not> vr_panic s"
  shows "\<exists>ls t. vr_run cfg E s ls t \<and> list_all (\<lambda>l. \<not> arrival l) ls \<and> vr_phase t = Returned"
  using assms
proof (induction "to_go s" arbitrary: s rule: less_induct)
  case less
  show ?case
  proof (cases "vr_phase s = Returned")
    case True
    then show ?thesis by (intro exI [of _ "[]"] exI [of _ s]) (simp add: vr_run.vr_nil)
  next
    case False
    with shutdown_progress [OF less.prems(1)] obtain l t where t: "vr_step cfg E s l t" "\<not> arrival l" "to_go t < to_go s" by blast
    from quiet_step [OF t(1,2) less.prems] less.hyps [OF t(3)] obtain ls u where
      u: "vr_run cfg E t ls u" "list_all (\<lambda>l. \<not> arrival l) ls" "vr_phase u = Returned" by blast
    from vr_run_Cons [OF t(1) less.prems(2) u(1)] u(2,3) t(2) show ?thesis by (intro exI [of _ "l # ls"] exI [of _ u]) simp
  qed
qed

text \<open>\<open>Run\<close> goes from one phase to another while the loops stand still.\<close>
lemma closes_in_order:
  assumes "vr_phase s = Serving" and "\<not> vr_panic s"
  shows "vr_run cfg E s (replicate 5 RunStep) (s\<lparr>vr_phase := Draining\<rparr>)"
proof -
  have step: "vr_step cfg E (s\<lparr>vr_phase := a\<rparr>) RunStep (s\<lparr>vr_phase := b\<rparr>)"
    if "run_next (s\<lparr>vr_phase := a\<rparr>) = Some b" for a b
    using vr_step.run [OF that, of cfg E] by simp
  have 0: "s\<lparr>vr_phase := Serving\<rparr> = s" using assms(1) by (metis vrun.surjective vrun.update_convs(9))
  note c = vr_run_Cons [OF step]
  have "vr_run cfg E (s\<lparr>vr_phase := Serving\<rparr>) [RunStep, RunStep, RunStep, RunStep, RunStep] (s\<lparr>vr_phase := Draining\<rparr>)"
    by (rule c [of Serving Cancelled] c [of Cancelled ConnDone] c [of ConnDone NicDone] c [of NicDone InboundDone] c [of InboundDone Draining]
          vr_run.vr_nil | simp add: run_next_def assms(2))+
  then show ?thesis unfolding 0 by (simp add: eval_nat_numeral)
qed

section \<open>Properties\<close>


definition demo_ip4 :: Packet where
  "demo_ip4 = \<lparr>pk_buf = replicate 16 0 @ [0x45, 7], pk_offset = 16\<rparr>"


text \<open>C16. The loops never block each other: while the VPN serves, every step that moves a packet on brings
  it closer to its end, some such step is possible as long as a packet is on its way, and there is a run that brings all of
  them through, without a panic, if the packets can be handled.\<close>
theorem vpn_loops_drain:
  assumes "serving cfg E s"
  shows "(\<forall>l t. vr_step cfg E s l t \<and> internal l \<longrightarrow> serving cfg E t \<and> in_flight t < in_flight s) \<and>
    (in_flight s \<noteq> 0 \<longrightarrow> (\<exists>l t. vr_step cfg E s l t \<and> internal l)) \<and>
    (\<exists>ls t. vr_run cfg E s ls t \<and> list_all internal ls \<and> serving cfg E t \<and> in_flight t = 0)"
proof (intro conjI allI impI)
  fix l t assume t: "vr_step cfg E s l t \<and> internal l"
  then show st: "serving cfg E t" using serving_internal assms by blast
  then show "in_flight t < in_flight s" using internal_decreases t by (auto simp: serving_def)
qed (use serving_progress serving_drains assms in blast)+

lemma demo_ip4_handled: "handled demo_vpn_cfg {demo_ve} demo_ip4"
  unfolding handled_def
proof
  fix v
  have ab: "AsBytes demo_ip4 = Some [0x45, 7]" by (simp add: AsBytes_def demo_ip4_def)
  have ver: "Ver demo_ip4 = Some 4" using Ver_data [OF ab] by simp
  have "\<not> IsMulticast [10, 0, 0, 1]" by (simp add: IsMulticast_def To4_def)
  with ab ver show "\<exists>e \<in> {demo_ve}. packetConnWrite demo_vpn_cfg e demo_ip4 v \<noteq> None"
    by (auto simp: packetConnWrite_def dispatch_def sendPacketToPeer_def demo_vpn_cfg_def demo_ve_def vpn_pool_MTU_def GetPacket_def
        pool_Get_def NewPacket_def Packet_Write_def split: prod.splits option.splits)
qed

theorem vpn_loops_drain_witness:
  "\<exists>ls t. vr_run demo_vpn_cfg {demo_ve} ((vr_start vn_init)\<lparr>vr_outbound := replicate 512 demo_ip4, vr_nicRead := Holding demo_ip4\<rparr>) ls t \<and>
     in_flight t = 0 \<and> vr_outbound t = []"
proof -
  let ?s = "(vr_start vn_init)\<lparr>vr_outbound := replicate 512 demo_ip4, vr_nicRead := Holding demo_ip4\<rparr>"
  have "serving demo_vpn_cfg {demo_ve} ?s"
    using demo_ip4_handled by (auto simp: serving_def vr_start_def chan_capacity_def in_hands_def)
  from vpn_loops_drain [OF this] show ?thesis by (auto simp: flight_0)
qed



text \<open>A packet that is read during the shutdown ends the process with a panic: from every serving state in which
  the reading loop waits, a packet can be read before the device is closed and be sent after
  the outbound channel is closed; the same holds for a datagram and the inbound channel.\<close>
theorem vpn_shutdown_panics:
  assumes "vr_phase s = Serving" and "\<not> vr_panic s"
  shows "(vr_nicRead s = Waiting \<longrightarrow> (\<exists>t. vr_run cfg E s (NicGot p # replicate 5 RunStep @ [NicSent p]) t \<and> vr_panic t)) \<and>
    (vr_connRead s = Waiting \<and> e \<in> E \<and> packetConnRead cfg e b = Some [Inbound q] \<longrightarrow>
      (\<exists>t. vr_run cfg E s (ConnGot b q # replicate 5 RunStep @ [ConnSent q]) t \<and> vr_panic t))"
proof (intro conjI impI)
  assume w: "vr_nicRead s = Waiting"
  let ?s = "s\<lparr>vr_nicRead := Holding p\<rparr>" let ?t = "?s\<lparr>vr_phase := Draining\<rparr>"
  have "vr_step cfg E ?t (NicSent p) (out_send p (?t\<lparr>vr_nicRead := Waiting\<rparr>))"
    by (rule vr_step.nic_sent) (simp_all add: can_send_def closed_defs)
  from vr_run.vr_snoc [OF closes_in_order _ this] assms
  have "vr_run cfg E ?s (replicate 5 RunStep @ [NicSent p]) (out_send p (?t\<lparr>vr_nicRead := Waiting\<rparr>))" by simp
  moreover have "vr_step cfg E s (NicGot p) ?s" using w assms(1) by (intro vr_step.nic_got) (simp_all add: closed_defs)
  ultimately have "vr_run cfg E s (NicGot p # replicate 5 RunStep @ [NicSent p]) (out_send p (?t\<lparr>vr_nicRead := Waiting\<rparr>))"
    using vr_run_Cons assms(2) by blast
  moreover have "vr_panic (out_send p (?t\<lparr>vr_nicRead := Waiting\<rparr>))" by (simp add: out_send_def closed_defs)
  ultimately show "\<exists>t. vr_run cfg E s (NicGot p # replicate 5 RunStep @ [NicSent p]) t \<and> vr_panic t" by blast
next
  assume w: "vr_connRead s = Waiting \<and> e \<in> E \<and> packetConnRead cfg e b = Some [Inbound q]"
  let ?s = "s\<lparr>vr_connRead := Holding q\<rparr>" let ?t = "?s\<lparr>vr_phase := Draining\<rparr>"
  have "vr_step cfg E ?t (ConnSent q) (in_send q (?t\<lparr>vr_connRead := Waiting\<rparr>))"
    by (rule vr_step.conn_sent) (simp_all add: can_send_def closed_defs)
  from vr_run.vr_snoc [OF closes_in_order _ this] assms
  have "vr_run cfg E ?s (replicate 5 RunStep @ [ConnSent q]) (in_send q (?t\<lparr>vr_connRead := Waiting\<rparr>))" by simp
  moreover have "vr_step cfg E s (ConnGot b q) ?s" using w assms(1) vr_step.conn_got [of s e E cfg b q] by (simp add: closed_defs)
  ultimately have "vr_run cfg E s (ConnGot b q # replicate 5 RunStep @ [ConnSent q]) (in_send q (?t\<lparr>vr_connRead := Waiting\<rparr>))"
    using vr_run_Cons assms(2) by blast
  moreover have "vr_panic (in_send q (?t\<lparr>vr_connRead := Waiting\<rparr>))" by (simp add: in_send_def closed_defs)
  ultimately show "\<exists>t. vr_run cfg E s (ConnGot b q # replicate 5 RunStep @ [ConnSent q]) t \<and> vr_panic t" by blast
qed

theorem vpn_shutdown_panics_witness:
  "\<exists>t. vr_run demo_vpn_cfg {demo_ve} (vr_start vn_init) (NicGot demo_ip4 # replicate 5 RunStep @ [NicSent demo_ip4]) t \<and> vr_panic t"
  using vpn_shutdown_panics [of "vr_start vn_init" demo_vpn_cfg "{demo_ve}"] by (simp add: vr_start_def)

end
