(* ===== verification/Node_Start.thy ===== *)
theory Node_Start
  imports Vpn_Run Rootless
begin

text \<open>
  The start of a VPN node: \<open>P2PVPN.Run\<close> and \<open>listenPacketConn\<close> (\<open>cmd/pgcli/vpn/vpn.go\<close>) with
  \<open>ForwardEngine.Start\<close> and \<open>ProxyServer.Start\<close> (\<open>cmd/pgcli/vpn/rootless\<close>): what is opened in which order,
  what is closed again when a part fails, and which goroutines hold \<open>Run\<close> until its context ends.
\<close>

section \<open>Surroundings\<close>

text \<open>What the operating system, the libraries and the servers answer.\<close>
record 'e node_env =
  ne_listen :: "'e listen_env"
  ne_secret :: secret_env
  ne_home :: "string option"
  ne_login :: "NetworkSecret option"
  ne_now :: int
  ne_scheme :: "string \<Rightarrow> string option"
  ne_udp :: "int \<Rightarrow> bool"
  ne_rid :: PeerID
  ne_dialed :: "Peer \<Rightarrow> WSConn option"
  ne_tun :: bool
  ne_parse_url :: "string \<Rightarrow> (string \<times> string) option"
  ne_card_listen :: "string \<Rightarrow> u16 \<Rightarrow> bool"
  ne_proxy_tcp :: bool
  ne_proxy_udp :: bool
  ne_ipc :: bool

datatype start_error = NodeErr node_error | ListenErr | TunErr | ForwardErr forward_error | ProxyErr

datatype resource = OpenCard | OpenForward string u16 string | OpenProxyTCP | OpenProxyUDP | OpenIPC

section \<open>The packet connection\<close>

text \<open>\<open>listenPacketConn\<close>, with the files that the login may write.\<close>
definition listenPacketConn :: "'e node_env \<Rightarrow> vnode_Config \<Rightarrow> (string \<Rightarrow> bytes option)
    \<Rightarrow> (start_error + 'e PacketConn) \<times> (string \<Rightarrow> bytes option)" where
  "listenPacketConn ne cfg files =
     (case listen_options (ne_listen ne) cfg of
        None \<Rightarrow> (Inl (NodeErr BadPrefix), files)
      | Some opts \<Rightarrow>
          (case loginIfNecessary (ne_secret ne) (ne_home ne) (ne_login ne) (ne_now ne) cfg files of
             (Inl err, files') \<Rightarrow> (Inl (NodeErr err), files')
           | (Inr store, files') \<Rightarrow>
               (case NewServer (ne_scheme ne) (vg_Server cfg) (Some store) of
                  Inl err \<Rightarrow> (Inl (NodeErr err), files')
                | Inr _ \<Rightarrow>
                    (case ListenPacketContext (ne_udp ne) (ne_rid ne) (ne_dialed ne) opts of
                       None \<Rightarrow> (Inl ListenErr, files')
                     | Some c \<Rightarrow> (Inr c, files')))))"

section \<open>Forwards and proxy\<close>

text \<open>What a part leaves open and how many goroutines it adds to the wait group of \<open>Run\<close>.\<close>
record part =
  pt_open :: "resource list"
  pt_waits :: nat
  pt_error :: "start_error option"

text \<open>The engine closes its listeners and the card when a forward fails.\<close>
definition ForwardEngine_Start :: "'e node_env \<Rightarrow> string list \<Rightarrow> part" where
  "ForwardEngine_Start ne forwards =
     (case start_forwards (ne_parse_url ne) (ne_card_listen ne) forwards [] of
        Inl (e, _) \<Rightarrow> \<lparr>pt_open = [], pt_waits = 0, pt_error = Some (ForwardErr e)\<rparr>
      | Inr ls \<Rightarrow> \<lparr>pt_open = OpenCard # map (\<lambda>(scheme, port, backend). OpenForward scheme port backend) ls, pt_waits = 1, pt_error = None\<rparr>)"

definition ProxyServer_Start :: "'e node_env \<Rightarrow> part" where
  "ProxyServer_Start ne =
     (if ne_proxy_tcp ne \<and> ne_proxy_udp ne then \<lparr>pt_open = [OpenProxyTCP, OpenProxyUDP], pt_waits = 1, pt_error = None\<rparr>
      else \<lparr>pt_open = [], pt_waits = 0, pt_error = Some ProxyErr\<rparr>)"

text \<open>The two in sequence; the card is open before.\<close>
definition start_rootless :: "'e node_env \<Rightarrow> vnode_Config \<Rightarrow> part" where
  "start_rootless ne cfg =
     (let f = ForwardEngine_Start ne (vg_Forwards cfg) in
      if pt_error f \<noteq> None \<or> px_Listen (vg_Proxy cfg) = '''' then f
      else let p = ProxyServer_Start ne in
        \<lparr>pt_open = pt_open f @ pt_open p, pt_waits = pt_waits f + pt_waits p, pt_error = pt_error p\<rparr>)"

section \<open>Run\<close>

text \<open>The state in which \<open>Run\<close> serves or comes to its return: the packet connection that is open, the other resources,
  the goroutines it waits for. It returns its error once the wait group is empty.\<close>
record 'e started =
  sd_conn :: "'e PacketConn option"
  sd_part :: part

definition SetTransportMode :: "string \<Rightarrow> 'e PacketConn \<Rightarrow> 'e PacketConn" where
  "SetTransportMode mode c = c\<lparr>pn_mode := mode\<rparr>"

definition node_Run :: "'e node_env \<Rightarrow> vnode_Config \<Rightarrow> (string \<Rightarrow> bytes option) \<Rightarrow> 'e started \<times> (string \<Rightarrow> bytes option)" where
  "node_Run ne cfg files =
     (if \<not> rootlessMode cfg \<and> \<not> ne_tun ne then (\<lparr>sd_conn = None, sd_part = \<lparr>pt_open = [], pt_waits = 0, pt_error = Some TunErr\<rparr>\<rparr>, files)
      else case listenPacketConn ne cfg files of
        (Inl err, files') \<Rightarrow> (\<lparr>sd_conn = None, sd_part = \<lparr>pt_open = [], pt_waits = 0, pt_error = Some err\<rparr>\<rparr>, files')
      | (Inr c, files') \<Rightarrow>
          let c1 = SetTransportMode (vg_Mode cfg) c;
              p = (if rootlessMode cfg then start_rootless ne cfg else \<lparr>pt_open = [OpenCard], pt_waits = 0, pt_error = None\<rparr>)
          in (\<lparr>sd_conn = Some c1,
               sd_part = (if pt_error p = None \<and> ne_ipc ne then p\<lparr>pt_open := pt_open p @ [OpenIPC], pt_waits := Suc (pt_waits p)\<rparr> else p)\<rparr>, files'))"

text \<open>\<open>Run\<close> is back: an error and nobody to wait for.\<close>
definition run_returns :: "'e started \<Rightarrow> bool" where
  "run_returns s \<longleftrightarrow> pt_error (sd_part s) \<noteq> None \<and> pt_waits (sd_part s) = 0"

section \<open>Lemmas\<close>

lemma ListenPacketContext_fields:
  assumes "ListenPacketContext listen rid dialed opts = Some c"
  shows "\<exists>cfg. apply_options opts (default_config rid) = Some cfg \<and> pn_SymmAlgo c = po_SymmAlgo cfg \<and> \<not> pn_closed c \<and>
    dialed (po_PeerInfo cfg) = Some (pn_ws c)"
  using assms by (auto simp: ListenPacketContext_def bind_eq_Some_conv)

lemma listenPacketConn_conn:
  assumes "listenPacketConn ne cfg files = (Inr c, files')"
  shows "\<exists>opts store. listen_options (ne_listen ne) cfg = Some opts \<and>
    loginIfNecessary (ne_secret ne) (ne_home ne) (ne_login ne) (ne_now ne) cfg files = (Inr store, files') \<and>
    ListenPacketContext (ne_udp ne) (ne_rid ne) (ne_dialed ne) opts = Some c"
  using assms by (auto simp: listenPacketConn_def split: option.splits sum.splits prod.splits)

lemma start_rootless_cases:
  obtains (forward) e where "start_rootless ne cfg = \<lparr>pt_open = [], pt_waits = 0, pt_error = Some (ForwardErr e)\<rparr>"
    "ForwardEngine_Start ne (vg_Forwards cfg) = \<lparr>pt_open = [], pt_waits = 0, pt_error = Some (ForwardErr e)\<rparr>"
  | (proxy) ls where "start_forwards (ne_parse_url ne) (ne_card_listen ne) (vg_Forwards cfg) [] = Inr ls" "px_Listen (vg_Proxy cfg) \<noteq> ''''"
    "pt_open (start_rootless ne cfg) = OpenCard # map (\<lambda>(scheme, port, backend). OpenForward scheme port backend) ls"
    "pt_waits (start_rootless ne cfg) = 1" "pt_error (start_rootless ne cfg) = Some ProxyErr"
  | (started) ls where "start_forwards (ne_parse_url ne) (ne_card_listen ne) (vg_Forwards cfg) [] = Inr ls"
    "pt_open (start_rootless ne cfg) = OpenCard # map (\<lambda>(scheme, port, backend). OpenForward scheme port backend) ls @
       (if px_Listen (vg_Proxy cfg) = '''' then [] else [OpenProxyTCP, OpenProxyUDP])"
    "pt_error (start_rootless ne cfg) = None"
proof (cases "start_forwards (ne_parse_url ne) (ne_card_listen ne) (vg_Forwards cfg) []")
  case (Inl r)
  then show thesis using forward by (cases r) (auto simp: start_rootless_def ForwardEngine_Start_def Let_def)
next
  case (Inr ls)
  then show thesis using proxy [OF Inr] started [OF Inr]
    by (cases "px_Listen (vg_Proxy cfg) = ''''"; cases "ne_proxy_tcp ne \<and> ne_proxy_udp ne")
      (auto simp: start_rootless_def ForwardEngine_Start_def ProxyServer_Start_def Let_def)
qed

definition demo_ne :: "bool \<Rightarrow> unit node_env" where
  "demo_ne udp = \<lparr>ne_listen = demo_listen, ne_secret = demo_codec, ne_home = None, ne_login = None, ne_now = 0, ne_scheme = (\<lambda>_. Some ''wss''),
     ne_udp = (\<lambda>_. True), ne_rid = [9], ne_dialed = (\<lambda>_. Some (pn_ws (demo_node [1] 5))), ne_tun = True,
     ne_parse_url = (\<lambda>_. None), ne_card_listen = (\<lambda>_ _. True), ne_proxy_tcp = True, ne_proxy_udp = udp, ne_ipc = True\<rparr>"

definition demo_vg :: "string \<Rightarrow> vnode_Config" where
  "demo_vg px = fst (default_flags ''pg0'' ''wss://m'')\<lparr>vg_IPv4 := ''10.0.0.2/24'', vg_PrivateKey := [1, 2], vg_Secret := ''s'',
     vg_Mode := MODE_FORCE_RELAY, vg_Proxy := \<lparr>px_Listen = px, px_Users = []\<rparr>\<rparr>"

lemma demo_listens: "\<exists>c. listenPacketConn (demo_ne udp) (demo_vg px) Map.empty = (Inr c, Map.empty)"
proof -
  obtain u where "ListenUDP (\<lambda>_. True) \<lparr>cfg_Port = 29877, cfg_ID = [2, 1], cfg_PeerKeepaliveInterval = 6 * second, cfg_DiscoMagic = None\<rparr> = Some u"
    by (cases "RestartListener (\<lambda>_. True) \<lparr>uc_Port = 29877, uc_ID = [2, 1], uc_KeepAlive = 6 * second, uc_Magic = None,
      uc_conns = None, uc_nat = None, uc_index = [], uc_cache = pool_init, uc_stun = Map.empty\<rparr>")
      (simp add: ListenUDP_def Len_def RestartListener_def second_def)
  then show ?thesis
    by (simp add: listenPacketConn_def demo_ne_def demo_vg_def listen_options_def alias_options_def default_flags_def demo_listen_def PeerMetaOption_def
      KeepAlivePeriod_def ListenUDPPort_def PeerAlias1_def ListenPeerCurve25519_def default_config_def loginIfNecessary_def NewServer_def
      ListenPacketContext_def New_def)
qed

section \<open>Properties\<close>





end
