(* ===== verification/P2p_Loop.thy ===== *)
theory P2p_Loop
  imports P2p_Correct "HOL-Library.Multiset"
begin

text \<open>
  The control loop of the packet connection (\<open>eventsHandle\<close> of \<open>p2p/conn.go\<close>) with its goroutines: the loop takes
  an event from a channel and starts a goroutine that handles it, so the events are handled in any order,
  while writes look up metadata and \<open>Close\<close> ends the loop. \<open>str\<close> is \<open>UDPAddr.String\<close> and \<open>json\<close> the
  encoder of the NAT information.
\<close>

section \<open>State\<close>

text \<open>What a started goroutine has to do.\<close>
datatype p2p_job = JEvent u8 "ws_event option" | JNAT NATInfo | JEndpoint Endpoint | JLead PeerID

record 'e ploop =
  pl_conn :: "'e PacketConn"
  pl_pending :: "p2p_job list"
  pl_alive :: bool

definition pl_start :: "'e PacketConn \<Rightarrow> 'e ploop" where
  "pl_start c = \<lparr>pl_conn = c, pl_pending = [], pl_alive = True\<rparr>"

text \<open>What the loop makes of an error of the UDP connection.\<close>
definition error_job :: "udp_event \<Rightarrow> p2p_job option" where
  "error_job e = (case e of URelayErr i err \<Rightarrow> if err = ErrUDPConnInactive then None else Some (JLead i) | _ \<Rightarrow> None)"

definition run_job :: "(UDPAddr \<Rightarrow> string) \<Rightarrow> (NATInfo \<Rightarrow> bytes) \<Rightarrow> bool \<Rightarrow> int \<Rightarrow> p2p_job \<Rightarrow> 'e PacketConn \<Rightarrow> 'e PacketConn \<times> p2p_action list \<times> p2p_event list" where
  "run_job str json locked now j c =
     (case j of
        JEvent code e \<Rightarrow> (case handleEvent code e c of (c1, acts) \<Rightarrow> (c1, acts, []))
      | JNAT i \<Rightarrow> (c, [], case ws_UpdateNATInfo json i (pn_ws c) of None \<Rightarrow> [] | Some r \<Rightarrow> ws_sent r)
      | JEndpoint e \<Rightarrow> (c, [], ws_sent (sendEndpoint str e c))
      | JLead i \<Rightarrow> (case TryLeadDisco locked now i c of (c1, ev) \<Rightarrow> (c1, [], ev)))"

text \<open>\<open>Close\<close> of the packet connection, as far as its own state goes.\<close>
definition p2p_Close :: "'e PacketConn \<Rightarrow> 'e PacketConn" where
  "p2p_Close c = c\<lparr>pn_closed := True\<rparr>"

definition drop_nth :: "nat \<Rightarrow> 'a list \<Rightarrow> 'a list" where
  "drop_nth i xs = take i xs @ drop (Suc i) xs"

datatype p2p_label = PGot p2p_job | PIgnored udp_event | PRan p2p_job "p2p_action list" "p2p_event list" | PLookup PeerID | PClose | PStop

inductive pl_step :: "(UDPAddr \<Rightarrow> string) \<Rightarrow> (NATInfo \<Rightarrow> bytes) \<Rightarrow> 'e ploop \<Rightarrow> p2p_label \<Rightarrow> 'e ploop \<Rightarrow> bool" for str json where
  pl_got: "pl_alive s \<Longrightarrow> (\<forall>i. j \<noteq> JLead i) \<Longrightarrow> pl_step str json s (PGot j) (s\<lparr>pl_pending := pl_pending s @ [j]\<rparr>)"
| pl_error: "pl_alive s \<Longrightarrow> error_job e = Some j \<Longrightarrow> pl_step str json s (PGot j) (s\<lparr>pl_pending := pl_pending s @ [j]\<rparr>)"
| pl_ignored: "pl_alive s \<Longrightarrow> error_job e = None \<Longrightarrow> pl_step str json s (PIgnored e) s"
| pl_ran: "i < length (pl_pending s) \<Longrightarrow> run_job str json locked now (pl_pending s ! i) (pl_conn s) = (c, acts, evs) \<Longrightarrow>
    pl_step str json s (PRan (pl_pending s ! i) acts evs) (s\<lparr>pl_conn := c, pl_pending := drop_nth i (pl_pending s)\<rparr>)"
| pl_lookup: "pl_step str json s (PLookup i) (s\<lparr>pl_conn := fst (PeerMeta i (pl_conn s))\<rparr>)"
| pl_close: "pl_step str json s PClose (s\<lparr>pl_conn := p2p_Close (pl_conn s)\<rparr>)"
| pl_stop: "pl_alive s \<Longrightarrow> pn_closed (pl_conn s) \<Longrightarrow> pl_step str json s PStop (s\<lparr>pl_alive := False\<rparr>)"

inductive pl_run :: "(UDPAddr \<Rightarrow> string) \<Rightarrow> (NATInfo \<Rightarrow> bytes) \<Rightarrow> 'e ploop \<Rightarrow> p2p_label list \<Rightarrow> 'e ploop \<Rightarrow> bool" for str json s where
  pl_nil: "pl_run str json s [] s"
| pl_snoc: "pl_run str json s ls t \<Longrightarrow> pl_step str json t l u \<Longrightarrow> pl_run str json s (ls @ [l]) u"

section \<open>What a run has done\<close>

definition got_jobs :: "p2p_label list \<Rightarrow> p2p_job list" where
  "got_jobs = List.map_filter (\<lambda>l. case l of PGot j \<Rightarrow> Some j | _ \<Rightarrow> None)"

definition ran_jobs :: "p2p_label list \<Rightarrow> p2p_job list" where
  "ran_jobs = List.map_filter (\<lambda>l. case l of PRan j _ _ \<Rightarrow> Some j | _ \<Rightarrow> None)"

text \<open>The callbacks of a run, in their order.\<close>
definition callbacks :: "p2p_label list \<Rightarrow> p2p_action list" where
  "callbacks ls = concat (map (\<lambda>l. case l of PRan _ acts _ \<Rightarrow> acts | _ \<Rightarrow> []) ls)"

definition announcement :: "p2p_job \<Rightarrow> (PeerID \<times> url_values) option" where
  "announcement j = (case j of JEvent _ (Some (WPeer _ i m)) \<Rightarrow> Some (i, m) | _ \<Rightarrow> None)"

definition announced :: "p2p_job list \<Rightarrow> (PeerID \<times> url_values) list" where
  "announced = List.map_filter announcement"

definition peers_up :: "p2p_action list \<Rightarrow> (PeerID \<times> url_values) list" where
  "peers_up = List.map_filter (\<lambda>a. case a of OnPeer i m \<Rightarrow> Some (i, m) | _ \<Rightarrow> None)"

section \<open>Lemmas\<close>

lemma jobs_Nil [simp]: "got_jobs [] = []" "ran_jobs [] = []" "announced [] = []" "peers_up [] = []" "callbacks [] = []"
  by (simp_all add: got_jobs_def ran_jobs_def announced_def peers_up_def callbacks_def List.map_filter_def)

lemma jobs_append [simp]:
  "got_jobs (a @ b) = got_jobs a @ got_jobs b" "ran_jobs (a @ b) = ran_jobs a @ ran_jobs b"
  "announced (x @ y) = announced x @ announced y" "peers_up (u @ v) = peers_up u @ peers_up v" "callbacks (a @ b) = callbacks a @ callbacks b"
  by (simp_all add: got_jobs_def ran_jobs_def announced_def peers_up_def callbacks_def List.map_filter_def)

lemma jobs_single [simp]:
  "got_jobs [l] = (case l of PGot j \<Rightarrow> [j] | _ \<Rightarrow> [])" "ran_jobs [l] = (case l of PRan j _ _ \<Rightarrow> [j] | _ \<Rightarrow> [])"
  "callbacks [l] = (case l of PRan _ acts _ \<Rightarrow> acts | _ \<Rightarrow> [])"
  "peers_up (a # as) = (case a of OnPeer i m \<Rightarrow> [(i, m)] | _ \<Rightarrow> []) @ peers_up as"
  by (auto simp: got_jobs_def ran_jobs_def callbacks_def peers_up_def announced_def List.map_filter_def split: p2p_label.splits p2p_action.splits)

lemma announced_Cons [simp]: "announced (j # js) = (case announcement j of None \<Rightarrow> [] | Some x \<Rightarrow> [x]) @ announced js"
  by (cases "announcement j") (simp_all add: announced_def List.map_filter_def)

lemma mset_drop_nth: "i < length xs \<Longrightarrow> mset xs = add_mset (xs ! i) (mset (drop_nth i xs))"
  unfolding drop_nth_def by (metis id_take_nth_drop mset.simps(2) mset_append union_mset_add_mset_right)

lemma announced_mset: "mset a = mset b \<Longrightarrow> mset (announced a) = mset (announced b)"
  by (simp only: announced_def List.map_filter_def mset_map mset_filter)

lemma mset_peers_distinct: "mset (announced a) = mset (announced b) \<Longrightarrow> distinct (map fst (announced a)) \<longleftrightarrow> distinct (map fst (announced b))"
  by (metis mset_eq_imp_distinct_iff mset_map)

lemma contents_dom: "cache_ok c \<Longrightarrow> length (contents c) = card (dom (map_of (contents c)))"
  using lru.keys [of c] by (metis distinct_card dom_map_of_conv_image_fst length_map list.set_map)

text \<open>Putting a new entry where there is room keeps all others.\<close>
lemma Put_room:
  assumes "cache_ok c" and "k \<notin> dom (map_of (contents c))" and "card (dom (map_of (contents c))) < cap_of c"
  shows "map_of (contents (Put c k v)) = (map_of (contents c))(k \<mapsto> v)"
proof -
  have "map_of (contents c) k = None" "length (contents c) \<noteq> cap_of c" using assms contents_dom [OF assms(1)] by auto
  then show ?thesis by (simp add: Put_contents [OF assms(1)] insert_recent_def)
qed

text \<open>How a job changes the table of metadata and which callbacks it starts.\<close>
lemma run_job_meta:
  assumes "run_job str json locked now j c = (c', acts, evs)"
  shows "pn_peerMap c' = (case announcement j of None \<Rightarrow> pn_peerMap c | Some (i, m) \<Rightarrow> Put (pn_peerMap c) i m) \<and>
    peers_up acts = announced [j] \<and> pn_closed c' = pn_closed c"
  using assms
  by (auto simp: run_job_def handleEvent_def TryLeadDisco_def announcement_def Let_def
      split: p2p_job.splits option.splits ws_event.splits if_splits prod.splits)

definition pl_ok :: "p2p_label list \<Rightarrow> 'e ploop \<Rightarrow> bool" where
  "pl_ok ls s \<longleftrightarrow>
     mset (got_jobs ls) = mset (ran_jobs ls) + mset (pl_pending s) \<and> peers_up (callbacks ls) = announced (ran_jobs ls) \<and>
     cache_ok (pn_peerMap (pl_conn s)) \<and> cap_of (pn_peerMap (pl_conn s)) = 1024 \<and>
     (distinct (map fst (announced (got_jobs ls))) \<and> length (announced (got_jobs ls)) \<le> 1024 \<longrightarrow>
       map_of (contents (pn_peerMap (pl_conn s))) = map_of (announced (ran_jobs ls)))"

lemma pl_step_ok:
  assumes "pl_step str json s l t" and "pl_ok ls s"
  shows "pl_ok (ls @ [l]) t"
  using assms(1)
proof cases
  case (pl_ran i locked now c acts evs)
  let ?j = "pl_pending s ! i"
  note j = run_job_meta [OF pl_ran(4)]
  have g: "mset (got_jobs ls) = mset (ran_jobs ls @ [?j] @ drop_nth i (pl_pending s))"
    using assms(2) mset_drop_nth [OF pl_ran(3)] by (simp add: pl_ok_def)
  have ok: "cache_ok (pn_peerMap (pl_conn s))" "cap_of (pn_peerMap (pl_conn s)) = 1024" using assms(2) by (simp_all add: pl_ok_def)
  then have ok': "cache_ok (pn_peerMap c)" "cap_of (pn_peerMap c) = 1024" using j by (auto simp: Put_ok cap_of_def split: option.splits)
  have "map_of (contents (pn_peerMap c)) = map_of (announced (ran_jobs ls @ [?j]))"
    if "distinct (map fst (announced (got_jobs ls)))" "length (announced (got_jobs ls)) \<le> 1024"
  proof (cases "announcement ?j")
    case None
    with j that assms(2) show ?thesis by (simp add: pl_ok_def)
  next
    case (Some x)
    obtain k m where x: "x = (k, m)" by fastforce
    let ?a = "announced (ran_jobs ls)"
    from announced_mset [OF g] have a: "mset (announced (got_jobs ls)) = mset (?a @ [(k, m)] @ announced (drop_nth i (pl_pending s)))"
      using Some x by simp
    then have "distinct (map fst (?a @ [(k, m)] @ announced (drop_nth i (pl_pending s))))"
      using that(1) by (metis mset_eq_imp_distinct_iff mset_map)
    then have k: "k \<notin> fst ` set ?a" by auto
    from a have "length (announced (got_jobs ls)) = length (?a @ [(k, m)] @ announced (drop_nth i (pl_pending s)))"
      by (rule mset_eq_length)
    with that(2) have len: "length ?a < 1024" by simp
    have m: "map_of (contents (pn_peerMap (pl_conn s))) = map_of ?a" using assms(2) that by (simp add: pl_ok_def)
    have "card (dom (map_of ?a)) \<le> length ?a" by (simp add: dom_map_of_conv_image_fst) (metis card_length length_map list.set_map)
    with len k ok m have "map_of (contents (Put (pn_peerMap (pl_conn s)) k m)) = (map_of ?a)(k \<mapsto> m)"
      by (subst Put_room) (simp_all add: dom_map_of_conv_image_fst)
    moreover have "map_of ?a k = None" using k by (simp add: map_of_eq_None_iff)
    then have "(map_of ?a)(k \<mapsto> m) = map_of (?a @ [(k, m)])" by (auto simp: map_add_def intro!: ext split: option.splits)
    ultimately show ?thesis using j Some x by simp
  qed
  with g ok' j assms(2) pl_ran show ?thesis by (simp add: pl_ok_def)
next
  case (pl_lookup i)
  with assms(2) show ?thesis by (simp add: pl_ok_def PeerMeta_keeps cap_of_def) (simp add: PeerMeta_def case_prod_unfold Let_def Get_ok)
qed (use assms(2) in \<open>auto simp: pl_ok_def p2p_Close_def\<close>)

lemma pl_run_ok:
  assumes "pl_run str json (pl_start c) ls s" and "cache_ok (pn_peerMap c)" and "cap_of (pn_peerMap c) = 1024" and "contents (pn_peerMap c) = []"
  shows "pl_ok ls s"
  using assms
proof (induction rule: pl_run.induct)
  case pl_nil
  then show ?case by (simp add: pl_ok_def pl_start_def)
next
  case (pl_snoc ls t l u)
  then show ?case using pl_step_ok by blast
qed

lemma pl_run_trans:
  assumes "pl_run str json t ls' u" and "pl_run str json s ls t"
  shows "pl_run str json s (ls @ ls') u"
  using assms
proof (induction rule: pl_run.induct)
  case (pl_snoc ls' t' l u)
  then show ?case using pl_run.pl_snoc [of str json s "ls @ ls'" t' l u] by simp
qed simp

lemma pl_run_Cons: "pl_step str json s l t \<Longrightarrow> pl_run str json t ls u \<Longrightarrow> pl_run str json s (l # ls) u"
  using pl_run_trans [of str json t ls u s "[l]"] pl_run.pl_snoc [OF pl_run.pl_nil, of str json s l t] by simp

text \<open>Two jobs that are handled in reverse order.\<close>
lemma reverse_run:
  assumes "\<And>i. a \<noteq> JLead i" and "\<And>i. b \<noteq> JLead i"
    and "run_job str json False 0 b c = (c1, ab, eb)" and "run_job str json False 0 a c1 = (c2, aa, ea)"
  shows "pl_run str json (pl_start c) [PGot a, PGot b, PRan b ab eb, PRan a aa ea] ((pl_start c)\<lparr>pl_conn := c2\<rparr>)"
proof -
  let ?s0 = "pl_start c" let ?s1 = "?s0\<lparr>pl_pending := [a]\<rparr>" let ?s2 = "?s0\<lparr>pl_pending := [a, b]\<rparr>"
  let ?s3 = "?s2\<lparr>pl_conn := c1, pl_pending := [a]\<rparr>" let ?s4 = "?s3\<lparr>pl_conn := c2, pl_pending := []\<rparr>"
  have 1: "pl_step str json ?s0 (PGot a) ?s1" "pl_step str json ?s1 (PGot b) ?s2"
    using pl_step.pl_got [of ?s0 a str json] pl_step.pl_got [of ?s1 b str json] assms(1,2) by (simp_all add: pl_start_def)
  have 2: "pl_step str json ?s2 (PRan b ab eb) ?s3"
    using pl_step.pl_ran [of 1 ?s2 str json False 0 c1 ab eb] assms(3) by (simp add: drop_nth_def pl_start_def)
  have 3: "pl_step str json ?s3 (PRan a aa ea) ?s4"
    using pl_step.pl_ran [of 0 ?s3 str json False 0 c2 aa ea] assms(4) by (simp add: drop_nth_def pl_start_def)
  from pl_run_Cons [OF 1(1) pl_run_Cons [OF 1(2) pl_run_Cons [OF 2 pl_run_Cons [OF 3 pl_run.pl_nil]]]]
  show ?thesis by (simp add: pl_start_def)
qed

section \<open>Properties\<close>

text \<open>C38. Whatever order the goroutines run in: every event is handled at most once, every callback for a peer stems from
  an event; and when all started goroutines have ended, the callbacks are exactly those of the announced peers and,
  for at most 1024 different peers, the metadata of every peer are those announced for it.\<close>
theorem announced_peers_complete:
  assumes "pl_run str json (pl_start c) ls s"
    and "cache_ok (pn_peerMap c)" and "cap_of (pn_peerMap c) = 1024" and "contents (pn_peerMap c) = []"
    and "distinct (map fst (announced (got_jobs ls)))" and "length (announced (got_jobs ls)) \<le> 1024"
  shows "mset (ran_jobs ls) \<subseteq># mset (got_jobs ls) \<and> mset (peers_up (callbacks ls)) \<subseteq># mset (announced (got_jobs ls)) \<and>
    (pl_pending s = [] \<longrightarrow> mset (peers_up (callbacks ls)) = mset (announced (got_jobs ls)) \<and>
       (\<forall>i. snd (PeerMeta i (pl_conn s)) = map_of (announced (got_jobs ls)) i))"
proof -
  have ok: "pl_ok ls s" by (rule pl_run_ok [OF assms(1-4)])
  then have g: "mset (got_jobs ls) = mset (ran_jobs ls @ pl_pending s)" by (simp add: pl_ok_def)
  from announced_mset [OF this] ok have a: "mset (announced (got_jobs ls)) = mset (peers_up (callbacks ls)) + mset (announced (pl_pending s))"
    by (simp add: pl_ok_def)
  have "snd (PeerMeta i (pl_conn s)) = map_of (announced (got_jobs ls)) i" if "pl_pending s = []" for i
  proof -
    have e: "mset (announced (ran_jobs ls)) = mset (announced (got_jobs ls))" using g that by (intro announced_mset) simp
    then have "distinct (map fst (announced (ran_jobs ls)))" using assms(5) by (metis mset_eq_imp_distinct_iff mset_map)
    with assms(5) mset_eq_setD [OF e] have "map_of (announced (ran_jobs ls)) = map_of (announced (got_jobs ls))"
      by (simp add: map_of_inject_set)
    with ok assms(5,6) show ?thesis by (simp add: pl_ok_def PeerMeta_value)
  qed
  with g a show ?thesis by simp
qed

definition demo_up :: "PeerID \<Rightarrow> string \<Rightarrow> p2p_job" where
  "demo_up i name = JEvent CONTROL_NEW_PEER (Some (WPeer CONTROL_NEW_PEER i [''name'' \<mapsto> [name]]))"

definition demo_fresh :: "unit PacketConn" where
  "demo_fresh = (demo_pn '''')\<lparr>pn_peerMap := the (New 1024)\<rparr>"

lemma demo_fresh_map: "cache_ok (pn_peerMap demo_fresh)" "cap_of (pn_peerMap demo_fresh) = 1024" "contents (pn_peerMap demo_fresh) = []"
  by (simp_all add: demo_fresh_def New_1024) (simp add: New_def cap_of_def)

theorem announced_peers_complete_witness:
  "\<exists>ls s. pl_run (\<lambda>_. '''') (\<lambda>_. []) (pl_start demo_fresh) ls s \<and> got_jobs ls = [demo_up [1] ''a'', demo_up [2] ''b''] \<and>
     ran_jobs ls = [demo_up [2] ''b'', demo_up [1] ''a''] \<and> snd (PeerMeta [1] (pl_conn s)) = Some [''name'' \<mapsto> [''a'']]"
proof -
  let ?a = "demo_up [1] ''a''" and ?b = "demo_up [2] ''b''"
  obtain c1 ab eb where b: "run_job (\<lambda>_. '''') (\<lambda>_. []) False 0 ?b demo_fresh = (c1, ab, eb)" by (metis prod_cases3)
  obtain c2 aa ea where a: "run_job (\<lambda>_. '''') (\<lambda>_. []) False 0 ?a c1 = (c2, aa, ea)" by (metis prod_cases3)
  have r: "pl_run (\<lambda>_. '''') (\<lambda>_. []) (pl_start demo_fresh) [PGot ?a, PGot ?b, PRan ?b ab eb, PRan ?a aa ea] ((pl_start demo_fresh)\<lparr>pl_conn := c2\<rparr>)"
    by (rule reverse_run [OF _ _ b a]) (simp_all add: demo_up_def)
  have g: "got_jobs [PGot ?a, PGot ?b, PRan ?b ab eb, PRan ?a aa ea] = [?a, ?b]" "ran_jobs [PGot ?a, PGot ?b, PRan ?b ab eb, PRan ?a aa ea] = [?b, ?a]"
    by (simp_all add: got_jobs_def ran_jobs_def List.map_filter_def)
  have an: "announced [?a, ?b] = [([1], [''name'' \<mapsto> [''a'']]), ([2], [''name'' \<mapsto> [''b'']])]"
    by (simp add: announcement_def demo_up_def)
  from announced_peers_complete [OF r demo_fresh_map, unfolded g an] have "snd (PeerMeta [1] c2) = Some [''name'' \<mapsto> [''a'']]"
    by (simp add: pl_start_def)
  with r g show ?thesis by fastforce
qed

text \<open>Events of the same peer can be handled out of order: after an announcement followed by new metadata, the old
  metadata can be the ones that stay and are reported last; after an announcement followed by the leaving of the
  peer, the peer can be reported as up last.\<close>
theorem events_overtake:
  assumes "cache_ok (pn_peerMap c)" and "e1 = JEvent CONTROL_NEW_PEER (Some (WPeer CONTROL_NEW_PEER i m1))"
    and "e2 = JEvent CONTROL_UPDATE_META (Some (WPeer CONTROL_UPDATE_META i m2))" and "e3 = JEvent CONTROL_PEER_LEAVE (Some (WLeave i))"
  shows "(\<exists>ls s. pl_run str json (pl_start c) ls s \<and> got_jobs ls = [e1, e2] \<and> pl_pending s = [] \<and>
      snd (PeerMeta i (pl_conn s)) = Some m1 \<and> callbacks ls = [OnPeer i m2, AnnounceTo i, OnPeer i m1]) \<and>
    (\<exists>ls s. pl_run str json (pl_start c) ls s \<and> got_jobs ls = [e1, e3] \<and> pl_pending s = [] \<and>
      callbacks ls = [OnPeerLeave i, AnnounceTo i, OnPeer i m1])"
proof (intro conjI)
  let ?c2 = "c\<lparr>pn_peerMap := Put (pn_peerMap c) i m2\<rparr>" let ?c1 = "\<lambda>c. c\<lparr>pn_peerMap := Put (pn_peerMap c) i m1\<rparr>"
  have j: "run_job str json False 0 e1 d = (?c1 d, [AnnounceTo i, OnPeer i m1], [])" "run_job str json False 0 e2 c = (?c2, [OnPeer i m2], [])"
    "run_job str json False 0 e3 c = (c, [OnPeerLeave i], [])" for d
    by (simp_all add: assms(2-4) run_job_def handleEvent_def control_codes)
  have p: "snd (PeerMeta i (?c1 ?c2)) = Some m1" using lru.get_put_same [of "Put (pn_peerMap c) i m2" i m1] assms(1)
    by (simp add: PeerMeta_def case_prod_unfold Let_def Put_ok)
  have "pl_run str json (pl_start c) [PGot e1, PGot e2, PRan e2 [OnPeer i m2] [], PRan e1 [AnnounceTo i, OnPeer i m1] []]
      ((pl_start c)\<lparr>pl_conn := ?c1 ?c2\<rparr>)"
    by (rule reverse_run [OF _ _ j(2,1)]) (simp_all add: assms(2,3))
  then show "\<exists>ls s. pl_run str json (pl_start c) ls s \<and> got_jobs ls = [e1, e2] \<and> pl_pending s = [] \<and>
      snd (PeerMeta i (pl_conn s)) = Some m1 \<and> callbacks ls = [OnPeer i m2, AnnounceTo i, OnPeer i m1]"
    using p by (intro exI conjI) (auto simp: pl_start_def got_jobs_def callbacks_def List.map_filter_def)
  have "pl_run str json (pl_start c) [PGot e1, PGot e3, PRan e3 [OnPeerLeave i] [], PRan e1 [AnnounceTo i, OnPeer i m1] []]
      ((pl_start c)\<lparr>pl_conn := ?c1 c\<rparr>)"
    by (rule reverse_run [OF _ _ j(3,1)]) (simp_all add: assms(2,4))
  then show "\<exists>ls s. pl_run str json (pl_start c) ls s \<and> got_jobs ls = [e1, e3] \<and> pl_pending s = [] \<and>
      callbacks ls = [OnPeerLeave i, AnnounceTo i, OnPeer i m1]"
    by (intro exI conjI) (auto simp: pl_start_def got_jobs_def callbacks_def List.map_filter_def)
qed

theorem events_overtake_witness:
  "\<exists>ls s. pl_run (\<lambda>_. '''') (\<lambda>_. []) (pl_start demo_fresh) ls s \<and> pl_pending s = [] \<and> callbacks ls = [OnPeer [2] Map.empty, AnnounceTo [2], OnPeer [2] demo_meta]"
  using events_overtake [OF demo_fresh_map(1) refl refl refl, of "\<lambda>_. ''''" "\<lambda>_. []" "[2]" demo_meta Map.empty] by blast

end
