(* ===== verification/Ws_Life.thy ===== *)
theory Ws_Life
  imports Ws
begin

text \<open>
  The life of the connection to the map server (\<open>disco/ws/ws.go\<close>): closing, restarting, the detector of
  a dead connection, the loop that reads and reconnects, and the STUN servers of the response. The
  goroutines are the steps of a relation. \<^const>\<open>None\<close> is a panic: a second \<open>Close\<close>, or a send on a
  channel that \<open>Close\<close> has closed.
\<close>

section \<open>STUN servers\<close>

datatype ws_stun_error = BadBase64 | BadStunJSON

text \<open>\<open>unjson\<close> gives the list that the decoder leaves and whether it failed.\<close>
definition configureSTUNs :: "(string \<Rightarrow> bytes option) \<Rightarrow> (bytes \<Rightarrow> string list \<Rightarrow> string list \<times> bool) \<Rightarrow> string \<Rightarrow> string list \<Rightarrow> string list \<times> ws_stun_error option" where
  "configureSTUNs unb64 unjson stunsArg stuns =
     (if stunsArg = '''' then (stuns, None)
      else case unb64 stunsArg of
             None \<Rightarrow> (stuns, Some BadBase64)
           | Some xSTUNs \<Rightarrow> (case unjson xSTUNs stuns of (s, ok) \<Rightarrow> (s, if ok then None else Some BadStunJSON)))"

section \<open>State\<close>

text \<open>The loop is in \<open>ReadMessage\<close>, at the top of the retries with a delay, asleep for a delay, or ended.
  \<open>wl_open\<close>: the socket that \<open>rawConn\<close> points to is open.\<close>
datatype loop_stage = LReading | LRetry int | LAsleep int | LEnded

record ws_life =
  wl_conn :: WSConn
  wl_open :: bool
  wl_stage :: loop_stage

text \<open>\<open>Dial\<close>: the loop starts when the first dial succeeds.\<close>
definition ws_Dial :: "(string \<Rightarrow> int option) \<Rightarrow> (string \<Rightarrow> ws_response) \<Rightarrow> int \<Rightarrow> string \<Rightarrow> PeerID \<Rightarrow> (ws_error + ws_life) option" where
  "ws_Dial parse net now server peerID =
     map_option (\<lambda>(c, e). case e of Some err \<Rightarrow> Inl err | None \<Rightarrow> Inr \<lparr>wl_conn = c, wl_open = True, wl_stage = LReading\<rparr>)
       (dial parse net now server \<lparr>ws_peerID = peerID, ws_nonce = 0, ws_raw = False, ws_closed = False, ws_connData = [],
          ws_connBuf = None, ws_active = 0, ws_limiter = None, ws_streamLimiter = None, ws_controllers = (\<lambda>_. [])\<rparr>)"

definition ws_Close :: "ws_life \<Rightarrow> ws_life option" where
  "ws_Close s =
     (if ws_closed (wl_conn s) then None
      else Some (s\<lparr>wl_conn := (wl_conn s)\<lparr>ws_closed := True\<rparr>, wl_open := False\<rparr>))"

text \<open>The second result: a waiting \<open>Read\<close> is told the end of the stream.\<close>
definition ws_RestartListener :: "bool \<Rightarrow> ws_life \<Rightarrow> ws_life \<times> bool" where
  "ws_RestartListener reader_waits s =
     (if ws_closed (wl_conn s) then (s, False) else (s\<lparr>wl_open := False\<rparr>, reader_waits))"

text \<open>A turn of \<open>runConnAliveDetector\<close> after its sleep; \<open>sec\<close> is the time in seconds.\<close>
definition ConnAlive :: "int \<Rightarrow> bool \<Rightarrow> ws_life \<Rightarrow> ws_life" where
  "ConnAlive sec reader_waits s =
     (if 25 < sec - ws_active (wl_conn s) then fst (ws_RestartListener reader_waits s) else s)"

definition writeWS :: "bool \<Rightarrow> bytes \<Rightarrow> ws_life \<Rightarrow> ws_error + bytes" where
  "writeWS raw data s = (if ws_raw (wl_conn s) then (if raw then Inr data else Inl WsClosed) else Inl WsClosed)"

section \<open>The reading loop\<close>

text \<open>A message that is sent on to a channel: nothing may be sent after \<open>Close\<close>. \<open>recv\<close> is \<open>ws_recv\<close> with
  its parsers.\<close>
definition loop_message :: "(gslice \<Rightarrow> WSConn \<Rightarrow> (WSConn \<times> ws_event list) option) \<Rightarrow> gslice \<Rightarrow> ws_life \<Rightarrow> (ws_life \<times> ws_event list) option" where
  "loop_message recv b s =
     (case recv b (wl_conn s) of
        None \<Rightarrow> None
      | Some (c, ev) \<Rightarrow>
          if ws_closed c \<and> (ws_connData c \<noteq> ws_connData (wl_conn s) \<or> list_ex (\<lambda>e. case e of WControl _ _ \<Rightarrow> False | WSecret _ \<Rightarrow> False | _ \<Rightarrow> True) ev)
          then None
          else Some (s\<lparr>wl_conn := c, wl_stage := (if ws_closed c then LEnded else LReading)\<rparr>, ev))"

text \<open>\<open>ReadMessage\<close> fails: \<open>handleError\<close> restarts and enters the retries.\<close>
definition loop_error :: "bool \<Rightarrow> ws_life \<Rightarrow> ws_life" where
  "loop_error reader_waits s =
     (let s1 = fst (ws_RestartListener reader_waits s) in
      s1\<lparr>wl_stage := (if ws_closed (wl_conn s1) then LEnded else LRetry retry_init)\<rparr>)"

definition loop_retry :: "int \<Rightarrow> ws_life \<Rightarrow> ws_life" where
  "loop_retry d s = s\<lparr>wl_stage := (if ws_closed (wl_conn s) then LEnded else LAsleep d)\<rparr>"

text \<open>The dial after the sleep. The event of a connection is sent as soon as the server has accepted, even
  when the headers turn out wrong.\<close>
definition loop_dialed :: "int \<Rightarrow> WSConn \<times> ws_error option \<Rightarrow> ws_life \<Rightarrow> ws_life option" where
  "loop_dialed d r s =
     (case r of
        (c, Some err) \<Rightarrow>
          if err = BadLimit \<and> ws_closed (wl_conn s) then None
          else Some (s\<lparr>wl_conn := c, wl_stage := LRetry (retry_next d)\<rparr>)
      | (c, None) \<Rightarrow>
          if ws_closed (wl_conn s) then None
          else Some (s\<lparr>wl_conn := c, wl_open := True, wl_stage := LReading\<rparr>))"

text \<open>The steps; \<open>dials d s r\<close> tells that dialing from \<open>s\<close> may give \<open>r\<close>.\<close>
inductive life_step :: "(gslice \<Rightarrow> WSConn \<Rightarrow> (WSConn \<times> ws_event list) option) \<Rightarrow> (WSConn \<Rightarrow> WSConn \<times> ws_error option \<Rightarrow> bool) \<Rightarrow> ws_life \<Rightarrow> ws_life option \<Rightarrow> bool" for recv dials where
  Life_message: "wl_stage s = LReading \<Longrightarrow> life_step recv dials s (map_option fst (loop_message recv b s))"
| Life_error: "wl_stage s = LReading \<Longrightarrow> life_step recv dials s (Some (loop_error w s))"
| Life_retry: "wl_stage s = LRetry d \<Longrightarrow> life_step recv dials s (Some (loop_retry d s))"
| Life_dial: "wl_stage s = LAsleep d \<Longrightarrow> dials (wl_conn s) r \<Longrightarrow> life_step recv dials s (loop_dialed d r s)"
| Life_alive: "life_step recv dials s (Some (ConnAlive sec w s))"
| Life_close: "life_step recv dials s (ws_Close s)"

text \<open>The retries alone, on the results of the dials: the number of dials, the time slept, and the
  connection when a dial succeeds.\<close>
fun retry_loop :: "(WSConn \<Rightarrow> WSConn \<times> ws_error option) list \<Rightarrow> int \<Rightarrow> WSConn \<Rightarrow> nat \<times> int \<times> WSConn option" where
  "retry_loop [] d c = (0, 0, None)"
| "retry_loop (r # rs) d c =
     (case r c of
        (c', None) \<Rightarrow> (1, retry_sleep d, Some c')
      | (c', Some err) \<Rightarrow> (let (n, t, res) = retry_loop rs (retry_next d) c' in (Suc n, retry_sleep d + t, res)))"

section \<open>Lemmas\<close>

lemma retry_loop_time: "retry_init \<le> d \<Longrightarrow> retry_loop rs d c = (n, t, res) \<Longrightarrow>
    retry_init * int n \<le> t \<and> t \<le> 5000000000 * int n \<and> n \<le> length rs"
proof (induction rs arbitrary: d c n t res)
  case (Cons r rs)
  note b = retry_bounds [OF Cons.prems(1)]
  show ?case
  proof (cases "snd (r c)")
    case None
    with Cons.prems(2) b show ?thesis by (cases "r c") auto
  next
    case (Some err)
    obtain m u q where m: "retry_loop rs (retry_next d) (fst (r c)) = (m, u, q)" by (cases "retry_loop rs (retry_next d) (fst (r c))") auto
    with Cons.prems(2) Some have "n = Suc m" "t = retry_sleep d + u" by (cases "r c"; auto)+
    with Cons.IH [OF conjunct1 [OF b] m] b show ?thesis by (auto simp: distrib_left)
  qed
qed simp

lemma retry_loop_success:
  "retry_loop rs d c = (n, t, res) \<Longrightarrow> (\<forall>i < k. \<forall>c. snd ((rs ! i) c) \<noteq> None) \<Longrightarrow> k < length rs \<Longrightarrow> (\<forall>c. snd ((rs ! k) c) = None) \<Longrightarrow>
    n = Suc k \<and> res \<noteq> None"
proof (induction rs arbitrary: d c n t k res)
  case (Cons r rs)
  show ?case
  proof (cases k)
    case 0
    with Cons.prems have "snd (r c) = None" by simp
    with Cons.prems(1) 0 show ?thesis by (cases "r c") auto
  next
    case (Suc j)
    with Cons.prems(2) have "snd (r c) \<noteq> None" by force
    then obtain err where e: "snd (r c) = Some err" by auto
    obtain m u q where m: "retry_loop rs (retry_next d) (fst (r c)) = (m, u, q)" by (cases "retry_loop rs (retry_next d) (fst (r c))") auto
    with Cons.prems(1) e have "n = Suc m" "res = q" by (cases "r c"; auto)+
    moreover have "\<forall>i < j. \<forall>c. snd ((rs ! i) c) \<noteq> None" using Cons.prems(2) Suc by (metis Suc_less_eq nth_Cons_Suc)
    ultimately show ?thesis using Cons.IH [OF m, of j] Cons.prems(3,4) Suc by simp
  qed
qed simp

text \<open>A connection that is closed stays closed, and its socket too.\<close>
definition life_ok :: "ws_life \<Rightarrow> bool" where
  "life_ok s \<longleftrightarrow> (ws_closed (wl_conn s) \<longrightarrow> \<not> wl_open s) \<and> (wl_open s \<longrightarrow> ws_raw (wl_conn s)) \<and>
     (case wl_stage s of LRetry d \<Rightarrow> retry_init \<le> d | LAsleep d \<Rightarrow> retry_init \<le> d | _ \<Rightarrow> True) \<and>
     (wl_stage s = LEnded \<longrightarrow> ws_closed (wl_conn s))"

lemma life_step_ok:
  assumes "life_step recv dials s (Some s')" and "life_ok s"
    and "\<And>b c c' ev. recv b c = Some (c', ev) \<Longrightarrow> ws_closed c' = ws_closed c \<and> ws_raw c' = ws_raw c"
    and "\<And>c c' e. dials c (c', e) \<Longrightarrow> ws_closed c' = ws_closed c \<and> ws_raw c' = (ws_raw c \<or> e = None)"
  shows "life_ok s' \<and> (ws_closed (wl_conn s) \<longrightarrow> ws_closed (wl_conn s'))"
proof -
  have r: "retry_init \<le> retry_next d" if "retry_init \<le> d" for d using retry_bounds [OF that] by simp
  from assms(1) show ?thesis
  proof (cases rule: life_step.cases)
    case (Life_message b)
    then show ?thesis using assms(2,3) by (auto simp: loop_message_def life_ok_def split: option.splits if_splits)
  next
    case (Life_error w)
    then show ?thesis using assms(2) by (auto simp: loop_error_def ws_RestartListener_def life_ok_def Let_def)
  next
    case (Life_retry d)
    then show ?thesis using assms(2) by (auto simp: loop_retry_def life_ok_def)
  next
    case (Life_dial d r)
    obtain c e where "r = (c, e)" by fastforce
    with Life_dial assms(2) assms(4) [of "wl_conn s" c e] r [of d] show ?thesis
      by (auto simp: loop_dialed_def life_ok_def split: option.splits if_splits)
  next
    case (Life_alive sec w)
    then show ?thesis using assms(2) by (auto simp: ConnAlive_def ws_RestartListener_def life_ok_def)
  next
    case Life_close
    then show ?thesis using assms(2) by (auto simp: ws_Close_def life_ok_def split: if_splits)
  qed
qed

section \<open>Properties\<close>

text \<open>Reconnecting: when the first \<open>k\<close> dials fail and the next one succeeds, the loop has a connection after
  exactly \<open>k + 1\<close> dials; it never sleeps less than 200 milliseconds or more than five seconds before a
  dial, however long the outage, although the delay is doubled each time in 64 bits.\<close>
theorem ws_reconnects:
  assumes "k < length rs" and "\<forall>i < k. \<forall>c. snd ((rs ! i) c) \<noteq> None" and "\<forall>c. snd ((rs ! k) c) = None"
    and "retry_loop rs retry_init c = (n, t, res)"
  shows "n = Suc k \<and> res \<noteq> None \<and> 200000000 * int n \<le> t \<and> t \<le> 5000000000 * int n"
  using retry_loop_success [OF assms(4,2,1,3)] retry_loop_time [OF _ assms(4)] by (simp add: retry_init_def)

definition demo_ws :: WSConn where
  "demo_ws = \<lparr>ws_peerID = [1], ws_nonce = 0, ws_raw = True, ws_closed = False, ws_connData = [], ws_connBuf = None,
     ws_active = 0, ws_limiter = None, ws_streamLimiter = None, ws_controllers = (\<lambda>_. [])\<rparr>"

theorem ws_reconnects_witness:
  "retry_loop (replicate 6 (\<lambda>c. (c, Some DialError)) @ [\<lambda>c. (c, None)]) retry_init demo_ws = (7, 16200000000, Some demo_ws) \<and>
   200000000 * 7 \<le> (16200000000 :: int) \<and> (16200000000 :: int) \<le> 5000000000 * 7"
proof -
  let ?rs = "replicate 6 (\<lambda>c. (c, Some DialError)) @ [\<lambda>c :: WSConn. (c, None)]"
  have e: "retry_loop ?rs retry_init demo_ws = (7, 16200000000, Some demo_ws)"
    by (simp add: numeral_eq_Suc retry_init_def retry_next_def retry_sleep_def) (simp add: numeral_eq_Suc [symmetric])?
  have "6 < length ?rs" "\<forall>i < 6. \<forall>c. snd ((?rs ! i) c) \<noteq> None" "\<forall>c. snd ((?rs ! 6) c) = None" by (simp_all add: nth_append)
  from ws_reconnects [OF this e] e show ?thesis by simp
qed

text \<open>Closing during an outage is fatal: from every state in which the loop reads an open connection, the
  connection can fail, be closed while the loop sleeps before it dials, and then the first dial that
  succeeds ends the process, as does a second \<open>Close\<close>.\<close>
theorem ws_close_in_outage_panics:
  assumes "wl_stage s = LReading" and "\<not> ws_closed (wl_conn s)" and "\<And>c. \<exists>c'. dials c (c', None)"
  shows "\<exists>s'. (\<lambda>a b. life_step recv dials a (Some b))\<^sup>*\<^sup>* s s' \<and> ws_closed (wl_conn s') \<and>
    life_step recv dials s' None \<and> ws_Close s' = None"
proof -
  let ?r = "\<lambda>a b. life_step recv dials a (Some b)"
  let ?e = "loop_error False s"
  have e: "wl_stage ?e = LRetry retry_init" "\<not> ws_closed (wl_conn ?e)"
    using assms(2) by (simp_all add: loop_error_def ws_RestartListener_def)
  let ?a = "loop_retry retry_init ?e"
  have a: "wl_stage ?a = LAsleep retry_init" "\<not> ws_closed (wl_conn ?a)" using e by (simp_all add: loop_retry_def)
  then obtain z where z: "ws_Close ?a = Some z" "wl_stage z = LAsleep retry_init" "ws_closed (wl_conn z)"
    by (simp add: ws_Close_def)
  have steps: "?r s ?e" "?r ?e ?a" by (rule Life_error [OF assms(1)], rule Life_retry [OF e(1)])
  have "?r ?a z" using Life_close [of recv dials ?a] z(1) by simp
  with steps have "?r\<^sup>*\<^sup>* s z" by (meson converse_rtranclp_into_rtranclp rtranclp.rtrancl_refl)
  moreover obtain c where "dials (wl_conn z) (c, None)" using assms(3) by blast
  then have "life_step recv dials z (loop_dialed retry_init (c, None) z)" by (rule Life_dial [OF z(2)])
  then have "life_step recv dials z None" using z(3) by (simp add: loop_dialed_def)
  moreover have "ws_Close z = None" using z(3) by (simp add: ws_Close_def)
  ultimately show ?thesis using z(3) by blast
qed

theorem ws_close_in_outage_panics_witness:
  "\<exists>s'. (\<lambda>a b. life_step (\<lambda>_ _. None) (\<lambda>c r. r = (c, None)) a (Some b))\<^sup>*\<^sup>* \<lparr>wl_conn = demo_ws, wl_open = True, wl_stage = LReading\<rparr> s' \<and>
     ws_Close s' = None"
  using ws_close_in_outage_panics [of "\<lparr>wl_conn = demo_ws, wl_open = True, wl_stage = LReading\<rparr>" "\<lambda>c r. r = (c, None)" "\<lambda>_ _. None"]
  by (auto simp: demo_ws_def)

section \<open>Redirects\<close>

text \<open>The server that the \<open>n\<close>-th redirect leads to.\<close>
fun redirected :: "(string \<Rightarrow> ws_response) \<Rightarrow> nat \<Rightarrow> string \<Rightarrow> string" where
  "redirected net 0 server = server"
| "redirected net (Suc n) server = redirected net n (r_location (net server))"

lemma dial_stops: "r_status (net server) \<noteq> 307 \<Longrightarrow> dial parse net now server c \<noteq> None"
  by (subst dial.simps) (simp add: Let_def split: prod.splits option.splits)

lemma dial_returned:
  "dial parse net now server c = Some r \<Longrightarrow> \<exists>n. r_status (net (redirected net n server)) \<noteq> 307"
proof (erule dial.raw_induct [rotated, where P = "\<lambda>_ n _ s _ _. \<exists>k. r_status (n (redirected n k s)) \<noteq> 307"])
  fix d :: "(string \<Rightarrow> int option) \<Rightarrow> (string \<Rightarrow> ws_response) \<Rightarrow> int \<Rightarrow> string \<Rightarrow> WSConn \<Rightarrow> (WSConn \<times> ws_error option) option"
    and parse net now server c r
  assume IH: "\<And>parse net now server c r. d parse net now server c = Some r \<Longrightarrow> \<exists>k. r_status (net (redirected net k server)) \<noteq> 307"
    and eq: "(let r = net server in
      if r_status r = 400 then Some (c, Some AlreadyInUse)
      else if r_status r = 404 then Some (c, Some NotFound)
      else if r_status r = 403 then Some (c, Some Forbidden)
      else if r_status r = 307 then d parse net now (r_location r) c
      else if r_err r then Some (c, Some DialError)
      else case configureRatelimiter parse (r_limits r) c of
             (c1, Some e) \<Rightarrow> Some (c1, Some e)
           | (c1, None) \<Rightarrow> Some (c1\<lparr>ws_raw := True, ws_nonce := r_nonce r, ws_active := now\<rparr>, None)) = Some r"
  show "\<exists>k. r_status (net (redirected net k server)) \<noteq> 307"
  proof (cases "r_status (net server) = 307")
    case True
    with eq have "d parse net now (r_location (net server)) c = Some r" by (simp add: Let_def)
    from IH [OF this] obtain k where "r_status (net (redirected net k (r_location (net server)))) \<noteq> 307" by blast
    then show ?thesis by (intro exI [of _ "Suc k"]) simp
  next
    case False
    then show ?thesis by (intro exI [of _ 0]) simp
  qed
qed

text \<open>Dialling returns exactly when the redirects end: nothing bounds their number, and a server that redirects
  to itself keeps the client dialling for as long as its context lasts.\<close>
theorem dial_returns_iff:
  "(dial parse net now server c \<noteq> None) = (\<exists>n. r_status (net (redirected net n server)) \<noteq> 307)"
proof
  assume "dial parse net now server c \<noteq> None"
  then show "\<exists>n. r_status (net (redirected net n server)) \<noteq> 307" using dial_returned by blast
next
  assume "\<exists>n. r_status (net (redirected net n server)) \<noteq> 307"
  then obtain n where "r_status (net (redirected net n server)) \<noteq> 307" by blast
  then show "dial parse net now server c \<noteq> None"
  proof (induction n arbitrary: server)
    case 0
    then show ?case using dial_stops by simp
  next
    case (Suc n)
    show ?case
    proof (cases "r_status (net server) = 307")
      case True
      with Suc.IH [of "r_location (net server)"] Suc.prems show ?thesis by (subst dial.simps) (simp add: Let_def)
    qed (rule dial_stops)
  qed
qed

end
