(* ===== verification/Rdt_Protocol.thy ===== *)
theory Rdt_Protocol
  imports Rdt "HOL-Library.Sublist"
begin

text \<open>
  The reliable data transfer protocol as a system of two connections (\<open>rdt/rdt.go\<close>) and a
  network that loses, duplicates, delays and reorders packets. The steps are the handlers and loop
  bodies of \<open>Rdt\<close>; \<open>sys_reach\<close> are the states of the data phase, before either side closes.
  The invariant \<open>sys_inv\<close> relates a sender's history to its send pool, to the receiver's pool and
  to every acknowledgement queued or in flight, and gives in-order, exactly-once delivery.
\<close>

section \<open>Messages\<close>

text \<open>The frames of the data phase.\<close>
datatype msg = MData u32 bytes | MQuery u32 | MNck u32 "u32 list"

fun enc :: "bool \<Rightarrow> msg \<Rightarrow> bytes" where
  "enc srv (MData no d) = mark_dir srv (buildFrame 0 no (of_nat (length d)) d)"
| "enc srv (MQuery no) = mark_dir srv (buildFrame 1 no 0 [])"
| "enc srv (MNck no xs) = mark_dir srv (buildFrame 2 no (of_nat (length xs) * 4) (concat (map put_u32be xs)))"

fun recv_msg :: "rdtConn \<Rightarrow> msg \<Rightarrow> (rdtConn \<times> bytes list) option" where
  "recv_msg c (MData no d) = recvData c no d"
| "recv_msg c (MQuery no) = recvQuery c no"
| "recv_msg c (MNck no xs) = recvNCK c no xs"

fun msg_size :: "msg \<Rightarrow> nat" where
  "msg_size (MData no d) = length d"
| "msg_size (MQuery no) = 0"
| "msg_size (MNck no xs) = 4 * length xs"

lemma length_concat_put [simp]: "length (concat (map put_u32be xs)) = 4 * length xs"
  by (induction xs) simp_all

lemma length_enc: "length (enc srv m) = 7 + msg_size m"
  by (cases m) simp_all

text \<open>The packet handler on an encoded message runs the handler of that message.\<close>
lemma recv_enc:
  assumes "msg_size m \<le> 1493"
  shows "recv c n (GSlice (take 1500 (strip_dir (enc srv m))) sp) = recv_msg c m"
proof -
  have len: "length (enc srv m) \<le> 1500" using assms by (simp add: length_enc)
  show ?thesis
  proof (cases m)
    case (MData no d)
    with assms show ?thesis
      by (simp add: strip_mark_frame recv_def frame_data_build)
  next
    case (MQuery no)
    then show ?thesis by (simp add: strip_mark_frame recv_def)
  next
    case (MNck no xs)
    with assms have "4 * length xs \<le> 1493" by simp
    then have "unat ((of_nat (length xs) * 4 :: u16) div 4) = length xs"
      by (simp add: unat_div unat_word_ariths unat_of_nat)
    with MNck assms show ?thesis
      by (simp add: strip_mark_frame recv_def read_missing_build)
  qed
qed

section \<open>The system\<close>

text \<open>
  Party \<open>True\<close> and party \<open>False\<close>. \<open>net s p\<close> are the packets party \<open>p\<close> has handed to the
  network; a delivery may pick any of them any number of times. \<open>app\<close> records the bytes that
  calls of \<open>Write\<close> accepted, \<open>wr\<close> the frames sent, \<open>rd\<close> the bytes that \<open>Read\<close> returned.
\<close>
record sys =
  ep :: "bool \<Rightarrow> rdtConn"
  net :: "bool \<Rightarrow> bytes set"
  app :: "bool \<Rightarrow> bytes"
  wr :: "bool \<Rightarrow> bytes list"
  rd :: "bool \<Rightarrow> bytes"

text \<open>Party \<open>p\<close> moves to \<open>c\<close> and sends \<open>out\<close>; \<open>a\<close>, \<open>e\<close> and \<open>r\<close> extend its histories.\<close>
definition upd :: "bool \<Rightarrow> rdtConn \<Rightarrow> bytes list \<Rightarrow> bytes \<Rightarrow> bytes list \<Rightarrow> bytes \<Rightarrow> sys \<Rightarrow> sys" where
  "upd p c out a e r s =
     \<lparr>ep = (ep s)(p := c), net = (net s)(p := net s p \<union> set out),
      app = (app s)(p := app s p @ a), wr = (wr s)(p := wr s p @ e), rd = (rd s)(p := rd s p @ r)\<rparr>"

lemma upd_sel [simp]:
  "ep (upd p c out a e r s) q = (if q = p then c else ep s q)"
  "net (upd p c out a e r s) q = (if q = p then net s q \<union> set out else net s q)"
  "app (upd p c out a e r s) q = (if q = p then app s q @ a else app s q)"
  "wr (upd p c out a e r s) q = (if q = p then wr s q @ e else wr s q)"
  "rd (upd p c out a e r s) q = (if q = p then rd s q @ r else rd s q)"
  by (simp_all add: upd_def)

definition sys_init :: "rdt_config \<Rightarrow> rdt_config \<Rightarrow> sys" where
  "sys_init cfg cfg' =
     \<lparr>ep = (\<lambda>p. if p then (newConn cfg)\<lparr>is_server := True\<rparr> else newConn cfg'),
      net = (\<lambda>_. {}), app = (\<lambda>_. []), wr = (\<lambda>_. []), rd = (\<lambda>_. [])\<rparr>"

inductive sys_step :: "sys \<Rightarrow> sys \<Rightarrow> bool" where
  st_call: "w_pend (ep s p) = [] \<Longrightarrow> write_call (ep s p) b = Inr c \<Longrightarrow>
     sys_step s (upd p c [] b [] [] s)"
| st_write: "w_pend (ep s p) = d # ds \<Longrightarrow> write_step (ep s p) = Some (c, out) \<Longrightarrow>
     sys_step s (upd p c out [] (if out = [] then [] else [d]) [] s)"
| st_recv: "pkt \<in> net s (\<not> p) \<Longrightarrow> 7 \<le> length pkt \<Longrightarrow>
     recv (ep s p) n (GSlice (take 1500 (strip_dir pkt)) sp) = Some (c, out) \<Longrightarrow>
     sys_step s (upd p c out [] [] [] s)"
| st_nck: "nckLoop (ep s p) = Some (c, out) \<Longrightarrow> sys_step s (upd p c out [] [] [] s)"
| st_query: "nckQueryLoop (ep s p) = Some (c, out) \<Longrightarrow> sys_step s (upd p c out [] [] [] s)"
| st_check: "checkLoop (ep s p) = Some out \<Longrightarrow> sys_step s (upd p (ep s p) out [] [] [] s)"
| st_read: "Read (ep s p) n sel = Some (c, Inr b) \<Longrightarrow> sys_step s (upd p c [] [] [] b s)"

inductive sys_reach :: "sys \<Rightarrow> bool" where
  reach_init: "11 \<le> MTU cfg \<Longrightarrow> MTU cfg \<le> 1500 \<Longrightarrow> 11 \<le> MTU cfg' \<Longrightarrow> MTU cfg' \<le> 1500 \<Longrightarrow>
     sys_reach (sys_init cfg cfg')"
| reach_step: "sys_reach s \<Longrightarrow> sys_step s s' \<Longrightarrow> sys_reach s'"

section \<open>The invariant\<close>

definition received :: "rdtConn \<Rightarrow> u32 \<Rightarrow> bool" where
  "received c k \<longleftrightarrow> k \<le> recvNO c \<or> recvPool c k \<noteq> None"

definition frame_no :: "bytes list \<Rightarrow> u32 \<Rightarrow> bytes" where
  "frame_no w k = w ! (unat k - 1)"

definition nck_sound :: "rdtConn \<Rightarrow> bytes list \<Rightarrow> u32 \<Rightarrow> u32 list \<Rightarrow> bool" where
  "nck_sound b w no xs \<longleftrightarrow> unat no \<le> length w \<and> (\<forall>k. 0 < k \<and> k \<le> no \<and> k \<notin> set xs \<longrightarrow> received b k)"

definition sender_inv :: "rdtConn \<Rightarrow> bytes list \<Rightarrow> bytes \<Rightarrow> bool" where
  "sender_inv a w ap \<longleftrightarrow>
     unat (sentNO a) = length w \<and>
     (\<forall>k p. sendPool a k = Some p \<longrightarrow>
        0 < k \<and> k \<le> sentNO a \<and> p = enc (is_server a) (MData k (frame_no w k))) \<and>
     card (dom (sendPool a)) \<le> unat (window a) \<and>
     (\<forall>d\<in>set (w @ w_pend a). length d \<le> nat (frameSize a)) \<and>
     concat (w @ w_pend a) = ap"

definition in_hand :: "rdtConn \<Rightarrow> bytes" where
  "in_hand c = (case inboundBuf c of None \<Rightarrow> [] | Some x \<Rightarrow> x) @ concat (inbound c)"

definition receiver_inv :: "rdtConn \<Rightarrow> bytes list \<Rightarrow> bytes \<Rightarrow> bool" where
  "receiver_inv b w r \<longleftrightarrow>
     unat (recvNO b) \<le> length w \<and>
     (\<forall>k d. recvPool b k = Some d \<longrightarrow> 0 < k \<and> unat k \<le> length w \<and> d = frame_no w k) \<and>
     (\<forall>k. recvPool b k \<noteq> None \<longrightarrow> unat k \<le> unat (recvNO b) + 2 * unat (window b)) \<and>
     (\<forall>q\<in>set (nckQuery b). unat q \<le> length w) \<and>
     r @ in_hand b = concat (take (unat (recvNO b)) w)"

definition drained :: "rdtConn \<Rightarrow> bool" where
  "drained b \<longleftrightarrow> recvPool b (recvNO b + 1) = None"

definition link_inv :: "rdtConn \<Rightarrow> rdtConn \<Rightarrow> bytes list \<Rightarrow> bool" where
  "link_inv a b w \<longleftrightarrow>
     (\<forall>k. 0 < k \<and> k \<le> sentNO a \<and> \<not> received b k \<longrightarrow> sendPool a k \<noteq> None) \<and>
     (\<forall>n\<in>set (nckCh a). nck_sound b w (nck_no n) (nck_missing n)) \<and>
     ackNO a \<le> recvNO b"

text \<open>A message party \<open>c\<close> may have sent: \<open>w\<close> are its own frames, \<open>w'\<close> those of its peer.\<close>
fun msg_ok :: "rdtConn \<Rightarrow> bytes list \<Rightarrow> bytes list \<Rightarrow> msg \<Rightarrow> bool" where
  "msg_ok c w w' (MData k d) \<longleftrightarrow> 0 < k \<and> unat k \<le> length w \<and> d = frame_no w k"
| "msg_ok c w w' (MQuery q) \<longleftrightarrow> unat q \<le> length w"
| "msg_ok c w w' (MNck no xs) \<longleftrightarrow> nck_sound c w' no xs \<and> length xs \<le> unat (window c)"

definition out_ok :: "rdtConn \<Rightarrow> bytes list \<Rightarrow> bytes list \<Rightarrow> bytes set \<Rightarrow> bool" where
  "out_ok c w w' P \<longleftrightarrow> (\<forall>p\<in>P. \<exists>m. p = enc (is_server c) m \<and> msg_ok c w w' m)"

definition params_ok :: "rdtConn \<Rightarrow> bool" where
  "params_ok c \<longleftrightarrow> 4 \<le> frameSize c \<and> frameSize c \<le> 1493 \<and>
     int (unat (window c)) = frameSize c div 4 \<and> cstate c = Established \<and> \<not> chans_closed c \<and>
     \<not> fin_chans_closed c \<and> fin c = [] \<and> \<not> closeOnceDone c"

definition sys_inv :: "sys \<Rightarrow> bool" where
  "sys_inv s \<longleftrightarrow> (\<forall>p.
     params_ok (ep s p) \<and> sender_inv (ep s p) (wr s p) (app s p) \<and>
     receiver_inv (ep s p) (wr s (\<not> p)) (rd s p) \<and> drained (ep s p) \<and>
     link_inv (ep s p) (ep s (\<not> p)) (wr s p) \<and>
     out_ok (ep s p) (wr s p) (wr s (\<not> p)) (net s p))"

definition sys_bounded :: "sys \<Rightarrow> bool" where
  "sys_bounded s \<longleftrightarrow> (\<forall>p. length (wr s p) < 2 ^ 32 - 1)"


section \<open>Word arithmetic on bounded histories\<close>

lemma bounded_not_max:
  assumes "unat (n :: u32) \<le> length w" and "length w < 2 ^ 32 - 1"
  shows "n \<noteq> - 1"
proof
  assume "n = - 1"
  then have "unat n = 2 ^ 32 - 1" by (simp add: unsigned_minus_1_eq_mask mask_eq_exp_minus_1)
  with assms show False by simp
qed

lemma bounded_Suc:
  assumes "unat (n :: u32) \<le> length w" and "length w < 2 ^ 32 - 1"
  shows "unat (n + 1) = Suc (unat n)"
  using bounded_not_max [OF assms] by (rule unat_Suc_u32)

lemma bounded_le_Suc:
  assumes "unat (n :: u32) \<le> length w" and "length w < 2 ^ 32 - 1"
  shows "n + 1 \<le> k \<longleftrightarrow> n < k"
  using bounded_Suc [OF assms] by (simp add: word_le_nat_alt word_less_nat_alt Suc_le_eq)

lemma u32_less_Suc_cases:
  assumes "unat (n :: u32) \<le> length w" and "length w < 2 ^ 32 - 1"
  shows "k \<le> n + 1 \<longleftrightarrow> k \<le> n \<or> k = n + 1"
proof -
  have s: "unat (n + 1) = Suc (unat n)" by (rule bounded_Suc [OF assms])
  then show ?thesis
    by (metis le_Suc_eq unsigned_word_eqI word_le_nat_alt)
qed

lemma window_bounds:
  assumes "params_ok c"
  shows "0 < unat (window c)" "unat (window c) \<le> 373" "4 * unat (window c) \<le> nat (frameSize c)" "window c \<noteq> 0"
proof -
  from assms have "int (unat (window c)) = frameSize c div 4" "4 \<le> frameSize c" "frameSize c \<le> 1493"
    by (simp_all only: params_ok_def)
  then show "0 < unat (window c)" "unat (window c) \<le> 373" "4 * unat (window c) \<le> nat (frameSize c)"
    by linarith+
  then show "window c \<noteq> 0" by auto
qed

section \<open>Receiver\<close>

lemma missing_in_send_pool:
  assumes "receiver_inv b w r" and "link_inv a b w" and "sender_inv a w ap"
    and "unat no \<le> length w" and "length w < 2 ^ 32 - 1"
  shows "set (missing_nos (recvPool b) (recvNO b + 1) no) \<subseteq> dom (sendPool a)"
proof
  fix k assume "k \<in> set (missing_nos (recvPool b) (recvNO b + 1) no)"
  then have k: "recvNO b < k" "k \<le> no" "recvPool b k = None"
    using assms bounded_le_Suc [of "recvNO b" w] by (auto simp: set_missing_nos receiver_inv_def)
  from k(2) assms have "k \<le> sentNO a" by (simp add: sender_inv_def word_le_nat_alt)
  moreover have "0 < k" using k(1) by (metis word_gt_0 word_not_simps(1))
  moreover have "\<not> received b k" using k by (simp add: received_def)
  ultimately show "k \<in> dom (sendPool a)" using assms by (auto simp: link_inv_def)
qed

lemma length_missing_le:
  assumes "receiver_inv b w r" and "link_inv a b w" and "sender_inv a w ap"
    and "unat no \<le> length w" and "length w < 2 ^ 32 - 1"
  shows "length (missing_nos (recvPool b) (recvNO b + 1) no) \<le> unat (window a)"
proof -
  have "length (missing_nos (recvPool b) (recvNO b + 1) no)
      = card (set (missing_nos (recvPool b) (recvNO b + 1) no))"
    by (simp add: distinct_card distinct_missing_nos)
  also have "\<dots> \<le> card (dom (sendPool a))"
    by (rule card_mono [OF _ missing_in_send_pool [OF assms]]) simp
  also have "\<dots> \<le> unat (window a)" using assms(3) by (simp add: sender_inv_def)
  finally show ?thesis .
qed

lemma missing_sound:
  assumes "receiver_inv b w r" and "unat no \<le> length w" and "length w < 2 ^ 32 - 1"
  shows "nck_sound b w no (missing_nos (recvPool b) (recvNO b + 1) no)"
  using assms bounded_le_Suc [of "recvNO b" w]
  by (auto simp: nck_sound_def set_missing_nos received_def receiver_inv_def)

lemma sendNCK_sound:
  assumes "receiver_inv b w r" and "link_inv a b w" and "sender_inv a w ap"
    and "params_ok a" and "params_ok b"
    and "unat no \<le> length w" and "length w < 2 ^ 32 - 1"
  shows "\<exists>out. sendNCK b no = Some out \<and> out_ok b w' w (set out)"
proof -
  let ?xs = "missing_nos (recvPool b) (recvNO b + 1) no"
  have len: "length ?xs \<le> 373"
    using length_missing_le [OF assms(1-3,6,7)] window_bounds(2) [OF assms(4)] by simp
  have "no \<noteq> - 1" by (rule bounded_not_max [OF assms(6,7)])
  moreover have "out_ok b w' w {send b (buildFrame 2 no (of_nat (length ?xs) * 4) (concat (map put_u32be ?xs)))}"
    if "\<not> ucast (window b) < (of_nat (length ?xs) :: u16)"
  proof -
    have "unat (of_nat (length ?xs) :: u16) = length ?xs" using len by (simp add: unat_of_nat)
    moreover have "unat (ucast (window b) :: u16) = unat (window b)"
      using window_bounds(2) [OF assms(5)] by (simp add: unsigned_ucast_eq take_bit_nat_eq_self)
    ultimately have "length ?xs \<le> unat (window b)" using that by (simp add: word_less_nat_alt)
    then show ?thesis
      using missing_sound [OF assms(1,6,7)]
      by (auto simp: out_ok_def intro!: exI [of _ "MNck no ?xs"])
  qed
  ultimately show ?thesis by (auto simp: sendNCK_eq Let_def out_ok_def)
qed

lemma take_Suc_frame:
  assumes "unat (n :: u32) < length w" and "length w < 2 ^ 32 - 1"
  shows "concat (take (unat (n + 1)) w) = concat (take (unat n) w) @ frame_no w (n + 1)"
  using assms bounded_Suc [of n w] by (simp add: take_Suc_conv_app_nth frame_no_def)

text \<open>Delivery of the frame that follows \<open>recvNO\<close>: the step that \<open>recvData\<close> takes directly
  and that its loop takes for pooled frames; the pool may lose an entry already delivered.\<close>
lemma receiver_inv_deliver:
  assumes "receiver_inv c w r" and "unat (recvNO c) < length w" and "length w < 2 ^ 32 - 1"
    and "d = frame_no w (recvNO c + 1)" and "pool \<subseteq>\<^sub>m recvPool c"
  shows "receiver_inv (c\<lparr>recvPool := pool, inbound := inbound c @ [d], recvNO := recvNO c + 1\<rparr>) w r"
proof -
  have s: "unat (recvNO c + 1) = Suc (unat (recvNO c))"
    using bounded_Suc [of "recvNO c" w] assms by simp
  have "pool k = Some x \<Longrightarrow> recvPool c k = Some x" for k x
    using assms(5) by (auto simp: map_le_def dom_def)
  moreover have "r @ in_hand c @ d = concat (take (unat (recvNO c + 1)) w)"
    using assms take_Suc_frame [of "recvNO c" w] by (simp add: receiver_inv_def flip: append_assoc)
  moreover have "unat k \<le> Suc (unat (recvNO c)) + 2 * unat (window c)" if "pool k \<noteq> None" for k
  proof -
    from that obtain x where "recvPool c k = Some x" using calculation(1) by blast
    with assms(1) have "unat k \<le> unat (recvNO c) + 2 * unat (window c)"
      unfolding receiver_inv_def by blast
    then show ?thesis by simp
  qed
  ultimately show ?thesis
    using assms(1,2) s by (auto simp: receiver_inv_def in_hand_def)
qed

lemma map_le_del: "m(k := None) \<subseteq>\<^sub>m m"
  by (auto simp: map_le_def)

definition recv_mono :: "rdtConn \<Rightarrow> rdtConn \<Rightarrow> bool" where
  "recv_mono c c' \<longleftrightarrow> recvNO c \<le> recvNO c' \<and> (\<forall>k. received c k \<longrightarrow> received c' k)"

lemma recv_mono_refl [simp]: "recv_mono c c"
  by (simp add: recv_mono_def)

lemma recv_mono_trans: "recv_mono c c' \<Longrightarrow> recv_mono c' c'' \<Longrightarrow> recv_mono c c''"
  by (auto simp: recv_mono_def)

lemma recv_mono_deliver:
  assumes "unat (recvNO c) \<le> length w" and "length w < 2 ^ 32 - 1"
    and "\<And>k. recvNO c < k \<Longrightarrow> pool k = recvPool c k"
  shows "recv_mono c (c\<lparr>recvPool := pool, inbound := i, recvNO := recvNO c + 1\<rparr>)"
proof -
  have le: "recvNO c \<le> recvNO c + 1"
    using bounded_Suc [OF assms(1,2)] by (simp add: word_le_nat_alt)
  have "received (c\<lparr>recvPool := pool, inbound := i, recvNO := recvNO c + 1\<rparr>) k"
    if "received c k" for k
  proof (cases "k \<le> recvNO c")
    case True
    from this le have "k \<le> recvNO c + 1" by (rule order_trans)
    then show ?thesis by (simp add: received_def)
  next
    case False
    with that assms(3) [of k] show ?thesis by (simp add: received_def)
  qed
  with le show ?thesis by (simp add: recv_mono_def)
qed

definition recv_part :: "rdtConn \<Rightarrow> rdtConn \<Rightarrow> bool" where
  "recv_part c c' \<longleftrightarrow>
     (\<exists>i n m. c' = c\<lparr>recvPool := m, inbound := i, recvNO := n\<rparr>)"

lemma recv_part_refl [simp]: "recv_part c c"
  unfolding recv_part_def by (rule exI [of _ "inbound c"], rule exI [of _ "recvNO c"], rule exI [of _ "recvPool c"]) simp

lemma recv_part_trans: "recv_part c c' \<Longrightarrow> recv_part c' c'' \<Longrightarrow> recv_part c c''"
  unfolding recv_part_def by (elim exE) (simp, blast)

lemma drain_inv:
  assumes "drain c = Some c'" and "receiver_inv c w r" and "length w < 2 ^ 32 - 1"
  shows "recv_part c c' \<and> drained c' \<and> receiver_inv c' w r \<and> recv_mono c c'"
proof -
  have "receiver_inv c w r \<longrightarrow> recv_part c c' \<and> drained c' \<and> receiver_inv c' w r \<and> recv_mono c c'"
  proof (rule drain.raw_induct [OF _ assms(1), where P = "\<lambda>c c'. receiver_inv c w r \<longrightarrow>
      recv_part c c' \<and> drained c' \<and> receiver_inv c' w r \<and> recv_mono c c'"])
    fix dr c c'
    assume IH: "\<And>c c'. dr c = Some c' \<Longrightarrow> receiver_inv c w r \<longrightarrow>
        recv_part c c' \<and> drained c' \<and> receiver_inv c' w r \<and> recv_mono c c'"
      and eq: "(case recvPool c (recvNO c + 1) of None \<Rightarrow> Some c
        | Some k \<Rightarrow> if length (inbound c) < inbound_cap
            then dr (c\<lparr>recvPool := (recvPool c)(recvNO c := None), inbound := inbound c @ [k], recvNO := recvNO c + 1\<rparr>)
            else None) = Some c'"
    show "receiver_inv c w r \<longrightarrow> recv_part c c' \<and> drained c' \<and> receiver_inv c' w r \<and> recv_mono c c'"
    proof (cases "recvPool c (recvNO c + 1)")
      case None
      with eq show ?thesis by (simp add: drained_def)
    next
      case (Some k)
      let ?c = "c\<lparr>recvPool := (recvPool c)(recvNO c := None), inbound := inbound c @ [k], recvNO := recvNO c + 1\<rparr>"
      from eq Some have "dr ?c = Some c'" by (simp split: if_splits)
      note IH' = IH [OF this]
      show ?thesis
      proof
        assume inv: "receiver_inv c w r"
        then have le: "unat (recvNO c) \<le> length w" by (simp add: receiver_inv_def)
        from inv Some have k: "unat (recvNO c + 1) \<le> length w" "k = frame_no w (recvNO c + 1)"
          by (auto simp: receiver_inv_def)
        then have "unat (recvNO c) < length w"
          using bounded_Suc [OF le assms(3)] by simp
        then have "receiver_inv ?c w r"
          using k(2) by (intro receiver_inv_deliver [OF inv _ assms(3)] map_le_del)
        moreover have "recv_mono c ?c" by (rule recv_mono_deliver [OF le assms(3)]) auto
        moreover have "recv_part c ?c" unfolding recv_part_def by (intro exI) (rule refl)
        ultimately show "recv_part c c' \<and> drained c' \<and> receiver_inv c' w r \<and> recv_mono c c'"
          using IH' by (blast intro: recv_part_trans recv_mono_trans)
      qed
    qed
  qed
  with assms show ?thesis by blast
qed


lemma out_ok_Un: "out_ok c w w' (P \<union> Q) \<longleftrightarrow> out_ok c w w' P \<and> out_ok c w w' Q"
  by (auto simp: out_ok_def)

lemma far_bound:
  assumes "params_ok c" and "recvNO c < no" and "window c * 2 < no - recvNO c" and "unat no \<le> n"
  shows "unat (recvNO c + window c) \<le> n"
proof -
  have "unat (window c * 2) < unat (no - recvNO c)" using assms(3) by (simp only: word_less_nat_alt)
  moreover have "unat (window c * 2) = unat (window c) * 2"
    using window_bounds(2) [OF assms(1)] by (simp add: unat_word_ariths)
  moreover have "unat (no - recvNO c) = unat no - unat (recvNO c)"
    using assms(2) by (simp add: unat_sub)
  moreover have "unat (recvNO c + window c) \<le> unat (recvNO c) + unat (window c)"
    by (simp add: unat_word_ariths)
  ultimately show ?thesis using assms(4) by linarith
qed

lemma recvData_inv:
  assumes "recvData c no d = Some (c', out)" and rc: "receiver_inv c w r" "drained c"
    and snd: "link_inv a c w" "sender_inv a w ap" and par: "params_ok a" "params_ok c"
    and w: "length w < 2 ^ 32 - 1" and no: "0 < no" "unat no \<le> length w" "d = frame_no w no"
  shows "recv_part c c' \<and> drained c' \<and> receiver_inv c' w r \<and> recv_mono c c' \<and> out_ok c w' w (set out)"
proof -
  have le: "unat (recvNO c) \<le> length w" using rc by (simp add: receiver_inv_def)
  note suc = bounded_Suc [OF le w]
  have nck: "out_ok c w' w (set o1)" if "sendNCK c k = Some o1" "unat k \<le> length w" for k o1
    using sendNCK_sound [OF rc(1) snd par that(2) w, of w'] that(1) by auto
  have st: "cstate c \<noteq> CLOSED" "window c \<noteq> 0" "\<not> chans_closed c"
    using par(2) window_bounds(4) by (auto simp: params_ok_def conn_state_defs)
  with assms(1) obtain o1 where
    o1: "(if no mod window c = 0 then sendNCK c (min (recvNO c + window c) no) else Some []) = Some o1"
    and rest: "(if no \<le> recvNO c then Some (c, o1)
         else if no = recvNO c + 1 then
           (if chans_closed c then Some (c, o1) else do { c' \<leftarrow> deliver c d; Some (c', o1) })
         else if window c * 2 < no - recvNO c then do {
           out2 \<leftarrow> sendNCK c (recvNO c + window c); Some (c, o1 @ out2) }
         else Some (c\<lparr>recvPool := (recvPool c)(no \<mapsto> d)\<rparr>, o1)) = Some (c', out)"
    unfolding recvData_def by (simp only: if_False bind_eq_Some_conv) blast
  have ok1: "out_ok c w' w (set o1)"
  proof (cases "no mod window c = 0")
    case True
    have "min (recvNO c + window c) no \<le> no" by simp
    then have "unat (min (recvNO c + window c) no) \<le> length w"
      using no(2) unfolding word_le_nat_alt by linarith
    then show ?thesis using o1 True nck by simp
  next
    case False
    with o1 show ?thesis by (auto simp: out_ok_def)
  qed
  consider "no \<le> recvNO c" | "no = recvNO c + 1" "recvNO c < no"
    | "recvNO c < no" "no \<noteq> recvNO c + 1" "window c * 2 < no - recvNO c"
    | "recvNO c < no" "no \<noteq> recvNO c + 1" "\<not> window c * 2 < no - recvNO c"
    by (metis not_le)
  then show ?thesis
  proof cases
    case 1
    with rest ok1 rc show ?thesis by auto
  next
    case 2
    let ?c = "c\<lparr>inbound := inbound c @ [d], recvNO := recvNO c + 1\<rparr>"
    from 2 rest st(3) have dr: "drain ?c = Some c'" and out: "out = o1"
      by (auto simp: deliver_def bind_eq_Some_conv split: if_splits)
    have c: "?c = c\<lparr>recvPool := recvPool c, inbound := inbound c @ [d], recvNO := recvNO c + 1\<rparr>" by simp
    have "unat (recvNO c) < length w" using 2 no(2) by (simp add: word_less_nat_alt)
    then have inv: "receiver_inv ?c w r"
      unfolding c using 2 no by (intro receiver_inv_deliver [OF rc(1) _ w]) simp_all
    have "recv_mono c ?c" unfolding c by (rule recv_mono_deliver [OF le w]) simp
    moreover have "recv_part c ?c" unfolding recv_part_def c by (intro exI) (rule refl)
    ultimately show ?thesis
      using drain_inv [OF dr inv w] ok1 out by (blast intro: recv_part_trans recv_mono_trans)
  next
    case 3
    then have "\<not> no \<le> recvNO c" by simp
    with 3 rest have "sendNCK c (recvNO c + window c) \<bind> (\<lambda>out2. Some (c, o1 @ out2)) = Some (c', out)"
      by simp
    then obtain o2 where o2: "sendNCK c (recvNO c + window c) = Some o2" "c' = c" "out = o1 @ o2"
      by (auto simp: bind_eq_Some_conv)
    have "out_ok c w' w (set o2)"
      by (rule nck [OF o2(1) far_bound [OF par(2) 3(1,3) no(2)]])
    with o2 ok1 rc show ?thesis by (simp add: out_ok_Un)
  next
    case 4
    then have "\<not> no \<le> recvNO c" by simp
    with 4 rest have c': "c' = c\<lparr>recvPool := (recvPool c)(no \<mapsto> d)\<rparr>" "out = o1" by simp_all
    from 4(3) have "no - recvNO c \<le> window c * 2" by simp
    then have "unat (no - recvNO c) \<le> unat (window c * 2)" by (simp only: word_le_nat_alt)
    moreover have "unat (window c * 2) = unat (window c) * 2"
      using window_bounds(2) [OF par(2)] by (simp add: unat_word_ariths)
    moreover have "unat (no - recvNO c) = unat no - unat (recvNO c)"
      using 4 by (simp add: unat_sub)
    ultimately have "unat no \<le> unat (recvNO c) + 2 * unat (window c)" by linarith
    then have "receiver_inv c' w r" "drained c'"
      using rc 4 no by (auto simp: c' receiver_inv_def in_hand_def drained_def)
    moreover have "recv_part c c'"
      unfolding recv_part_def c'
      by (rule exI [of _ "inbound c"], rule exI [of _ "recvNO c"], rule exI [of _ "(recvPool c)(no \<mapsto> d)"]) simp
    moreover have "recv_mono c c'" by (auto simp: c' recv_mono_def received_def)
    ultimately show ?thesis using ok1 c' by blast
  qed
qed

section \<open>Monotonicity of the histories\<close>

lemma frame_no_append [simp]: "0 < k \<Longrightarrow> unat k \<le> length w \<Longrightarrow> frame_no (w @ e) k = frame_no w k"
  by (auto simp: frame_no_def nth_append word_less_nat_alt)

lemma nck_sound_mono: "nck_sound b w no xs \<Longrightarrow> recv_mono b b' \<Longrightarrow> nck_sound b' (w @ e) no xs"
  unfolding nck_sound_def recv_mono_def length_append using trans_le_add1 by blast

lemma msg_ok_mono:
  assumes "msg_ok c w w' m" and "recv_mono c c'" and "window c' = window c"
  shows "msg_ok c' (w @ e) (w' @ e') m"
proof (cases m)
  case (MNck no xs)
  with assms nck_sound_mono [of c w' no xs c' e'] show ?thesis by simp
qed (use assms in auto)

lemma out_ok_mono:
  assumes "out_ok c w w' P" and "recv_mono c c'" and "window c' = window c" and "is_server c' = is_server c"
  shows "out_ok c' (w @ e) (w' @ e') P"
  unfolding out_ok_def
proof
  fix p assume "p \<in> P"
  with assms(1) obtain m where m: "p = enc (is_server c) m" "msg_ok c w w' m" by (auto simp: out_ok_def)
  from msg_ok_mono [OF m(2) assms(2,3)] m(1) assms(4)
  show "\<exists>m. p = enc (is_server c') m \<and> msg_ok c' (w @ e) (w' @ e') m" by auto
qed

lemma receiver_inv_append: "receiver_inv b w r \<Longrightarrow> receiver_inv b (w @ e) r"
proof -
  assume r: "receiver_inv b w r"
  then have n: "unat (recvNO b) \<le> length w" by (simp add: receiver_inv_def)
  have "unat k \<le> length (w @ e) \<and> d = frame_no (w @ e) k" if "recvPool b k = Some d" for k d
  proof -
    from r that have "0 < k" "unat k \<le> length w" "d = frame_no w k"
      unfolding receiver_inv_def by blast+
    then show ?thesis by simp
  qed
  moreover have "unat q \<le> length (w @ e)" if "q \<in> set (nckQuery b)" for q
    using r that by (simp add: receiver_inv_def trans_le_add1)
  ultimately show ?thesis using r n by (simp add: receiver_inv_def)
qed

lemma link_inv_recv:
  assumes "link_inv a b w" and "recv_mono b b'"
  shows "link_inv a b' w"
proof -
  have "nck_sound b' w (nck_no n) (nck_missing n)" if "n \<in> set (nckCh a)" for n
    using assms that nck_sound_mono [of b w "nck_no n" "nck_missing n" b' "[]"] by (auto simp: link_inv_def)
  with assms show ?thesis unfolding link_inv_def recv_mono_def by (meson order_trans)
qed

text \<open>What a step of one party has to establish.\<close>
definition step_ok :: "rdtConn \<Rightarrow> rdtConn \<Rightarrow> rdtConn \<Rightarrow> bytes list \<Rightarrow> bytes list \<Rightarrow> bytes \<Rightarrow> bytes \<Rightarrow> bytes list \<Rightarrow> bool" where
  "step_ok c c' b w w' ap r out \<longleftrightarrow>
     params_ok c' \<and> sender_inv c' w ap \<and> receiver_inv c' w' r \<and> drained c' \<and> link_inv c' b w \<and>
     recv_mono c c' \<and> is_server c' = is_server c \<and> window c' = window c \<and> out_ok c' w w' (set out)"

lemma sys_inv_upd:
  assumes inv: "sys_inv s"
    and ok: "step_ok (ep s p) c' (ep s (\<not> p)) (wr s p @ e) (wr s (\<not> p)) (app s p @ a) (rd s p @ r) out"
  shows "sys_inv (upd p c' out a e r s)"
proof -
  note invp = inv [unfolded sys_inv_def, rule_format, of p]
    and invn = inv [unfolded sys_inv_def, rule_format, of "\<not> p", simplified]
  have o1: "out_ok c' (wr s p @ e) (wr s (\<not> p)) (net s p)"
    using invp ok out_ok_mono [of "ep s p" "wr s p" "wr s (\<not> p)" "net s p" c' e "[]"]
    by (simp add: step_ok_def)
  have o2: "out_ok (ep s (\<not> p)) (wr s (\<not> p)) (wr s p @ e) (net s (\<not> p))"
    using invn out_ok_mono [of "ep s (\<not> p)" "wr s (\<not> p)" "wr s p" "net s (\<not> p)" "ep s (\<not> p)" "[]" e]
    by simp
  have r2: "receiver_inv (ep s (\<not> p)) (wr s p @ e) (rd s (\<not> p))"
    using invn by (simp add: receiver_inv_append)
  have l2: "link_inv (ep s (\<not> p)) c' (wr s (\<not> p))"
    using invn ok link_inv_recv unfolding step_ok_def by blast
  show ?thesis
    unfolding sys_inv_def
  proof
    fix q
    show "params_ok (ep (upd p c' out a e r s) q) \<and>
       sender_inv (ep (upd p c' out a e r s) q) (wr (upd p c' out a e r s) q) (app (upd p c' out a e r s) q) \<and>
       receiver_inv (ep (upd p c' out a e r s) q) (wr (upd p c' out a e r s) (\<not> q)) (rd (upd p c' out a e r s) q) \<and>
       drained (ep (upd p c' out a e r s) q) \<and>
       link_inv (ep (upd p c' out a e r s) q) (ep (upd p c' out a e r s) (\<not> q)) (wr (upd p c' out a e r s) q) \<and>
       out_ok (ep (upd p c' out a e r s) q) (wr (upd p c' out a e r s) q) (wr (upd p c' out a e r s) (\<not> q))
         (net (upd p c' out a e r s) q)"
    proof (cases "q = p")
      case True
      with ok o1 show ?thesis by (simp add: upd_def step_ok_def out_ok_Un)
    next
      case False
      then have q: "q = (\<not> p)" by blast
      show ?thesis using invn o2 r2 l2 unfolding q by (simp add: upd_def)
    qed
  qed
qed

section \<open>Segmentation\<close>

lemma concat_chunks:
  "concat (map (\<lambda>i. take (min n (length b - i * n)) (drop (i * n) b)) [0..<k]) = take (k * n) b"
proof (induction k)
  case 0
  then show ?case by simp
next
  case (Suc k)
  have "take (min n (length b - k * n)) (drop (k * n) b) = take n (drop (k * n) b)"
    by (simp add: min_def)
  with Suc show ?case by (simp add: take_add add.commute [of n])
qed

lemma concat_write_chunks: "0 < fs \<Longrightarrow> concat (write_chunks fs b) = b"
proof -
  assume fs: "0 < fs"
  let ?n = "nat fs"
  have "length b \<le> (length b + ?n - 1) div ?n * ?n"
    using fs mod_less_divisor [of ?n "length b + ?n - 1"] div_mult_mod_eq [of "length b + ?n - 1" ?n]
    by linarith
  with fs show ?thesis by (simp add: write_chunks_def concat_chunks)
qed

lemma length_write_chunks: "d \<in> set (write_chunks fs b) \<Longrightarrow> length d \<le> nat fs"
  by (auto simp: write_chunks_def split: if_splits)

section \<open>Every step keeps the invariant\<close>

definition party_inv :: "rdtConn \<Rightarrow> rdtConn \<Rightarrow> bytes list \<Rightarrow> bytes list \<Rightarrow> bytes \<Rightarrow> bytes \<Rightarrow> bool" where
  "party_inv c b w w' ap r \<longleftrightarrow>
     params_ok c \<and> sender_inv c w ap \<and> receiver_inv c w' r \<and> drained c \<and> link_inv c b w"

lemmas step_defs = step_ok_def party_inv_def params_ok_def sender_inv_def receiver_inv_def
  drained_def link_inv_def recv_mono_def received_def in_hand_def out_ok_def

lemma write_call_ok:
  assumes "party_inv c b w w' ap r" and "w_pend c = []" and "write_call c x = Inr c'"
  shows "step_ok c c' b w w' (ap @ x) r []"
proof -
  have "0 < frameSize c" using assms(1) by (simp add: party_inv_def params_ok_def)
  with assms show ?thesis
    by (auto simp: write_call_def step_defs concat_write_chunks length_write_chunks split: if_splits)
qed

text \<open>Transmission of the next pending frame.\<close>
lemma write_frame_ok:
  assumes inv: "party_inv c b w w' ap r" and pend: "w_pend c = d # ds" and "\<not> pool_full c"
    and bnd: "length (w @ [d]) < 2 ^ 32 - 1" and wf: "write_frame c d = (c1, pkt)"
    and c': "c' = c1\<lparr>nck_parked := np, w_wait := ww, w_pend := ds\<rparr>"
  shows "step_ok c c' b (w @ [d]) w' ap r [pkt]"
proof -
  let ?no = "sentNO c + 1"
  have sn: "unat (sentNO c) = length w" and w: "length w < 2 ^ 32 - 1"
    using inv bnd by (auto simp: party_inv_def sender_inv_def)
  then have no: "unat ?no = Suc (length w)" using bounded_Suc [of "sentNO c" w] by simp
  then have pos: "0 < ?no" by (simp add: word_less_nat_alt)
  have fr: "frame_no (w @ [d]) ?no = d" by (simp add: frame_no_def no)
  have pkt: "pkt = enc (is_server c) (MData ?no (frame_no (w @ [d]) ?no))"
    and c1: "c1 = c\<lparr>sendPool := (sendPool c)(?no \<mapsto> pkt), sentNO := ?no\<rparr>"
    using wf by (auto simp: write_frame_def Let_def fr)
  have lt: "sentNO c < ?no" using no sn by (simp add: word_less_nat_alt)
  have pool: "sendPool c k = Some p \<Longrightarrow> 0 < k \<and> k \<le> sentNO c \<and> p = enc (is_server c) (MData k (frame_no w k))" for k p
    using inv by (auto simp: party_inv_def sender_inv_def)
  have old: "frame_no (w @ [d]) k = frame_no w k" if "0 < k" "k \<le> sentNO c" for k
    using that sn by (intro frame_no_append) (simp_all add: word_le_nat_alt)
  have card: "card (dom ((sendPool c)(?no \<mapsto> pkt))) \<le> unat (window c)"
  proof -
    have "card (dom (sendPool c)) < unat (window c)"
      using assms(3) unfolding pool_full_def of_nat_le_iff by simp
    then show ?thesis by (simp add: card_insert_if)
  qed
  have "sender_inv c' (w @ [d]) ap"
  proof -
    have "0 < k \<and> k \<le> ?no \<and> p = enc (is_server c) (MData k (frame_no (w @ [d]) k))"
      if "((sendPool c)(?no \<mapsto> pkt)) k = Some p" for k p
    proof (cases "k = ?no")
      case True
      with that pkt pos show ?thesis by simp
    next
      case False
      with that have "sendPool c k = Some p" by simp
      from pool [OF this] old lt show ?thesis by (metis order_less_imp_le order_trans)
    qed
    moreover have "concat (w @ [d] @ ds) = ap" "\<forall>x\<in>set (w @ [d] @ ds). length x \<le> nat (frameSize c)"
      using inv pend by (auto simp: party_inv_def sender_inv_def)
    ultimately show ?thesis using no card by (simp add: sender_inv_def c' c1)
  qed
  moreover have "link_inv c' b (w @ [d])"
  proof -
    have link: "link_inv c b w" using inv by (simp add: party_inv_def)
    have "((sendPool c)(?no \<mapsto> pkt)) k \<noteq> None" if "0 < k" "k \<le> ?no" "\<not> received b k" for k
      using link that u32_less_Suc_cases [of "sentNO c" w k] sn w by (auto simp: link_inv_def)
    moreover have "nck_sound b (w @ [d]) (nck_no n) (nck_missing n)" if "n \<in> set (nckCh c)" for n
      using link that by (auto simp: link_inv_def intro: nck_sound_mono)
    ultimately show ?thesis using link by (auto simp: link_inv_def c' c1)
  qed
  moreover have "out_ok c' (w @ [d]) w' {pkt}"
    using pkt no pos by (auto simp: out_ok_def c' c1 intro!: exI [of _ "MData ?no (frame_no (w @ [d]) ?no)"])
  moreover have "params_ok c'" "receiver_inv c' w' r" "drained c'" "recv_mono c c'"
    using inv by (simp_all add: party_inv_def params_ok_def receiver_inv_def drained_def in_hand_def
        recv_mono_def received_def c' c1)
  ultimately show ?thesis by (simp add: step_ok_def c' c1)
qed

lemma party_inv_flags:
  "party_inv c b w w' ap r \<Longrightarrow> step_ok c (c\<lparr>nck_parked := np, w_wait := ww\<rparr>) b w w' ap r []"
  by (simp add: step_defs)

lemma write_step_ok:
  assumes inv: "party_inv c b w w' ap r" and pend: "w_pend c = d # ds"
    and st: "write_step c = Some (c', out)"
    and e: "e = (if out = [] then [] else [d])" and bnd: "length (w @ e) < 2 ^ 32 - 1"
  shows "step_ok c c' b (w @ e) w' ap r out"
proof -
  obtain c1 pkt where wf: "write_frame c d = (c1, pkt)" by fastforce
  have nc: "\<not> chans_closed c" using inv by (simp add: party_inv_def params_ok_def)
  have cp: "nck_parked c1 = nck_parked c \<and> w_wait c1 = w_wait c"
    using wf by (auto simp: write_frame_def Let_def)
  have "(c' = c\<lparr>nck_parked := nck_parked c, w_wait := True\<rparr> \<and> out = []) \<or>
      (c' = c\<lparr>nck_parked := False, w_wait := w_wait c\<rparr> \<and> out = []) \<or>
      (\<exists>np ww. c' = c1\<lparr>nck_parked := np, w_wait := ww, w_pend := ds\<rparr> \<and> out = [pkt] \<and> \<not> pool_full c)"
  proof (cases "w_wait c")
    case True
    with st pend nc have "nck_parked c" by (simp add: write_step_def split: if_splits)
    show ?thesis
    proof (cases "pool_full c")
      case full: True
      from True full st pend nc \<open>nck_parked c\<close> have "c' = c\<lparr>nck_parked := False\<rparr>" "out = []"
        by (simp_all add: write_step_def)
      then show ?thesis by simp
    next
      case False
      with True st pend nc wf \<open>nck_parked c\<close>
      have "c' = c1\<lparr>nck_parked := False, w_wait := False, w_pend := ds\<rparr>" "out = [pkt]"
        by (simp_all add: write_step_def)
      with False show ?thesis by blast
    qed
  next
    case False
    show ?thesis
    proof (cases "pool_full c")
      case True
      with False st pend have "c' = c\<lparr>w_wait := True\<rparr>" "out = []" by (simp_all add: write_step_def)
      then show ?thesis by simp
    next
      case nf: False
      with False st pend wf have "c' = c1\<lparr>w_pend := ds\<rparr>" "out = [pkt]" by (simp_all add: write_step_def)
      moreover have "c1\<lparr>w_pend := ds\<rparr> = c1\<lparr>nck_parked := nck_parked c1, w_wait := w_wait c1, w_pend := ds\<rparr>" by simp
      ultimately show ?thesis using nf by metis
    qed
  qed
  then consider (wait) "c' = c\<lparr>nck_parked := nck_parked c, w_wait := True\<rparr>" "out = []"
    | (free) "c' = c\<lparr>nck_parked := False, w_wait := w_wait c\<rparr>" "out = []"
    | (sent) np ww where "c' = c1\<lparr>nck_parked := np, w_wait := ww, w_pend := ds\<rparr>" "out = [pkt]" "\<not> pool_full c"
    by blast
  then show ?thesis
  proof cases
    case wait
    then show ?thesis using party_inv_flags [OF inv, where np = "nck_parked c" and ww = True] e by simp
  next
    case free
    then show ?thesis using party_inv_flags [OF inv, where np = False and ww = "w_wait c"] e by simp
  next
    case (sent np ww)
    with write_frame_ok [OF inv pend sent(3) _ wf] bnd e show ?thesis by simp
  qed
qed

text \<open>A handler of the receiving side.\<close>
lemma recv_part_ok:
  assumes inv: "party_inv c b w w' ap r" and "recv_part c c'" and "drained c'"
    and "receiver_inv c' w' r" and "recv_mono c c'" and "out_ok c w w' (set out)"
  shows "step_ok c c' b w w' ap r out"
proof -
  obtain m i n where c': "c' = c\<lparr>recvPool := m, inbound := i, recvNO := n\<rparr>"
    using assms(2) by (auto simp: recv_part_def)
  have "params_ok c'" "sender_inv c' w ap" "link_inv c' b w" "is_server c' = is_server c" "window c' = window c"
    using inv by (simp_all add: c' party_inv_def params_ok_def sender_inv_def link_inv_def)
  then show ?thesis
    using assms out_ok_mono [of c w w' "set out" c' "[]" "[]"] by (simp add: step_ok_def)
qed

lemma idle_ok:
  assumes "party_inv c b w w' ap r" and "out_ok c w w' (set out)"
  shows "step_ok c c b w w' ap r out"
  using recv_part_ok [OF assms(1) recv_part_refl _ _ recv_mono_refl assms(2)] assms(1)
  by (simp add: party_inv_def)

text \<open>What a step may assume of the peer.\<close>
definition peer_inv :: "rdtConn \<Rightarrow> rdtConn \<Rightarrow> bytes list \<Rightarrow> bool" where
  "peer_inv b c w' \<longleftrightarrow> params_ok b \<and> (\<exists>ap'. sender_inv b w' ap') \<and> link_inv b c w'"

lemma recv_data_ok:
  assumes inv: "party_inv c b w w' ap r" and "peer_inv b c w'" and "length w' < 2 ^ 32 - 1"
    and "msg_ok b w' w (MData no d)" and "recvData c no d = Some (c', out)"
  shows "step_ok c c' b w w' ap r out"
proof -
  from assms(2) obtain ap' where "link_inv b c w'" "sender_inv b w' ap'" "params_ok b"
    by (auto simp: peer_inv_def)
  with recvData_inv [OF assms(5), of w' r b ap' w] assms(3,4) inv
  show ?thesis by (intro recv_part_ok [OF inv]) (simp_all add: party_inv_def)
qed

lemma recv_query_ok:
  assumes "party_inv c b w w' ap r" and "unat q \<le> length w'" and "recvQuery c q = Some (c', out)"
  shows "step_ok c c' b w w' ap r out"
  using assms by (auto simp: recvQuery_def step_defs split: if_splits)

text \<open>An NCK without a missing list acknowledges everything up to its number: the receiver has
  drained its pool, so it has delivered all of it.\<close>
lemma ack_le_recvNO:
  assumes "nck_sound b w no []" and "drained b" and "unat (recvNO b) \<le> length w" and "length w < 2 ^ 32 - 1"
  shows "no \<le> recvNO b"
proof (rule ccontr)
  assume "\<not> no \<le> recvNO b"
  then have "recvNO b + 1 \<le> no" using bounded_le_Suc [OF assms(3,4)] by simp
  moreover have "recvNO b < recvNO b + 1"
    using bounded_Suc [OF assms(3,4)] by (simp add: word_less_nat_alt)
  moreover from this have "0 < recvNO b + 1" by (metis word_gt_0 word_not_simps(1))
  ultimately have "received b (recvNO b + 1)" using assms(1) by (simp add: nck_sound_def)
  with \<open>recvNO b < recvNO b + 1\<close> assms(2) show False by (simp add: received_def drained_def)
qed

lemma recv_nck_ok:
  assumes inv: "party_inv c b w w' ap r" and nck: "nck_sound b w no xs"
    and b: "drained b" "unat (recvNO b) \<le> length w" and w: "length w < 2 ^ 32 - 1"
    and "recvNCK c no xs = Some (c', out)"
  shows "step_ok c c' b w w' ap r out"
proof -
  let ?a = "if xs = [] \<and> ackNO c < no then no else ackNO c"
  have "?a \<le> recvNO b"
    using inv ack_le_recvNO [OF _ b w, of no] nck by (auto simp: party_inv_def link_inv_def)
  moreover have "c' = c\<lparr>nckCh := nckCh c @ [\<lparr>nck_no = no, nck_missing = xs\<rparr>], ackNO := ?a\<rparr> \<and> out = []"
    using assms(6) inv by (auto simp: recvNCK_def Let_def party_inv_def params_ok_def split: if_splits)
  ultimately show ?thesis
    using inv nck by (auto simp: step_ok_def party_inv_def params_ok_def sender_inv_def
        receiver_inv_def in_hand_def drained_def link_inv_def recv_mono_def received_def out_ok_def)
qed

lemma msg_size_ok:
  assumes "msg_ok b w w' m" and "params_ok b" and "sender_inv b w ap"
  shows "msg_size m \<le> nat (frameSize b)"
proof (cases m)
  case (MData k d)
  with assms(1) have "0 < k" "unat k \<le> length w" and d: "d = w ! (unat k - 1)"
    by (simp_all add: frame_no_def)
  then have "d \<in> set w" by (auto simp: word_less_nat_alt)
  with assms(3) MData show ?thesis by (simp add: sender_inv_def)
next
  case (MQuery q)
  then show ?thesis by simp
next
  case (MNck no xs)
  with assms(1) window_bounds(3) [OF assms(2)] show ?thesis by simp
qed

lemma recv_ok:
  assumes inv: "party_inv c b w w' ap r" and peer: "peer_inv b c w'"
    and bnd: "length w < 2 ^ 32 - 1" "length w' < 2 ^ 32 - 1"
    and b: "drained b" "unat (recvNO b) \<le> length w"
    and pkt: "pkt \<in> P" "out_ok b w' w P"
    and step: "recv c n (GSlice (take 1500 (strip_dir pkt)) sp) = Some (c', out)"
  shows "step_ok c c' b w w' ap r out"
proof -
  from pkt obtain m where m: "pkt = enc (is_server b) m" "msg_ok b w' w m" by (auto simp: out_ok_def)
  from peer obtain ap' where "sender_inv b w' ap'" "params_ok b" by (auto simp: peer_inv_def)
  with m(2) have "msg_size m \<le> nat (frameSize b)" "frameSize b \<le> 1493"
    by (simp_all add: msg_size_ok params_ok_def)
  then have run: "recv_msg c m = Some (c', out)" using step by (simp add: m(1) recv_enc)
  show ?thesis
  proof (cases m)
    case (MData no d)
    with run m(2) show ?thesis by (intro recv_data_ok [OF inv peer bnd(2)]) simp_all
  next
    case (MQuery q)
    with run m(2) show ?thesis by (intro recv_query_ok [OF inv]) simp_all
  next
    case (MNck no xs)
    with run m(2) show ?thesis by (intro recv_nck_ok [OF inv _ b bnd(1)]) simp_all
  qed
qed

text \<open>Every pooled packet already carries its direction bit, so a retransmission is the packet of
  the first transmission and leaves the pool as it is.\<close>
lemma resend_missing_eq:
  assumes "\<forall>k p. sendPool c k = Some p \<longrightarrow> send c p = p"
  shows "\<exists>n. resend_missing c xs =
    (c\<lparr>rs := n\<rparr>, map (\<lambda>k. the (sendPool c k)) (filter (\<lambda>k. sendPool c k \<noteq> None) xs))"
  using assms
proof (induction xs arbitrary: c)
  case Nil
  show ?case by (rule exI [of _ "rs c"]) simp
next
  case (Cons x xs)
  show ?case
  proof (cases "sendPool c x")
    case None
    with Cons show ?thesis by simp
  next
    case (Some p)
    have same: "c\<lparr>sendPool := (sendPool c)(x \<mapsto> p), rs := rs c + 1\<rparr> = c\<lparr>rs := rs c + 1\<rparr>"
      using Some by (simp add: fun_upd_idem)
    from Cons.IH [of "c\<lparr>rs := rs c + 1\<rparr>"] Cons.prems obtain n where
      "resend_missing (c\<lparr>rs := rs c + 1\<rparr>) xs =
         (c\<lparr>rs := n\<rparr>, map (\<lambda>k. the (sendPool c k)) (filter (\<lambda>k. sendPool c k \<noteq> None) xs))"
      by auto
    with Some same Cons.prems show ?thesis by (auto simp: Let_def)
  qed
qed

lemma pooled_marked:
  assumes "sender_inv c w ap"
  shows "\<forall>k p. sendPool c k = Some p \<longrightarrow> send c p = p"
proof (intro allI impI)
  fix k p assume "sendPool c k = Some p"
  with assms have "p = enc (is_server c) (MData k (frame_no w k))" unfolding sender_inv_def by blast
  then show "send c p = p" by simp
qed

lemma nckLoop_ok:
  assumes inv: "party_inv c b w w' ap r" and step: "nckLoop c = Some (c', out)"
  shows "step_ok c c' b w w' ap r out"
proof -
  from step obtain k ks where ch: "nckCh c = k # ks" by (auto simp: nckLoop_def split: if_splits list.splits)
  let ?c = "c\<lparr>nckCh := ks\<rparr>"
  let ?keep = "\<lambda>j. if j \<notin> set (nck_missing k) \<and> j \<le> nck_no k then None else sendPool c j"
  have snd: "sender_inv c w ap" and link: "link_inv c b w" using inv by (simp_all add: party_inv_def)
  from resend_missing_eq [of ?c "nck_missing k"] pooled_marked [OF snd] obtain n where
    "resend_missing ?c (nck_missing k) = (?c\<lparr>rs := n\<rparr>,
        map (\<lambda>j. the (sendPool c j)) (filter (\<lambda>j. sendPool c j \<noteq> None) (nck_missing k)))" by auto
  with step ch inv have c': "c' = c\<lparr>nckCh := ks, rs := n, sendPool := ?keep, nck_parked := True\<rparr>"
    and out: "out = map (\<lambda>j. the (sendPool c j)) (filter (\<lambda>j. sendPool c j \<noteq> None) (nck_missing k))"
    by (auto simp: nckLoop_def resend_def party_inv_def params_ok_def cong: if_cong split: if_splits)
  have pool: "?keep j = Some p \<Longrightarrow> sendPool c j = Some p" for j p by (simp split: if_splits)
  have pok: "0 < j \<and> unat j \<le> length w \<and> p = enc (is_server c) (MData j (frame_no w j))"
    if "sendPool c j = Some p" for j p
    using snd that by (auto simp: sender_inv_def word_le_nat_alt)
  have "card (dom ?keep) \<le> card (dom (sendPool c))" by (rule card_mono) (auto split: if_splits)
  then have "sender_inv c' w ap"
    using snd pool unfolding sender_inv_def c' by (auto split: if_splits)
  moreover have "link_inv c' b w"
  proof -
    have "sendPool c j \<noteq> None \<and> \<not> (j \<notin> set (nck_missing k) \<and> j \<le> nck_no k)"
      if "0 < j" "j \<le> sentNO c" "\<not> received b j" for j
      using link that ch by (auto simp: link_inv_def nck_sound_def)
    then show ?thesis using link ch by (auto simp: link_inv_def c')
  qed
  moreover have "out_ok c' w w' (set out)"
  proof -
    have "\<exists>m. p = enc (is_server c') m \<and> msg_ok c' w w' m" if "p \<in> set out" for p
    proof -
      from that out obtain j where "sendPool c j = Some p" by auto
      from pok [OF this] show ?thesis by (intro exI [of _ "MData j (frame_no w j)"]) (simp add: c')
    qed
    then show ?thesis by (simp add: out_ok_def)
  qed
  moreover have "params_ok c'" "receiver_inv c' w' r" "drained c'" "recv_mono c c'"
    using inv by (simp_all add: party_inv_def params_ok_def receiver_inv_def drained_def in_hand_def
        recv_mono_def received_def c')
  ultimately show ?thesis by (simp add: step_ok_def c')
qed

lemma sendNCK_cong:
  "recvPool c = recvPool c' \<Longrightarrow> recvNO c = recvNO c' \<Longrightarrow> window c = window c' \<Longrightarrow>
   is_server c = is_server c' \<Longrightarrow> sendNCK c no = sendNCK c' no"
  by (simp add: sendNCK_def Let_def split: option.split)

lemma nckQueryLoop_ok:
  assumes inv: "party_inv c b w w' ap r" and peer: "peer_inv b c w'" and w: "length w' < 2 ^ 32 - 1"
    and step: "nckQueryLoop c = Some (c', out)"
  shows "step_ok c c' b w w' ap r out"
proof -
  from step obtain q qs where q: "nckQuery c = q # qs" and c': "c' = c\<lparr>nckQuery := qs\<rparr>"
    and "sendNCK c' q = Some out"
    by (auto simp: nckQueryLoop_def split: list.splits)
  moreover have "sendNCK c' q = sendNCK c q" by (intro sendNCK_cong) (simp_all add: c')
  ultimately have run: "sendNCK c q = Some out" by simp
  from peer obtain ap' where "link_inv b c w'" "sender_inv b w' ap'" "params_ok b"
    by (auto simp: peer_inv_def)
  moreover have "unat q \<le> length w'" using inv q by (simp add: party_inv_def receiver_inv_def)
  ultimately have "out_ok c w w' (set out)"
    using sendNCK_sound [of c w' r b ap' q w] run inv w by (auto simp: party_inv_def)
  then have "out_ok c' w w' (set out)"
    using out_ok_mono [of c w w' "set out" c' "[]" "[]"] by (simp add: c' recv_mono_def received_def)
  with inv q show ?thesis
    by (simp add: step_ok_def party_inv_def params_ok_def sender_inv_def receiver_inv_def drained_def
        in_hand_def link_inv_def recv_mono_def received_def c')
qed

lemma checkLoop_ok:
  assumes inv: "party_inv c b w w' ap r" and step: "checkLoop c = Some out"
  shows "step_ok c c b w w' ap r out"
proof (rule idle_ok [OF inv])
  let ?q = "min (sentNO c) (ackNO c + window c)"
  have "unat ?q \<le> unat (sentNO c)" by (simp flip: word_le_nat_alt)
  then have "unat ?q \<le> length w" using inv by (simp add: party_inv_def sender_inv_def)
  then have "out_ok c w w' (set (askNCK c ?q))"
    by (auto simp: out_ok_def askNCK_def intro!: exI [of _ "MQuery ?q"])
  with step show "out_ok c w w' (set out)"
    by (auto simp: checkLoop_def out_ok_def split: if_splits)
qed

lemma read_ok:
  assumes inv: "party_inv c b w w' ap r" and step: "Read c n sel = Some (c', Inr x)"
  shows "step_ok c c' b w w' ap (r @ x) []"
proof -
  have nc: "\<not> chans_closed c" using inv by (simp add: party_inv_def params_ok_def)
  obtain i buf where c': "c' = c\<lparr>inbound := i, inboundBuf := buf\<rparr>" and hand: "in_hand c = x @ in_hand c'"
  proof (cases "inboundBuf c")
    case (Some y)
    with step that [where i = "inbound c" and buf = "inboundBuf c'"] show ?thesis
      by (auto simp: Read_def read_copy_def in_hand_def split: if_splits)
  next
    case None
    with step nc that show ?thesis
      by (auto simp: Read_def read_copy_def in_hand_def
          split: read_case.splits list.splits if_splits)
  qed
  have r: "receiver_inv c w' r" using inv by (simp add: party_inv_def)
  have "receiver_inv c' w' (r @ x)"
    using r hand unfolding receiver_inv_def c' by simp
  with inv show ?thesis
    by (simp add: step_ok_def party_inv_def params_ok_def sender_inv_def drained_def
        link_inv_def recv_mono_def received_def out_ok_def c')
qed

section \<open>The invariant holds in every reachable state\<close>

lemma sys_bounded_back:
  assumes "sys_step s s'" and "sys_bounded s'"
  shows "sys_bounded s"
proof -
  have "length (wr s p) \<le> length (wr s' p)" for p
    using assms(1) by cases (simp_all add: upd_def)
  with assms(2) show ?thesis unfolding sys_bounded_def using le_less_trans by blast
qed

lemma sys_inv_init:
  assumes "11 \<le> MTU cfg" "MTU cfg \<le> 1500" "11 \<le> MTU cfg'" "MTU cfg' \<le> 1500"
  shows "sys_inv (sys_init cfg cfg')"
proof -
  have win: "uint (word_of_int (go_div (MTU x - 7) 4) :: u32) = (MTU x - 7) div 4"
    if "11 \<le> MTU x" "MTU x \<le> 1500" for x
  proof -
    have "go_div (MTU x - 7) 4 = (MTU x - 7) div 4" using that by (simp add: go_div_def)
    moreover have "0 \<le> (MTU x - 7) div 4" "(MTU x - 7) div 4 < 4294967296" using that by linarith+
    ultimately show ?thesis by (simp add: unsigned_of_int take_bit_int_eq_self)
  qed
  have "params_ok (ep (sys_init cfg cfg') p)" for p
    unfolding params_ok_def
    using assms win [of cfg] win [of cfg'] by (simp add: sys_init_def newConn_def)
  then show ?thesis
    by (auto simp: sys_inv_def sys_init_def newConn_def sender_inv_def receiver_inv_def in_hand_def
        drained_def link_inv_def received_def out_ok_def)
qed

lemma sys_step_inv:
  assumes step: "sys_step s s'" and inv: "sys_inv s" and bnd: "sys_bounded s'"
  shows "sys_inv s'"
proof -
  have b: "length (wr s q) < 2 ^ 32 - 1" for q
    using sys_bounded_back [OF step bnd] unfolding sys_bounded_def by blast
  have pi: "party_inv (ep s p) (ep s (\<not> p)) (wr s p) (wr s (\<not> p)) (app s p) (rd s p)" for p
    using inv by (simp add: sys_inv_def party_inv_def)
  have qi: "peer_inv (ep s (\<not> p)) (ep s p) (wr s (\<not> p))" for p
    using inv [unfolded sys_inv_def, rule_format, of "\<not> p"] unfolding peer_inv_def by auto
  have ri: "drained (ep s (\<not> p))" "unat (recvNO (ep s (\<not> p))) \<le> length (wr s p)"
    "out_ok (ep s (\<not> p)) (wr s (\<not> p)) (wr s p) (net s (\<not> p))" for p
    using inv [unfolded sys_inv_def, rule_format, of "\<not> p"] by (simp_all add: receiver_inv_def)
  from step show ?thesis
  proof cases
    case (st_call p x c)
    with write_call_ok [OF pi] show ?thesis by (simp add: sys_inv_upd inv)
  next
    case (st_write p d ds c out)
    let ?e = "if out = [] then [] else [d]"
    have "length (wr s p @ ?e) < 2 ^ 32 - 1"
      using bnd [unfolded sys_bounded_def, rule_format, of p] by (simp add: st_write(1) upd_def)
    from sys_inv_upd [OF inv, of p c ?e "[]" "[]" out] write_step_ok [OF pi st_write(2,3) refl this]
    show ?thesis unfolding st_write(1) append_Nil2 by simp
  next
    case (st_recv pkt p n sp c out)
    from sys_inv_upd [OF inv, of p c "[]" "[]" "[]" out]
      recv_ok [OF pi qi b b ri(1,2) st_recv(2) ri(3) st_recv(4)]
    show ?thesis unfolding st_recv(1) append_Nil2 by simp
  next
    case (st_nck p c out)
    from sys_inv_upd [OF inv, of p c "[]" "[]" "[]" out] nckLoop_ok [OF pi st_nck(2)]
    show ?thesis unfolding st_nck(1) append_Nil2 by simp
  next
    case (st_query p c out)
    from sys_inv_upd [OF inv, of p c "[]" "[]" "[]" out] nckQueryLoop_ok [OF pi qi b st_query(2)]
    show ?thesis unfolding st_query(1) append_Nil2 by simp
  next
    case (st_check p out)
    from sys_inv_upd [OF inv, of p "ep s p" "[]" "[]" "[]" out] checkLoop_ok [OF pi st_check(2)]
    show ?thesis unfolding st_check(1) append_Nil2 by simp
  next
    case (st_read p n sel c x)
    from sys_inv_upd [OF inv, of p c "[]" "[]" x "[]"] read_ok [OF pi st_read(2)]
    show ?thesis unfolding st_read(1) append_Nil2 by simp
  qed
qed

lemma sys_reach_inv: "sys_reach s \<Longrightarrow> sys_bounded s \<Longrightarrow> sys_inv s"
proof (induction rule: sys_reach.induct)
  case (reach_init cfg cfg')
  then show ?case by (simp add: sys_inv_init)
next
  case (reach_step s s')
  then show ?case using sys_step_inv sys_bounded_back by blast
qed

section \<open>Consequences\<close>

lemma reach_invs:
  assumes "sys_reach s" and "sys_bounded s"
  shows "params_ok (ep s p)" "sender_inv (ep s p) (wr s p) (app s p)"
    "receiver_inv (ep s p) (wr s (\<not> p)) (rd s p)" "drained (ep s p)"
    "link_inv (ep s p) (ep s (\<not> p)) (wr s p)"
    "out_ok (ep s p) (wr s p) (wr s (\<not> p)) (net s p)" "length (wr s p) < 2 ^ 32 - 1"
  using sys_reach_inv [OF assms] assms(2) unfolding sys_inv_def sys_bounded_def by blast+

lemma read_prefix:
  assumes "sys_reach s" and "sys_bounded s"
  shows "prefix (rd s p) (app s (\<not> p))"
proof -
  have "rd s p @ in_hand (ep s p) = concat (take (unat (recvNO (ep s p))) (wr s (\<not> p)))"
    using reach_invs(3) [OF assms, of p] by (simp add: receiver_inv_def)
  moreover have "concat (wr s (\<not> p) @ w_pend (ep s (\<not> p))) = app s (\<not> p)"
    using reach_invs(2) [OF assms, of "\<not> p"] by (simp add: sender_inv_def)
  moreover have "concat (wr s (\<not> p)) = concat (take n (wr s (\<not> p))) @ concat (drop n (wr s (\<not> p)))" for n
    by (simp flip: concat_append)
  ultimately show ?thesis by (metis append.assoc concat_append prefixI)
qed

lemma empty_pool_delivered:
  assumes "sys_reach s" and "sys_bounded s" and "sendPool (ep s p) = Map.empty"
  shows "unat (recvNO (ep s (\<not> p))) = length (wr s p)"
proof -
  let ?b = "ep s (\<not> p)"
  have b: "unat (recvNO ?b) \<le> length (wr s p)" "drained ?b"
    using reach_invs(3,4) [OF assms(1,2), of "\<not> p"] by (simp_all add: receiver_inv_def)
  have n: "unat (sentNO (ep s p)) = length (wr s p)"
    using reach_invs(2) [OF assms(1,2), of p] by (simp add: sender_inv_def)
  have "nck_sound ?b (wr s p) (sentNO (ep s p)) []"
    using reach_invs(5) [OF assms(1,2), of p] assms(3) n by (auto simp: link_inv_def nck_sound_def)
  from ack_le_recvNO [OF this b(2,1) reach_invs(7) [OF assms(1,2)]]
  show ?thesis using b(1) n by (simp add: word_le_nat_alt)
qed

text \<open>The loop of \<open>recvData\<close> returns when the channel has room for the pooled frames.\<close>
lemma drain_returns:
  assumes "receiver_inv c w r" and "length w < 2 ^ 32 - 1"
    and "\<forall>k. recvPool c k \<noteq> None \<longrightarrow> unat k \<le> N" and "length (inbound c) + N \<le> inbound_cap + unat (recvNO c)"
  shows "drain c \<noteq> None"
  using assms
proof (induction "length w - unat (recvNO c)" arbitrary: c rule: less_induct)
  case less
  show ?case
  proof (cases "recvPool c (recvNO c + 1)")
    case None
    then show ?thesis by (simp add: drain.simps [of c])
  next
    case (Some k)
    let ?c = "c\<lparr>recvPool := (recvPool c)(recvNO c := None), inbound := inbound c @ [k], recvNO := recvNO c + 1\<rparr>"
    have le: "unat (recvNO c) \<le> length w" using less.prems(1) by (simp add: receiver_inv_def)
    have k: "unat (recvNO c + 1) \<le> length w" "k = frame_no w (recvNO c + 1)"
      using less.prems(1) Some by (auto simp: receiver_inv_def)
    note suc = bounded_Suc [OF le less.prems(2)]
    have N: "unat (recvNO c + 1) \<le> N" using less.prems(3) Some by auto
    have "receiver_inv ?c w r"
      using k suc by (intro receiver_inv_deliver [OF less.prems(1) _ less.prems(2)] map_le_del) simp_all
    then have "drain ?c \<noteq> None"
      using less.prems(2-) k suc N by (intro less.hyps) auto
    moreover have "length (inbound c) < inbound_cap" using less.prems(4) N suc by linarith
    ultimately show ?thesis using Some by (simp add: drain.simps [of c])
  qed
qed

text \<open>The packet handler returns on every packet of the network when the channels have room.\<close>
definition has_room :: "rdtConn \<Rightarrow> bool" where
  "has_room c \<longleftrightarrow> length (inbound c) + 2 * unat (window c) + 1 \<le> inbound_cap \<and>
     length (nckQuery c) < nck_cap \<and> length (nckCh c) < nck_cap"

lemma recvData_returns:
  assumes inv: "receiver_inv c w r" and snd: "link_inv a c w" "sender_inv a w ap"
    and par: "params_ok a" "params_ok c" and w: "length w < 2 ^ 32 - 1"
    and no: "unat no \<le> length w" "d = frame_no w no" and room: "has_room c"
  shows "recvData c no d \<noteq> None"
proof -
  have le: "unat (recvNO c) \<le> length w" using inv by (simp add: receiver_inv_def)
  note suc = bounded_Suc [OF le w]
  have nck: "sendNCK c k \<noteq> None" if "unat k \<le> length w" for k
    using sendNCK_sound [OF inv snd par that w] by auto
  have m: "sendNCK c (min (recvNO c + window c) no) \<noteq> None"
  proof (rule nck)
    have "min (recvNO c + window c) no \<le> no" by simp
    then show "unat (min (recvNO c + window c) no) \<le> length w"
      using no(1) unfolding word_le_nat_alt by linarith
  qed
  have far: "sendNCK c (recvNO c + window c) \<noteq> None"
    if "\<not> no \<le> recvNO c" "window c * 2 < no - recvNO c"
    using that by (intro nck far_bound [OF par(2) _ _ no(1)]) simp_all
  have dl: "deliver c d \<noteq> None" if "no = recvNO c + 1"
  proof -
    let ?c = "c\<lparr>inbound := inbound c @ [d], recvNO := recvNO c + 1\<rparr>"
    have c: "?c = c\<lparr>recvPool := recvPool c, inbound := inbound c @ [d], recvNO := recvNO c + 1\<rparr>" by simp
    have "unat (recvNO c) < length w" using that no(1) suc by simp
    then have "receiver_inv ?c w r"
      unfolding c using that no by (intro receiver_inv_deliver [OF inv _ w]) simp_all
    then have "drain ?c \<noteq> None"
      using inv room suc by (intro drain_returns [OF _ w, of _ r "unat (recvNO c) + 2 * unat (window c)"])
        (auto simp: receiver_inv_def has_room_def)
    then show ?thesis using room by (simp add: deliver_def has_room_def)
  qed
  show ?thesis
    using m far dl unfolding recvData_def by (auto split: bind_splits)
qed

lemma recv_returns:
  assumes reach: "sys_reach s" and bnd: "sys_bounded s" and pkt: "pkt \<in> net s (\<not> p)" and room: "has_room (ep s p)"
  shows "recv (ep s p) n (GSlice (take 1500 (strip_dir pkt)) sp) \<noteq> None"
proof -
  note P = reach_invs [OF reach bnd, of p] and N = reach_invs [OF reach bnd, of "\<not> p", unfolded not_not]
  from pkt N(6) obtain m where m: "pkt = enc (is_server (ep s (\<not> p))) m"
    "msg_ok (ep s (\<not> p)) (wr s (\<not> p)) (wr s p) m" by (auto simp: out_ok_def)
  with N(1,2) have "msg_size m \<le> nat (frameSize (ep s (\<not> p)))" "frameSize (ep s (\<not> p)) \<le> 1493"
    using msg_size_ok by (blast, simp add: params_ok_def)
  then have "recv (ep s p) n (GSlice (take 1500 (strip_dir pkt)) sp) = recv_msg (ep s p) m"
    by (simp add: m(1) recv_enc)
  moreover have "recv_msg (ep s p) m \<noteq> None"
  proof (cases m)
    case (MData no d)
    with m(2) show ?thesis
      using recvData_returns [OF P(3) N(5,2,1) P(1) N(7) _ _ room] by simp
  qed (use room in \<open>auto simp: recvQuery_def recvNCK_def Let_def has_room_def\<close>)
  ultimately show ?thesis by simp
qed

end
