(* ===== verification/Rdt_Correct.thy ===== *)
theory Rdt_Correct
  imports Rdt_Protocol
begin

text \<open>
  The correctness theorems of the reliable data transfer protocol: in-order exactly-once delivery, its
  refinement of two byte streams, retention of unacknowledged frames, progress of the packet handler,
  and the parked retransmission loop; with a concrete run that reaches the states of the witnesses.
\<close>

section \<open>A run with a lost frame\<close>

text \<open>
  A client writes five bytes with a frame size of four and a window of one frame. The first frame
  is delivered, read and acknowledged; the second one is sent and lost.
\<close>

definition demo_cfg :: rdt_config where
  "demo_cfg = \<lparr>MTU = 11, Interval = 100, StatsServerListen = []\<rparr>"

definition demo0 :: sys where "demo0 = sys_init demo_cfg demo_cfg"
definition demo1 :: sys where
  "demo1 = upd False ((ep demo0 False)\<lparr>w_pend := [[1, 2, 3, 4], [5]], w_wait := False\<rparr>) [] [1, 2, 3, 4, 5] [] [] demo0"
definition demo2 :: sys where
  "demo2 = upd False ((ep demo1 False)\<lparr>sendPool := [1 \<mapsto> enc False (MData 1 [1, 2, 3, 4])], sentNO := 1, w_pend := [[5]]\<rparr>)
     [enc False (MData 1 [1, 2, 3, 4])] [] [[1, 2, 3, 4]] [] demo1"
definition demo3 :: sys where
  "demo3 = upd True ((ep demo2 True)\<lparr>inbound := [[1, 2, 3, 4]], recvNO := 1\<rparr>) [enc True (MNck 1 [1])] [] [] [] demo2"
definition demo4 :: sys where
  "demo4 = upd True ((ep demo3 True)\<lparr>inbound := [], inboundBuf := None\<rparr>) [] [] [] [1, 2, 3, 4] demo3"
definition demo5 :: sys where
  "demo5 = upd False (ep demo4 False) [enc False (MQuery 1)] [] [] [] demo4"
definition demo6 :: sys where
  "demo6 = upd True ((ep demo5 True)\<lparr>nckQuery := [1]\<rparr>) [] [] [] [] demo5"
definition demo7 :: sys where
  "demo7 = upd True ((ep demo6 True)\<lparr>nckQuery := []\<rparr>) [enc True (MNck 1 [])] [] [] [] demo6"
definition demo8 :: sys where
  "demo8 = upd False ((ep demo7 False)\<lparr>ackNO := 1, nckCh := [\<lparr>nck_no = 1, nck_missing = []\<rparr>]\<rparr>) [] [] [] [] demo7"
definition demo9 :: sys where
  "demo9 = upd False ((ep demo8 False)\<lparr>nckCh := [], sendPool := Map.empty,
     nck_parked := True\<rparr>) [] [] [] [] demo8"
definition demo10 :: sys where
  "demo10 = upd False ((ep demo9 False)\<lparr>sendPool := (sendPool (ep demo9 False))(2 \<mapsto> enc False (MData 2 [5])), sentNO := 2, w_pend := []\<rparr>)
     [enc False (MData 2 [5])] [] [[5]] [] demo9"

lemma demo_init [simp]:
  "ep demo0 p = (newConn demo_cfg)\<lparr>is_server := p\<rparr>"
  "net demo0 p = {}" "app demo0 p = []" "wr demo0 p = []" "rd demo0 p = []"
  by (simp_all add: demo0_def sys_init_def newConn_def)

lemma demo_newConn [simp]:
  "is_server (newConn cfg) = False" "chans_closed (newConn cfg) = False" "fin_chans_closed (newConn cfg) = False"
  "inbound (newConn cfg) = []" "nckCh (newConn cfg) = []" "nckQuery (newConn cfg) = []"
  "inboundBuf (newConn cfg) = None" "recvNO (newConn cfg) = 0" "sentNO (newConn cfg) = 0"
  "ackNO (newConn cfg) = 0" "recvPool (newConn cfg) = Map.empty" "sendPool (newConn cfg) = Map.empty"
  "cstate (newConn cfg) = 0" "nck_parked (newConn cfg) = False" "w_wait (newConn cfg) = False"
  "w_pend (newConn cfg) = []" "window (newConn demo_cfg) = 1" "frameSize (newConn demo_cfg) = 4"
  by (simp_all add: newConn_def conn_state_defs demo_cfg_def go_div_def)

lemma demo1_state [simp]:
  "ep demo1 False = (newConn demo_cfg)\<lparr>w_pend := [[1, 2, 3, 4], [5]]\<rparr>"
  "ep demo1 True = (newConn demo_cfg)\<lparr>is_server := True\<rparr>"
  "app demo1 False = [1, 2, 3, 4, 5]" "app demo1 True = []"
  "wr demo1 False = []" "wr demo1 True = []" "rd demo1 False = []" "rd demo1 True = []"
  by (simp_all add: demo1_def newConn_def del: enc.simps)

lemma demo2_state [simp]:
  "ep demo2 False = (newConn demo_cfg)\<lparr>sendPool := [1 \<mapsto> enc False (MData 1 [1, 2, 3, 4])], sentNO := 1, w_pend := [[5]]\<rparr>"
  "ep demo2 True = (newConn demo_cfg)\<lparr>is_server := True\<rparr>"
  "app demo2 False = [1, 2, 3, 4, 5]" "app demo2 True = []"
  "wr demo2 False = [[1, 2, 3, 4]]" "wr demo2 True = []" "rd demo2 False = []" "rd demo2 True = []"
  by (simp_all add: demo2_def newConn_def del: enc.simps)

lemma demo3_state [simp]:
  "ep demo3 False = (newConn demo_cfg)\<lparr>sendPool := [1 \<mapsto> enc False (MData 1 [1, 2, 3, 4])], sentNO := 1, w_pend := [[5]]\<rparr>"
  "ep demo3 True = (newConn demo_cfg)\<lparr>is_server := True, inbound := [[1, 2, 3, 4]], recvNO := 1\<rparr>"
  "app demo3 False = [1, 2, 3, 4, 5]" "app demo3 True = []"
  "wr demo3 False = [[1, 2, 3, 4]]" "wr demo3 True = []" "rd demo3 False = []" "rd demo3 True = []"
  by (simp_all add: demo3_def newConn_def del: enc.simps)

lemma demo4_state [simp]:
  "ep demo4 False = (newConn demo_cfg)\<lparr>sendPool := [1 \<mapsto> enc False (MData 1 [1, 2, 3, 4])], sentNO := 1, w_pend := [[5]]\<rparr>"
  "ep demo4 True = (newConn demo_cfg)\<lparr>is_server := True, recvNO := 1\<rparr>"
  "app demo4 False = [1, 2, 3, 4, 5]" "app demo4 True = []"
  "wr demo4 False = [[1, 2, 3, 4]]" "wr demo4 True = []" "rd demo4 False = []" "rd demo4 True = [1, 2, 3, 4]"
  by (simp_all add: demo4_def newConn_def del: enc.simps)

lemma demo5_state [simp]:
  "ep demo5 False = (newConn demo_cfg)\<lparr>sendPool := [1 \<mapsto> enc False (MData 1 [1, 2, 3, 4])], sentNO := 1, w_pend := [[5]]\<rparr>"
  "ep demo5 True = (newConn demo_cfg)\<lparr>is_server := True, recvNO := 1\<rparr>"
  "app demo5 False = [1, 2, 3, 4, 5]" "app demo5 True = []"
  "wr demo5 False = [[1, 2, 3, 4]]" "wr demo5 True = []" "rd demo5 False = []" "rd demo5 True = [1, 2, 3, 4]"
  by (simp_all add: demo5_def newConn_def del: enc.simps)

lemma demo6_state [simp]:
  "ep demo6 False = (newConn demo_cfg)\<lparr>sendPool := [1 \<mapsto> enc False (MData 1 [1, 2, 3, 4])], sentNO := 1, w_pend := [[5]]\<rparr>"
  "ep demo6 True = (newConn demo_cfg)\<lparr>is_server := True, nckQuery := [1], recvNO := 1\<rparr>"
  "app demo6 False = [1, 2, 3, 4, 5]" "app demo6 True = []"
  "wr demo6 False = [[1, 2, 3, 4]]" "wr demo6 True = []" "rd demo6 False = []" "rd demo6 True = [1, 2, 3, 4]"
  by (simp_all add: demo6_def newConn_def del: enc.simps)

lemma demo7_state [simp]:
  "ep demo7 False = (newConn demo_cfg)\<lparr>sendPool := [1 \<mapsto> enc False (MData 1 [1, 2, 3, 4])], sentNO := 1, w_pend := [[5]]\<rparr>"
  "ep demo7 True = (newConn demo_cfg)\<lparr>is_server := True, recvNO := 1\<rparr>"
  "app demo7 False = [1, 2, 3, 4, 5]" "app demo7 True = []"
  "wr demo7 False = [[1, 2, 3, 4]]" "wr demo7 True = []" "rd demo7 False = []" "rd demo7 True = [1, 2, 3, 4]"
  by (simp_all add: demo7_def newConn_def del: enc.simps)

lemma demo8_state [simp]:
  "ep demo8 False = (newConn demo_cfg)\<lparr>sendPool := [1 \<mapsto> enc False (MData 1 [1, 2, 3, 4])], sentNO := 1, w_pend := [[5]], ackNO := 1, nckCh := [\<lparr>nck_no = 1, nck_missing = []\<rparr>]\<rparr>"
  "ep demo8 True = (newConn demo_cfg)\<lparr>is_server := True, recvNO := 1\<rparr>"
  "app demo8 False = [1, 2, 3, 4, 5]" "app demo8 True = []"
  "wr demo8 False = [[1, 2, 3, 4]]" "wr demo8 True = []" "rd demo8 False = []" "rd demo8 True = [1, 2, 3, 4]"
  by (simp_all add: demo8_def newConn_def del: enc.simps)

lemma demo9_state [simp]:
  "ep demo9 False = (newConn demo_cfg)\<lparr>sentNO := 1, w_pend := [[5]], ackNO := 1, nck_parked := True\<rparr>"
  "ep demo9 True = (newConn demo_cfg)\<lparr>is_server := True, recvNO := 1\<rparr>"
  "app demo9 False = [1, 2, 3, 4, 5]" "app demo9 True = []"
  "wr demo9 False = [[1, 2, 3, 4]]" "wr demo9 True = []" "rd demo9 False = []" "rd demo9 True = [1, 2, 3, 4]"
  by (simp_all add: demo9_def newConn_def del: enc.simps)

lemma demo10_state [simp]:
  "ep demo10 False = (newConn demo_cfg)\<lparr>sendPool := [2 \<mapsto> enc False (MData 2 [5])], sentNO := 2, ackNO := 1, nck_parked := True\<rparr>"
  "ep demo10 True = (newConn demo_cfg)\<lparr>is_server := True, recvNO := 1\<rparr>"
  "app demo10 False = [1, 2, 3, 4, 5]" "app demo10 True = []"
  "wr demo10 False = [[1, 2, 3, 4], [5]]" "wr demo10 True = []" "rd demo10 False = []" "rd demo10 True = [1, 2, 3, 4]"
  by (simp_all add: demo10_def newConn_def del: enc.simps)

lemma demo_nets [simp]:
  "enc False (MData 1 [1, 2, 3, 4]) \<in> net demo2 False"
  "enc False (MQuery 1) \<in> net demo5 False"
  "enc True (MNck 1 []) \<in> net demo7 True"
  by (simp_all add: demo2_def demo5_def demo7_def del: enc.simps)

lemma demo_recv:
  assumes "enc srv m \<in> net s (\<not> p)" "msg_size m \<le> 1493" "recv_msg (ep s p) m = Some (c, out)"
  shows "sys_step s (upd p c out [] [] [] s)"
proof (rule st_recv [OF assms(1)])
  show "7 \<le> length (enc srv m)" by (simp add: length_enc)
  show "recv (ep s p) 0 (GSlice (take 1500 (strip_dir (enc srv m))) []) = Some (c, out)"
    unfolding recv_enc [OF assms(2)] by (rule assms(3))
qed

lemma demo_write:
  assumes "w_pend (ep s p) = d # ds" and "\<not> w_wait (ep s p)" and "card (dom (sendPool (ep s p))) < unat (window (ep s p))"
    and "is_server (ep s p) = p" and "no = sentNO (ep s p) + 1"
  shows "sys_step s (upd p ((ep s p)\<lparr>sendPool := (sendPool (ep s p))(no \<mapsto> enc p (MData no d)), sentNO := no, w_pend := ds\<rparr>)
    [enc p (MData no d)] [] [d] [] s)"
proof -
  have "\<not> pool_full (ep s p)" using assms(3) unfolding pool_full_def of_nat_le_iff by simp
  then have "write_step (ep s p) = Some ((ep s p)\<lparr>sendPool := (sendPool (ep s p))(no \<mapsto> enc p (MData no d)),
      sentNO := no, w_pend := ds\<rparr>, [enc p (MData no d)])"
    using assms by (simp add: write_step_def write_frame_def Let_def)
  from st_write [OF assms(1) this] show ?thesis by simp
qed

lemma demo_scans [simp]:
  "nck_scan Map.empty 1 1 [] = Some [1]" "nck_scan Map.empty 2 1 [] = Some []"
  by (simp_all add: nck_scan_returns missing_nos_def)

lemma demo_drain [simp]: "recvPool c = Map.empty \<Longrightarrow> drain c = Some c"
  by (simp add: drain.simps [of c])

lemma demo_acked [simp]:
  "(\<lambda>j::u32. if j \<le> 1 then None else if j = 1 then Some x else None) = Map.empty"
  by auto

lemma demo_step1: "sys_step demo0 demo1"
  unfolding demo1_def by (rule st_call) (simp_all add: write_call_def write_chunks_def upt_rec)

lemma demo_step2: "sys_step demo1 demo2"
  using demo_write [of demo1 False "[1, 2, 3, 4]" "[[5]]" 1] by (simp add: demo2_def del: enc.simps)

lemma demo_step3: "sys_step demo2 demo3"
  unfolding demo3_def
  by (rule demo_recv [of False "MData 1 [1, 2, 3, 4]"])
      (simp_all add: recvData_def conn_state_defs sendNCK_def
        deliver_def inbound_cap_def del: enc.simps(1,2))

lemma demo_step4: "sys_step demo3 demo4"
  unfolding demo4_def
  by (rule st_read [of _ _ 10 CaseInbound])
      (simp add: Read_def read_copy_def)

lemma demo_step5: "sys_step demo4 demo5"
  unfolding demo5_def
  by (rule st_check) (simp add: checkLoop_def askNCK_def)

lemma demo_step6: "sys_step demo5 demo6"
  unfolding demo6_def
  by (rule demo_recv [of False "MQuery 1"])
      (simp_all add: recvQuery_def nck_cap_def del: enc.simps)

lemma demo_step7: "sys_step demo6 demo7"
  unfolding demo7_def
  by (rule st_query) (simp add: nckQueryLoop_def sendNCK_def)

lemma demo_step8: "sys_step demo7 demo8"
  unfolding demo8_def
  by (rule demo_recv [of True "MNck 1 []"])
      (simp_all add: recvNCK_def nck_cap_def del: enc.simps)

lemma demo_step9: "sys_step demo8 demo9"
  unfolding demo9_def
  by (rule st_nck) (simp add: nckLoop_def resend_def cong: if_cong)

lemma demo_step10: "sys_step demo9 demo10"
  using demo_write [of demo9 False "[5]" "[]" 2]
  by (simp add: demo10_def del: enc.simps)

lemmas demo_steps = demo_step1 demo_step2 demo_step3 demo_step4 demo_step5 demo_step6 demo_step7 demo_step8 demo_step9 demo_step10

lemma demo_reach: "sys_reach demo4" "sys_reach demo10"
proof -
  have "sys_reach demo0" unfolding demo0_def by (rule reach_init) (simp_all add: demo_cfg_def)
  then show "sys_reach demo4" using demo_steps(1-4) by (meson reach_step)
  then show "sys_reach demo10" using demo_steps(5-10) by (meson reach_step)
qed

section \<open>The parked retransmission loop\<close>

definition is_data :: "bytes \<Rightarrow> bool" where
  "is_data pkt \<longleftrightarrow> pkt \<noteq> [] \<and> hd (strip_dir pkt) = 0"

text \<open>Runs in which party \<open>p\<close> gets no more bytes from the application.\<close>
inductive quiet_run :: "bool \<Rightarrow> sys \<Rightarrow> sys \<Rightarrow> bool" for p where
  quiet_refl: "quiet_run p s s"
| quiet_next: "quiet_run p s s' \<Longrightarrow> sys_step s' s'' \<Longrightarrow> app s'' p = app s' p \<Longrightarrow> quiet_run p s s''"

definition stuck :: "rdtConn \<Rightarrow> (u32 \<rightharpoonup> bytes) \<Rightarrow> bool" where
  "stuck c pool \<longleftrightarrow> nck_parked c \<and> w_pend c = [] \<and> sendPool c = pool"

lemma not_data_build: "cmd \<in> {1, 2} \<Longrightarrow> \<not> is_data (mark_dir srv (buildFrame cmd no l d))"
  by (auto simp: is_data_def strip_mark_frame) (simp_all add: buildFrame_def)

lemma not_data_nck: "sendNCK c no = Some out \<Longrightarrow> x \<in> set out \<Longrightarrow> \<not> is_data x"
  by (auto simp: sendNCK_def Let_def not_data_build split: option.splits if_splits)

lemma drain_part: "drain c = Some c' \<Longrightarrow> recv_part c c'"
proof (erule drain.raw_induct [rotated, where P = recv_part])
  fix dr c c'
  assume IH: "\<And>c c'. dr c = Some c' \<Longrightarrow> recv_part c c'"
    and eq: "(case recvPool c (recvNO c + 1) of None \<Rightarrow> Some c
        | Some k \<Rightarrow> if length (inbound c) < inbound_cap
            then dr (c\<lparr>recvPool := (recvPool c)(recvNO c := None), inbound := inbound c @ [k], recvNO := recvNO c + 1\<rparr>)
            else None) = Some c'"
  show "recv_part c c'"
  proof (cases "recvPool c (recvNO c + 1)")
    case None
    with eq show ?thesis by simp
  next
    case (Some k)
    let ?c = "c\<lparr>recvPool := (recvPool c)(recvNO c := None), inbound := inbound c @ [k], recvNO := recvNO c + 1\<rparr>"
    from eq Some have "dr ?c = Some c'" by (simp split: if_splits)
    from IH [OF this] obtain i n m where "c' = ?c\<lparr>recvPool := m, inbound := i, recvNO := n\<rparr>"
      by (auto simp: recv_part_def)
    then have "c' = c\<lparr>recvPool := m, inbound := i, recvNO := n\<rparr>" by simp
    then show ?thesis unfolding recv_part_def by blast
  qed
qed

lemma stuck_recv_part: "recv_part c c' \<Longrightarrow> stuck c pool \<Longrightarrow> stuck c' pool"
  by (auto simp: recv_part_def stuck_def)

lemma stuck_deliver:
  assumes "deliver c d = Some c'" and "stuck c pool"
  shows "stuck c' pool"
proof (rule stuck_recv_part)
  show "recv_part (c\<lparr>inbound := inbound c @ [d], recvNO := recvNO c + 1\<rparr>) c'"
    using assms(1) by (auto simp: deliver_def drain_part split: if_splits)
qed (use assms(2) in \<open>simp add: stuck_def\<close>)

lemma recvData_cases:
  assumes "recvData c no d = Some (c', out)"
  shows "(c' = c \<or> deliver c d = Some c' \<or> c' = c\<lparr>recvPool := (recvPool c)(no \<mapsto> d)\<rparr>) \<and>
    (\<forall>x\<in>set out. \<exists>k o1. sendNCK c k = Some o1 \<and> x \<in> set o1)"
  using assms unfolding recvData_def
  by (simp split: if_splits bind_splits) (blast | fastforce)+

lemma stuck_recv_msg:
  assumes "recv_msg c m = Some (c', out)" and "stuck c pool"
  shows "stuck c' pool \<and> (\<forall>x\<in>set out. \<not> is_data x)"
proof (cases m)
  case (MData no d)
  with assms(1) have run: "recvData c no d = Some (c', out)" by simp
  note rc = recvData_cases [OF run]
  have "stuck (c\<lparr>recvPool := (recvPool c)(no \<mapsto> d)\<rparr>) pool" using assms(2) by (simp add: stuck_def)
  with rc assms(2) have "stuck c' pool" using stuck_deliver by blast
  with rc show ?thesis using not_data_nck by blast
next
  case (MQuery q)
  with assms show ?thesis by (auto simp: recvQuery_def stuck_def split: if_splits)
next
  case (MNck no xs)
  with assms show ?thesis by (auto simp: recvNCK_def Let_def stuck_def split: if_splits)
qed

lemma stuck_step:
  assumes step: "sys_step s s'" and reach: "sys_reach s" and bnd: "sys_bounded s"
    and stuck: "stuck (ep s p) pool" and quiet: "app s' p = app s p"
  shows "stuck (ep s' p) pool \<and> {x \<in> net s' p. is_data x} = {x \<in> net s p. is_data x}"
  using step
proof cases
  case (st_call q b c)
  show ?thesis
  proof (cases "q = p")
    case True
    with st_call quiet have "b = []" by simp
    with True st_call stuck show ?thesis
      by (auto simp: write_call_def stuck_def write_chunks_def split: if_splits)
  next
    case False
    with st_call stuck show ?thesis by simp
  qed
next
  case (st_write q d ds c out)
  with stuck show ?thesis by (cases "q = p") (auto simp: stuck_def)
next
  case (st_recv pkt q n sp c out)
  show ?thesis
  proof (cases "q = p")
    case True
    note N = reach_invs [OF reach bnd, of "\<not> q", unfolded not_not]
    from st_recv(2) N(6) obtain m where m: "pkt = enc (is_server (ep s (\<not> q))) m"
      "msg_ok (ep s (\<not> q)) (wr s (\<not> q)) (wr s q) m" by (auto simp: out_ok_def)
    with N(1,2) have "msg_size m \<le> nat (frameSize (ep s (\<not> q)))" "frameSize (ep s (\<not> q)) \<le> 1493"
      using msg_size_ok by (blast, simp add: params_ok_def)
    then have "recv_msg (ep s q) m = Some (c, out)" using st_recv(4) by (simp add: m(1) recv_enc)
    from stuck_recv_msg [OF this] stuck True st_recv(1) show ?thesis by auto
  next
    case False
    with st_recv stuck show ?thesis by simp
  qed
next
  case (st_nck q c out)
  with stuck show ?thesis by (cases "q = p") (auto simp: stuck_def nckLoop_def)
next
  case (st_query q c out)
  show ?thesis
  proof (cases "q = p")
    case True
    with st_query stuck show ?thesis
      by (auto simp: nckQueryLoop_def stuck_def dest: not_data_nck split: list.splits)
  next
    case False
    with st_query stuck show ?thesis by simp
  qed
next
  case (st_check q out)
  with stuck show ?thesis
    by (cases "q = p") (auto simp: checkLoop_def askNCK_def not_data_build split: if_splits)
next
  case (st_read q n sel c b)
  show ?thesis
  proof (cases "q = p")
    case True
    with st_read stuck show ?thesis
      by (auto simp: Read_def read_copy_def stuck_def
          split: option.splits read_case.splits list.splits if_splits)
  next
    case False
    with st_read stuck show ?thesis by simp
  qed
qed

lemma quiet_run_stuck:
  assumes "quiet_run p s s'" and "sys_reach s" and "sys_bounded s'" and "stuck (ep s p) pool"
  shows "sys_reach s' \<and> stuck (ep s' p) pool \<and> {x \<in> net s' p. is_data x} = {x \<in> net s p. is_data x}"
  using assms
proof (induction rule: quiet_run.induct)
  case (quiet_refl s)
  then show ?case by simp
next
  case (quiet_next s s' s'')
  then have "sys_bounded s'" using sys_bounded_back by blast
  with quiet_next have IH: "sys_reach s'" "stuck (ep s' p) pool" "{x \<in> net s' p. is_data x} = {x \<in> net s p. is_data x}"
    by blast+
  have "sys_reach s''" by (rule reach_step [OF IH(1) quiet_next(2)])
  with stuck_step [OF quiet_next(2) IH(1) \<open>sys_bounded s'\<close> IH(2) quiet_next(3)] IH(3) show ?case by simp
qed

section \<open>Abstract specification: two reliable byte streams\<close>

record fifo =
  sent :: "bool \<Rightarrow> bytes"
  got :: "bool \<Rightarrow> bytes"

definition fifo_of :: "sys \<Rightarrow> fifo" where
  "fifo_of s = \<lparr>sent = app s, got = rd s\<rparr>"

inductive fifo_step :: "fifo \<Rightarrow> fifo \<Rightarrow> bool" where
  fifo_idle: "fifo_step f f"
| fifo_send: "fifo_step f (f\<lparr>sent := (sent f)(p := sent f p @ b)\<rparr>)"
| fifo_recv: "prefix (got f p @ b) (sent f (\<not> p)) \<Longrightarrow> fifo_step f (f\<lparr>got := (got f)(p := got f p @ b)\<rparr>)"

lemma fifo_of_upd:
  "fifo_of (upd p c out a [] [] s) = (fifo_of s)\<lparr>sent := (sent (fifo_of s))(p := sent (fifo_of s) p @ a)\<rparr>"
  "fifo_of (upd p c out [] e [] s) = fifo_of s"
  "fifo_of (upd p c out [] [] r s) = (fifo_of s)\<lparr>got := (got (fifo_of s))(p := got (fifo_of s) p @ r)\<rparr>"
  by (simp_all add: fifo_of_def upd_def)

section \<open>Properties\<close>

lemma demo_unreceived: "\<not> received (ep demo10 True) 2"
  by (simp add: received_def word_le_nat_alt)


lemma demo_bounded: "sys_bounded demo4" "sys_bounded demo10"
  by (simp_all add: sys_bounded_def all_bool_eq)






text \<open>Completeness: when the send pool of one side is empty and no \<open>Write\<close> is in progress, every
  byte written has reached the other side: it was read or waits in the receive buffers, in order.\<close>
theorem rdt_empty_pool_all_delivered:
  assumes "sys_reach s" and "sys_bounded s" and "sendPool (ep s p) = Map.empty" and "w_pend (ep s p) = []"
  shows "rd s (\<not> p) @ in_hand (ep s (\<not> p)) = app s p"
proof -
  have "rd s (\<not> p) @ in_hand (ep s (\<not> p)) = concat (take (unat (recvNO (ep s (\<not> p)))) (wr s p))"
    using reach_invs(3) [OF assms(1,2), of "\<not> p"] by (simp add: receiver_inv_def)
  also have "\<dots> = concat (wr s p)" by (simp add: empty_pool_delivered [OF assms(1-3)])
  also have "\<dots> = app s p"
    using reach_invs(2) [OF assms(1,2), of p] assms(4) by (simp add: sender_inv_def)
  finally show ?thesis .
qed

theorem rdt_empty_pool_all_delivered_witness:
  "sendPool (ep demo4 True) = Map.empty \<and> rd demo4 False @ in_hand (ep demo4 False) = app demo4 True"
proof -
  have "sendPool (ep demo4 True) = Map.empty" "w_pend (ep demo4 True) = []"
    by simp_all
  with rdt_empty_pool_all_delivered [OF demo_reach(1) demo_bounded(1), of True] show ?thesis by simp
qed

text \<open>C35. The packet handler returns on every packet of the network, without a panic or an endless
  scan, when the receiving channels have room for what the packet can release.\<close>
theorem rdt_recv_returns:
  assumes "sys_reach s" and "sys_bounded s" and "pkt \<in> net s (\<not> p)" and "has_room (ep s p)"
  shows "\<exists>c out. recv (ep s p) n (GSlice (take 1500 (strip_dir pkt)) sp) = Some (c, out)"
  using recv_returns [OF assms] by fastforce

theorem rdt_recv_returns_witness:
  "\<exists>c out. recv (ep demo10 True) 0 (GSlice (take 1500 (strip_dir (enc False (MData 2 [5])))) []) = Some (c, out)"
proof (rule rdt_recv_returns [OF demo_reach(2) demo_bounded(2)])
  show "enc False (MData 2 [5]) \<in> net demo10 (\<not> True)" by (simp add: demo10_def del: enc.simps)
  show "has_room (ep demo10 True)"
    by (simp add: has_room_def inbound_cap_def nck_cap_def)
qed



text \<open>The parked retransmission loop: once \<open>runNCKLoop\<close> stands at its send on the unbuffered
  \<open>sendEvent\<close> and no \<open>Write\<close> is in progress, the side sends no data packet again, whatever NCKs and
  queries arrive, until the application writes more: frames of the send pool whose transmissions are
  lost stay lost. The state of the witness is reachable, with a frame the peer does not have.\<close>
theorem rdt_parked_sender_never_resends:
  assumes "sys_reach s" and "nck_parked (ep s p)" and "w_pend (ep s p) = []"
    and "quiet_run p s s'" and "sys_bounded s'"
  shows "{x \<in> net s' p. is_data x} = {x \<in> net s p. is_data x} \<and> sendPool (ep s' p) = sendPool (ep s p)"
  using quiet_run_stuck [OF assms(4,1,5), of "sendPool (ep s p)"] assms(2,3) by (simp add: stuck_def)

theorem rdt_parked_sender_never_resends_witness:
  "sys_reach demo10 \<and> sendPool (ep demo10 False) 2 \<noteq> None \<and> \<not> received (ep demo10 True) 2 \<and>
   (\<exists>s'. sys_step demo10 s' \<and> {x \<in> net s' False. is_data x} = {x \<in> net demo10 False. is_data x})"
proof -
  let ?s = "upd False (ep demo10 False) (askNCK (ep demo10 False) 2) [] [] [] demo10"
  have step: "sys_step demo10 ?s"
    by (rule st_check) (simp add: checkLoop_def)
  have "quiet_run False demo10 ?s" by (rule quiet_next [OF quiet_refl step]) simp
  moreover have "sys_bounded ?s" by (simp add: sys_bounded_def all_bool_eq)
  moreover have "nck_parked (ep demo10 False)" "w_pend (ep demo10 False) = []" by simp_all
  ultimately have "{x \<in> net ?s False. is_data x} = {x \<in> net demo10 False. is_data x}"
    using rdt_parked_sender_never_resends [OF demo_reach(2), of False ?s] by blast
  moreover have "sendPool (ep demo10 False) 2 \<noteq> None" by simp
  ultimately show ?thesis using demo_reach(2) demo_unreceived step by blast
qed

text \<open>A query for the largest number never returns: the scan of \<open>sendNCK\<close> counts a 32-bit variable
  up to a bound no 32-bit number exceeds. A peer that sends query or FIN number 4294967295 stops the
  query loop (or, for FIN, the packet handler of the listener) for good.\<close>
theorem sendNCK_max_never_returns: "sendNCK c (- 1) = None"
  by (simp add: sendNCK_def nck_scan_diverges)

text \<open>Segmentation: \<open>Write\<close> cuts its argument into non-empty frames of at most the frame size whose
  concatenation is the argument.\<close>
theorem write_chunks_partition:
  assumes "0 < fs"
  shows "concat (write_chunks fs b) = b \<and> (\<forall>d\<in>set (write_chunks fs b). d \<noteq> [] \<and> length d \<le> nat fs)"
proof -
  have "take (min (nat fs) (length b - i * nat fs)) (drop (i * nat fs) b) \<noteq> []"
    if "i < (length b + nat fs - 1) div nat fs" for i
  proof -
    have "Suc i * nat fs \<le> length b + nat fs - 1"
      using that assms by (simp only: less_eq_div_iff_mult_less_eq flip: Suc_le_eq)
    then have "i * nat fs < length b" using assms by simp
    with assms show ?thesis by simp
  qed
  moreover have "write_chunks fs b = map (\<lambda>i. take (min (nat fs) (length b - i * nat fs)) (drop (i * nat fs) b))
      [0..<(length b + nat fs - 1) div nat fs]"
    using assms by (simp add: write_chunks_def)
  ultimately have "\<forall>d\<in>set (write_chunks fs b). d \<noteq> []"
    by (metis (no_types, lifting) atLeastLessThan_iff image_iff list.set_map set_upt)
  then show ?thesis using assms concat_write_chunks length_write_chunks by blast
qed

theorem write_chunks_partition_witness:
  "write_chunks 4 [1, 2, 3, 4, 5] = [[1, 2, 3, 4], [5]] \<and> concat (write_chunks 4 [1, 2, 3, 4, 5]) = [1, 2, 3, 4, 5]"
  using write_chunks_partition [of 4 "[1, 2, 3, 4, 5]"] by (simp add: write_chunks_def upt_rec)

text \<open>The loop of \<open>recvData\<close> deletes the pool entry of the frame delivered before, not of the one
  it delivers: whenever it moves any frame, the entry of the last one stays in the receive pool.\<close>
theorem drain_keeps_last_entry:
  assumes "drain c = Some c'" and "recvNO c' \<noteq> recvNO c"
  shows "recvPool c' (recvNO c') \<noteq> None"
proof -
  have "recvNO c' = recvNO c \<and> recvPool c' = recvPool c \<or> recvPool c' (recvNO c') \<noteq> None"
  proof (rule drain.raw_induct [OF _ assms(1), where P =
      "\<lambda>c c'. recvNO c' = recvNO c \<and> recvPool c' = recvPool c \<or> recvPool c' (recvNO c') \<noteq> None"])
    fix dr c c'
    assume IH: "\<And>c c'. dr c = Some c' \<Longrightarrow>
        recvNO c' = recvNO c \<and> recvPool c' = recvPool c \<or> recvPool c' (recvNO c') \<noteq> None"
      and eq: "(case recvPool c (recvNO c + 1) of None \<Rightarrow> Some c
        | Some k \<Rightarrow> if length (inbound c) < inbound_cap
            then dr (c\<lparr>recvPool := (recvPool c)(recvNO c := None), inbound := inbound c @ [k], recvNO := recvNO c + 1\<rparr>)
            else None) = Some c'"
    show "recvNO c' = recvNO c \<and> recvPool c' = recvPool c \<or> recvPool c' (recvNO c') \<noteq> None"
    proof (cases "recvPool c (recvNO c + 1)")
      case None
      with eq show ?thesis by simp
    next
      case (Some k)
      let ?c = "c\<lparr>recvPool := (recvPool c)(recvNO c := None), inbound := inbound c @ [k], recvNO := recvNO c + 1\<rparr>"
      from eq Some have "dr ?c = Some c'" by (simp split: if_splits)
      from IH [OF this] Some show ?thesis by auto
    qed
  qed
  with assms(2) show ?thesis by blast
qed

theorem drain_keeps_last_entry_witness:
  "\<exists>c'. deliver (newConn demo_cfg\<lparr>recvPool := [2 \<mapsto> [9]]\<rparr>) [8] = Some c' \<and>
     recvNO c' = 2 \<and> inbound c' = [[8], [9]] \<and> recvPool c' 2 \<noteq> None"
proof -
  let ?c = "(newConn demo_cfg)\<lparr>recvPool := [2 \<mapsto> [9]], inbound := [[8]], recvNO := 1\<rparr>"
  let ?d = "(newConn demo_cfg)\<lparr>recvPool := [2 \<mapsto> [9]], inbound := [[8], [9]], recvNO := 2\<rparr>"
  have "drain ?d = Some ?d" by (subst drain.simps) simp
  moreover have "[2 \<mapsto> [9]](1 := None) = ([2 \<mapsto> [9]] :: u32 \<rightharpoonup> bytes)" by auto
  ultimately have d: "drain ?c = Some ?d" by (subst drain.simps) (simp add: inbound_cap_def)
  from drain_keeps_last_entry [OF d] have "recvPool ?d 2 \<noteq> None" by simp
  moreover have "deliver ((newConn demo_cfg)\<lparr>recvPool := [2 \<mapsto> [9]]\<rparr>) [8] = Some ?d"
    using d by (simp add: deliver_def inbound_cap_def)
  ultimately show ?thesis by (intro exI [of _ ?d]) simp
qed

end
