(* ===== verification/Connmux.thy ===== *)
theory Connmux
  imports Pg_Prelude
begin

text \<open>
  Stream multiplexing over one byte stream (\<open>connmux/connmux.go\<close>): sequence generators, frames,
  connections and the session's frame reader. Connections are shared between the session's maps and
  the application, so the session keeps a heap of them. The unbuffered accept channel is a
  rendezvous: a step that sends on it stands for the send together with the \<open>Accept\<close> that
  receives.
\<close>

section \<open>Sequence numbers\<close>

record stdSeqGen =
  gen_seq :: u32
  gen_delta :: u32
  gen_init :: u32
  gen_started :: bool

definition NewSeqEven :: stdSeqGen where
  "NewSeqEven = \<lparr>gen_seq = 0, gen_delta = 2, gen_init = 0, gen_started = False\<rparr>"
definition NewSeqOdd :: stdSeqGen where
  "NewSeqOdd = \<lparr>gen_seq = 0, gen_delta = 2, gen_init = 1, gen_started = False\<rparr>"
definition NewSeq :: stdSeqGen where
  "NewSeq = \<lparr>gen_seq = 0, gen_delta = 1, gen_init = 0, gen_started = False\<rparr>"

definition GenSeq :: "stdSeqGen \<Rightarrow> stdSeqGen \<times> u32" where
  "GenSeq g =
     (let base = (if gen_started g then gen_seq g else gen_init g); v = base + gen_delta g
      in (g\<lparr>gen_seq := v, gen_started := True\<rparr>, v))"

section \<open>Connections\<close>

definition CMD_DATA :: u8 where "CMD_DATA = 0"
definition CMD_FIN :: u8 where "CMD_FIN = 1"
definition HEADER_LEN :: nat where "HEADER_LEN = 8"

record MuxConn =
  m_closeOnce :: bool
  m_fin :: bool
  m_finWait :: bool
  m_inbound :: "bytes list"
  m_seq :: u32
  m_buf :: "bytes option"
  m_deadlineClosed :: bool

definition new_conn :: "u32 \<Rightarrow> MuxConn" where
  "new_conn seq = \<lparr>m_closeOnce = False, m_fin = False, m_finWait = False, m_inbound = [], m_seq = seq,
     m_buf = None, m_deadlineClosed = False\<rparr>"

definition mux_inbound_cap :: nat where "mux_inbound_cap = 128"

datatype mux_error =
  ReadHeader | UnsupportedVersion u8 | ReadData | UnsupportedCmd u8 | ErrClosedPipe | NoSeqGen | MuxEOF | MuxDeadline | WriteFailed

text \<open>How an operation ends: it blocks, panics, fails or is done.\<close>
datatype 'a outcome = Blocks | Panics | Fails mux_error | Done 'a

datatype mux_read_case = MuxDeadlineFired | MuxDeadlineClosed | MuxFinWait | MuxInbound

text \<open>\<open>Read\<close> into a slice of \<open>n\<close> bytes, with the ready case its \<open>select\<close> takes.\<close>
definition mux_Read :: "MuxConn \<Rightarrow> nat \<Rightarrow> mux_read_case \<Rightarrow> (MuxConn \<times> (mux_error + bytes)) outcome" where
  "mux_Read c n sel =
     (case m_buf c of
        Some buf \<Rightarrow>
          (if min n (length buf) < length buf then Done (c\<lparr>m_buf := Some (drop n buf)\<rparr>, Inr (take n buf))
           else Done (c\<lparr>m_buf := None\<rparr>, Inr buf))
      | None \<Rightarrow>
          (case sel of
             MuxDeadlineFired \<Rightarrow> Done (c, Inl MuxDeadline)
           | MuxDeadlineClosed \<Rightarrow> if m_deadlineClosed c then Done (c, Inl MuxEOF) else Blocks
           | MuxFinWait \<Rightarrow> if m_finWait c then Done (c, Inl MuxEOF) else Blocks
           | MuxInbound \<Rightarrow>
               (case m_inbound c of
                  [] \<Rightarrow> Blocks
                | wsb # q \<Rightarrow>
                    (if min n (length wsb) < length wsb
                     then Done (c\<lparr>m_inbound := q, m_buf := Some (drop n wsb)\<rparr>, Inr (take n wsb))
                     else Done (c\<lparr>m_inbound := q\<rparr>, Inr wsb)))))"

text \<open>The frame that \<open>Write\<close> builds: the length field is a 16-bit number.\<close>
definition data_frame :: "u32 \<Rightarrow> bytes \<Rightarrow> bytes" where
  "data_frame seq p = [0, 0] @ put_u16be (of_nat (length p)) @ put_u32be seq @ p"

definition fin_frame :: "u32 \<Rightarrow> bytes" where
  "fin_frame seq = [0, 1] @ put_u16be 0 @ put_u32be seq"

text \<open>\<open>wr\<close> is the outcome of the write on the underlying stream: the number of bytes written, and
  whether it failed. The result holds the bytes put on the stream and what the caller gets.\<close>
definition mux_Write :: "MuxConn \<Rightarrow> bytes \<Rightarrow> nat \<times> bool \<Rightarrow> bytes \<times> nat \<times> mux_error option" where
  "mux_Write c p wr =
     (let b = data_frame (m_seq c) p in
      if m_fin c then ([], 0, Some ErrClosedPipe)
      else let (n, failed) = wr in
        (take n b, n - HEADER_LEN, if failed then Some WriteFailed else None))"

text \<open>\<open>Close\<close> closes \<open>fin\<close> and writes the FIN frame, once.\<close>
definition mux_conn_Close :: "MuxConn \<Rightarrow> MuxConn \<times> bytes" where
  "mux_conn_Close c =
     (if m_closeOnce c then (c, [])
      else (c\<lparr>m_closeOnce := True, m_fin := True\<rparr>, fin_frame (m_seq c)))"

section \<open>Sessions\<close>

record MuxSession =
  s_exit :: bool
  s_closed :: bool
  s_seqGen :: "stdSeqGen option"
  s_accepts :: "u32 \<rightharpoonup> nat"
  s_dials :: "u32 \<rightharpoonup> nat"
  s_conns :: "nat \<rightharpoonup> MuxConn"
  s_next :: nat

definition Mux :: "stdSeqGen option \<Rightarrow> MuxSession" where
  "Mux g = \<lparr>s_exit = False, s_closed = False, s_seqGen = g, s_accepts = Map.empty, s_dials = Map.empty,
     s_conns = Map.empty, s_next = 0\<rparr>"

definition mux_Close :: "MuxSession \<Rightarrow> MuxSession" where
  "mux_Close l = l\<lparr>s_exit := True, s_closed := True\<rparr>"

definition mux_OpenStream :: "MuxSession \<Rightarrow> mux_error + (MuxSession \<times> nat)" where
  "mux_OpenStream d =
     (case s_seqGen d of
        None \<Rightarrow> Inl NoSeqGen
      | Some g \<Rightarrow>
          (let (g', seq) = GenSeq g; i = s_next d in
           Inr (d\<lparr>s_seqGen := Some g', s_conns := (s_conns d)(i \<mapsto> new_conn seq),
                  s_dials := (s_dials d)(seq \<mapsto> i), s_next := Suc i\<rparr>, i)))"

text \<open>The goroutine of a closed connection: \<open>finWait\<close> is closed, by the peer or by the timeout, and
  the session forgets the sequence number.\<close>
definition fin_wait_done :: "MuxSession \<Rightarrow> nat \<Rightarrow> bool \<Rightarrow> MuxSession option" where
  "fin_wait_done l i timeout =
     (case s_conns l i of
        None \<Rightarrow> None
      | Some c \<Rightarrow>
          if m_fin c \<and> (m_finWait c \<or> timeout)
          then Some (l\<lparr>s_conns := (s_conns l)(i \<mapsto> c\<lparr>m_finWait := True, m_deadlineClosed := True\<rparr>),
                       s_dials := (s_dials l)(m_seq c := None), s_accepts := (s_accepts l)(m_seq c := None)\<rparr>)
          else None)"

text \<open>The connection of a sequence number: a dialled one hides an accepted one.\<close>
definition lookup :: "MuxSession \<Rightarrow> u32 \<Rightarrow> nat option" where
  "lookup l seq = (case s_dials l seq of Some i \<Rightarrow> Some i | None \<Rightarrow> s_accepts l seq)"

lemma lookup_conns [simp]: "lookup (l\<lparr>s_conns := x\<rparr>) s = lookup l s"
  by (simp add: lookup_def split: option.split)

definition push_inbound :: "MuxSession \<Rightarrow> nat \<Rightarrow> bytes \<Rightarrow> MuxSession outcome" where
  "push_inbound l i data =
     (case s_conns l i of
        None \<Rightarrow> Panics
      | Some c \<Rightarrow>
          if length (m_inbound c) < mux_inbound_cap
          then Done (l\<lparr>s_conns := (s_conns l)(i \<mapsto> c\<lparr>m_inbound := m_inbound c @ [data]\<rparr>)\<rparr>)
          else Blocks)"

record frame_result =
  fr_session :: MuxSession
  fr_rest :: bytes
  fr_accepted :: "nat option"
  fr_out :: bytes

text \<open>\<open>nextFrame\<close> on the bytes of the stream that are still to read; the stream ends after them.\<close>
definition nextFrame :: "MuxSession \<Rightarrow> bytes \<Rightarrow> frame_result outcome" where
  "nextFrame l inp =
     (if length inp < HEADER_LEN then Fails ReadHeader
      else if inp ! 0 \<noteq> 0 then Fails (UnsupportedVersion (inp ! 0))
      else case (get_u16be (drop 2 inp), get_u32be (drop 4 inp)) of
        (Some len, Some seq) \<Rightarrow>
          (let cmd = inp ! 1; body = drop HEADER_LEN inp in
           if length body < unat len then Fails ReadData
           else let data = take (unat len) body; rest = drop (unat len) body in
             if cmd = CMD_DATA then
               (case lookup l seq of
                  Some i \<Rightarrow>
                    (case push_inbound l i data of
                       Done l' \<Rightarrow> Done \<lparr>fr_session = l', fr_rest = rest, fr_accepted = None, fr_out = []\<rparr>
                     | Blocks \<Rightarrow> Blocks | Panics \<Rightarrow> Panics | Fails e \<Rightarrow> Fails e)
                | None \<Rightarrow>
                    (let i = s_next l;
                         l1 = l\<lparr>s_conns := (s_conns l)(i \<mapsto> new_conn seq),
                                s_accepts := (s_accepts l)(seq \<mapsto> i), s_next := Suc i\<rparr>
                     in case push_inbound l1 i data of
                          Done l' \<Rightarrow> Done \<lparr>fr_session = l', fr_rest = rest, fr_accepted = Some i, fr_out = []\<rparr>
                        | Blocks \<Rightarrow> Blocks | Panics \<Rightarrow> Panics | Fails e \<Rightarrow> Fails e))
             else if cmd = CMD_FIN then
               (case lookup l seq of
                  None \<Rightarrow> Done \<lparr>fr_session = l, fr_rest = rest, fr_accepted = None, fr_out = []\<rparr>
                | Some i \<Rightarrow>
                    (case s_conns l i of
                       None \<Rightarrow> Panics
                     | Some c \<Rightarrow>
                         if m_finWait c then Panics
                         else let (c', out) = mux_conn_Close (c\<lparr>m_finWait := True\<rparr>) in
                           Done \<lparr>fr_session = l\<lparr>s_conns := (s_conns l)(i \<mapsto> c')\<rparr>, fr_rest = rest,
                                 fr_accepted = None, fr_out = out\<rparr>))
             else Fails (UnsupportedCmd cmd))
      | _ \<Rightarrow> Fails ReadHeader)"

text \<open>\<open>run\<close>: frames until the stream fails; the bytes it writes are collected.\<close>
function run :: "MuxSession \<Rightarrow> bytes \<Rightarrow> (MuxSession \<times> bytes \<times> mux_error option) outcome" where
  "run l inp =
     (if s_exit l then Done (mux_Close l, [], None)
      else case nextFrame l inp of
        Blocks \<Rightarrow> Blocks
      | Panics \<Rightarrow> Panics
      | Fails e \<Rightarrow> Done (mux_Close l, [], Some e)
      | Done r \<Rightarrow>
          if length (fr_rest r) < length inp
          then (case run (fr_session r) (fr_rest r) of
                  Done (l', out, e) \<Rightarrow> Done (l', fr_out r @ out, e)
                | Blocks \<Rightarrow> Blocks | Panics \<Rightarrow> Panics | Fails e \<Rightarrow> Fails e)
          else Blocks)"
  by pat_completeness auto
termination by (relation "measure (\<lambda>(l, inp). length inp)") auto

declare run.simps [simp del]

section \<open>Frames\<close>

lemma frame_fields:
  "length (data_frame seq p @ rest) = 8 + length p + length rest"
  "(data_frame seq p @ rest) ! 0 = 0" "(data_frame seq p @ rest) ! 1 = 0"
  "get_u16be (drop 2 (data_frame seq p @ rest)) = Some (of_nat (length p))"
  "get_u32be (drop 4 (data_frame seq p @ rest)) = Some seq"
  "drop 8 (data_frame seq p @ rest) = p @ rest"
  by (simp_all add: data_frame_def numeral_2_eq_2)

lemma fin_fields:
  "length (fin_frame seq @ rest) = 8 + length rest"
  "(fin_frame seq @ rest) ! 0 = 0" "(fin_frame seq @ rest) ! 1 = 1"
  "get_u16be (drop 2 (fin_frame seq @ rest)) = Some 0"
  "get_u32be (drop 4 (fin_frame seq @ rest)) = Some seq"
  "drop 8 (fin_frame seq @ rest) = rest"
  by (simp_all add: fin_frame_def numeral_2_eq_2)

text \<open>The reader of a consumed frame: it always takes at least the header.\<close>
lemma nextFrame_shrinks:
  assumes "nextFrame l inp = Done r"
  shows "length (fr_rest r) < length inp"
proof -
  have "\<not> length inp < HEADER_LEN" using assms by (auto simp: nextFrame_def)
  moreover have "\<exists>n. fr_rest r = drop n (drop HEADER_LEN inp)"
    using assms unfolding nextFrame_def
    by (auto simp: Let_def split: if_splits option.splits outcome.splits prod.splits)
  ultimately show ?thesis by (auto simp: HEADER_LEN_def)
qed

lemma nextFrame_data:
  assumes "length p < 65536" and "lookup l seq = Some i" and "s_conns l i = Some c"
    and "length (m_inbound c) < mux_inbound_cap"
  shows "nextFrame l (data_frame seq p @ rest) = Done
    \<lparr>fr_session = l\<lparr>s_conns := (s_conns l)(i \<mapsto> c\<lparr>m_inbound := m_inbound c @ [p]\<rparr>)\<rparr>, fr_rest = rest,
     fr_accepted = None, fr_out = []\<rparr>"
  using assms unfolding nextFrame_def HEADER_LEN_def frame_fields
  by (simp add: CMD_DATA_def push_inbound_def unat_of_nat)

lemma nextFrame_fin:
  assumes "lookup l seq = Some i" and "s_conns l i = Some c"
  shows "nextFrame l (fin_frame seq @ rest) =
    (if m_finWait c then Panics
     else Done \<lparr>fr_session = l\<lparr>s_conns := (s_conns l)(i \<mapsto> fst (mux_conn_Close (c\<lparr>m_finWait := True\<rparr>)))\<rparr>,
       fr_rest = rest, fr_accepted = None, fr_out = snd (mux_conn_Close (c\<lparr>m_finWait := True\<rparr>))\<rparr>)"
  using assms unfolding nextFrame_def HEADER_LEN_def fin_fields
  by (simp add: CMD_DATA_def CMD_FIN_def case_prod_unfold Let_def)

lemma run_step:
  "nextFrame l inp = Done r \<Longrightarrow> \<not> s_exit l \<Longrightarrow>
   run l inp = (case run (fr_session r) (fr_rest r) of
      Done (l', out, e) \<Rightarrow> Done (l', fr_out r @ out, e) | Blocks \<Rightarrow> Blocks | Panics \<Rightarrow> Panics | Fails e \<Rightarrow> Fails e)"
  using nextFrame_shrinks by (subst run.simps) simp

section \<open>Properties\<close>

text \<open>The bytes of a sequence of writes on one stream, whatever connections they come from.\<close>
definition stream_of :: "(u32 \<times> bytes) list \<Rightarrow> bytes" where
  "stream_of fs = concat (map (\<lambda>f. data_frame (fst f) (snd f)) fs)"

definition received_by :: "MuxSession \<Rightarrow> (u32 \<times> bytes) list \<Rightarrow> nat \<Rightarrow> bytes list" where
  "received_by l fs i = map snd (filter (\<lambda>f. lookup l (fst f) = Some i) fs)"

definition deliverable :: "MuxSession \<Rightarrow> (u32 \<times> bytes) list \<Rightarrow> bool" where
  "deliverable l fs \<longleftrightarrow>
     (\<forall>f\<in>set fs. length (snd f) < 65536 \<and>
        (\<exists>i c. lookup l (fst f) = Some i \<and> s_conns l i = Some c \<and> length (m_inbound c) + length fs \<le> mux_inbound_cap))"

lemma run_frames:
  assumes "\<not> s_exit l" and "deliverable l fs"
  shows "\<exists>l'. run l (stream_of fs) = Done (mux_Close l', [], Some ReadHeader) \<and>
    (\<forall>i c. s_conns l i = Some c \<longrightarrow> s_conns l' i = Some (c\<lparr>m_inbound := m_inbound c @ received_by l fs i\<rparr>))"
  using assms
proof (induction fs arbitrary: l)
  case Nil
  then have "run l (stream_of []) = Done (mux_Close l, [], Some ReadHeader)"
    by (subst run.simps) (simp add: stream_of_def nextFrame_def HEADER_LEN_def)
  then show ?case by (intro exI [of _ l]) (simp add: received_by_def)
next
  case (Cons f fs)
  obtain seq p where f: "f = (seq, p)" by fastforce
  from Cons.prems(2) obtain i c where p: "length p < 65536" and i: "lookup l seq = Some i" "s_conns l i = Some c"
    and room: "length (m_inbound c) < mux_inbound_cap" by (auto simp: deliverable_def f)
  let ?l = "l\<lparr>s_conns := (s_conns l)(i \<mapsto> c\<lparr>m_inbound := m_inbound c @ [p]\<rparr>)\<rparr>"
  have lk: "lookup ?l s = lookup l s" for s by simp
  have "deliverable ?l fs"
    unfolding deliverable_def
  proof
    fix g assume "g \<in> set fs"
    with Cons.prems(2) obtain j d where "length (snd g) < 65536" "lookup l (fst g) = Some j" "s_conns l j = Some d"
      "length (m_inbound d) + length (f # fs) \<le> mux_inbound_cap"
      unfolding deliverable_def by (meson list.set_intros(2))
    then show "length (snd g) < 65536 \<and> (\<exists>i c. lookup ?l (fst g) = Some i \<and> s_conns ?l i = Some c \<and>
        length (m_inbound c) + length fs \<le> mux_inbound_cap)"
      using i(2) by (auto simp: lk)
  qed
  with Cons.IH [of ?l] Cons.prems(1) obtain l' where l': "run ?l (stream_of fs) = Done (mux_Close l', [], Some ReadHeader)"
    "\<And>j d. s_conns ?l j = Some d \<Longrightarrow> s_conns l' j = Some (d\<lparr>m_inbound := m_inbound d @ received_by ?l fs j\<rparr>)"
    by auto
  have rb: "received_by ?l fs j = received_by l fs j" for j by (simp add: received_by_def lk)
  have "stream_of (f # fs) = data_frame seq p @ stream_of fs" by (simp add: stream_of_def f)
  then have "run l (stream_of (f # fs)) = Done (mux_Close l', [], Some ReadHeader)"
    using run_step [OF nextFrame_data [OF p i room, of "stream_of fs"] Cons.prems(1)] l'(1) by simp
  moreover have "s_conns l' j = Some (d\<lparr>m_inbound := m_inbound d @ received_by l (f # fs) j\<rparr>)"
    if "s_conns l j = Some d" for j d
  proof (cases "j = i")
    case True
    with l'(2) [of i] i that show ?thesis by (simp add: rb received_by_def f)
  next
    case False
    with l'(2) [of j] i that show ?thesis by (simp add: rb received_by_def f)
  qed
  ultimately show ?case by blast
qed

definition demo_session :: MuxSession where
  "demo_session = (Mux None)\<lparr>s_conns := [0 \<mapsto> new_conn 2, 1 \<mapsto> new_conn 4], s_dials := [2 \<mapsto> 0, 4 \<mapsto> 1], s_next := 2\<rparr>"

text \<open>C14. Demultiplexing: reading the interleaved frames of many connections gives every connection
  exactly its own writes, whole and in order, as long as the inbound queues have room.\<close>
theorem connmux_demultiplexes:
  assumes "\<not> s_exit l" and "deliverable l fs"
  shows "\<exists>l'. run l (stream_of fs) = Done (mux_Close l', [], Some ReadHeader) \<and>
    (\<forall>i c. s_conns l i = Some c \<longrightarrow> s_conns l' i = Some (c\<lparr>m_inbound := m_inbound c @ received_by l fs i\<rparr>))"
  using assms by (rule run_frames)

theorem connmux_demultiplexes_witness:
  "\<exists>l'. run demo_session (stream_of [(2, [7]), (4, [8]), (2, [9])]) = Done (mux_Close l', [], Some ReadHeader) \<and>
     s_conns l' 0 = Some ((new_conn 2)\<lparr>m_inbound := [[7], [9]]\<rparr>) \<and> s_conns l' 1 = Some ((new_conn 4)\<lparr>m_inbound := [[8]]\<rparr>)"
proof -
  have "\<not> s_exit demo_session" by (simp add: demo_session_def Mux_def)
  moreover have "deliverable demo_session [(2, [7]), (4, [8]), (2, [9])]"
    by (simp add: deliverable_def demo_session_def lookup_def new_conn_def mux_inbound_cap_def)
  ultimately obtain l' where "run demo_session (stream_of [(2, [7]), (4, [8]), (2, [9])]) = Done (mux_Close l', [], Some ReadHeader)"
    "\<forall>i c. s_conns demo_session i = Some c \<longrightarrow>
       s_conns l' i = Some (c\<lparr>m_inbound := m_inbound c @ received_by demo_session [(2, [7]), (4, [8]), (2, [9])] i\<rparr>)"
    using connmux_demultiplexes by blast
  then show ?thesis
    by (intro exI [of _ l']) (simp add: demo_session_def received_by_def lookup_def new_conn_def)
qed

text \<open>The \<open>n\<close>-th number of a generator.\<close>
definition nth_seq :: "stdSeqGen \<Rightarrow> nat \<Rightarrow> u32" where
  "nth_seq g n = snd (GenSeq (((\<lambda>g. fst (GenSeq g)) ^^ n) g))"

text \<open>Streams opened by the two sides never share a number: the numbers of the even generator are
  even and those of the odd generator odd, also after the 32-bit counter wraps.\<close>
theorem seq_generators_disjoint:
  "even (nth_seq NewSeqEven m) \<and> odd (nth_seq NewSeqOdd n) \<and> nth_seq NewSeqEven m \<noteq> nth_seq NewSeqOdd n"
proof -
  have inv: "gen_delta (((\<lambda>g. fst (GenSeq g)) ^^ k) g) = 2 \<and>
      (if gen_started (((\<lambda>g. fst (GenSeq g)) ^^ k) g) then even (gen_seq (((\<lambda>g. fst (GenSeq g)) ^^ k) g)) = even (gen_init g)
       else True) \<and> gen_init (((\<lambda>g. fst (GenSeq g)) ^^ k) g) = gen_init g"
    if "gen_delta g = 2" "\<not> gen_started g" for g k
    using that by (induction k) (auto simp: GenSeq_def Let_def)
  have par: "even (nth_seq g k) = even (gen_init g)" if "gen_delta g = 2" "\<not> gen_started g" for g k
    using inv [OF that, of k] by (auto simp: nth_seq_def GenSeq_def Let_def)
  have "even (nth_seq NewSeqEven m)" "odd (nth_seq NewSeqOdd n)"
    using par [of NewSeqEven m] par [of NewSeqOdd n] by (simp_all add: NewSeqEven_def NewSeqOdd_def)
  then show ?thesis by auto
qed

text \<open>A write of more than 65535 bytes loses the framing: the length field holds its low sixteen
  bits, the receiver takes that many bytes and reads the remaining payload as frames.\<close>
theorem connmux_long_write_desyncs:
  assumes "length a < 65536" and "length b = 65536"
    and "lookup l seq = Some i" and "s_conns l i = Some c" and "length (m_inbound c) < mux_inbound_cap"
  shows "nextFrame l (data_frame seq (a @ b) @ rest) = Done
    \<lparr>fr_session = l\<lparr>s_conns := (s_conns l)(i \<mapsto> c\<lparr>m_inbound := m_inbound c @ [a]\<rparr>)\<rparr>, fr_rest = b @ rest,
     fr_accepted = None, fr_out = []\<rparr>"
proof -
  have "(of_nat (length (a @ b)) :: u16) = of_nat (length a)" using assms(2) by simp
  then have "data_frame seq (a @ b) @ rest = data_frame seq a @ (b @ rest)" by (simp add: data_frame_def)
  with nextFrame_data [OF assms(1,3,4,5), of "b @ rest"] show ?thesis by simp
qed

theorem connmux_long_write_desyncs_witness:
  "\<exists>r. nextFrame demo_session (data_frame 2 ([7] @ replicate 65536 1)) = Done r \<and> fr_rest r = replicate 65536 1"
  using connmux_long_write_desyncs [of "[7]" "replicate 65536 1" demo_session 2 0 "new_conn 2" "[]"]
  by (simp add: demo_session_def lookup_def new_conn_def mux_inbound_cap_def del: replicate.simps)

text \<open>Two FIN frames for one connection panic the reader: the channel \<open>finWait\<close> is closed twice.\<close>
theorem connmux_second_fin_panics:
  assumes "\<not> s_exit l" and "lookup l seq = Some i" and "s_conns l i = Some c" and "\<not> m_finWait c"
  shows "run l (fin_frame seq @ fin_frame seq @ rest) = Panics"
proof -
  let ?c = "fst (mux_conn_Close (c\<lparr>m_finWait := True\<rparr>))"
  let ?l = "l\<lparr>s_conns := (s_conns l)(i \<mapsto> ?c)\<rparr>"
  have "m_finWait ?c" by (simp add: mux_conn_Close_def)
  moreover have "lookup ?l seq = Some i" "s_conns ?l i = Some ?c" using assms(2) by simp_all
  ultimately have "nextFrame ?l (fin_frame seq @ rest) = Panics" by (simp add: nextFrame_fin)
  then have "run ?l (fin_frame seq @ rest) = Panics" using assms(1) by (subst run.simps) simp
  moreover have "nextFrame l (fin_frame seq @ (fin_frame seq @ rest)) = Done
    \<lparr>fr_session = ?l, fr_rest = fin_frame seq @ rest, fr_accepted = None, fr_out = snd (mux_conn_Close (c\<lparr>m_finWait := True\<rparr>))\<rparr>"
    using nextFrame_fin [OF assms(2,3), of "fin_frame seq @ rest"] assms(4) by simp
  ultimately show ?thesis using run_step assms(1) by simp
qed

theorem connmux_second_fin_panics_witness:
  "run demo_session (fin_frame 2 @ fin_frame 2 @ []) = Panics"
  by (rule connmux_second_fin_panics [of _ _ 0 "new_conn 2"])
    (simp_all add: demo_session_def Mux_def lookup_def new_conn_def)

end
