(* ===== verification/Net_Udp.thy ===== *)
theory Net_Udp
  imports Pg_Prelude
begin

text \<open>
  The connection-oriented listener over a packet socket (\<open>net/udp.go\<close>) and read deadlines
  (\<open>net/net.go\<close>). Goroutines are interleaved steps: one packet of the read loop, an accept, a read, the
  two halves of closing a connection, a tick of its idle timer. A step that blocks or panics says so.
  Addresses are their text forms; times are nanoseconds.
\<close>

datatype 'a step = Stepped (stepped: 'a) | Blocked | Panicked

section \<open>State\<close>

record udpConn =
  un_remote :: string
  un_inbound :: "bytes list"
  un_closing :: bool
  un_last :: int

text \<open>\<open>ul_pending\<close> is the connection that the read loop waits to hand over, with the lock of the map held.\<close>
record UDPListener =
  ul_conns :: "nat \<rightharpoonup> udpConn"
  ul_map :: "string \<rightharpoonup> nat"
  ul_chan :: "nat list"
  ul_pending :: "nat option"
  ul_next :: nat

definition udp_inbound_cap :: nat where "udp_inbound_cap = 512"
definition udp_chan_cap :: nat where "udp_chan_cap = 8"

definition ul_init :: UDPListener where
  "ul_init = \<lparr>ul_conns = Map.empty, ul_map = Map.empty, ul_chan = [], ul_pending = None, ul_next = 0\<rparr>"

definition new_udpConn :: "int \<Rightarrow> string \<Rightarrow> udpConn" where
  "new_udpConn now addr = \<lparr>un_remote = addr, un_inbound = [], un_closing = False, un_last = now\<rparr>"

definition set_conn :: "nat \<Rightarrow> udpConn \<Rightarrow> UDPListener \<Rightarrow> UDPListener" where
  "set_conn h c l = l\<lparr>ul_conns := (ul_conns l)(h \<mapsto> c)\<rparr>"

section \<open>Steps\<close>

text \<open>\<open>conn.inbound <- packet\<close>\<close>
definition push_packet :: "nat \<Rightarrow> bytes \<Rightarrow> UDPListener \<Rightarrow> UDPListener step" where
  "push_packet h b l =
     (case ul_conns l h of
        None \<Rightarrow> Panicked
      | Some c \<Rightarrow>
          if un_closing c then Panicked
          else if length (un_inbound c) < udp_inbound_cap then Stepped (set_conn h (c\<lparr>un_inbound := un_inbound c @ [b]\<rparr>) l)
          else Blocked)"

text \<open>One packet of \<open>readUDP\<close>. The loop does not read while it waits to hand over a connection.\<close>
definition readUDP :: "int \<Rightarrow> string \<Rightarrow> bytes \<Rightarrow> UDPListener \<Rightarrow> UDPListener step" where
  "readUDP now addr b l =
     (if ul_pending l \<noteq> None then Blocked
      else case ul_map l addr of
        Some h \<Rightarrow> push_packet h b l
      | None \<Rightarrow>
          (let h = ul_next l;
               l1 = set_conn h ((new_udpConn now addr)\<lparr>un_inbound := [b]\<rparr>) l\<lparr>ul_map := (ul_map l)(addr \<mapsto> h), ul_next := Suc h\<rparr>
           in Stepped (if length (ul_chan l) < udp_chan_cap then l1\<lparr>ul_chan := ul_chan l @ [h]\<rparr> else l1\<lparr>ul_pending := Some h\<rparr>)))"

text \<open>\<open>Accept\<close>: the connection; the waiting one takes the free place.\<close>
definition udp_Accept :: "UDPListener \<Rightarrow> (UDPListener \<times> nat) step" where
  "udp_Accept l =
     (case ul_chan l of
        [] \<Rightarrow> Blocked
      | h # hs \<Rightarrow>
          Stepped (l\<lparr>ul_chan := hs @ (case ul_pending l of None \<Rightarrow> [] | Some p \<Rightarrow> [p]), ul_pending := None\<rparr>, h))"

datatype net_error = NetClosed

text \<open>\<open>Read\<close> into \<open>n\<close> bytes. \<open>eof\<close> tells which ready case of the select is taken: a closed connection offers
  its closing, the packets that are left, and after them the zero value of the closed channel.\<close>
definition udpConn_Read :: "bool \<Rightarrow> int \<Rightarrow> nat \<Rightarrow> nat \<Rightarrow> UDPListener \<Rightarrow> (UDPListener \<times> (net_error + bytes)) step" where
  "udpConn_Read eof now n h l =
     (case ul_conns l h of
        None \<Rightarrow> Panicked
      | Some c \<Rightarrow>
          if un_closing c \<and> eof then Stepped (l, Inl NetClosed)
          else case un_inbound c of
            b # bs \<Rightarrow> Stepped (set_conn h (c\<lparr>un_inbound := bs, un_last := now\<rparr>) l, Inr (take n b))
          | [] \<Rightarrow> if un_closing c then Stepped (set_conn h (c\<lparr>un_last := now\<rparr>) l, Inr []) else Blocked)"

text \<open>\<open>Write\<close>: the packet on the socket.\<close>
definition udpConn_Write :: "int \<Rightarrow> bytes \<Rightarrow> nat \<Rightarrow> UDPListener \<Rightarrow> (UDPListener \<times> string \<times> bytes) step" where
  "udpConn_Write now p h l =
     (case ul_conns l h of
        None \<Rightarrow> Panicked
      | Some c \<Rightarrow> Stepped (set_conn h (c\<lparr>un_last := now\<rparr>) l, un_remote c, p))"

text \<open>\<open>Close\<close> closes the channels, then removes the connection from the map, for which it needs the lock.\<close>
definition udpConn_close :: "nat \<Rightarrow> UDPListener \<Rightarrow> UDPListener" where
  "udpConn_close h l = (case ul_conns l h of None \<Rightarrow> l | Some c \<Rightarrow> set_conn h (c\<lparr>un_closing := True\<rparr>) l)"

definition removeConn :: "nat \<Rightarrow> UDPListener \<Rightarrow> UDPListener step" where
  "removeConn h l =
     (if ul_pending l \<noteq> None then Blocked
      else case ul_conns l h of
        None \<Rightarrow> Panicked
      | Some c \<Rightarrow> Stepped (l\<lparr>ul_map := (ul_map l)(un_remote c := None)\<rparr>))"

text \<open>\<open>UDPListener.Close\<close> starts to close every connection of the map; those that nobody accepted stay queued.\<close>
definition udp_listener_Close :: "UDPListener \<Rightarrow> UDPListener step" where
  "udp_listener_Close l =
     (if ul_pending l \<noteq> None then Blocked
      else Stepped (l\<lparr>ul_conns := (\<lambda>h. case ul_conns l h of None \<Rightarrow> None
              | Some c \<Rightarrow> Some (if ul_map l (un_remote c) = Some h then c\<lparr>un_closing := True\<rparr> else c))\<rparr>))"

text \<open>A tick of the idle timer.\<close>
definition idle_tick :: "int \<Rightarrow> nat \<Rightarrow> UDPListener \<Rightarrow> UDPListener" where
  "idle_tick now h l =
     (case ul_conns l h of None \<Rightarrow> l | Some c \<Rightarrow> if 10000000000 < now - un_last c then udpConn_close h l else l)"

section \<open>Deadlines\<close>

text \<open>A deadline: the running timer, the number of senders that wait for a receiver of the unbuffered
  channel, whether the lock is held by one of them, and whether the channel is closed.\<close>
record Deadline =
  dl_timer :: "int option"
  dl_waiting :: nat
  dl_locked :: bool
  dl_closed :: bool

definition dl_init :: Deadline where
  "dl_init = \<lparr>dl_timer = None, dl_waiting = 0, dl_locked = False, dl_closed = False\<rparr>"

text \<open>\<open>t\<close> is absent for the zero time. A time that is not in the future sends at once, with the lock held.\<close>
definition SetDeadline :: "int \<Rightarrow> int option \<Rightarrow> Deadline \<Rightarrow> Deadline step" where
  "SetDeadline now t d =
     (if dl_locked d then Blocked
      else case t of
        None \<Rightarrow> Stepped (d\<lparr>dl_timer := None\<rparr>)
      | Some x \<Rightarrow>
          if 0 < x - now then Stepped (d\<lparr>dl_timer := Some x\<rparr>)
          else if dl_closed d then Panicked
          else Stepped (d\<lparr>dl_timer := None, dl_waiting := Suc (dl_waiting d), dl_locked := True\<rparr>))"

text \<open>The timer runs out.\<close>
definition dl_fire :: "int \<Rightarrow> Deadline \<Rightarrow> Deadline step" where
  "dl_fire now d =
     (case dl_timer d of
        None \<Rightarrow> Blocked
      | Some x \<Rightarrow>
          if now < x then Blocked
          else if dl_closed d then Panicked
          else Stepped (d\<lparr>dl_timer := None, dl_waiting := Suc (dl_waiting d)\<rparr>))"

text \<open>A reader takes a deadline; \<^const>\<open>False\<close> is the closed channel.\<close>
definition dl_receive :: "Deadline \<Rightarrow> (Deadline \<times> bool) step" where
  "dl_receive d =
     (if dl_closed d then Stepped (d, False)
      else if 0 < dl_waiting d then Stepped (d\<lparr>dl_waiting := dl_waiting d - 1, dl_locked := (dl_locked d \<and> 1 < dl_waiting d)\<rparr>, True)
      else Blocked)"

text \<open>Closing panics the senders that wait, and a second closing.\<close>
definition dl_Close :: "Deadline \<Rightarrow> Deadline step" where
  "dl_Close d = (if dl_closed d \<or> 0 < dl_waiting d then Panicked else Stepped (d\<lparr>dl_closed := True\<rparr>))"

section \<open>Invariant\<close>

inductive ul_step :: "UDPListener \<Rightarrow> UDPListener \<Rightarrow> bool" where
  packet: "readUDP now addr b l = Stepped l' \<Longrightarrow> ul_step l l'"
| accept: "udp_Accept l = Stepped (l', h) \<Longrightarrow> ul_step l l'"
| conn_read: "udpConn_Read eof now n h l = Stepped (l', r) \<Longrightarrow> ul_step l l'"
| conn_write: "udpConn_Write now p h l = Stepped (l', r) \<Longrightarrow> ul_step l l'"
| closing: "ul_step l (udpConn_close h l)"
| removed: "ul_conns l h = Some c \<Longrightarrow> un_closing c \<Longrightarrow> ul_map l (un_remote c) = Some h \<Longrightarrow> removeConn h l = Stepped l' \<Longrightarrow> ul_step l l'"
| tick: "ul_step l (idle_tick now h l)"
| listener_close: "udp_listener_Close l = Stepped l' \<Longrightarrow> ul_step l l'"

inductive ul_reach :: "UDPListener \<Rightarrow> bool" where
  start: "ul_reach ul_init"
| step: "ul_reach l \<Longrightarrow> ul_step l l' \<Longrightarrow> ul_reach l'"

inductive_cases ul_stepE: "ul_step l l'"

definition queued :: "UDPListener \<Rightarrow> nat list" where
  "queued l = ul_chan l @ (case ul_pending l of None \<Rightarrow> [] | Some p \<Rightarrow> [p])"

definition heap_ok :: "UDPListener \<Rightarrow> bool" where
  "heap_ok l \<longleftrightarrow> (\<forall>h c. ul_conns l h = Some c \<longrightarrow> h < ul_next l \<and> length (un_inbound c) \<le> udp_inbound_cap \<and>
     (\<not> un_closing c \<longrightarrow> ul_map l (un_remote c) = Some h))"

definition map_ok :: "UDPListener \<Rightarrow> bool" where
  "map_ok l \<longleftrightarrow> (\<forall>a h. ul_map l a = Some h \<longrightarrow> map_option un_remote (ul_conns l h) = Some a)"

definition queue_ok :: "UDPListener \<Rightarrow> bool" where
  "queue_ok l \<longleftrightarrow> distinct (queued l) \<and> (\<forall>h\<in>set (queued l). h < ul_next l) \<and>
     length (ul_chan l) \<le> udp_chan_cap \<and> (ul_pending l \<noteq> None \<longrightarrow> length (ul_chan l) = udp_chan_cap)"

definition ul_ok :: "UDPListener \<Rightarrow> bool" where
  "ul_ok l \<longleftrightarrow> heap_ok l \<and> map_ok l \<and> queue_ok l"

lemma heap_okD:
  "ul_ok l \<Longrightarrow> ul_conns l h = Some c \<Longrightarrow> h < ul_next l"
  "ul_ok l \<Longrightarrow> ul_conns l h = Some c \<Longrightarrow> length (un_inbound c) \<le> udp_inbound_cap"
  "ul_ok l \<Longrightarrow> ul_conns l h = Some c \<Longrightarrow> \<not> un_closing c \<Longrightarrow> ul_map l (un_remote c) = Some h"
  by (auto simp: ul_ok_def heap_ok_def)

lemma map_okD: "ul_ok l \<Longrightarrow> ul_map l a = Some h \<Longrightarrow> \<exists>c. ul_conns l h = Some c \<and> un_remote c = a \<and> h < ul_next l"
  using heap_okD(1) [of l h] by (fastforce simp: ul_ok_def map_ok_def)

lemma set_conn_simps [simp]:
  "ul_map (set_conn h d l) = ul_map l" "ul_chan (set_conn h d l) = ul_chan l" "ul_pending (set_conn h d l) = ul_pending l"
  "ul_next (set_conn h d l) = ul_next l" "ul_conns (set_conn h d l) = (ul_conns l)(h \<mapsto> d)"
  by (simp_all add: set_conn_def)

lemma set_conn_ok:
  assumes "ul_ok l" and "ul_conns l h = Some c" and "un_remote d = un_remote c" and "un_closing c \<longrightarrow> un_closing d"
    and "length (un_inbound d) \<le> udp_inbound_cap"
  shows "ul_ok (set_conn h d l)"
proof -
  have "heap_ok (set_conn h d l)" using assms heap_okD [OF assms(1)] by (auto simp: heap_ok_def)
  moreover have "map_ok (set_conn h d l)" using assms(2,3) map_okD [OF assms(1)] by (fastforce simp: map_ok_def)
  moreover have "queue_ok (set_conn h d l)" using assms(1) by (simp add: ul_ok_def queue_ok_def queued_def)
  ultimately show ?thesis by (simp add: ul_ok_def)
qed

lemma conn_room: "ul_ok l \<Longrightarrow> ul_conns l h = Some c \<Longrightarrow> length (un_inbound c) \<le> udp_inbound_cap"
  by (auto simp: ul_ok_def heap_ok_def)

lemma push_packet_ok: "ul_ok l \<Longrightarrow> push_packet h b l = Stepped l' \<Longrightarrow> ul_ok l'"
  by (auto simp: push_packet_def split: option.splits if_splits intro!: set_conn_ok)

text \<open>The listener after the first packet of a new address.\<close>
definition with_new :: "int \<Rightarrow> string \<Rightarrow> bytes \<Rightarrow> UDPListener \<Rightarrow> UDPListener" where
  "with_new now addr b l =
     (let h = ul_next l;
          l1 = set_conn h ((new_udpConn now addr)\<lparr>un_inbound := [b]\<rparr>) l\<lparr>ul_map := (ul_map l)(addr \<mapsto> h), ul_next := Suc h\<rparr>
      in if length (ul_chan l) < udp_chan_cap then l1\<lparr>ul_chan := ul_chan l @ [h]\<rparr> else l1\<lparr>ul_pending := Some h\<rparr>)"

lemma with_new_simps [simp]:
  "ul_conns (with_new now addr b l) = (ul_conns l)(ul_next l \<mapsto> (new_udpConn now addr)\<lparr>un_inbound := [b]\<rparr>)"
  "ul_map (with_new now addr b l) = (ul_map l)(addr \<mapsto> ul_next l)" "ul_next (with_new now addr b l) = Suc (ul_next l)"
  by (simp_all add: with_new_def Let_def)

lemma readUDP_new: "ul_pending l = None \<Longrightarrow> ul_map l addr = None \<Longrightarrow> readUDP now addr b l = Stepped (with_new now addr b l)"
  by (simp add: readUDP_def with_new_def Let_def)

lemma queued_with_new: "ul_pending l = None \<Longrightarrow> queued (with_new now addr b l) = queued l @ [ul_next l]"
  by (simp add: queued_def with_new_def Let_def)

lemma with_new_ok:
  assumes "ul_ok l" and "ul_pending l = None" and "ul_map l addr = None"
  shows "ul_ok (with_new now addr b l)"
proof -
  have "heap_ok (with_new now addr b l)"
    unfolding heap_ok_def
  proof (intro allI impI)
    fix h c assume c: "ul_conns (with_new now addr b l) h = Some c"
    show "h < ul_next (with_new now addr b l) \<and> length (un_inbound c) \<le> udp_inbound_cap \<and>
        (\<not> un_closing c \<longrightarrow> ul_map (with_new now addr b l) (un_remote c) = Some h)"
    proof (cases "h = ul_next l")
      case True
      with c show ?thesis by (auto simp: new_udpConn_def udp_inbound_cap_def)
    next
      case False
      with c have old: "ul_conns l h = Some c" by simp
      with assms(1) have "h < ul_next l" "length (un_inbound c) \<le> udp_inbound_cap" "\<not> un_closing c \<longrightarrow> ul_map l (un_remote c) = Some h"
        by (auto simp: ul_ok_def heap_ok_def)
      with assms(3) show ?thesis by auto
    qed
  qed
  moreover have "map_ok (with_new now addr b l)"
    using map_okD [OF assms(1)] by (fastforce simp: map_ok_def new_udpConn_def)
  moreover have "queue_ok (with_new now addr b l)"
    using assms(1,2) queued_with_new [OF assms(2), of now addr b]
    by (auto simp: ul_ok_def queue_ok_def with_new_def Let_def)
  ultimately show ?thesis by (simp add: ul_ok_def)
qed

lemma readUDP_ok:
  assumes "ul_ok l" and "readUDP now addr b l = Stepped l'"
  shows "ul_ok l'"
proof (cases "ul_map l addr")
  case (Some h)
  with assms push_packet_ok show ?thesis by (auto simp: readUDP_def split: if_splits)
next
  case None
  have p: "ul_pending l = None" using assms(2) by (auto simp: readUDP_def split: if_splits)
  with assms None readUDP_new with_new_ok show ?thesis by fastforce
qed

lemma udp_Accept_ok:
  assumes "ul_ok l" and "udp_Accept l = Stepped (l', h)"
  shows "ul_ok l' \<and> queued l = h # queued l'"
proof -
  from assms(2) obtain hs where hs: "ul_chan l = h # hs" "l' = l\<lparr>ul_chan := hs @ (case ul_pending l of None \<Rightarrow> [] | Some p \<Rightarrow> [p]), ul_pending := None\<rparr>"
    by (auto simp: udp_Accept_def split: list.splits)
  have q: "queued l = h # queued l'" using hs by (simp add: queued_def)
  have "heap_ok l'" "map_ok l'" using assms(1) hs(2) by (simp_all add: ul_ok_def heap_ok_def map_ok_def)
  moreover have "queue_ok l'"
    using assms(1) hs q unfolding ul_ok_def queue_ok_def by (auto split: option.splits)
  ultimately show ?thesis using q by (simp add: ul_ok_def)
qed

lemma udpConn_close_ok: "ul_ok l \<Longrightarrow> ul_ok (udpConn_close h l)"
  using conn_room by (auto simp: udpConn_close_def split: option.splits intro!: set_conn_ok)

lemma udp_listener_Close_ok:
  assumes "ul_ok l" and "udp_listener_Close l = Stepped l'"
  shows "ul_ok l'"
proof -
  have l': "l' = l\<lparr>ul_conns := (\<lambda>h. case ul_conns l h of None \<Rightarrow> None
      | Some c \<Rightarrow> Some (if ul_map l (un_remote c) = Some h then c\<lparr>un_closing := True\<rparr> else c))\<rparr>"
    using assms(2) by (auto simp: udp_listener_Close_def split: if_splits)
  have "heap_ok l'" using heap_okD [OF assms(1)] by (auto simp: l' heap_ok_def split: option.splits if_splits)
  moreover have "map_ok l'" using map_okD [OF assms(1)] by (fastforce simp: l' map_ok_def split: option.splits)
  moreover have "queue_ok l'" using assms(1) by (simp add: l' ul_ok_def queue_ok_def queued_def)
  ultimately show ?thesis by (simp add: ul_ok_def)
qed

lemma ul_step_ok: "ul_step l l' \<Longrightarrow> ul_ok l \<Longrightarrow> ul_ok l'"
proof (induction rule: ul_step.induct)
  case (packet now addr b l l')
  then show ?case using readUDP_ok by blast
next
  case (accept l l' h)
  then show ?case using udp_Accept_ok by blast
next
  case (conn_read eof now n h l l' r)
  then obtain c where c: "ul_conns l h = Some c" by (auto simp: udpConn_Read_def split: option.splits)
  with conn_read conn_room [OF _ c] show ?case
    by (auto simp: udpConn_Read_def split: if_splits list.splits intro!: set_conn_ok)
next
  case (conn_write now p h l l' r)
  then obtain c where c: "ul_conns l h = Some c" by (auto simp: udpConn_Write_def split: option.splits)
  with conn_write conn_room [OF _ c] show ?case by (auto simp: udpConn_Write_def intro!: set_conn_ok)
next
  case (closing l h)
  then show ?case by (rule udpConn_close_ok)
next
  case (removed l h c l')
  then have l': "l' = l\<lparr>ul_map := (ul_map l)(un_remote c := None)\<rparr>" by (auto simp: removeConn_def split: if_splits)
  have "un_remote d \<noteq> un_remote c" if "ul_conns l j = Some d" "\<not> un_closing d" for j d
    using removed.hyps(1-3) that heap_okD(3) [OF removed.prems that] by (metis option.inject)
  then have "heap_ok l'" using heap_okD [OF removed.prems] by (auto simp: l' heap_ok_def)
  moreover have "map_ok l'" using removed.prems by (auto simp: l' ul_ok_def map_ok_def)
  moreover have "queue_ok l'" using removed.prems by (simp add: l' ul_ok_def queue_ok_def queued_def)
  ultimately show ?case by (simp add: ul_ok_def)
next
  case (tick l now h)
  then show ?case using udpConn_close_ok by (auto simp: idle_tick_def split: option.splits)
next
  case (listener_close l l')
  then show ?case using udp_listener_Close_ok by blast
qed

lemma ul_reach_ok: "ul_reach l \<Longrightarrow> ul_ok l"
proof (induction rule: ul_reach.induct)
  case start
  show ?case by (simp add: ul_ok_def heap_ok_def map_ok_def queue_ok_def ul_init_def queued_def)
next
  case (step l l')
  then show ?case using ul_step_ok by blast
qed

section \<open>Properties\<close>

text \<open>A run of the read loop over packets with their addresses.\<close>
fun read_packets :: "int \<Rightarrow> (string \<times> bytes) list \<Rightarrow> UDPListener \<Rightarrow> UDPListener step" where
  "read_packets now [] l = Stepped l"
| "read_packets now ((a, b) # ps) l =
     (case readUDP now a b l of Stepped l1 \<Rightarrow> read_packets now ps l1 | Blocked \<Rightarrow> Blocked | Panicked \<Rightarrow> Panicked)"

definition packets_of :: "string \<Rightarrow> (string \<times> bytes) list \<Rightarrow> bytes list" where
  "packets_of a ps = map snd (filter (\<lambda>p. fst p = a) ps)"

text \<open>What the connection of an address holds; nothing when there is none.\<close>
definition held :: "UDPListener \<Rightarrow> string \<Rightarrow> bytes list" where
  "held l a = (case Option.bind (ul_map l a) (ul_conns l) of None \<Rightarrow> [] | Some c \<Rightarrow> un_inbound c)"

lemma readUDP_held:
  assumes "ul_ok l" and "readUDP now a b l = Stepped l'"
  shows "held l' x = held l x @ (if x = a then [b] else []) \<and> ul_map l' a \<noteq> None \<and>
    (\<forall>y h. ul_map l y = Some h \<longrightarrow> ul_map l' y = Some h) \<and>
    (if ul_map l a = None then map_option un_remote (ul_conns l' (last (queued l'))) = Some a \<and> butlast (queued l') = queued l
     else queued l' = queued l)"
proof (cases "ul_map l a")
  case None
  have p: "ul_pending l = None" using assms(2) by (auto simp: readUDP_def split: if_splits)
  with None assms(2) readUDP_new have l': "l' = with_new now a b l" by fastforce
  have other: "h \<noteq> ul_next l" if "ul_map l y = Some h" for y h
    using map_okD [OF assms(1) that] by auto
  have "held l' x = held l x @ (if x = a then [b] else [])"
    using None other by (cases "ul_map l x") (auto simp: l' held_def new_udpConn_def split: option.splits)
  moreover have "\<forall>y h. ul_map l y = Some h \<longrightarrow> ul_map l' y = Some h" using None by (auto simp: l')
  ultimately show ?thesis using None queued_with_new [OF p, of now a b] by (simp add: l' new_udpConn_def)
next
  case (Some h)
  have "push_packet h b l = Stepped l'" using assms(2) Some by (auto simp: readUDP_def split: if_splits)
  then obtain c where c: "ul_conns l h = Some c" "l' = set_conn h (c\<lparr>un_inbound := un_inbound c @ [b]\<rparr>) l"
    by (auto simp: push_packet_def split: option.splits if_splits)
  have rem: "un_remote c = a" using map_okD [OF assms(1) Some] c(1) by auto
  have "held l' x = held l x @ (if x = a then [b] else [])"
  proof (cases "x = a")
    case True
    with Some c show ?thesis by (simp add: held_def)
  next
    case False
    have "ul_map l x \<noteq> Some h" using map_okD [OF assms(1), of x h] c(1) rem False by auto
    with False c show ?thesis by (cases "ul_map l x") (auto simp: held_def)
  qed
  with Some c show ?thesis by (simp add: queued_def)
qed

lemma read_packets_held:
  assumes "ul_ok l" and "read_packets now ps l = Stepped l'"
  shows "ul_ok l' \<and> (\<forall>a. held l' a = held l a @ packets_of a ps) \<and> (\<forall>a\<in>fst ` set ps. ul_map l' a \<noteq> None) \<and>
    (\<forall>y h. ul_map l y = Some h \<longrightarrow> ul_map l' y = Some h)"
  using assms
proof (induction ps arbitrary: l)
  case (Cons p ps)
  obtain a b where p: "p = (a, b)" by fastforce
  from Cons.prems(2) p obtain l1 where l1: "readUDP now a b l = Stepped l1" "read_packets now ps l1 = Stepped l'"
    by (auto split: step.splits)
  from readUDP_held [OF Cons.prems(1) l1(1)] have h: "\<And>x. held l1 x = held l x @ (if x = a then [b] else [])"
    "ul_map l1 a \<noteq> None" "\<And>y h. ul_map l y = Some h \<Longrightarrow> ul_map l1 y = Some h" by blast+
  from Cons.IH [OF readUDP_ok [OF Cons.prems(1) l1(1)] l1(2)] h p show ?case by (auto simp: packets_of_def)
qed (simp add: packets_of_def)

text \<open>C21. Packets of a shared socket are separated by address: in every reachable state of the listener that
  has no connection for an address yet, reading packets gives the connections exactly the packets
  of their own address, whole and in order, and connections that exist keep their identity.\<close>
theorem udp_listener_demultiplexes:
  assumes "ul_reach l" and "read_packets now ps l = Stepped l'"
  shows "(\<forall>a. held l' a = held l a @ packets_of a ps) \<and>
    (\<forall>a\<in>fst ` set ps. \<exists>h c. ul_map l' a = Some h \<and> ul_conns l' h = Some c \<and> un_remote c = a) \<and>
    (\<forall>a h. ul_map l a = Some h \<longrightarrow> ul_map l' a = Some h)"
proof -
  from read_packets_held [OF ul_reach_ok [OF assms(1)] assms(2)] have r: "ul_ok l'" "\<forall>a. held l' a = held l a @ packets_of a ps"
    "\<forall>a\<in>fst ` set ps. ul_map l' a \<noteq> None" "\<forall>y h. ul_map l y = Some h \<longrightarrow> ul_map l' y = Some h" by blast+
  have "\<exists>h c. ul_map l' a = Some h \<and> ul_conns l' h = Some c \<and> un_remote c = a" if "ul_map l' a \<noteq> None" for a
    using r(1) that by (auto simp: ul_ok_def map_ok_def)
  with r show ?thesis by blast
qed

theorem udp_listener_demultiplexes_witness:
  "\<exists>l'. read_packets 0 [(''a'', [1]), (''b'', [2]), (''a'', [3])] ul_init = Stepped l' \<and> held l' ''a'' = [[1], [3]] \<and> held l' ''b'' = [[2]]"
proof -
  have "\<exists>l'. read_packets 0 [(''a'', [1]), (''b'', [2]), (''a'', [3])] ul_init = Stepped l'"
    by (simp add: readUDP_def ul_init_def push_packet_def new_udpConn_def udp_chan_cap_def udp_inbound_cap_def Let_def)
  then obtain l' where l': "read_packets 0 [(''a'', [1]), (''b'', [2]), (''a'', [3])] ul_init = Stepped l'" by blast
  from udp_listener_demultiplexes [OF ul_reach.start l'] l' show ?thesis
    by (auto simp: packets_of_def held_def ul_init_def)
qed

text \<open>Closing races with receiving: the connection is found in the map until the second half of its
  closing, which needs the lock, so a packet that arrives in between is sent on a closed channel and
  panics the process. The idle timer closes this way by itself.\<close>
theorem udp_close_race_panics:
  assumes "ul_reach l" and "ul_map l a = Some h" and "ul_pending l = None"
  shows "\<exists>now. ul_step l (idle_tick now h l) \<and> readUDP now' a b (idle_tick now h l) = Panicked \<and>
    readUDP now' a b (udpConn_close h l) = Panicked"
proof -
  obtain c where c: "ul_conns l h = Some c" using ul_reach_ok [OF assms(1)] assms(2) by (auto simp: ul_ok_def map_ok_def)
  have p: "readUDP now' a b (udpConn_close h l) = Panicked"
    using assms(2,3) c by (simp add: udpConn_close_def readUDP_def push_packet_def)
  have "idle_tick (un_last c + 10000000001) h l = udpConn_close h l" using c by (simp add: idle_tick_def)
  with p ul_step.tick [of l "un_last c + 10000000001" h] show ?thesis by (intro exI [of _ "un_last c + 10000000001"]) simp
qed

theorem udp_close_race_panics_witness:
  "\<exists>l. ul_reach l \<and> readUDP 1 ''a'' [2] (udpConn_close 0 l) = Panicked"
proof -
  let ?l = "with_new 0 ''a'' [1] ul_init"
  have "readUDP 0 ''a'' [1] ul_init = Stepped ?l" by (rule readUDP_new) (simp_all add: ul_init_def)
  then have r: "ul_reach ?l" by (blast intro: ul_reach.intros ul_step.packet)
  have "ul_map ?l ''a'' = Some 0" "ul_pending ?l = None" by (simp_all add: ul_init_def with_new_def udp_chan_cap_def Let_def)
  from udp_close_race_panics [OF r this, of 1 "[2]"] r show ?thesis by blast
qed

text \<open>Deadlines outlive their removal: when the timer of a deadline runs out while nobody reads, removing the
  deadline does not take it back, and the next read is told that it is exceeded; setting a deadline
  in the past holds the lock until somebody reads, so that the next setting blocks.\<close>
theorem stale_deadline:
  assumes "\<not> dl_locked d" and "\<not> dl_closed d" and "now < t" and "t \<le> later"
  shows "(\<exists>d1 d2 d3. SetDeadline now (Some t) d = Stepped d1 \<and> dl_fire later d1 = Stepped d2 \<and>
      SetDeadline later None d2 = Stepped d3 \<and> (\<exists>d4. dl_receive d3 = Stepped (d4, True))) \<and>
    (\<exists>d1. SetDeadline later (Some t) d = Stepped d1 \<and> SetDeadline later' x d1 = Blocked)"
  using assms by (auto simp: SetDeadline_def dl_fire_def dl_receive_def)

end
