(* ===== verification/Tun.thy ===== *)
theory Tun
  imports Nic
begin

text \<open>
  The operating system's interface (\<open>vpn/nic/tun/tun.go\<close>): reads hand out the packets of a batch one
  by one. The device is the list of the batches it will read; a batch has at most as many packets as
  there are buffers. \<^const>\<open>None\<close> in a result is a panic, \<open>Inl\<close> an error of the device.
\<close>

text \<open>\<open>tu_bufs\<close> are the buffers with the valid part of each; \<open>tu_total\<close> is the index of the last
  packet of the batch, \<open>tu_read\<close> that of the packet handed out last.\<close>
record TUNIC =
  tu_dev :: "bytes list list"
  tu_bufs :: "bytes list"
  tu_total :: int
  tu_read :: int

definition tun_new :: "nat \<Rightarrow> bytes list list \<Rightarrow> TUNIC" where
  "tun_new batchSize dev = \<lparr>tu_dev = dev, tu_bufs = replicate batchSize [], tu_total = 0, tu_read = 0\<rparr>"

definition dev_read :: "bytes list \<Rightarrow> bytes list \<Rightarrow> bytes list" where
  "dev_read batch bufs = batch @ drop (length batch) bufs"

definition tun_Read :: "nat \<Rightarrow> Packet option \<Rightarrow> TUNIC \<Rightarrow> (TUNIC \<times> (unit + Packet)) option" where
  "tun_Read MTU pooled t =
     (if tu_read t < tu_total t then do {
        let r = tu_read t + 1;
        b \<leftarrow> lindex (tu_bufs t) (nat r);
        p \<leftarrow> GetPacket MTU pooled b;
        Some (t\<lparr>tu_read := r\<rparr>, Inr p) }
      else case tu_dev t of
        [] \<Rightarrow> Some (t, Inl ())
      | batch # rest \<Rightarrow> do {
          let bufs = dev_read batch (tu_bufs t);
          b \<leftarrow> lindex bufs 0;
          p \<leftarrow> GetPacket MTU pooled b;
          Some (t\<lparr>tu_dev := rest, tu_bufs := bufs, tu_total := int (length batch) - 1, tu_read := 0\<rparr>, Inr p) })"

text \<open>Writing hands the device the buffer from its start and the offset of the packet.\<close>
definition tun_Write :: "Packet \<Rightarrow> (bytes \<times> nat) option" where
  "tun_Write p = map_option (\<lambda>b. (b, IPPacketOffset)) (Bytes 0 p)"

text \<open>The reading loop of the VPN over \<open>n\<close> reads; every packet is read with some pooled one.\<close>
fun tun_reads :: "nat \<Rightarrow> Packet option list \<Rightarrow> TUNIC \<Rightarrow> (TUNIC \<times> bytes option list) option" where
  "tun_reads MTU [] t = Some (t, [])"
| "tun_reads MTU (q # qs) t =
     (case tun_Read MTU q t of
        None \<Rightarrow> None
      | Some (t1, Inl _) \<Rightarrow> Some (t1, [])
      | Some (t1, Inr p) \<Rightarrow> map_option (\<lambda>(t2, ps). (t2, AsBytes p # ps)) (tun_reads MTU qs t1))"

section \<open>Lemmas\<close>

text \<open>What is left of the batch.\<close>
definition tun_left :: "TUNIC \<Rightarrow> bytes list" where
  "tun_left t = take (nat (tu_total t - tu_read t)) (drop (nat (tu_read t) + 1) (tu_bufs t)) @ concat (tu_dev t)"

definition tun_ok :: "TUNIC \<Rightarrow> bool" where
  "tun_ok t \<longleftrightarrow> 0 \<le> tu_read t \<and> tu_read t \<le> tu_total t \<and> (tu_total t = 0 \<or> tu_total t < int (length (tu_bufs t))) \<and> [] \<notin> set (tu_dev t)"

definition pooled_ok :: "Packet option \<Rightarrow> bool" where
  "pooled_ok q \<longleftrightarrow> (case q of None \<Rightarrow> True | Some x \<Rightarrow> \<exists>p. packet_ok p \<and> x = pool_Put p)"

lemma GetPacket_pooled: "pooled_ok q \<Longrightarrow> \<exists>p. GetPacket MTU q b = Some p \<and> AsBytes p = Some b"
  using GetPacket_bytes [of q MTU b] by (auto simp: pooled_ok_def)

lemma tun_Read_step:
  assumes "tun_ok t" and "pooled_ok q"
  shows "(tun_left t = [] \<and> tun_Read MTU q t = Some (t, Inl ())) \<or>
    (\<exists>b t' p. tun_left t = b # tun_left t' \<and> tun_Read MTU q t = Some (t', Inr p) \<and> AsBytes p = Some b \<and> tun_ok t')"
proof (cases "tu_read t < tu_total t")
  case True
  let ?r = "nat (tu_read t + 1)" and ?t = "t\<lparr>tu_read := tu_read t + 1\<rparr>"
  have r: "?r < length (tu_bufs t)" "nat (tu_read t) + 1 = ?r" using True assms(1) by (auto simp: tun_ok_def)
  from GetPacket_pooled [OF assms(2)] obtain p where p: "GetPacket MTU q (tu_bufs t ! ?r) = Some p" "AsBytes p = Some (tu_bufs t ! ?r)" by blast
  have "nat (tu_total t - tu_read t) = Suc (nat (tu_total t - (tu_read t + 1)))" using True by simp
  then have "tun_left t = tu_bufs t ! ?r # tun_left ?t"
    unfolding tun_left_def r(2) by (simp add: Cons_nth_drop_Suc [OF r(1), symmetric])
  moreover have "tun_ok ?t" using True assms(1) by (auto simp: tun_ok_def)
  moreover have "tun_Read MTU q t = Some (?t, Inr p)" using True r(1) p(1) by (simp add: tun_Read_def lindex_def)
  ultimately show ?thesis using p(2) by blast
next
  case False
  then have e: "tu_read t = tu_total t" using assms(1) by (simp add: tun_ok_def)
  show ?thesis
  proof (cases "tu_dev t")
    case Nil
    with e show ?thesis by (simp add: tun_left_def tun_Read_def)
  next
    case (Cons batch rest)
    with assms(1) obtain b bs where b: "batch = b # bs" by (cases batch) (auto simp: tun_ok_def)
    from GetPacket_pooled [OF assms(2)] obtain p where p: "GetPacket MTU q b = Some p" "AsBytes p = Some b" by blast
    let ?t = "t\<lparr>tu_dev := rest, tu_bufs := dev_read batch (tu_bufs t), tu_total := int (length batch) - 1, tu_read := 0\<rparr>"
    have "tun_Read MTU q t = Some (?t, Inr p)"
      using False Cons b p(1) by (simp add: tun_Read_def lindex_def dev_read_def)
    moreover have "tun_left t = b # tun_left ?t" using e Cons b by (simp add: tun_left_def dev_read_def)
    moreover have "tun_ok ?t" using assms(1) Cons b by (auto simp: tun_ok_def dev_read_def)
    ultimately show ?thesis using p(2) by blast
  qed
qed

lemma tun_reads_left:
  assumes "tun_ok t" and "list_all pooled_ok qs"
  shows "\<exists>t'. tun_reads MTU qs t = Some (t', map Some (take (length qs) (tun_left t)))"
  using assms
proof (induction qs arbitrary: t)
  case (Cons q qs)
  from tun_Read_step [OF Cons.prems(1), of q MTU] Cons.prems(2) consider
    "tun_left t = []" "tun_Read MTU q t = Some (t, Inl ())"
    | b t' p where "tun_left t = b # tun_left t'" "tun_Read MTU q t = Some (t', Inr p)" "AsBytes p = Some b" "tun_ok t'" by auto
  then show ?case
  proof cases
    case 2
    with Cons.IH [of t'] Cons.prems(2) show ?thesis by auto
  qed simp
qed simp

section \<open>Properties\<close>

text \<open>Batches are handed out exactly: whatever the sizes of the batches of the device, none of them
  empty, and whatever the packets of the pool held before, the reads return the packets of the
  batches one by one, in order, none lost or repeated, until the device fails.\<close>
theorem tun_batches_in_order:
  assumes "[] \<notin> set batches" and "list_all pooled_ok qs"
  shows "\<exists>t. tun_reads MTU qs (tun_new k batches) = Some (t, map Some (take (length qs) (concat batches)))"
proof -
  have "tun_ok (tun_new k batches)" using assms(1) by (simp add: tun_ok_def tun_new_def)
  moreover have "tun_left (tun_new k batches) = concat batches" by (simp add: tun_left_def tun_new_def)
  ultimately show ?thesis using tun_reads_left [of "tun_new k batches" qs MTU] assms(2) by simp
qed

theorem tun_batches_in_order_witness:
  "\<exists>t. tun_reads 100 [None, None, None] (tun_new 2 [[[1], [2, 3]], [[4]]]) = Some (t, [Some [1], Some [2, 3], Some [4]])"
  using tun_batches_in_order [of "[[[1], [2, 3]], [[4]]]" "[None, None, None]" 100 2] by (simp add: pooled_ok_def)

end
