(* ===== verification/Upnp.thy ===== *)
theory Upnp
  imports Disco Net_Text
begin

text \<open>
  Port mapping through UPnP (\<open>upnp/upnp.go\<close>, \<open>disco/udp/upnp.go\<close>): the search for a gateway, the
  choice of its service, the SOAP requests, and the mapping of a port. HTTP, XML and the packets of
  the search are arguments; texts are ASCII, for which \<open>strings.ToLower\<close> and \<open>strings.TrimSpace\<close>
  work by character. \<^const>\<open>None\<close> is a panic.
\<close>

section \<open>Devices and services\<close>

record Service =
  sv_ServiceType :: string
  sv_ControlURL :: string

datatype Device = Device (dv_type: string) (dv_devices: "Device list") (dv_services: "Service list")

datatype upnp_error =
  HttpFailed | BadStatus nat | BadXml | NoInternetGatewayDevice | NoWANDevice | NoWANConnectionDevice | NoWANIPConnection
| NoLocalIP | SocketFailed | DiscoveryFailed | InvalidExternalIP | MappingFailed

definition getChildDevice :: "Device \<Rightarrow> string \<Rightarrow> Device option" where
  "getChildDevice d deviceType = find (\<lambda>x. str_contains (dv_type x) deviceType) (dv_devices d)"

definition getChildService :: "Device \<Rightarrow> string \<Rightarrow> Service option" where
  "getChildService d serviceType = find (\<lambda>x. str_contains (sv_ServiceType x) serviceType) (dv_services d)"

text \<open>The service of a device tree; some routers have it one level higher.\<close>
definition find_service :: "Device \<Rightarrow> upnp_error + Service" where
  "find_service a =
     (if \<not> str_contains (dv_type a) ''InternetGatewayDevice:1'' then Inl NoInternetGatewayDevice
      else case getChildDevice a ''WANDevice:1'' of
        None \<Rightarrow> Inl NoWANDevice
      | Some b \<Rightarrow>
          (case getChildDevice b ''WANConnectionDevice:1'' of
             None \<Rightarrow> Inl NoWANConnectionDevice
           | Some c \<Rightarrow>
               (case getChildService c ''WANIPConnection:1'' of
                  Some d \<Rightarrow> Inr d
                | None \<Rightarrow>
                    (case getChildService b ''WANIPConnection:1'' of
                       Some d \<Rightarrow> Inr d
                     | None \<Rightarrow> Inl NoWANIPConnection))))"

text \<open>Go's index of a text, \<open>-1\<close> when it does not occur.\<close>
definition go_index :: "string \<Rightarrow> string \<Rightarrow> int" where
  "go_index s p = (case str_index s p of None \<Rightarrow> - 1 | Some i \<Rightarrow> int i)"

definition combineURL :: "string \<Rightarrow> string \<Rightarrow> string option" where
  "combineURL rootURL subURL =
     (let protoEndIndex = go_index rootURL ''://''; k = nat (protoEndIndex + 3) in
      if length rootURL < k then None
      else let rootIndex = go_index (drop k rootURL) ''/'' in
        Some (take (nat (protoEndIndex + 3 + rootIndex)) rootURL @ subURL))"

text \<open>\<open>get\<close>: the status and the decoded body of the description.\<close>
definition getServiceURL :: "(string \<Rightarrow> (nat \<times> Device option) option) \<Rightarrow> string \<Rightarrow> (upnp_error + string \<times> string) option" where
  "getServiceURL get rootURL =
     (case get rootURL of
        None \<Rightarrow> Some (Inl HttpFailed)
      | Some (status, body) \<Rightarrow>
          if 400 \<le> status then Some (Inl (BadStatus status))
          else case body of
            None \<Rightarrow> Some (Inl BadXml)
          | Some root \<Rightarrow>
              (case find_service root of
                 Inl e \<Rightarrow> Some (Inl e)
               | Inr d \<Rightarrow> do {
                   urnDomain \<leftarrow> lindex (split_on (CHR '':'') (sv_ServiceType d)) 1;
                   url \<leftarrow> combineURL rootURL (sv_ControlURL d);
                   Some (Inr (url, urnDomain)) }))"

section \<open>Discovery\<close>

definition crlf :: string where "crlf = [CHR 0x0D, CHR 0x0A]"

definition lower :: "char \<Rightarrow> char" where
  "lower c = (let n = of_char c :: nat in if 65 \<le> n \<and> n \<le> 90 then char_of (n + 32) else c)"

definition is_space :: "char \<Rightarrow> bool" where
  "is_space c \<longleftrightarrow> (let n = of_char c :: nat in (9 \<le> n \<and> n \<le> 13) \<or> n = 32)"

definition TrimSpace :: "string \<Rightarrow> string" where
  "TrimSpace s = rev (dropWhile is_space (rev (dropWhile is_space s)))"

text \<open>The location that an answer of at most 1024 bytes names, if it is from a gateway.\<close>
definition parse_answer :: "string \<Rightarrow> string option" where
  "parse_answer packet =
     (let answer = take 1024 packet in
      if \<not> str_contains answer ''InternetGatewayDevice:1'' then None
      else do {
        let low = map lower answer;
        locIndex \<leftarrow> str_index low (crlf @ ''location:'');
        let loc = drop (locIndex + length (crlf @ ''location:'')) low;
        endIndex \<leftarrow> str_index loc crlf;
        Some (TrimSpace (take endIndex loc)) })"

text \<open>\<open>localIPv4\<close> over the addresses of the interfaces; one that is no network address is absent, and
  the listing of an interface can fail.\<close>
fun first_ipv4 :: "IP option list \<Rightarrow> IP option" where
  "first_ipv4 [] = None"
| "first_ipv4 (a # as) =
     (case Option.bind a To4 of
        Some v4 \<Rightarrow> if v4 ! 0 = 127 then first_ipv4 as else Some v4
      | None \<Rightarrow> first_ipv4 as)"

fun localIPv4 :: "IP option list option list \<Rightarrow> upnp_error + IP" where
  "localIPv4 [] = Inl NoLocalIP"
| "localIPv4 (t # ts) =
     (case t of
        None \<Rightarrow> Inl SocketFailed
      | Some aa \<Rightarrow> (case first_ipv4 aa of Some ip \<Rightarrow> Inr ip | None \<Rightarrow> localIPv4 ts))"

record UPnPNAT =
  serviceURL :: string
  ourIP :: IP
  urnDomain :: string

text \<open>One round of the search over the answers that arrive: \<^const>\<open>None\<close> inside is that no answer decided.\<close>
fun search_round :: "(string \<Rightarrow> (nat \<times> Device option) option) \<Rightarrow> IP option list option list \<Rightarrow> string list \<Rightarrow> (upnp_error + UPnPNAT) option option" where
  "search_round get ifs [] = Some None"
| "search_round get ifs (p # ps) =
     (case parse_answer p of
        None \<Rightarrow> search_round get ifs ps
      | Some locURL \<Rightarrow> do {
          r \<leftarrow> getServiceURL get locURL;
          Some (Some (case r of
            Inl e \<Rightarrow> Inl e
          | Inr (url, domain) \<Rightarrow>
              (case localIPv4 ifs of
                 Inl e \<Rightarrow> Inl e
               | Inr ip \<Rightarrow> Inr \<lparr>serviceURL = url, ourIP = ip, urnDomain = domain\<rparr>))) })"

text \<open>The three rounds: whether the search can be sent, and the answers until the read fails.\<close>
fun Discover :: "(string \<Rightarrow> (nat \<times> Device option) option) \<Rightarrow> IP option list option list \<Rightarrow> (bool \<times> string list) list \<Rightarrow> (upnp_error + UPnPNAT) option" where
  "Discover get ifs [] = Some (Inl DiscoveryFailed)"
| "Discover get ifs ((sent, answers) # rounds) =
     (if \<not> sent then Some (Inl SocketFailed)
      else do {
        r \<leftarrow> search_round get ifs answers;
        (case r of Some res \<Rightarrow> Some res | None \<Rightarrow> Discover get ifs rounds) })"

section \<open>Requests\<close>

record soap_request =
  sr_url :: string
  sr_action :: string
  sr_body :: string

definition soap_message :: "string \<Rightarrow> string" where
  "soap_message message =
     ''<?xml version=\"1.0\" ?>'' @
     ''<s:Envelope xmlns:s=\"http://schemas.xmlsoap.org/soap/envelope/\" s:encodingStyle=\"http://schemas.xmlsoap.org/soap/encoding/\">'' @ crlf @
     ''<s:Body>'' @ message @ ''</s:Body></s:Envelope>''"

definition soap_req :: "string \<Rightarrow> string \<Rightarrow> string \<Rightarrow> string \<Rightarrow> soap_request" where
  "soap_req url function message domain =
     \<lparr>sr_url = url, sr_action = ''\"urn:'' @ domain @ '':service:WANIPConnection:1#'' @ function @ ''\"'', sr_body = soap_message message\<rparr>"

text \<open>\<open>http\<close>: the status and the body of the answer.\<close>
definition soapRequest :: "(soap_request \<Rightarrow> (nat \<times> string) option) \<Rightarrow> string \<Rightarrow> string \<Rightarrow> string \<Rightarrow> string \<Rightarrow> upnp_error + string" where
  "soapRequest http url function message domain =
     (case http (soap_req url function message domain) of
        None \<Rightarrow> Inl HttpFailed
      | Some (status, body) \<Rightarrow> if 400 \<le> status then Inl (BadStatus status) else Inr body)"

definition element :: "UPnPNAT \<Rightarrow> string \<Rightarrow> string \<Rightarrow> string" where
  "element n function args =
     ''<u:'' @ function @ '' xmlns:u=\"urn:'' @ urnDomain n @ '':service:WANIPConnection:1\">'' @ crlf @ args @ ''</u:'' @ function @ ''>''"

text \<open>\<open>unxml\<close>: the address in the decoded envelope; \<^const>\<open>None\<close> when a part is missing, whose
  pointer is nil.\<close>
definition GetExternalAddress :: "(soap_request \<Rightarrow> (nat \<times> string) option) \<Rightarrow> (string \<Rightarrow> string option) \<Rightarrow> (string \<Rightarrow> IP option) \<Rightarrow> UPnPNAT
    \<Rightarrow> (upnp_error + IP) option" where
  "GetExternalAddress http unxml parse_ip n =
     (case soapRequest http (serviceURL n) ''GetExternalIPAddress'' (element n ''GetExternalIPAddress'' '''') (urnDomain n) of
        Inl e \<Rightarrow> Some (Inl e)
      | Inr body \<Rightarrow>
          (case unxml body of
             None \<Rightarrow> None
           | Some text \<Rightarrow> Some (Inr (case parse_ip text of None \<Rightarrow> [] | Some ip \<Rightarrow> ip))))"

definition add_args :: "(IP \<Rightarrow> string) \<Rightarrow> UPnPNAT \<Rightarrow> string \<Rightarrow> nat \<Rightarrow> nat \<Rightarrow> string \<Rightarrow> nat \<Rightarrow> string" where
  "add_args ip_str n protocol externalPort internalPort description timeout =
     ''<NewRemoteHost></NewRemoteHost><NewExternalPort>'' @ Itoa externalPort @ ''</NewExternalPort><NewProtocol>'' @ protocol @ ''</NewProtocol>'' @
     ''<NewInternalPort>'' @ Itoa internalPort @ ''</NewInternalPort>'' @ ''<NewInternalClient>'' @ ip_str (ourIP n) @ ''</NewInternalClient>'' @
     ''<NewEnabled>1</NewEnabled><NewPortMappingDescription>'' @ description @ ''</NewPortMappingDescription><NewLeaseDuration>'' @ Itoa timeout @
     ''</NewLeaseDuration>''"

definition add_request :: "(IP \<Rightarrow> string) \<Rightarrow> UPnPNAT \<Rightarrow> string \<Rightarrow> nat \<Rightarrow> nat \<Rightarrow> string \<Rightarrow> nat \<Rightarrow> soap_request" where
  "add_request ip_str n protocol externalPort internalPort description timeout =
     soap_req (serviceURL n) ''AddPortMapping''
       (element n ''AddPortMapping'' (add_args ip_str n protocol externalPort internalPort description timeout)) (urnDomain n)"

definition AddPortMapping :: "(soap_request \<Rightarrow> (nat \<times> string) option) \<Rightarrow> (IP \<Rightarrow> string) \<Rightarrow> UPnPNAT \<Rightarrow> string \<Rightarrow> nat \<Rightarrow> nat \<Rightarrow> string \<Rightarrow> nat \<Rightarrow> upnp_error + nat" where
  "AddPortMapping http ip_str n protocol externalPort internalPort description timeout =
     (case soapRequest http (serviceURL n) ''AddPortMapping''
         (element n ''AddPortMapping'' (add_args ip_str n protocol externalPort internalPort description timeout)) (urnDomain n) of
        Inl e \<Rightarrow> Inl e
      | Inr _ \<Rightarrow> Inr externalPort)"

definition delete_request :: "UPnPNAT \<Rightarrow> string \<Rightarrow> nat \<Rightarrow> soap_request" where
  "delete_request n protocol externalPort =
     soap_req (serviceURL n) ''DeletePortMapping''
       (element n ''DeletePortMapping'' (''<NewRemoteHost></NewRemoteHost><NewExternalPort>'' @ Itoa externalPort @
          ''</NewExternalPort><NewProtocol>'' @ protocol @ ''</NewProtocol>'')) (urnDomain n)"

section \<open>Mapping\<close>

text \<open>The closure that deletes the mapping: its gateway and port.\<close>
type_synonym upnpPortMapping = "(UPnPNAT \<times> nat) option"

text \<open>The loop over the ports; the last argument is the number of attempts left.\<close>
fun map_port :: "(soap_request \<Rightarrow> (nat \<times> string) option) \<Rightarrow> (IP \<Rightarrow> string) \<Rightarrow> UPnPNAT \<Rightarrow> nat \<Rightarrow> nat \<Rightarrow> nat \<Rightarrow> nat option" where
  "map_port http ip_str n udpPort i 0 = None"
| "map_port http ip_str n udpPort i (Suc k) =
     (case AddPortMapping http ip_str n ''udp'' (udpPort + i) udpPort ''peerguard'' (24 * 3600) of
        Inl _ \<Rightarrow> map_port http ip_str n udpPort (i + 1) k
      | Inr mappedPort \<Rightarrow> Some mappedPort)"

definition mappingAddress :: "(upnp_error + UPnPNAT) \<Rightarrow> (soap_request \<Rightarrow> (nat \<times> string) option) \<Rightarrow> (string \<Rightarrow> string option) \<Rightarrow> (string \<Rightarrow> IP option)
    \<Rightarrow> (IP \<Rightarrow> string) \<Rightarrow> nat \<Rightarrow> upnpPortMapping \<Rightarrow> (upnpPortMapping \<times> (upnp_error + UDPAddr)) option" where
  "mappingAddress discovered http unxml parse_ip ip_str udpPort m =
     (case discovered of
        Inl e \<Rightarrow> Some (m, Inl e)
      | Inr nat_dev \<Rightarrow> do {
          ext \<leftarrow> GetExternalAddress http unxml parse_ip nat_dev;
          (case ext of
             Inl e \<Rightarrow> Some (m, Inl e)
           | Inr externalIP \<Rightarrow>
               if IsUnspecified externalIP then Some (m, Inl InvalidExternalIP)
               else case map_port http ip_str nat_dev udpPort 0 20 of
                 None \<Rightarrow> Some (m, Inl MappingFailed)
               | Some p \<Rightarrow> Some (Some (nat_dev, p), Inr \<lparr>ua_ip = externalIP, ua_port = int p\<rparr>)) })"

text \<open>\<open>close\<close>: the request that deletes the mapping, if there is one.\<close>
definition mapping_close :: "upnpPortMapping \<Rightarrow> soap_request list" where
  "mapping_close m = (case m of None \<Rightarrow> [] | Some (n, p) \<Rightarrow> [delete_request n ''udp'' p])"

section \<open>Lemmas\<close>

lemma find_Some_P: "find P xs = Some x \<Longrightarrow> P x \<and> x \<in> set xs"
  by (induction xs) (auto split: if_splits)

lemma find_service_type: "find_service root = Inr s \<Longrightarrow> str_contains (sv_ServiceType s) ''WANIPConnection:1''"
  by (auto simp: find_service_def getChildService_def split: if_splits option.splits dest!: find_Some_P)

lemma length_split_on: "length (split_on c s) = Suc (length (filter (\<lambda>x. x = c) s))"
  by (induction s) (auto split: list.splits)

lemma go_index_first: "c \<notin> set a \<Longrightarrow> go_index (a @ c # q @ r) (c # q) = int (length a)"
  by (simp add: go_index_def)

lemma combineURL_path:
  assumes "CHR '':'' \<notin> set scheme" and "CHR ''/'' \<notin> set host"
  shows "combineURL (scheme @ ''://'' @ host @ ''/'' @ path) sub = Some (scheme @ ''://'' @ host @ sub)"
proof -
  have "go_index (scheme @ ''://'' @ host @ ''/'' @ path) ''://'' = int (length scheme)"
    using go_index_first [OF assms(1), of "''//''" "host @ ''/'' @ path"] by simp
  moreover have "go_index (host @ ''/'' @ path) ''/'' = int (length host)"
    using go_index_first [OF assms(2), of "[]" path] by simp
  ultimately show ?thesis by (simp add: combineURL_def Let_def nat_add_distrib numeral_3_eq_3)
qed

lemma combineURL_no_path:
  assumes "CHR '':'' \<notin> set scheme" and "CHR ''/'' \<notin> set host"
  shows "combineURL (scheme @ ''://'' @ host) sub = Some (scheme @ '':/'' @ sub)"
proof -
  have "go_index (scheme @ ''://'' @ host) ''://'' = int (length scheme)"
    using go_index_first [OF assms(1), of "''//''" host] by simp
  moreover have "go_index host ''/'' = - 1"
    using str_index_absent [OF assms(2), of "[]"] by (simp add: go_index_def)
  ultimately show ?thesis by (simp add: combineURL_def Let_def nat_add_distrib)
qed

lemma lower_not_upper: "\<not> (65 \<le> (of_char (lower c) :: nat) \<and> (of_char (lower c) :: nat) \<le> 90)"
  by (auto simp: lower_def Let_def)

lemma set_TrimSpace: "set (TrimSpace s) \<subseteq> set s"
  unfolding TrimSpace_def by (auto dest!: set_dropWhileD)

lemma map_port_first:
  assumes "\<And>p. ok p \<longleftrightarrow> (\<exists>r. AddPortMapping http ip_str n ''udp'' p udpPort ''peerguard'' (24 * 3600) = Inr r)"
  shows "if \<exists>j < k. ok (udpPort + i + j)
    then \<exists>j < k. ok (udpPort + i + j) \<and> (\<forall>l < j. \<not> ok (udpPort + i + l)) \<and> map_port http ip_str n udpPort i k = Some (udpPort + i + j)
    else map_port http ip_str n udpPort i k = None"
proof (induction k arbitrary: i)
  case (Suc k)
  let ?A = "AddPortMapping http ip_str n ''udp'' (udpPort + i) udpPort ''peerguard'' (24 * 3600)"
  show ?case
  proof (cases "ok (udpPort + i)")
    case True
    then obtain r where r: "?A = Inr r" using assms by blast
    then have "r = udpPort + i" by (auto simp: AddPortMapping_def split: sum.splits)
    with True r show ?thesis by (auto intro!: exI [of _ 0])
  next
    case False
    then obtain e where "?A = Inl e" using assms by (cases ?A) blast+
    then have m: "map_port http ip_str n udpPort i (Suc k) = map_port http ip_str n udpPort (i + 1) k" by simp
    have ex: "(\<exists>j < Suc k. ok (udpPort + i + j)) \<longleftrightarrow> (\<exists>j < k. ok (udpPort + (i + 1) + j))"
      using False by (auto simp: Ex_less_Suc2)
    show ?thesis
    proof (cases "\<exists>j < k. ok (udpPort + (i + 1) + j)")
      case True
      with Suc.IH [of "i + 1"] obtain j where j: "j < k" "ok (udpPort + i + Suc j)" "\<forall>l < j. \<not> ok (udpPort + i + Suc l)"
        "map_port http ip_str n udpPort (i + 1) k = Some (udpPort + i + Suc j)" by auto
      with False have "\<forall>l < Suc j. \<not> ok (udpPort + i + l)" by (simp add: All_less_Suc2)
      with j m ex True show ?thesis by (auto intro!: exI [of _ "Suc j"])
    next
      case False
      with Suc.IH [of "i + 1"] m ex show ?thesis by auto
    qed
  qed
qed simp

section \<open>Properties\<close>

text \<open>The control URL of a gateway: from every description whose tree has the service, the answer is
  the host of the description with the path of the service, and the domain is the second field of
  the service type; picking that field never panics.\<close>
theorem upnp_service_url:
  assumes "find_service root = Inr s" and "CHR '':'' \<notin> set scheme" and "CHR ''/'' \<notin> set host"
    and "get (scheme @ ''://'' @ host @ ''/'' @ path) = Some (200, Some root)"
  shows "\<exists>a domain rest. split_on (CHR '':'') (sv_ServiceType s) = a # domain # rest \<and>
    getServiceURL get (scheme @ ''://'' @ host @ ''/'' @ path) = Some (Inr (scheme @ ''://'' @ host @ sv_ControlURL s, domain))"
proof -
  obtain a r where "sv_ServiceType s = a @ ''WANIPConnection:1'' @ r"
    using find_service_type [OF assms(1)] by (auto simp: str_contains_iff)
  then have "2 \<le> length (split_on (CHR '':'') (sv_ServiceType s))" by (simp add: length_split_on)
  then obtain x domain rest where d: "split_on (CHR '':'') (sv_ServiceType s) = x # domain # rest"
    by (auto simp: numeral_2_eq_2 Suc_le_length_iff)
  with assms combineURL_path [OF assms(2,3), of path "sv_ControlURL s"] show ?thesis
    by (simp add: getServiceURL_def lindex_def)
qed

theorem upnp_service_url_witness:
  "getServiceURL (\<lambda>_. Some (200, Some (Device ''InternetGatewayDevice:1'' [Device ''WANDevice:1'' [Device ''WANConnectionDevice:1'' []
      [\<lparr>sv_ServiceType = ''urn:dom:service:WANIPConnection:1'', sv_ControlURL = ''/ctl''\<rparr>]] []] []))) ''http://h/d''
    = Some (Inr (''http://h/ctl'', ''dom''))"
proof -
  let ?s = "\<lparr>sv_ServiceType = ''urn:dom:service:WANIPConnection:1'', sv_ControlURL = ''/ctl''\<rparr>"
  let ?root = "Device ''InternetGatewayDevice:1'' [Device ''WANDevice:1'' [Device ''WANConnectionDevice:1'' [] [?s]] []] []"
  have "find_service ?root = Inr ?s" by code_simp
  from upnp_service_url [OF this, of "''http''" "''h''" "\<lambda>_. Some (200, Some ?root)" "''d''"] show ?thesis by simp
qed

text \<open>Descriptions that are lost: a location that names only a host loses it in the control URL, and
  the location of an answer is read from the lowered text, so that upper-case letters of its path
  are not requested.\<close>
theorem upnp_location_damaged:
  "(CHR '':'' \<notin> set scheme \<and> CHR ''/'' \<notin> set host \<longrightarrow> combineURL (scheme @ ''://'' @ host) sub = Some (scheme @ '':/'' @ sub)) \<and>
   (parse_answer packet = Some loc \<longrightarrow> (\<forall>c \<in> set loc. \<not> (65 \<le> (of_char c :: nat) \<and> (of_char c :: nat) \<le> 90)))"
proof (intro conjI impI)
  assume "parse_answer packet = Some loc"
  then obtain i j where "loc = TrimSpace (take j (drop i (map lower (take 1024 packet))))"
    by (auto simp: parse_answer_def Let_def split: if_splits bind_splits)
  then have "set loc \<subseteq> lower ` set (take 1024 packet)"
    using set_TrimSpace [of "take j (drop i (map lower (take 1024 packet)))"] by (fastforce dest: in_set_takeD in_set_dropD)
  then show "\<forall>c \<in> set loc. \<not> (65 \<le> (of_char c :: nat) \<and> (of_char c :: nat) \<le> 90)"
    using lower_not_upper by blast
qed (use combineURL_no_path in blast)

theorem upnp_location_damaged_witness:
  "combineURL ''http://h'' ''/ctl'' = Some ''http://ctl'' \<and>
   (\<exists>loc. parse_answer (''InternetGatewayDevice:1'' @ crlf @ ''LOCATION: http://h/D'' @ crlf) = Some loc \<and> CHR ''D'' \<notin> set loc)"
proof -
  have "parse_answer (''InternetGatewayDevice:1'' @ crlf @ ''LOCATION: http://h/D'' @ crlf) \<noteq> None" by code_simp
  then obtain loc where l: "parse_answer (''InternetGatewayDevice:1'' @ crlf @ ''LOCATION: http://h/D'' @ crlf) = Some loc" by blast
  note p = upnp_location_damaged [of "''http''" "''h''" "''/ctl''" "''InternetGatewayDevice:1'' @ crlf @ ''LOCATION: http://h/D'' @ crlf" loc]
  from conjunct2 [OF p, THEN mp, OF l] have "CHR ''D'' \<notin> set loc" by auto
  with l conjunct1 [OF p] show ?thesis by simp
qed

text \<open>The mapped port: a mapping is the lowest of the twenty ports from the local one on that the
  gateway accepts, it fails only when the gateway refuses all of them, and closing deletes exactly
  the port that was mapped.\<close>
theorem upnp_maps_lowest_port:
  assumes "mappingAddress (Inr n) http unxml parse_ip ip_str udpPort m = Some (m', r)"
    and "GetExternalAddress http unxml parse_ip n = Some (Inr ip)" and "\<not> IsUnspecified ip"
  shows "let ok = (\<lambda>p. \<exists>s b. http (add_request ip_str n ''udp'' p udpPort ''peerguard'' 86400) = Some (s, b) \<and> s < 400) in
    if \<exists>i < 20. ok (udpPort + i)
    then \<exists>i < 20. ok (udpPort + i) \<and> (\<forall>j < i. \<not> ok (udpPort + j)) \<and> r = Inr \<lparr>ua_ip = ip, ua_port = int (udpPort + i)\<rparr> \<and>
      mapping_close m' = [delete_request n ''udp'' (udpPort + i)]
    else r = Inl MappingFailed \<and> m' = m"
proof -
  let ?ok = "\<lambda>p. \<exists>s b. http (add_request ip_str n ''udp'' p udpPort ''peerguard'' 86400) = Some (s, b) \<and> s < 400"
  have ok: "(\<exists>x. AddPortMapping http ip_str n ''udp'' p udpPort ''peerguard'' (24 * 3600) = Inr x) \<longleftrightarrow> ?ok p" for p
    by (auto simp: AddPortMapping_def soapRequest_def add_request_def split: option.splits prod.splits)
  have r: "(m', r) = (case map_port http ip_str n udpPort 0 20 of None \<Rightarrow> (m, Inl MappingFailed)
      | Some p \<Rightarrow> (Some (n, p), Inr \<lparr>ua_ip = ip, ua_port = int p\<rparr>))"
    using assms by (simp add: mappingAddress_def split: option.splits)
  note port = map_port_first [of ?ok http ip_str n udpPort 20 0, OF ok [symmetric], unfolded add_0_right]
  show ?thesis
  proof (cases "\<exists>i < 20. ?ok (udpPort + i)")
    case True
    with port obtain i where i: "i < 20" "?ok (udpPort + i)" "\<forall>j < i. \<not> ?ok (udpPort + j)" "map_port http ip_str n udpPort 0 20 = Some (udpPort + i)"
      by (auto simp del: map_port.simps)
    with r have "r = Inr \<lparr>ua_ip = ip, ua_port = int (udpPort + i)\<rparr>" "mapping_close m' = [delete_request n ''udp'' (udpPort + i)]"
      by (simp_all add: mapping_close_def)
    with i True show ?thesis unfolding Let_def by (metis (no_types, lifting))
  next
    case False
    with port have "map_port http ip_str n udpPort 0 20 = None" by argo
    with r False show ?thesis by (simp add: Let_def)
  qed
qed

text \<open>A gateway that grants the second port.\<close>
definition demo_gateway :: UPnPNAT where
  "demo_gateway = \<lparr>serviceURL = ''u'', ourIP = [10, 0, 0, 2], urnDomain = ''d''\<rparr>"

definition demo_http :: "soap_request \<Rightarrow> (nat \<times> string) option" where
  "demo_http q = Some (if q = add_request (\<lambda>_. ''i'') demo_gateway ''udp'' 7 7 ''peerguard'' 86400 then 500 else 200, '''')"

theorem upnp_maps_lowest_port_witness:
  "\<exists>i < 20. \<exists>m'. mappingAddress (Inr demo_gateway) demo_http (\<lambda>_. Some '''') (\<lambda>_. Some [1, 2, 3, 4]) (\<lambda>_. ''i'') 7 None =
    Some (m', Inr \<lparr>ua_ip = [1, 2, 3, 4], ua_port = int (7 + i)\<rparr>) \<and> mapping_close m' = [delete_request demo_gateway ''udp'' (7 + i)]"
proof -
  have e: "GetExternalAddress demo_http (\<lambda>_. Some '''') (\<lambda>_. Some [1, 2, 3, 4]) demo_gateway = Some (Inr [1, 2, 3, 4])"
    by (simp add: GetExternalAddress_def soapRequest_def demo_http_def soap_req_def add_request_def)
  have u: "\<not> IsUnspecified [1, 2, 3, 4]" by code_simp
  obtain m' r where m: "mappingAddress (Inr demo_gateway) demo_http (\<lambda>_. Some '''') (\<lambda>_. Some [1, 2, 3, 4]) (\<lambda>_. ''i'') 7 None = Some (m', r)"
    using e u by (cases "map_port demo_http (\<lambda>_. ''i'') demo_gateway 7 0 20") (auto simp: mappingAddress_def)
  have "demo_http (add_request (\<lambda>_. ''i'') demo_gateway ''udp'' (7 + 1) 7 ''peerguard'' 86400) = Some (200, '''')"
    by (simp add: demo_http_def add_request_def element_def add_args_def soap_req_def soap_message_def Itoa.simps digit_char_simps)
  then have "\<exists>i < 20. \<exists>s b. demo_http (add_request (\<lambda>_. ''i'') demo_gateway ''udp'' (7 + i) 7 ''peerguard'' 86400) = Some (s, b) \<and> s < 400"
    by (intro exI [of _ 1]) simp
  with upnp_maps_lowest_port [OF m e u] m show ?thesis by (auto simp: Let_def)
qed

end
